(* ===== verification/Prelude.thy ===== *)
theory Prelude
  imports Main "HOL-Library.Word"
begin

text \<open>
  The vocabulary every component of the development shares: the machine
  integers of the engine (\<^verbatim>\<open>src/src/common/int.h\<close>), the way an operation that can
  throw answers, and the generic list, option and word facts the component
  proofs rest on.
\<close>

unbundle bit_operations_syntax

section \<open>Machine integers\<close>

type_synonym byte = "8 word"
type_synonym uint16 = "16 word"
type_synonym uint32 = "32 word"
type_synonym uint64 = "64 word"

text \<open>Evaluation of closed word terms, collected so that a proof can ask for it by name.\<close>

named_theorems word_eval

section \<open>Operations that can fail\<close>

text \<open>
  \<^verbatim>\<open>love::Exception\<close> carries a formatted text. Undefined behaviour of C++ (a
  write past the end of a heap block, a use after free) is a result of its own:
  the model never gives it a harmless value.
\<close>

datatype love_error = Exception string | Undefined_behaviour string

type_synonym 'a result = "love_error + 'a"

definition bind_result :: "'a result \<Rightarrow> ('a \<Rightarrow> 'b result) \<Rightarrow> 'b result" where
  "bind_result r k = (case r of Inl e \<Rightarrow> Inl e | Inr x \<Rightarrow> k x)"

lemma bind_result_simps [simp]:
  "bind_result (Inl e) k = Inl e"
  "bind_result (Inr x) k = k x"
  by (simp_all add: bind_result_def)

text \<open>Whether \<^verbatim>\<open>operator new[]\<close> can serve a request of that many elements.\<close>

type_synonym allocator = "nat \<Rightarrow> bool"

definition out_of_memory :: "love_error" where
  "out_of_memory = Exception ''Out of memory.''"

section \<open>Signed arithmetic\<close>

text \<open>A 32-bit \<^verbatim>\<open>int\<close>, whose overflow is undefined behaviour.\<close>

definition in_int :: "int \<Rightarrow> bool" where
  "in_int i \<longleftrightarrow> - (2 ^ 31) \<le> i \<and> i < 2 ^ 31"

definition int_op :: "int \<Rightarrow> int result" where
  "int_op i = (if in_int i then Inr i else Inl (Undefined_behaviour ''signed overflow''))"

lemma int_op_ok [simp]: "in_int i \<Longrightarrow> int_op i = Inr i"
  by (simp add: int_op_def)

section \<open>Bytes and characters\<close>

text \<open>A word in memory has its lowest byte first.\<close>

definition bytes16 :: "uint16 \<Rightarrow> byte list" where
  "bytes16 w = [ucast w, ucast (drop_bit 8 w)]"

definition word16 :: "byte list \<Rightarrow> uint16" where
  "word16 bs = ucast (bs ! 0) OR push_bit 8 (ucast (bs ! 1))"


definition byte_of_char :: "char \<Rightarrow> byte" where
  "byte_of_char c = of_char c"

definition bytes_of :: "string \<Rightarrow> byte list" where
  "bytes_of s = map byte_of_char s"

lemma length_bytes_of [simp]: "length (bytes_of s) = length s"
  by (simp add: bytes_of_def)

text \<open>What a \<^verbatim>\<open>const char *\<close> reads of a text: everything before the first NUL.\<close>

definition c_string :: "string \<Rightarrow> string" where
  "c_string s = takeWhile (\<lambda>c. c \<noteq> CHR 0x00) s"

section \<open>Numbers as text\<close>

function decimal :: "nat \<Rightarrow> string" where
  "decimal n = (if n < 10 then [char_of (48 + n)] else decimal (n div 10) @ [char_of (48 + n mod 10)])"
  by pat_completeness auto
termination
  by (relation "measure id") auto

declare decimal.simps [simp del]

definition decimal_int :: "int \<Rightarrow> string" where
  "decimal_int i = (if i < 0 then CHR ''-'' # decimal (nat (- i)) else decimal (nat i))"

section \<open>Lists read in blocks\<close>

lemma drop_shorter [simp]: "xs \<noteq> [] \<Longrightarrow> 0 < n \<Longrightarrow> length (drop n xs) < length xs"
  by (cases xs) auto

section \<open>Words\<close>

lemma all_lt_Suc: "(\<forall>i<Suc n. P i) \<longleftrightarrow> (\<forall>i<n. P i) \<and> P n"
  by (auto simp: less_Suc_eq)

lemma word_lt_cases:
  fixes w :: "'a::len word"
  assumes "unat w < n"
  obtains i where "i < n" "w = of_nat i"
  using assms that [of "unat w"] by simp

lemma unat_of_nat_small: "n < 2 ^ LENGTH('a::len) \<Longrightarrow> unat (of_nat n :: 'a word) = n"
  by (simp add: unat_of_nat)

text \<open>A byte is its eight bits.\<close>

lemma byte_bits: "(\<And>n. n \<in> {0, 1, 2, 3, 4, 5, 6, 7} \<Longrightarrow> bit (a :: byte) n = bit b n) \<Longrightarrow> a = b"
  by (rule bit_word_eqI) (auto simp: less_Suc_eq numeral_eq_Suc)

lemma byte_bit_high [simp]: "8 \<le> n \<Longrightarrow> \<not> bit (a :: byte) n"
  by (auto dest: bit_imp_le_length)

lemma bytes16_word16: "bytes16 (word16 [a, b]) = [a, b]"
proof -
  have "ucast (word16 [a, b]) = a"
    by (rule bit_word_eqI) (auto simp: word16_def bit_simps)
  moreover have "ucast (drop_bit 8 (word16 [a, b])) = b"
    by (rule bit_word_eqI) (auto simp: word16_def bit_simps)
  ultimately show ?thesis
    by (simp add: bytes16_def)
qed

end
