(* ===== verification/Base64.thy ===== *)
theory Base64
  imports Prelude
begin

text \<open>
  Base64 as \<^verbatim>\<open>src/src/common/b64.cpp\<close> writes and reads it. The encoder works over
  the remaining source bytes and appends to the destination, which holds at
  most \<open>dstlen\<close> characters; the decoder keeps the four-cell input block and the
  source position of the code. \<open>past\<close> is the byte one past the end of the source
  buffer, which the decoder's loops do read.
\<close>

section \<open>The model\<close>

definition cb64 :: "byte list" where
  "cb64 = bytes_of ''ABCDEFGHIJKLMNOPQRSTUVWXYZabcdefghijklmnopqrstuvwxyz0123456789+/''"

definition cd64 :: "byte list" where
  "cd64 = bytes_of (''|$$$}rstuvwxyz{$$$$$$$>?@ABCDEFGHIJKLMNOPQRSTUVW$$$$$$XYZ['' @ [CHR 0x5C] @
      '']^_'' @ [CHR 0x60] @ ''abcdefghijklmnopq'')"

definition b64_encode_block :: "byte \<Rightarrow> byte \<Rightarrow> byte \<Rightarrow> nat \<Rightarrow> byte list" where
  "b64_encode_block in0 in1 in2 len =
     [cb64 ! unat (drop_bit 2 (in0 AND 0xfc)),
      cb64 ! unat (push_bit 4 (in0 AND 0x03) OR drop_bit 4 (in1 AND 0xf0)),
      (if len > 1 then cb64 ! unat (push_bit 2 (in1 AND 0x0f) OR drop_bit 6 (in2 AND 0xc0)) else 61),
      (if len > 2 then cb64 ! unat (in2 AND 0x3f) else 61)]"

text \<open>
  One turn of the \<^verbatim>\<open>while (srcpos < srclen)\<close> loop takes up to three bytes (missing
  ones are the zeros \<^verbatim>\<open>in\<close> was initialised with), writes as many of the four
  characters as the destination still has room for, and ends a line when the
  line is full or the source is at its end.
\<close>

function b64_encode_loop :: "nat \<Rightarrow> nat \<Rightarrow> byte list \<Rightarrow> nat \<Rightarrow> byte list \<Rightarrow> byte list" where
  "b64_encode_loop linelen dstlen src blocksout dst =
     (if src = [] then dst
      else
        let blk = take 3 src; src' = drop 3 src; len = length blk;
            out = b64_encode_block (blk ! 0) (if len > 1 then blk ! 1 else 0)
                    (if len > 2 then blk ! 2 else 0) len;
            dst = dst @ take (dstlen - length dst) out;
            blocksout = blocksout + 1
        in if blocksout \<ge> linelen div 4 \<or> src' = []
           then b64_encode_loop linelen dstlen src' 0
                  (if blocksout > 0 \<and> length dst < dstlen then dst @ [10] else dst)
           else b64_encode_loop linelen dstlen src' blocksout dst)"
  by pat_completeness auto
termination
  by (relation "measure (\<lambda>(l, d, src, b, dst). length src)") auto

declare b64_encode_loop.simps [simp del]

text \<open>
  The result is the buffer as far as it was written (none for \<^verbatim>\<open>nullptr\<close>), with the
  out parameter \<^verbatim>\<open>dstlen\<close>.
\<close>

definition SIZE_MAX :: "nat" where
  "SIZE_MAX = 2 ^ 64 - 1"

definition b64_encode :: "allocator \<Rightarrow> byte list \<Rightarrow> nat \<Rightarrow> (byte list option \<times> nat) result" where
  "b64_encode new_ok src linelen0 =
     (let linelen = (if linelen0 = 0 then SIZE_MAX else linelen0);
          srclen = length src;
          adjustment = (if srclen mod 3 \<noteq> 0 then 3 - srclen mod 3 else 0);
          paddedlen = ((srclen + adjustment) div 3) * 4;
          dstlen = paddedlen + paddedlen div linelen
      in if dstlen = 0 then Inr (None, dstlen)
         else if \<not> new_ok (dstlen + 1) then Inl out_of_memory
         else Inr (Some (b64_encode_loop linelen dstlen src 0 []), dstlen))"

definition b64_decode_block :: "byte list \<Rightarrow> byte list" where
  "b64_decode_block inb =
     [push_bit 2 (inb ! 0) OR drop_bit 4 (inb ! 1),
      push_bit 4 (inb ! 1) OR drop_bit 2 (inb ! 2),
      (push_bit 6 (inb ! 2) AND 0xc0) OR inb ! 3]"

text \<open>The value of one source character: 0 for one that carries none.\<close>

definition b64_value :: "byte \<Rightarrow> byte" where
  "b64_value c =
     (let v = (if c < 43 \<or> c > 122 then 0 else cd64 ! unat (c - 43))
      in if v \<noteq> 0 then (if v = 36 then 0 else v - 61) else v)"

definition read_src :: "byte list \<Rightarrow> byte \<Rightarrow> nat \<Rightarrow> byte" where
  "read_src src past i = (if i < length src then src ! i else past)"

text \<open>\<^verbatim>\<open>while (srcpos <= srclen && v == 0)\<close>\<close>

function b64_scan :: "byte list \<Rightarrow> byte \<Rightarrow> nat \<Rightarrow> byte \<Rightarrow> nat \<times> byte" where
  "b64_scan src past srcpos v =
     (if srcpos \<le> length src \<and> v = 0
      then b64_scan src past (srcpos + 1) (b64_value (read_src src past srcpos))
      else (srcpos, v))"
  by pat_completeness auto
termination
  by (relation "measure (\<lambda>(src, p, i, v). Suc (length src) - i)") auto

declare b64_scan.simps [simp del]

lemma b64_scan_mono: "srcpos \<le> fst (b64_scan src past srcpos v)"
proof (induction src past srcpos v rule: b64_scan.induct)
  case (1 src past srcpos v)
  then show ?case by (subst b64_scan.simps) force
qed

text \<open>\<^verbatim>\<open>for (len = 0, i = 0; i < 4 && srcpos <= srclen; i++)\<close>\<close>

function b64_fill ::
  "byte list \<Rightarrow> byte \<Rightarrow> nat \<Rightarrow> nat \<Rightarrow> nat \<Rightarrow> byte list \<Rightarrow> nat \<times> nat \<times> byte list" where
  "b64_fill src past i srcpos len inb =
     (if i < 4 \<and> srcpos \<le> length src
      then
        let (srcpos, v) = b64_scan src past srcpos 0
        in if srcpos \<le> length src
           then b64_fill src past (i + 1) srcpos (len + 1) (if v \<noteq> 0 then inb[i := v - 1] else inb)
           else b64_fill src past (i + 1) srcpos len (inb[i := 0])
      else (srcpos, len, inb))"
  by pat_completeness auto
termination
  by (relation "measure (\<lambda>(src, p, i, srcpos, len, inb). 4 - i)") auto

declare b64_fill.simps [simp del]

lemma b64_fill_mono: "srcpos \<le> fst (b64_fill src past i srcpos len inb)"
proof (induction src past i srcpos len inb rule: b64_fill.induct)
  case (1 src past i srcpos len inb)
  obtain p v where pv: "b64_scan src past srcpos 0 = (p, v)" by fastforce
  then have "srcpos \<le> p" using b64_scan_mono [of srcpos src past 0] by simp
  with 1 pv show ?case
    by (subst b64_fill.simps) (auto intro: le_trans)
qed

lemma b64_fill_advances:
  "srcpos \<le> length src \<Longrightarrow> srcpos < fst (b64_fill src past 0 srcpos len inb)"
proof -
  assume le: "srcpos \<le> length src"
  obtain p v where pv: "b64_scan src past srcpos 0 = (p, v)" by fastforce
  have "srcpos + 1 \<le> fst (b64_scan src past srcpos 0)"
    using b64_scan_mono le by (subst b64_scan.simps) simp
  with pv have "srcpos < p" by simp
  then show ?thesis
    using le pv b64_fill_mono [of p src past 1] by (subst b64_fill.simps) (auto intro: less_le_trans)
qed

text \<open>
  The outer \<^verbatim>\<open>while (srcpos <= srclen)\<close>. The destination was allocated with
  \<open>paddedsize\<close> bytes; a byte written beyond them is undefined behaviour.
\<close>

function b64_decode_loop ::
  "byte list \<Rightarrow> byte \<Rightarrow> nat \<Rightarrow> nat \<Rightarrow> byte list \<Rightarrow> byte list \<Rightarrow> byte list result" where
  "b64_decode_loop src past paddedsize srcpos inb dst =
     (if srcpos \<le> length src
      then
        let (srcpos, len, inb) = b64_fill src past 0 srcpos 0 inb
        in if len \<noteq> 0
           then
             let out = take (len - 1) (b64_decode_block inb)
             in if length dst + length out > paddedsize
                then Inl (Undefined_behaviour ''b64_decode writes past the end of dst'')
                else b64_decode_loop src past paddedsize srcpos inb (dst @ out)
           else b64_decode_loop src past paddedsize srcpos inb dst
      else Inr dst)"
  by pat_completeness auto
termination
proof (relation "measure (\<lambda>(src, past, n, srcpos, inb, dst). Suc (length src) - srcpos)", goal_cases)
  case (2 src past n srcpos inb dst x p y len inb')
  then have "srcpos < p" using b64_fill_advances [of srcpos src past 0 inb] by (metis fst_conv)
  with 2(1) show ?case by simp
next
  case (3 src past n srcpos inb dst x p y len inb')
  then have "srcpos < p" using b64_fill_advances [of srcpos src past 0 inb] by (metis fst_conv)
  with 3(1) show ?case by simp
qed simp

declare b64_decode_loop.simps [simp del]

definition b64_decode :: "allocator \<Rightarrow> byte list \<Rightarrow> byte \<Rightarrow> byte list result" where
  "b64_decode new_ok src past =
     (let paddedsize = (length src div 4) * 3
      in if \<not> new_ok paddedsize then Inl out_of_memory
         else b64_decode_loop src past paddedsize 0 [0, 0, 0, 0] [])"

section \<open>What the decoder computes\<close>

text \<open>The sextets a text carries, in order; every other character is skipped.\<close>

definition sextets :: "byte list \<Rightarrow> byte list" where
  "sextets cs = map (\<lambda>c. b64_value c - 1) (filter (\<lambda>c. b64_value c \<noteq> 0) cs)"

text \<open>Four sextets are three bytes; a shorter last group of \<open>n\<close> is \<open>n - 1\<close>.\<close>

fun bytes_of_sextets :: "byte list \<Rightarrow> byte list" where
  "bytes_of_sextets (a # b # c # d # ss) = b64_decode_block [a, b, c, d] @ bytes_of_sextets ss"
| "bytes_of_sextets [a, b, c] = take 2 (b64_decode_block [a, b, c, 0])"
| "bytes_of_sextets [a, b] = take 1 (b64_decode_block [a, b, 0, 0])"
| "bytes_of_sextets _ = []"

lemma sextets_simps [simp]:
  "sextets [] = []"
  "sextets (c # cs) = (if b64_value c \<noteq> 0 then (b64_value c - 1) # sextets cs else sextets cs)"
  "sextets (cs @ ds) = sextets cs @ sextets ds"
  by (simp_all add: sextets_def)

lemma length_sextets: "length (sextets cs) \<le> length cs"
  by (simp add: sextets_def)

lemma length_decode_block [simp]: "length (b64_decode_block inb) = 3"
  by (simp add: b64_decode_block_def)

lemma length_bytes_of_sextets:
  "length (bytes_of_sextets ss) = 3 * (length ss div 4) + (length ss mod 4 - 1)"
proof (induction ss rule: bytes_of_sextets.induct)
  case (1 a b c d ss)
  have "length (a # b # c # d # ss) = length ss + 4" by simp
  then have "length (a # b # c # d # ss) div 4 = length ss div 4 + 1"
    and "length (a # b # c # d # ss) mod 4 = length ss mod 4" by simp_all
  with 1 show ?case by simp
qed simp_all

text \<open>Only the cells a block filled matter to the bytes it yields.\<close>

lemma decode_block_take:
  assumes "length inb = 4" and "take len inb = ss" and "length ss = len"
  shows "take (len - 1) (b64_decode_block inb) = bytes_of_sextets ss"
proof -
  obtain a b c d where inb: "inb = [a, b, c, d]"
    using assms(1) by (auto simp: length_Suc_conv numeral_eq_Suc)
  have "len \<le> 4" using assms by auto
  then consider "len = 0" | "len = 1" | "len = 2" | "len = 3" | "len = 4" by linarith
  then show ?thesis
    using assms inb by cases (auto simp: b64_decode_block_def numeral_eq_Suc)
qed

lemma bytes_of_sextets_step:
  "bytes_of_sextets ss = bytes_of_sextets (take 4 ss) @ bytes_of_sextets (drop 4 ss)"
  by (cases ss rule: bytes_of_sextets.cases) auto

lemma scan_sextets:
  assumes "b64_scan src past srcpos v = (p, w)" and "v = 0" and "srcpos \<le> length src"
  shows "if p \<le> length src
         then w \<noteq> 0 \<and> sextets (drop srcpos src) = (w - 1) # sextets (drop p src)
         else sextets (drop srcpos src) = []"
  using assms
proof (induction src past srcpos v rule: b64_scan.induct)
  case (1 src past srcpos v)
  let ?c = "b64_value (read_src src past srcpos)"
  have step: "b64_scan src past (srcpos + 1) ?c = (p, w)"
    using "1.prems" by (subst (asm) b64_scan.simps) simp
  show ?case
  proof (cases "srcpos < length src")
    case True
    then have drop: "drop srcpos src = src ! srcpos # drop (srcpos + 1) src"
      by (simp add: Cons_nth_drop_Suc)
    have c: "?c = b64_value (src ! srcpos)" using True by (simp add: read_src_def)
    show ?thesis
    proof (cases "?c = 0")
      case z: True
      with 1 True step drop c show ?thesis by auto
    next
      case False
      then have "p = srcpos + 1 \<and> w = ?c" using step by (subst (asm) b64_scan.simps) simp
      with False True drop c show ?thesis by simp
    qed
  next
    case False
    then have "p = srcpos + 1"
      using "1.prems" step by (subst (asm) b64_scan.simps) simp
    with False show ?thesis by simp
  qed
qed

lemma fill_sextets:
  assumes "b64_fill src past i srcpos i inb = (p, len, inb')"
    and "i \<le> 4" and "length inb = 4"
  shows "length inb' = 4 \<and> len = i + min (4 - i) (length (sextets (drop srcpos src)))
    \<and> take len inb' = take i inb @ take (4 - i) (sextets (drop srcpos src))
    \<and> sextets (drop p src) = drop (4 - i) (sextets (drop srcpos src))"
  using assms
proof (induction "4 - i" arbitrary: i srcpos inb)
  case 0
  then have "i = 4" by simp
  then show ?case using 0 by (subst (asm) b64_fill.simps) auto
next
  case (Suc k)
  then have i: "i < 4" by simp
  show ?case
  proof (cases "srcpos \<le> length src")
    case False
    then have "p = srcpos" "len = i" "inb' = inb"
      using Suc.prems(1) by (auto simp: b64_fill.simps [of src past i])
    with False Suc.prems(3) show ?thesis by simp
  next
    case True
    obtain q v where qv: "b64_scan src past srcpos 0 = (q, v)" by fastforce
    note scan = scan_sextets [OF qv refl True]
    show ?thesis
    proof (cases "q \<le> length src")
      case ok: True
      with scan have v: "v \<noteq> 0" and ss: "sextets (drop srcpos src) = (v - 1) # sextets (drop q src)"
        by auto
      have rec: "b64_fill src past (i + 1) q (i + 1) (inb[i := v - 1]) = (p, len, inb')"
        using Suc.prems(1) i True qv ok v by (subst (asm) b64_fill.simps) simp
      have k: "k = 4 - (i + 1)" using Suc.hyps(2) by simp
      have "take (i + 1) (inb[i := v - 1]) = take i inb @ [v - 1]"
        using i Suc.prems(3) by (simp add: take_Suc_conv_app_nth)
      then show ?thesis
        unfolding ss Suc.hyps(2) [symmetric]
        using Suc.hyps(1) [OF k rec] i Suc.prems(3) unfolding k [symmetric] by auto
    next
      case False
      with scan have ss: "sextets (drop srcpos src) = []" by simp
      have "b64_fill src past (i + 1) q i (inb[i := 0]) = (p, len, inb')"
        using Suc.prems(1) i True qv False by (subst (asm) b64_fill.simps) simp
      then have "p = q" "len = i" "inb' = inb[i := 0]"
        using False by (auto simp: b64_fill.simps [of src past "Suc i"])
      with ss False Suc.prems(3) show ?thesis by simp
    qed
  qed
qed

text \<open>
  The whole loop: it appends the bytes of the remaining sextets, and it runs past
  the end of the destination exactly when those bytes do not fit.
\<close>

lemma decode_loop_bytes:
  "length inb = 4 \<Longrightarrow> length dst \<le> n \<Longrightarrow>
   b64_decode_loop src past n srcpos inb dst =
     (let bs = bytes_of_sextets (sextets (drop srcpos src))
      in if length dst + length bs \<le> n then Inr (dst @ bs)
         else Inl (Undefined_behaviour ''b64_decode writes past the end of dst''))"
proof (induction src past n srcpos inb dst rule: b64_decode_loop.induct)
  case (1 src past n srcpos inb dst)
  let ?ss = "sextets (drop srcpos src)"
  show ?case
  proof (cases "srcpos \<le> length src")
    case False
    then show ?thesis using "1.prems" by (subst b64_decode_loop.simps) simp
  next
    case True
    obtain p len inb' where f: "b64_fill src past 0 srcpos 0 inb = (p, len, inb')"
      by (metis prod_cases3)
    from fill_sextets [OF f] "1.prems"
    have fill: "length inb' = 4" "len = min 4 (length ?ss)" "take len inb' = take 4 ?ss"
      and rest: "sextets (drop p src) = drop 4 ?ss" by auto
    have out: "take (len - 1) (b64_decode_block inb') = bytes_of_sextets (take 4 ?ss)"
      using fill by (intro decode_block_take) auto
    have split: "bytes_of_sextets ?ss = bytes_of_sextets (take 4 ?ss) @ bytes_of_sextets (drop 4 ?ss)"
      by (rule bytes_of_sextets_step)
    show ?thesis
    proof (cases "len = 0")
      case z: True
      with fill have e: "?ss = []" by (auto simp: min_def split: if_splits)
      have "b64_decode_loop src past n srcpos inb dst = b64_decode_loop src past n p inb' dst"
        using True f z by (subst b64_decode_loop.simps) simp
      also have "\<dots> = Inr dst"
        using "1.IH"(2) [OF True f [symmetric] refl refl] z fill(1) "1.prems"(2) rest e by simp
      finally show ?thesis using e "1.prems"(2) by simp
    next
      case nz: False
      let ?out = "bytes_of_sextets (take 4 ?ss)"
      have "b64_decode_loop src past n srcpos inb dst =
          (if length dst + length ?out > n
           then Inl (Undefined_behaviour ''b64_decode writes past the end of dst'')
           else b64_decode_loop src past n p inb' (dst @ ?out))"
        using True f nz out by (subst b64_decode_loop.simps) (simp del: length_take)
      moreover have "b64_decode_loop src past n p inb' (dst @ ?out) =
          (let bs = bytes_of_sextets (drop 4 ?ss)
           in if length (dst @ ?out) + length bs \<le> n then Inr ((dst @ ?out) @ bs)
              else Inl (Undefined_behaviour ''b64_decode writes past the end of dst''))"
        if "\<not> length dst + length ?out > n"
        using "1.IH"(1) [OF True f [symmetric] refl refl nz refl] that fill(1)
        unfolding out rest by simp
      ultimately show ?thesis by (simp add: split Let_def)
    qed
  qed
qed


section \<open>What the encoder writes\<close>

text \<open>The four sextets of a block of three bytes.\<close>

definition sextet0 :: "byte \<Rightarrow> byte" where
  "sextet0 a = drop_bit 2 a"

definition sextet1 :: "byte \<Rightarrow> byte \<Rightarrow> byte" where
  "sextet1 a b = push_bit 4 (a AND 0x03) OR drop_bit 4 b"

definition sextet2 :: "byte \<Rightarrow> byte \<Rightarrow> byte" where
  "sextet2 b c = push_bit 2 (b AND 0x0f) OR drop_bit 6 c"

definition sextet3 :: "byte \<Rightarrow> byte" where
  "sextet3 c = c AND 0x3f"

lemmas sextet_defs = sextet0_def sextet1_def sextet2_def sextet3_def

text \<open>The sextets of a byte string: 4 for three bytes, 3 for a rest of two, 2 for one.\<close>

fun sextets_of_bytes :: "byte list \<Rightarrow> byte list" where
  "sextets_of_bytes (a # b # c # bs) =
     [sextet0 a, sextet1 a b, sextet2 b c, sextet3 c] @ sextets_of_bytes bs"
| "sextets_of_bytes [a, b] = [sextet0 a, sextet1 a b, sextet2 b 0]"
| "sextets_of_bytes [a] = [sextet0 a, sextet1 a 0]"
| "sextets_of_bytes [] = []"

lemmas byte_bit_simps = bit_or_iff bit_and_iff bit_push_bit_iff bit_drop_bit_eq

lemma block_round_trip:
  "b64_decode_block [sextet0 a, sextet1 a b, sextet2 b c, sextet3 c] = [a, b, c]"
  unfolding b64_decode_block_def sextet_defs
  by (simp, intro conjI; rule byte_bits)
    (auto simp: byte_bit_simps simp flip: numeral_2_eq_2 numeral_3_eq_3)

text \<open>A last group decodes to the bytes it came from.\<close>

lemma bytes_of_sextets_of_bytes [simp]: "bytes_of_sextets (sextets_of_bytes bs) = bs"
proof (induction bs rule: sextets_of_bytes.induct)
  case (1 a b c bs)
  then show ?case by (simp add: block_round_trip)
next
  case (2 a b)
  have "b64_decode_block [sextet0 a, sextet1 a b, sextet2 b 0, 0] =
      b64_decode_block [sextet0 a, sextet1 a b, sextet2 b 0, sextet3 0]"
    by (simp add: sextet3_def)
  then show ?case by (simp add: block_round_trip)
next
  case (3 a)
  have "take 1 (b64_decode_block [sextet0 a, sextet1 a 0, 0, 0]) =
      take 1 (b64_decode_block [sextet0 a, sextet1 a 0, sextet2 0 0, sextet3 0])"
    by (simp add: b64_decode_block_def)
  also have "\<dots> = [a]" by (simp add: block_round_trip)
  finally show ?case by simp
qed simp

text \<open>The tables as the bytes they hold, for evaluation.\<close>

lemma cb64_bytes [word_eval]: "cb64 =
    [65, 66, 67, 68, 69, 70, 71, 72, 73, 74, 75, 76, 77, 78, 79, 80, 81, 82, 83, 84,
     85, 86, 87, 88, 89, 90, 97, 98, 99, 100, 101, 102, 103, 104, 105, 106, 107, 108, 109, 110,
     111, 112, 113, 114, 115, 116, 117, 118, 119, 120, 121, 122, 48, 49, 50, 51, 52, 53, 54, 55,
     56, 57, 43, 47]"
  by (simp add: cb64_def bytes_of_def byte_of_char_def)

lemma cd64_bytes [word_eval]: "cd64 =
    [124, 36, 36, 36, 125, 114, 115, 116, 117, 118, 119, 120, 121, 122, 123, 36, 36, 36, 36, 36,
     36, 36, 62, 63, 64, 65, 66, 67, 68, 69, 70, 71, 72, 73, 74, 75, 76, 77, 78, 79,
     80, 81, 82, 83, 84, 85, 86, 87, 36, 36, 36, 36, 36, 36, 88, 89, 90, 91, 92, 93,
     94, 95, 96, 97, 98, 99, 100, 101, 102, 103, 104, 105, 106, 107, 108, 109, 110, 111, 112, 113]"
  by (simp add: cd64_def bytes_of_def byte_of_char_def)

text \<open>Every sextet has a character of its own, which the decoder's table reads back.\<close>

lemma cb64_table: "list_all (\<lambda>i. b64_value (cb64 ! i) = of_nat i + 1) [0..<64]"
  by (simp add: word_eval b64_value_def upt_conv_Cons)

lemma b64_value_cb64: "unat s < 64 \<Longrightarrow> b64_value (cb64 ! unat s) = s + 1"
  using cb64_table by (simp add: list_all_iff)

lemma b64_value_ignored [simp]: "b64_value 61 = 0" "b64_value 10 = 0"
  by (simp_all add: word_eval b64_value_def)

lemma sextet_plus_1 [simp]: "unat s < 64 \<Longrightarrow> s + 1 \<noteq> (0 :: byte)"
proof
  assume "unat s < 64" and "s + 1 = 0"
  then have "s = - 1" by (simp add: eq_neg_iff_add_eq_0)
  with \<open>unat s < 64\<close> show False
    by (simp add: unsigned_minus_1_eq_mask mask_eq_exp_minus_1)
qed

lemma sextets_cb64 [simp]: "unat s < 64 \<Longrightarrow> sextets (cb64 ! unat s # cs) = s # sextets cs"
  by (simp add: b64_value_cb64)

text \<open>The four sextets of a block are below 64.\<close>

lemma sextet_lt:
  fixes s :: byte
  assumes "\<not> bit s 6" and "\<not> bit s 7"
  shows "unat s < 64"
proof -
  have "s = take_bit 6 s"
    using assms by (intro byte_bits) (auto simp: bit_take_bit_iff)
  then have "unat s = take_bit 6 (unat s)" by (metis unsigned_take_bit_eq)
  then show ?thesis using take_bit_nat_less_exp [of 6 "unat s"] by simp
qed

lemma sextets_bounded [simp]:
  "unat (sextet0 a) < 64" "unat (sextet1 a b) < 64" "unat (sextet2 b c) < 64" "unat (sextet3 c) < 64"
  unfolding sextet_defs
  by (rule sextet_lt; simp add: byte_bit_simps flip: numeral_2_eq_2 numeral_3_eq_3)+

text \<open>The masks the encoder applies before its shifts are absorbed by them.\<close>

lemma encoder_masks:
  "drop_bit 2 (a AND 0xfc) = sextet0 a"
  "push_bit 4 (a AND 0x03) OR drop_bit 4 (b AND 0xf0) = sextet1 a b"
  "push_bit 2 (b AND 0x0f) OR drop_bit 6 (c AND 0xc0) = sextet2 b c"
  unfolding sextet_defs
  by (rule byte_bits; auto simp: byte_bit_simps simp flip: numeral_2_eq_2 numeral_3_eq_3)+

lemma encode_block_sextets:
  "b64_encode_block a b c len =
     [cb64 ! unat (sextet0 a), cb64 ! unat (sextet1 a b),
      if 1 < len then cb64 ! unat (sextet2 b c) else 61,
      if 2 < len then cb64 ! unat (sextet3 c) else 61]"
  unfolding b64_encode_block_def encoder_masks sextet3_def by (rule refl)

lemma length_encode_block [simp]: "length (b64_encode_block a b c len) = 4"
  by (simp add: b64_encode_block_def)

text \<open>
  One turn of the loop, for a line of \<open>k\<close> blocks. \<open>r\<close> counts the blocks still to
  write and \<open>c\<close> those on the current line: when the destination has exactly the
  room for them and the line ends, nothing is cut off and nothing left over.
\<close>

definition blocks :: "byte list \<Rightarrow> nat" where
  "blocks src = (length src + 2) div 3"

lemma padded_blocks: "(n + (if n mod 3 \<noteq> 0 then 3 - n mod 3 else 0)) div 3 = (n + 2) div (3 :: nat)"
proof -
  have "n mod 3 < 3" by simp
  then consider "n mod 3 = 0" | "n mod 3 = 1" | "n mod 3 = 2" by linarith
  then show ?thesis by cases (simp; arith)+
qed

lemma blocks_simps [simp]: "blocks [] = 0" "src \<noteq> [] \<Longrightarrow> 0 < blocks src"
  by (cases src; simp add: blocks_def)+

lemma blocks_drop: "src \<noteq> [] \<Longrightarrow> blocks src = Suc (blocks (drop 3 src))"
proof -
  assume "src \<noteq> []"
  then have "0 < length src" by simp
  then have "(length src + 2) div 3 = Suc ((length src - 3 + 2) div 3)" by arith
  then show ?thesis by (simp add: blocks_def)
qed

lemma drop3_empty: "src \<noteq> [] \<Longrightarrow> drop 3 src = [] \<longleftrightarrow> blocks src = 1"
  using blocks_drop [of src] by (cases "drop 3 src = []") auto

text \<open>One turn of the loop as an equation without local bindings.\<close>

definition block_text :: "byte list \<Rightarrow> byte list" where
  "block_text src =
     (let blk = take 3 src
      in b64_encode_block (blk ! 0) (if length blk > 1 then blk ! 1 else 0)
           (if length blk > 2 then blk ! 2 else 0) (length blk))"

lemma length_block_text [simp]: "length (block_text src) = 4"
  by (simp add: block_text_def Let_def)

lemma encode_loop_step:
  assumes "src \<noteq> []"
  shows "b64_encode_loop linelen dstlen src c dst =
    (let dst = dst @ take (dstlen - length dst) (block_text src)
     in if Suc c \<ge> linelen div 4 \<or> drop 3 src = []
        then b64_encode_loop linelen dstlen (drop 3 src) 0
               (if length dst < dstlen then dst @ [10] else dst)
        else b64_encode_loop linelen dstlen (drop 3 src) (Suc c) dst)"
  using assms by (subst b64_encode_loop.simps) (simp only: Let_def block_text_def, simp)

lemma encode_loop_Nil [simp]: "b64_encode_loop linelen dstlen [] c dst = dst"
  by (simp add: b64_encode_loop.simps)

lemma sextets_block:
  assumes "src \<noteq> []"
  shows "sextets (block_text src) @ sextets_of_bytes (drop 3 src) = sextets_of_bytes src"
  using assms
  by (cases src rule: sextets_of_bytes.cases)
    (simp_all add: block_text_def encode_block_sextets b64_value_cb64)

lemma encode_loop_exact:
  assumes "k = max 1 (linelen div 4)" and "c < k"
    and "length dst + 4 * blocks src + (c + blocks src) div k = dstlen"
  shows "sextets (b64_encode_loop linelen dstlen src c dst) = sextets dst @ sextets_of_bytes src
    \<and> length (b64_encode_loop linelen dstlen src c dst) = dstlen"
  using assms
proof (induction "length src" arbitrary: src c dst rule: less_induct)
  case less
  show ?case
  proof (cases "src = []")
    case True
    then show ?thesis using less.prems by (simp add: b64_encode_loop.simps [of _ _ "[]"])
  next
    case False
    define src' where "src' = drop 3 src"
    define out where "out = block_text src"
    have r: "blocks src = Suc (blocks src')" unfolding src'_def by (rule blocks_drop [OF False])
    have len: "length dst + 4 \<le> dstlen" using less.prems(3) r by simp
    then have take: "take (dstlen - length dst) out = out" by (simp add: out_def)
    have six: "sextets out @ sextets_of_bytes src' = sextets_of_bytes src"
      unfolding src'_def out_def by (rule sextets_block [OF False])
    have shorter: "length src' < length src" using False by (simp add: src'_def)
    have unfold: "b64_encode_loop linelen dstlen src c dst =
        (if Suc c \<ge> linelen div 4 \<or> src' = []
         then b64_encode_loop linelen dstlen src' 0
                (if length (dst @ out) < dstlen then dst @ out @ [10] else dst @ out)
         else b64_encode_loop linelen dstlen src' (Suc c) (dst @ out))"
      using encode_loop_step [OF False, of linelen dstlen c dst]
      by (simp only: Let_def take out_def [symmetric] src'_def [symmetric], simp)
    have k0: "0 < k" using less.prems by simp
    consider (full) "Suc c = k" | (last) "Suc c < k" "src' = []" | (room) "Suc c < k" "src' \<noteq> []"
      using less.prems(2) by linarith
    then show ?thesis
    proof cases
      case full
      have "(c + blocks src) div k = Suc (blocks src' div k)"
        using r full k0 by (metis add_Suc_shift div_add_self1 add_Suc Suc_eq_plus1 add.commute less_numeral_extra(3))
      then have room: "length (dst @ out @ [10]) + 4 * blocks src' + (0 + blocks src') div k = dstlen"
        using less.prems(3) r by (simp add: out_def)
      have "Suc c \<ge> linelen div 4" using full less.prems(1) by simp
      then have "b64_encode_loop linelen dstlen src c dst = b64_encode_loop linelen dstlen src' 0 (dst @ out @ [10])"
        using unfold room by simp
      with less.hyps [OF shorter less.prems(1) k0 room] six show ?thesis by simp
    next
      case last
      then have "length (dst @ out) = dstlen" using less.prems(3) r by (simp add: out_def)
      moreover from this last have "b64_encode_loop linelen dstlen src c dst = dst @ out"
        using unfold by (simp add: b64_encode_loop.simps [of _ _ "[]"])
      ultimately show ?thesis using six last by simp
    next
      case room
      then have "\<not> Suc c \<ge> linelen div 4" using less.prems(1) by simp
      then have "b64_encode_loop linelen dstlen src c dst = b64_encode_loop linelen dstlen src' (Suc c) (dst @ out)"
        using unfold room by simp
      moreover have "length (dst @ out) + 4 * blocks src' + (Suc c + blocks src') div k = dstlen"
        using less.prems(3) r by (simp add: out_def)
      ultimately show ?thesis using less.hyps [OF shorter less.prems(1) room(1)] six by simp
    qed
  qed
qed


section \<open>Properties\<close>

lemma b64_decode_eq:
  "b64_decode new_ok src past =
     (let bs = bytes_of_sextets (sextets src); paddedsize = length src div 4 * 3
      in if \<not> new_ok paddedsize then Inl out_of_memory
         else if length bs \<le> paddedsize then Inr bs
         else Inl (Undefined_behaviour ''b64_decode writes past the end of dst''))"
  by (simp add: b64_decode_def decode_loop_bytes Let_def)

text \<open>
  Claim C13. Decoding computes the specification for every input: it skips what
  carries no sextet, turns each four sextets into three bytes and a shorter last
  group of n into n - 1, never depends on the byte past the end that its loops
  read, and runs off the end of its buffer exactly when those bytes are more
  than three for every four characters of the source.
\<close>

theorem b64_decode_spec:
  "b64_decode new_ok src past =
     (let bs = bytes_of_sextets (sextets src); paddedsize = length src div 4 * 3
      in if \<not> new_ok paddedsize then Inl out_of_memory
         else if length bs \<le> paddedsize then Inr bs
         else Inl (Undefined_behaviour ''b64_decode writes past the end of dst''))"
  by (rule b64_decode_eq)

lemma b64_encode_decode:
  assumes "src \<noteq> []" and "length src < 2 ^ 61" and "4 dvd linelen" and "\<forall>n. new_ok n"
  shows "\<exists>txt. b64_encode new_ok src linelen = Inr (Some txt, length txt)
      \<and> b64_decode new_ok txt past = Inr src"
proof -
  let ?l = "if linelen = 0 then SIZE_MAX else linelen"
  let ?p = "4 * blocks src"
  let ?k = "max 1 (?l div 4)"
  let ?n = "?p + ?p div ?l"
  have pad: "(length src + (if length src mod 3 \<noteq> 0 then 3 - length src mod 3 else 0)) div 3 * 4 = ?p"
    unfolding blocks_def padded_blocks by simp
  have room: "length ([] :: byte list) + ?p + (0 + blocks src) div ?k = ?n"
  proof (cases "linelen = 0")
    case True
    then show ?thesis using assms(2) by (simp add: blocks_def SIZE_MAX_def)
  next
    case False
    with assms(3) obtain q where "linelen = 4 * q" "0 < q" by auto
    with False show ?thesis by simp
  qed
  let ?txt = "b64_encode_loop ?l ?n src 0 []"
  from encode_loop_exact [OF refl _ room]
  have written: "sextets ?txt = sextets_of_bytes src" "length ?txt = ?n" by simp_all
  have enc: "b64_encode new_ok src linelen = Inr (Some ?txt, length ?txt)"
    using assms(1,4) unfolding b64_encode_def Let_def pad written(2) by simp
  have "length src \<le> blocks src * 3" unfolding blocks_def by arith
  also have "\<dots> \<le> length ?txt div 4 * 3" unfolding written(2) by simp
  finally have "b64_decode new_ok ?txt past = Inr src"
    using assms(4) by (simp add: b64_decode_eq written(1) Let_def)
  with enc show ?thesis by blast
qed

text \<open>
  Encoding with no line length, or with one that is a multiple of four,
  fills the announced buffer exactly and decodes back to the source.
\<close>

theorem b64_round_trip:
  assumes "src \<noteq> []" and "length src < 2 ^ 61" and "4 dvd linelen" and "\<forall>n. new_ok n"
  shows "\<exists>txt. b64_encode new_ok src linelen = Inr (Some txt, length txt)
      \<and> b64_decode new_ok txt past = Inr src"
  by (rule b64_encode_decode [OF assms])

theorem b64_round_trip_witness:
  "\<exists>txt. b64_encode (\<lambda>_. True) [104, 105] 76 = Inr (Some txt, length txt)
      \<and> b64_decode (\<lambda>_. True) txt 0 = Inr [104, 105]"
  by (rule b64_round_trip) simp_all

text \<open>
  A text whose padding was left off overruns the decoder's buffer: the
  write past the end happens exactly when the source has no character to spare
  for a last group of two or three sextets.
\<close>

theorem b64_decode_overrun_iff:
  assumes "\<forall>n. new_ok n"
  shows "(\<exists>w. b64_decode new_ok src past = Inl (Undefined_behaviour w)) \<longleftrightarrow>
     length (sextets src) div 4 = length src div 4 \<and> 2 \<le> length (sextets src) mod 4"
proof -
  let ?n = "length (sextets src)"
  have "?n div 4 \<le> length src div 4" by (simp add: div_le_mono length_sextets)
  moreover have "?n mod 4 < 4" by simp
  ultimately have "length (bytes_of_sextets (sextets src)) \<le> length src div 4 * 3 \<longleftrightarrow>
      \<not> (?n div 4 = length src div 4 \<and> 2 \<le> ?n mod 4)"
    unfolding length_bytes_of_sextets by arith
  then show ?thesis using assms by (auto simp: b64_decode_spec Let_def)
qed

text \<open>"QUJDRA", base64 of "ABCD" without its padding, writes a fourth byte into three.\<close>

theorem b64_decode_overrun_witness:
  "\<exists>w. b64_decode (\<lambda>_. True) (bytes_of ''QUJDRA'') 0 = Inl (Undefined_behaviour w)"
  using b64_decode_overrun_iff [of "\<lambda>_. True" "bytes_of ''QUJDRA''" 0]
  by (simp add: bytes_of_def byte_of_char_def b64_value_def word_eval)

text \<open>The encoder's loop on two inputs whose line length is not a multiple of four.\<close>

lemma encode_lines_of_five:
  "b64_encode_loop 5 28 (replicate 18 0) 0 [] =
     [65, 65, 65, 65, 10, 65, 65, 65, 65, 10, 65, 65, 65, 65, 10,
      65, 65, 65, 65, 10, 65, 65, 65, 65, 10, 65, 65, 65]"
  by code_simp

lemma encode_lines_of_two: "b64_encode_loop 2 6 [0, 0, 0] 0 [] = [65, 65, 65, 65, 10]"
  by code_simp

text \<open>
  A line length that is not a multiple of four cuts data off: with lines
  of five characters the text of eighteen bytes loses its last character and
  decodes to seventeen, and with lines of two the announced length counts a
  character that was never written.
\<close>

theorem b64_encode_line_length_loss:
  "(\<exists>cs. b64_encode (\<lambda>_. True) (replicate 18 0) 5 = Inr (Some cs, length cs)
       \<and> b64_decode (\<lambda>_. True) cs 0 = Inr (replicate 17 0))
   \<and> (\<exists>cs. b64_encode (\<lambda>_. True) [0, 0, 0] 2 = Inr (Some cs, Suc (length cs)))"
proof (intro conjI exI)
  show "b64_encode (\<lambda>_. True) [0, 0, 0] 2 = Inr (Some [65, 65, 65, 65, 10], Suc (length [65, 65, 65, 65, 10 :: byte]))"
    by (simp add: b64_encode_def encode_lines_of_two)
  let ?cs = "b64_encode_loop 5 28 (replicate 18 0) 0 []"
  show "b64_encode (\<lambda>_. True) (replicate 18 0) 5 = Inr (Some ?cs, length ?cs)"
    by (simp add: b64_encode_def) (simp add: encode_lines_of_five)
  show "b64_decode (\<lambda>_. True) ?cs 0 = Inr (replicate 17 0)"
    unfolding encode_lines_of_five
    by (simp add: b64_decode_eq b64_value_def word_eval b64_decode_block_def) (simp add: numeral_eq_Suc)
qed

end
