(* ===== verification/LoveTypes.thy ===== *)
theory LoveTypes
  imports Prelude
begin

text \<open>
  The run-time types of the engine (\<^verbatim>\<open>src/src/common/types.h\<close>, \<^verbatim>\<open>types.cpp\<close>). A
  \<^verbatim>\<open>Type\<close> is a static object with a name, a parent and, once it was initialised,
  an id and the bit set of the ids of all its ancestors; \<^verbatim>\<open>isa\<close> is one bit test.
  The static objects are the entries of a list and a pointer to one is its index.
\<close>

section \<open>The model\<close>

record love_type =
  ty_name :: string
  ty_parent :: "nat option"
  ty_id :: nat
  ty_inited :: bool
  ty_bits :: "128 word"

definition MAX_TYPES :: "nat" where
  "MAX_TYPES = 128"

definition mk_type :: "string \<Rightarrow> nat option \<Rightarrow> love_type" where
  "mk_type name parent =
     \<lparr>ty_name = name, ty_parent = parent, ty_id = 0, ty_inited = False, ty_bits = 0\<rparr>"

text \<open>The static state: every type object, the name table and \<^verbatim>\<open>nextId\<close>.\<close>

record types_state =
  tys :: "love_type list"
  by_name :: "string \<Rightarrow> nat option"
  next_id :: nat

definition initial_types :: "(string \<times> nat option) list \<Rightarrow> types_state" where
  "initial_types decls =
     \<lparr>tys = map (\<lambda>(n, p). mk_type n p) decls, by_name = (\<lambda>_. None), next_id = 1\<rparr>"

definition set_type :: "types_state \<Rightarrow> nat \<Rightarrow> love_type \<Rightarrow> types_state" where
  "set_type w t ty = w\<lparr>tys := (tys w)[t := ty]\<rparr>"

definition uninited :: "types_state \<Rightarrow> nat" where
  "uninited w = length (filter (\<lambda>ty. \<not> ty_inited ty) (tys w))"

text \<open>What \<^verbatim>\<open>init\<close> does before it turns to the parent.\<close>

definition enter_type :: "types_state \<Rightarrow> nat \<Rightarrow> types_state" where
  "enter_type w t =
     (let ty = tys w ! t; i = next_id w
      in (set_type w t (ty\<lparr>ty_id := i, ty_bits := Bit_Operations.set_bit i (ty_bits ty), ty_inited := True\<rparr>))
           \<lparr>by_name := (by_name w)(ty_name ty \<mapsto> t), next_id := Suc i\<rparr>)"

definition join_parent :: "types_state \<Rightarrow> nat \<Rightarrow> nat \<Rightarrow> types_state" where
  "join_parent w t p =
     set_type w t ((tys w ! t)\<lparr>ty_bits := ty_bits (tys w ! t) OR ty_bits (tys w ! p)\<rparr>)"

lemma filter_update_less:
  "t < length xs \<Longrightarrow> P (xs ! t) \<Longrightarrow> \<not> P y \<Longrightarrow> length (filter P (xs[t := y])) < length (filter P xs)"
proof (induction xs arbitrary: t)
  case (Cons x xs)
  then show ?case by (cases t) auto
qed simp

lemma enter_type_uninited:
  "t < length (tys w) \<Longrightarrow> \<not> ty_inited (tys w ! t) \<Longrightarrow> uninited (enter_type w t) < uninited w"
  by (auto simp: uninited_def enter_type_def set_type_def Let_def intro!: filter_update_less)

text \<open>
  \<^verbatim>\<open>Type::init\<close>. The write \<^verbatim>\<open>bits[id] = true\<close> is unchecked, so an id past the set's
  width is undefined behaviour, and so is following a pointer to no type.
\<close>

function type_init :: "types_state \<Rightarrow> nat \<Rightarrow> types_state result" where
  "type_init w t =
     (if t \<ge> length (tys w) then Inl (Undefined_behaviour ''no such Type'')
      else if ty_inited (tys w ! t) then Inr w
      else if next_id w \<ge> MAX_TYPES then Inl (Undefined_behaviour ''Type bits out of range'')
      else
        let w1 = enter_type w t
        in case ty_parent (tys w ! t) of
             None \<Rightarrow> Inr w1
           | Some p \<Rightarrow>
               if p \<ge> length (tys w) then Inl (Undefined_behaviour ''no such Type'')
               else bind_result (if \<not> ty_inited (tys w1 ! p) then type_init w1 p else Inr w1)
                      (\<lambda>w2. Inr (join_parent w2 t p)))"
  by pat_completeness auto
termination
  by (relation "measure (\<lambda>(w, t). uninited w)") (auto intro: enter_type_uninited)

declare type_init.simps [simp del]

definition ensure_init :: "types_state \<Rightarrow> nat \<Rightarrow> types_state result" where
  "ensure_init w t =
     (if t \<ge> length (tys w) then Inl (Undefined_behaviour ''no such Type'')
      else if \<not> ty_inited (tys w ! t) then type_init w t else Inr w)"

definition type_getId :: "types_state \<Rightarrow> nat \<Rightarrow> (types_state \<times> nat) result" where
  "type_getId w t = bind_result (ensure_init w t) (\<lambda>w. Inr (w, ty_id (tys w ! t)))"

definition type_getName :: "types_state \<Rightarrow> nat \<Rightarrow> string" where
  "type_getName w t = ty_name (tys w ! t)"

definition type_byName :: "types_state \<Rightarrow> string \<Rightarrow> nat option" where
  "type_byName w name = by_name w name"

definition type_isa_id :: "types_state \<Rightarrow> nat \<Rightarrow> nat \<Rightarrow> (types_state \<times> bool) result" where
  "type_isa_id w t other =
     bind_result (ensure_init w t)
       (\<lambda>w. if other \<ge> MAX_TYPES then Inl (Undefined_behaviour ''Type bits out of range'')
            else Inr (w, bit (ty_bits (tys w ! t)) other))"

definition type_isa :: "types_state \<Rightarrow> nat \<Rightarrow> nat \<Rightarrow> (types_state \<times> bool) result" where
  "type_isa w t other =
     bind_result (ensure_init w t) (\<lambda>w. Inr (w, bit (ty_bits (tys w ! t)) (ty_id (tys w ! other))))"

section \<open>The ancestor relation\<close>

definition parent_rel :: "types_state \<Rightarrow> (nat \<times> nat) set" where
  "parent_rel w = {(t, p). t < length (tys w) \<and> ty_parent (tys w ! t) = Some p}"

definition ancestors :: "types_state \<Rightarrow> nat \<Rightarrow> nat set" where
  "ancestors w t = {a. (t, a) \<in> (parent_rel w)\<^sup>*}"

text \<open>The declarations are a forest: parents are types, and no type is its own ancestor.\<close>

definition forest :: "types_state \<Rightarrow> bool" where
  "forest w \<longleftrightarrow> acyclic (parent_rel w) \<and> (\<forall>(t, p) \<in> parent_rel w. p < length (tys w))"

lemma ancestors_refl [simp]: "t \<in> ancestors w t"
  by (simp add: ancestors_def)

lemma ancestors_step:
  "t < length (tys w) \<Longrightarrow> ty_parent (tys w ! t) = Some p \<Longrightarrow> ancestors w t = insert t (ancestors w p)"
  unfolding ancestors_def parent_rel_def
  by (auto intro: converse_rtrancl_into_rtrancl elim: converse_rtranclE)

lemma ancestors_root:
  "ty_parent (tys w ! t) = None \<Longrightarrow> ancestors w t = {t}"
  unfolding ancestors_def parent_rel_def by (auto elim: converse_rtranclE)

lemma not_own_ancestor:
  "forest w \<Longrightarrow> t < length (tys w) \<Longrightarrow> ty_parent (tys w ! t) = Some p \<Longrightarrow> t \<notin> ancestors w p"
  unfolding forest_def ancestors_def acyclic_def parent_rel_def
  by (auto dest: rtrancl_into_trancl2 [rotated])

text \<open>What \<open>init\<close> never changes.\<close>

definition same_decls :: "types_state \<Rightarrow> types_state \<Rightarrow> bool" where
  "same_decls w w' \<longleftrightarrow> map ty_name (tys w') = map ty_name (tys w) \<and> map ty_parent (tys w') = map ty_parent (tys w)"

lemma same_declsD:
  assumes "same_decls w w'"
  shows "length (tys w') = length (tys w)"
    and "t < length (tys w) \<Longrightarrow> ty_parent (tys w' ! t) = ty_parent (tys w ! t)"
    and "t < length (tys w) \<Longrightarrow> ty_name (tys w' ! t) = ty_name (tys w ! t)"
proof -
  show len: "length (tys w') = length (tys w)"
    using assms unfolding same_decls_def by (metis length_map)
  show "ty_parent (tys w' ! t) = ty_parent (tys w ! t)" if "t < length (tys w)"
    using assms that len unfolding same_decls_def by (metis nth_map)
  show "ty_name (tys w' ! t) = ty_name (tys w ! t)" if "t < length (tys w)"
    using assms that len unfolding same_decls_def by (metis nth_map)
qed

lemma same_decls_refl [simp]: "same_decls w w"
  by (simp add: same_decls_def)

lemma same_decls_trans: "same_decls a b \<Longrightarrow> same_decls b c \<Longrightarrow> same_decls a c"
  by (simp add: same_decls_def)

lemma same_decls_rel: "same_decls w w' \<Longrightarrow> parent_rel w' = parent_rel w"
  unfolding parent_rel_def by (auto simp: same_declsD)

lemma same_decls_ancestors: "same_decls w w' \<Longrightarrow> ancestors w' t = ancestors w t"
  by (simp add: ancestors_def same_decls_rel)

lemma same_decls_forest: "same_decls w w' \<Longrightarrow> forest w' = forest w"
  by (simp add: forest_def same_decls_rel same_declsD)


section \<open>The invariant of the type table\<close>

definition is_inited :: "types_state \<Rightarrow> nat \<Rightarrow> bool" where
  "is_inited w t \<longleftrightarrow> t < length (tys w) \<and> ty_inited (tys w ! t)"

definition id_set :: "types_state \<Rightarrow> nat \<Rightarrow> nat set" where
  "id_set w t = {n. bit (ty_bits (tys w ! t)) n}"

abbreviation id_of :: "types_state \<Rightarrow> nat \<Rightarrow> nat" where
  "id_of w t \<equiv> ty_id (tys w ! t)"

text \<open>
  \<^verbatim>\<open>B\<close> is the set of the types whose \<open>init\<close> is still running: they own an id and
  the bit of that id, and are waiting for the bits of their parent.
\<close>

definition ids_ok :: "types_state \<Rightarrow> bool" where
  "ids_ok w \<longleftrightarrow>
     next_id w = Suc (card (Collect (is_inited w))) \<and> next_id w \<le> MAX_TYPES \<and>
     inj_on (id_of w) (Collect (is_inited w)) \<and>
     (\<forall>t < length (tys w). if is_inited w t then 1 \<le> id_of w t \<and> id_of w t < next_id w
                            else id_of w t = 0 \<and> ty_bits (tys w ! t) = 0)"

definition closed_up :: "types_state \<Rightarrow> nat \<Rightarrow> bool" where
  "closed_up w t \<longleftrightarrow> ancestors w t \<subseteq> Collect (is_inited w) \<and> id_set w t = id_of w ` ancestors w t"

definition types_inv :: "nat set \<Rightarrow> types_state \<Rightarrow> bool" where
  "types_inv B w \<longleftrightarrow>
     forest w \<and> ids_ok w \<and>
     (\<forall>t. is_inited w t \<longrightarrow> (if t \<in> B then id_set w t = {id_of w t} else closed_up w t))"

lemma finite_inited [simp]: "finite (Collect (is_inited w))"
  by (rule finite_subset [of _ "{..<length (tys w)}"]) (auto simp: is_inited_def)

lemma inited_initial: "\<not> is_inited (initial_types ds) t"
  by (auto simp: is_inited_def initial_types_def mk_type_def split: prod.split)

lemma types_inv_initial:
  assumes "forest (initial_types ds)"
  shows "types_inv B (initial_types ds)"
proof -
  have none: "Collect (is_inited (initial_types ds)) = {}"
    by (simp add: inited_initial)
  have "next_id (initial_types ds) = 1"
    by (simp add: initial_types_def)
  moreover have "id_of (initial_types ds) t = 0 \<and> ty_bits (tys (initial_types ds) ! t) = 0"
    if "t < length ds" for t
    using that by (simp add: initial_types_def mk_type_def split: prod.split)
  moreover have "length (tys (initial_types ds)) = length ds"
    by (simp add: initial_types_def)
  ultimately have "ids_ok (initial_types ds)"
    unfolding ids_ok_def none by (simp add: MAX_TYPES_def inited_initial)
  then show ?thesis
    using assms by (simp add: types_inv_def inited_initial)
qed

subsection \<open>Entering a type\<close>

lemma same_decls_enter: "t < length (tys w) \<Longrightarrow> same_decls w (enter_type w t)"
  by (simp add: same_decls_def enter_type_def set_type_def Let_def map_update)
     (metis (no_types) list_update_id map_update)

lemma tys_enter_other [simp]: "s \<noteq> t \<Longrightarrow> tys (enter_type w t) ! s = tys w ! s"
  by (simp add: enter_type_def set_type_def Let_def)

lemma inited_enter:
  "t < length (tys w) \<Longrightarrow> Collect (is_inited (enter_type w t)) = insert t (Collect (is_inited w))"
  by (auto simp: is_inited_def enter_type_def set_type_def Let_def nth_list_update split: if_splits)

lemma next_id_enter [simp]: "next_id (enter_type w t) = Suc (next_id w)"
  by (simp add: enter_type_def Let_def)

lemma enter_entry:
  assumes "t < length (tys w)" "ty_bits (tys w ! t) = 0" "next_id w < MAX_TYPES"
  shows "id_of (enter_type w t) t = next_id w" "id_set (enter_type w t) t = {next_id w}"
  using assms
  by (auto simp: enter_type_def set_type_def Let_def id_set_def MAX_TYPES_def bit_simps)

lemma types_inv_enter:
  assumes inv: "types_inv B w" and t: "t < length (tys w)" "\<not> is_inited w t" and room: "next_id w < MAX_TYPES"
  shows "types_inv (insert t B) (enter_type w t)"
proof -
  let ?w = "enter_type w t"
  have same: "same_decls w ?w"
    using t by (simp add: same_decls_enter)
  have bits: "ty_bits (tys w ! t) = 0"
    using inv t by (auto simp: types_inv_def ids_ok_def)
  note entry = enter_entry [OF t(1) bits room]
  note len = same_declsD(1) [OF same]
  have ini: "is_inited ?w s \<longleftrightarrow> s = t \<or> is_inited w s" for s
    using inited_enter [OF t(1)] by blast
  have "ids_ok ?w"
    unfolding ids_ok_def len ini inited_enter [OF t(1)]
  proof (intro conjI allI impI)
    show "next_id ?w = Suc (card (insert t (Collect (is_inited w))))"
      using inv t by (simp add: types_inv_def ids_ok_def)
    show "next_id ?w \<le> MAX_TYPES"
      using room by simp
    have "inj_on (id_of ?w) (Collect (is_inited w))"
      using inv t by (auto simp: types_inv_def ids_ok_def inj_on_def) (metis tys_enter_other)
    moreover have "next_id w \<notin> id_of ?w ` Collect (is_inited w)"
    proof
      assume "next_id w \<in> id_of ?w ` Collect (is_inited w)"
      then obtain s where s: "is_inited w s" "id_of ?w s = next_id w"
        by auto
      then have "id_of w s = next_id w"
        using t by (cases "s = t") auto
      moreover have "id_of w s < next_id w"
        using inv s by (auto simp: types_inv_def ids_ok_def is_inited_def)
      ultimately show False
        by simp
    qed
    ultimately show "inj_on (id_of ?w) (insert t (Collect (is_inited w)))"
      using entry t by simp
    show "if s = t \<or> is_inited w s then 1 \<le> id_of ?w s \<and> id_of ?w s < next_id ?w
          else id_of ?w s = 0 \<and> ty_bits (tys ?w ! s) = 0" if "s < length (tys w)" for s
      using inv that entry by (cases "s = t") (auto simp: types_inv_def ids_ok_def less_Suc_eq)
  qed
  moreover have "closed_up ?w s" if "closed_up w s" for s
  proof -
    have sub: "ancestors w s \<subseteq> Collect (is_inited w)" and ids: "id_set w s = id_of w ` ancestors w s"
      using that by (auto simp: closed_up_def)
    have "id_set ?w s = id_set w s"
      using sub t(2) by (metis ancestors_refl id_set_def mem_Collect_eq subsetD tys_enter_other)
    moreover have "id_of ?w ` ancestors w s = id_of w ` ancestors w s"
    proof (rule image_cong [OF refl])
      show "id_of ?w a = id_of w a" if "a \<in> ancestors w s" for a
        using that sub t by (cases "a = t") auto
    qed
    ultimately show ?thesis
      using sub ids inited_enter [OF t(1)]
      by (simp add: closed_up_def same_decls_ancestors [OF same] subset_insertI2)
  qed
  moreover have "id_set ?w s = id_set w s" if "s \<noteq> t" for s
    using that by (simp add: id_set_def)
  ultimately have "if s \<in> insert t B then id_set ?w s = {id_of ?w s} else closed_up ?w s"
    if "is_inited ?w s" for s
  proof (cases "s = t")
    case False
    then have "is_inited w s"
      using that ini by simp
    then have "if s \<in> B then id_set w s = {id_of w s} else closed_up w s"
      using inv by (simp add: types_inv_def)
    then show ?thesis
      using False \<open>\<And>s. closed_up w s \<Longrightarrow> closed_up ?w s\<close> \<open>\<And>s. s \<noteq> t \<Longrightarrow> id_set ?w s = id_set w s\<close>
      by (auto split: if_splits)
  qed (simp add: entry)
  then show ?thesis
    using inv \<open>ids_ok ?w\<close> by (simp add: types_inv_def same_decls_forest [OF same])
qed

subsection \<open>Taking over the bits of the parent\<close>

lemma tys_join_other [simp]: "s \<noteq> t \<Longrightarrow> tys (join_parent w t p) ! s = tys w ! s"
  by (simp add: join_parent_def set_type_def)

lemma id_join [simp]: "id_of (join_parent w t p) s = id_of w s"
  by (cases "s = t"; cases "t < length (tys w)") (auto simp: join_parent_def set_type_def list_update_beyond)

lemma inited_join [simp]: "is_inited (join_parent w t p) = is_inited w"
proof
  show "is_inited (join_parent w t p) s = is_inited w s" for s
    by (cases "s = t"; cases "t < length (tys w)") (auto simp: join_parent_def set_type_def is_inited_def)
qed

lemma next_id_join [simp]: "next_id (join_parent w t p) = next_id w"
  by (simp add: join_parent_def set_type_def)

lemma same_decls_join: "same_decls w (join_parent w t p)"
  by (simp add: same_decls_def join_parent_def set_type_def map_update)
     (metis (no_types) list_update_id map_update)

lemma id_set_join:
  "t < length (tys w) \<Longrightarrow> id_set (join_parent w t p) t = id_set w t \<union> id_set w p"
  by (auto simp: id_set_def join_parent_def set_type_def bit_or_iff)

lemma types_inv_join:
  assumes inv: "types_inv (insert t B) w" and t: "is_inited w t" "t \<notin> B"
    and p: "ty_parent (tys w ! t) = Some p" "is_inited w p" "p \<notin> insert t B"
  shows "types_inv B (join_parent w t p)"
proof -
  let ?w = "join_parent w t p"
  note same = same_decls_join [of w t p]
  have tl: "t < length (tys w)"
    using t by (simp add: is_inited_def)
  have p_up: "closed_up w p" and t_up: "id_set w t = {id_of w t}"
    using inv t p by (auto simp: types_inv_def)
  have up: "closed_up ?w t"
    using p_up t_up t
    by (auto simp: closed_up_def same_decls_ancestors [OF same] ancestors_step [OF tl p(1)] id_set_join [OF tl])
  have "closed_up ?w s" if "closed_up w s" "s \<noteq> t" for s
    using that by (auto simp: closed_up_def same_decls_ancestors [OF same] id_set_def)
  moreover have "id_set ?w s = id_set w s" if "s \<noteq> t" for s
    using that by (simp add: id_set_def)
  moreover have "ids_ok ?w"
  proof -
    have ok: "ids_ok w"
      using inv by (simp add: types_inv_def)
    have "ty_bits (tys ?w ! s) = ty_bits (tys w ! s)" if "\<not> is_inited w s" for s
      using that t by (cases "s = t") auto
    with ok show ?thesis
      unfolding ids_ok_def same_declsD(1) [OF same] by (auto split: if_splits)
  qed
  moreover have "if s \<in> B then id_set ?w s = {id_of w s} else closed_up ?w s" if "is_inited w s" for s
  proof (cases "s = t")
    case False
    have "if s \<in> insert t B then id_set w s = {id_of w s} else closed_up w s"
      using inv that by (simp add: types_inv_def)
    then show ?thesis
      using False \<open>\<And>s. closed_up w s \<Longrightarrow> s \<noteq> t \<Longrightarrow> closed_up ?w s\<close>
        \<open>\<And>s. s \<noteq> t \<Longrightarrow> id_set ?w s = id_set w s\<close>
      by (auto split: if_splits)
  qed (simp add: up t)
  ultimately show ?thesis
    using inv by (simp add: types_inv_def same_decls_forest [OF same])
qed

lemma types_inv_close: "types_inv (insert t B) w \<Longrightarrow> closed_up w t \<Longrightarrow> t \<notin> B \<Longrightarrow> types_inv B w"
  unfolding types_inv_def by (metis insert_iff)

section \<open>Initialisation\<close>

lemma type_init_frame:
  "type_init w t = Inr w' \<Longrightarrow>
     same_decls w w' \<and> is_inited w' t \<and> (\<forall>s. is_inited w s \<longrightarrow> is_inited w' s \<and> tys w' ! s = tys w ! s)"
proof (induction w t arbitrary: w' rule: type_init.induct)
  case (1 w t)
  show ?case
  proof (cases "ty_inited (tys w ! t)")
    case True
    then show ?thesis
      using "1.prems" by (auto simp: type_init.simps [of w t] is_inited_def split: if_splits)
  next
    case new: False
    then have t: "t < length (tys w)" and room: "next_id w < MAX_TYPES"
      using "1.prems" by (auto simp: type_init.simps [of w t] split: if_splits)
    let ?w = "enter_type w t"
    note same = same_decls_enter [OF t]
    have ini: "is_inited ?w s \<longleftrightarrow> s = t \<or> is_inited w s" for s
      using inited_enter [OF t] by blast
    have keep: "is_inited ?w s \<and> tys ?w ! s = tys w ! s" if "is_inited w s" for s
      using that new ini by (cases "s = t") (auto simp: is_inited_def)
    show ?thesis
    proof (cases "ty_parent (tys w ! t)")
      case None
      then show ?thesis
        using "1.prems" new t room same ini keep by (auto simp: type_init.simps [of w t] Let_def)
    next
      case (Some p)
      then have p: "p < length (tys w)"
        using "1.prems" new t room by (auto simp: type_init.simps [of w t] Let_def split: if_splits)
      let ?r = "if \<not> ty_inited (tys ?w ! p) then type_init ?w p else Inr ?w"
      obtain w2 where w2: "?r = Inr w2" "w' = join_parent w2 t p"
        using "1.prems" new t room Some p
        by (cases ?r) (auto simp: type_init.simps [of w t] Let_def)
      have rec: "same_decls ?w w2 \<and> (\<forall>s. is_inited ?w s \<longrightarrow> is_inited w2 s \<and> tys w2 ! s = tys ?w ! s)"
      proof (cases "ty_inited (tys ?w ! p)")
        case False
        then show ?thesis
          using "1.IH" [OF _ new _ refl Some _ False, of w2] t room p w2 by auto
      qed (use w2 in auto)
      have "same_decls w w'"
        using same rec same_decls_join w2(2) by (metis same_decls_trans)
      moreover have "tys w' ! s = tys w ! s" if "is_inited w s" for s
        using that keep rec w2(2) new by (cases "s = t") (auto simp: is_inited_def)
      ultimately show ?thesis
        using rec ini keep w2(2) by auto
    qed
  qed
qed

lemma types_inv_init:
  "type_init w t = Inr w' \<Longrightarrow> types_inv B w \<Longrightarrow> ancestors w t \<inter> B = {} \<Longrightarrow> types_inv B w'"
proof (induction w t arbitrary: w' B rule: type_init.induct)
  case (1 w t)
  show ?case
  proof (cases "ty_inited (tys w ! t)")
    case True
    then show ?thesis
      using "1.prems" by (auto simp: type_init.simps [of w t] split: if_splits)
  next
    case new: False
    then have t: "t < length (tys w)" and room: "next_id w < MAX_TYPES"
      using "1.prems" by (auto simp: type_init.simps [of w t] split: if_splits)
    let ?w = "enter_type w t"
    note same = same_decls_enter [OF t]
    have inv: "types_inv (insert t B) ?w"
      using "1.prems"(2) t new room by (intro types_inv_enter) (auto simp: is_inited_def)
    have tB: "t \<notin> B"
      using "1.prems"(3) ancestors_refl [of t w] by blast
    have ini: "is_inited ?w t"
      using inited_enter [OF t] by blast
    show ?thesis
    proof (cases "ty_parent (tys w ! t)")
      case None
      have "closed_up ?w t"
        using inv ini by (simp add: types_inv_def closed_up_def same_decls_ancestors [OF same] ancestors_root [OF None])
      then have "types_inv B ?w"
        by (rule types_inv_close [OF inv _ tB])
      then show ?thesis
        using "1.prems"(1) new t room None by (auto simp: type_init.simps [of w t] Let_def)
    next
      case (Some p)
      then have p: "p < length (tys w)"
        using "1.prems"(1) new t room by (auto simp: type_init.simps [of w t] Let_def split: if_splits)
      let ?r = "if \<not> ty_inited (tys ?w ! p) then type_init ?w p else Inr ?w"
      obtain w2 where w2: "?r = Inr w2" "w' = join_parent w2 t p"
        using "1.prems"(1) new t room Some p
        by (cases ?r) (auto simp: type_init.simps [of w t] Let_def)
      have "t \<notin> ancestors w p"
        using "1.prems"(2) t Some by (simp add: types_inv_def not_own_ancestor)
      then have apart: "ancestors ?w p \<inter> insert t B = {}"
        using "1.prems"(3) ancestors_step [OF t Some] by (auto simp: same_decls_ancestors [OF same])
      have inv2: "types_inv (insert t B) w2"
      proof (cases "ty_inited (tys ?w ! p)")
        case False
        then show ?thesis
          using "1.IH" [OF _ new _ refl Some _ False, of w2 "insert t B"] t room p w2 inv apart by auto
      qed (use w2 inv in auto)
      have pre: "same_decls ?w w2 \<and> is_inited w2 p \<and> is_inited w2 t"
      proof (cases "ty_inited (tys ?w ! p)")
        case False
        then show ?thesis
          using type_init_frame [of ?w p w2] w2 ini by auto
      qed (use w2 ini p same in \<open>auto simp: is_inited_def same_declsD\<close>)
      have "p \<notin> insert t B"
        using apart ancestors_refl [of p ?w] by blast
      moreover have "ty_parent (tys w2 ! t) = Some p"
        using pre same t Some by (auto simp: same_declsD)
      ultimately show ?thesis
        using types_inv_join [OF inv2 _ tB] pre w2(2) by auto
    qed
  qed
qed

lemma ensure_init_inv:
  assumes "ensure_init w t = Inr w'" "types_inv {} w"
  shows "types_inv {} w' \<and> same_decls w w' \<and> is_inited w' t \<and>
         (\<forall>s. is_inited w s \<longrightarrow> is_inited w' s \<and> tys w' ! s = tys w ! s)"
proof (cases "ty_inited (tys w ! t)")
  case True
  then show ?thesis
    using assms by (auto simp: ensure_init_def is_inited_def split: if_splits)
next
  case False
  then show ?thesis
    using assms type_init_frame [of w t w'] types_inv_init [of w t w' "{}"]
    by (auto simp: ensure_init_def split: if_splits)
qed

text \<open>With at most 127 declared types the bit set never overflows.\<close>

lemma type_init_total:
  assumes "types_inv B w" "ancestors w t \<inter> B = {}" "t < length (tys w)" "length (tys w) < MAX_TYPES"
  shows "\<exists>w'. type_init w t = Inr w'"
  using assms
proof (induction w t arbitrary: B rule: type_init.induct)
  case (1 w t)
  note t = "1.prems"(3)
  show ?case
  proof (cases "ty_inited (tys w ! t)")
    case True
    then show ?thesis
      using t by (simp add: type_init.simps [of w t])
  next
    case new: False
    have "Collect (is_inited w) \<subseteq> {..<length (tys w)}" "t \<notin> Collect (is_inited w)" "t \<in> {..<length (tys w)}"
      using t new by (auto simp: is_inited_def)
    then have "Collect (is_inited w) \<subset> {..<length (tys w)}"
      by blast
    then have "card (Collect (is_inited w)) < length (tys w)"
      using psubset_card_mono [of "{..<length (tys w)}" "Collect (is_inited w)"] by simp
    then have room: "next_id w < MAX_TYPES"
      using "1.prems" by (auto simp: types_inv_def ids_ok_def)
    let ?w = "enter_type w t"
    note same = same_decls_enter [OF t]
    have inv: "types_inv (insert t B) ?w"
      using "1.prems"(1) t new room by (intro types_inv_enter) (auto simp: is_inited_def)
    show ?thesis
    proof (cases "ty_parent (tys w ! t)")
      case None
      then show ?thesis
        using new t room by (simp add: type_init.simps [of w t])
    next
      case (Some p)
      then have p: "p < length (tys w)"
        using "1.prems"(1) t by (auto simp: types_inv_def forest_def parent_rel_def)
      have "t \<notin> ancestors w p"
        using "1.prems"(1) t Some by (simp add: types_inv_def not_own_ancestor)
      then have apart: "ancestors ?w p \<inter> insert t B = {}"
        using "1.prems"(2) ancestors_step [OF t Some] by (auto simp: same_decls_ancestors [OF same])
      obtain w2 where "(if \<not> ty_inited (tys ?w ! p) then type_init ?w p else Inr ?w) = Inr w2"
        using "1.IH" [OF _ new _ refl Some _, of "insert t B"] t room p inv apart same "1.prems"(4)
        by (cases "ty_inited (tys ?w ! p)") (auto simp: same_declsD)
      then show ?thesis
        using new t room p Some by (auto simp: type_init.simps [of w t] Let_def)
    qed
  qed
qed

lemma ensure_init_total:
  "types_inv {} w \<Longrightarrow> t < length (tys w) \<Longrightarrow> length (tys w) < MAX_TYPES \<Longrightarrow> \<exists>w'. ensure_init w t = Inr w'"
  using type_init_total [of "{}" w t] by (auto simp: ensure_init_def)

section \<open>What the queries answer\<close>

lemma isa_bit:
  assumes inv: "types_inv {} w" and t: "is_inited w t" and s: "s < length (tys w)"
  shows "bit (ty_bits (tys w ! t)) (id_of w s) \<longleftrightarrow> s \<in> ancestors w t"
proof -
  have up: "ancestors w t \<subseteq> Collect (is_inited w)" "id_set w t = id_of w ` ancestors w t"
    using inv t by (auto simp: types_inv_def closed_up_def)
  have ids: "inj_on (id_of w) (Collect (is_inited w))" "is_inited w a \<Longrightarrow> 1 \<le> id_of w a" for a
    using inv by (auto simp: types_inv_def ids_ok_def is_inited_def)
  have "bit (ty_bits (tys w ! t)) (id_of w s) \<longleftrightarrow> id_of w s \<in> id_of w ` ancestors w t"
    using up(2) by (auto simp: id_set_def)
  also have "\<dots> \<longleftrightarrow> s \<in> ancestors w t"
  proof (cases "is_inited w s")
    case True
    then show ?thesis
      using ids(1) up(1) by (auto simp: inj_on_def)
  next
    case False
    then have "id_of w s = 0"
      using inv s by (auto simp: types_inv_def ids_ok_def)
    then show ?thesis
      using False ids(2) up(1) by force
  qed
  finally show ?thesis .
qed

lemma type_isa_total:
  assumes "types_inv {} w" "t < length (tys w)" "s < length (tys w)" "length (tys w) < MAX_TYPES"
  shows "\<exists>w'. type_isa w t s = Inr (w', s \<in> ancestors w t) \<and> types_inv {} w' \<and> same_decls w w'"
proof -
  obtain w' where w': "ensure_init w t = Inr w'"
    using ensure_init_total assms by blast
  note inv = ensure_init_inv [OF w' assms(1)]
  have "bit (ty_bits (tys w' ! t)) (id_of w' s) \<longleftrightarrow> s \<in> ancestors w t"
    using isa_bit [of w' t s] inv assms(3) by (auto simp: same_declsD same_decls_ancestors)
  then show ?thesis
    using w' inv by (simp add: type_isa_def)
qed

text \<open>Claim C1. With the declared types a forest of at most 127 types, \<open>isa\<close> never runs into
  undefined behaviour, keeps the invariant of the type table, and answers whether the other type
  is the type itself or one of its ancestors - in whatever order the types were initialised, the
  other one not yet initialised included.\<close>

theorem type_isa_correct:
  assumes "types_inv {} w" "t < length (tys w)" "s < length (tys w)" "length (tys w) < MAX_TYPES"
  shows "\<exists>w'. type_isa w t s = Inr (w', s \<in> ancestors w t) \<and> types_inv {} w' \<and> same_decls w w'"
  using type_isa_total [OF assms] .

definition example_types :: types_state where
  "example_types = initial_types
     [(''Object'', None), (''Drawable'', Some 0), (''Texture'', Some 1), (''Data'', Some 0)]"

lemma forest_less:
  assumes "\<And>t p. t < length (tys w) \<Longrightarrow> ty_parent (tys w ! t) = Some p \<Longrightarrow> p < t"
  shows "forest w"
proof -
  have "acyclic (parent_rel w)"
    by (rule acyclic_subset [OF wf_acyclic [OF wf_measure [of id], THEN acyclic_converse [THEN iffD2]]])
       (use assms in \<open>auto simp: parent_rel_def\<close>)
  then show ?thesis
    using assms unfolding forest_def parent_rel_def by (auto intro: less_trans)
qed

lemma example_types_inv: "types_inv {} example_types"
  unfolding example_types_def
  by (intro types_inv_initial forest_less)
     (auto simp: initial_types_def mk_type_def less_Suc_eq nth_Cons' split: if_splits)

theorem type_isa_correct_witness:
  "\<exists>w'. type_isa example_types 2 0 = Inr (w', 0 \<in> ancestors example_types 2) \<and>
        types_inv {} w' \<and> same_decls example_types w'"
  by (rule type_isa_correct)
     (use example_types_inv in \<open>auto simp: example_types_def initial_types_def MAX_TYPES_def\<close>)

text \<open>The id a type answers is stable and its own: two types that have been asked
  for their ids have the same id only if they are the same type, and no id is zero, the id an
  uninitialised type shows.\<close>

theorem type_getId_unique:
  assumes "types_inv {} w" "type_getId w s = Inr (w1, i)" "type_getId w1 t = Inr (w2, j)"
    "s < length (tys w)" "t < length (tys w)"
  shows "0 < i \<and> 0 < j \<and> (i = j \<longleftrightarrow> s = t) \<and> type_getId w2 s = Inr (w2, i)"
proof -
  obtain u where u: "ensure_init w s = Inr w1" "i = id_of w1 s" "ensure_init w1 t = Inr w2" "j = id_of w2 t"
    using assms(2,3) by (auto simp: type_getId_def bind_result_def split: sum.splits)
  note a = ensure_init_inv [OF u(1) assms(1)]
  note b = ensure_init_inv [OF u(3)]
  have i: "i = id_of w2 s" "is_inited w2 s" "is_inited w2 t" and inv: "types_inv {} w2"
    using a b u by auto
  then have "0 < i \<and> 0 < j \<and> (i = j \<longleftrightarrow> s = t)"
    using u(4) by (auto simp: types_inv_def ids_ok_def inj_on_def is_inited_def Suc_le_eq)
  moreover have "type_getId w2 s = Inr (w2, i)"
    using i by (auto simp: type_getId_def ensure_init_def is_inited_def)
  ultimately show ?thesis
    by blast
qed

definition types_after :: "types_state \<Rightarrow> nat \<Rightarrow> types_state" where
  "types_after w t = (case type_getId w t of Inl e \<Rightarrow> w | Inr (w', i) \<Rightarrow> w')"

theorem type_getId_unique_witness:
  "type_getId example_types 2 = Inr (types_after example_types 2, 1) \<and>
   type_getId (types_after example_types 2) 3 = Inr (types_after (types_after example_types 2) 3, 4) \<and>
   (0 < (1::nat) \<and> 0 < (4::nat) \<and> ((1::nat) = 4 \<longleftrightarrow> (2::nat) = 3) \<and>
    type_getId (types_after (types_after example_types 2) 3) 2 = Inr (types_after (types_after example_types 2) 3, 1))"
proof -
  have 1: "type_getId example_types 2 = Inr (types_after example_types 2, 1)"
    by (simp add: types_after_def type_getId_def ensure_init_def type_init.simps example_types_def
        initial_types_def mk_type_def enter_type_def join_parent_def set_type_def MAX_TYPES_def Let_def)
  have 2: "type_getId (types_after example_types 2) 3 = Inr (types_after (types_after example_types 2) 3, 4)"
    by (simp add: types_after_def type_getId_def ensure_init_def type_init.simps example_types_def
        initial_types_def mk_type_def enter_type_def join_parent_def set_type_def MAX_TYPES_def Let_def)
  show ?thesis
    using 1 2 type_getId_unique [OF example_types_inv 1 2]
    by (simp add: example_types_def initial_types_def)
qed

end
