(* ===== verification/Objects.thy ===== *)
theory Objects
  imports Prelude
begin

text \<open>
  Reference counted objects (\<^verbatim>\<open>src/src/common/Object.h\<close>, \<^verbatim>\<open>Object.cpp\<close>): the atomic
  counter, \<open>retain\<close> and \<open>release\<close>, and the owning pointer \<open>StrongRef\<close> with its
  constructors, assignment, \<open>set\<close> and destructor.

  The heap maps the address of a live object to its counter, so a touch of a
  deleted object is undefined behaviour. The destructor of the derived class
  is not part of these two files; deleting an object only frees its cell here.
\<close>

section \<open>The counter\<close>

type_synonym address = nat

type_synonym heap = "address \<Rightarrow> 32 word option"

definition use_after_free :: love_error where
  "use_after_free = Undefined_behaviour ''use after free''"

definition object_new :: "address \<Rightarrow> heap \<Rightarrow> heap" where
  "object_new a h = h(a \<mapsto> 1)"

definition getReferenceCount :: "address \<Rightarrow> heap \<Rightarrow> 32 word result" where
  "getReferenceCount a h = (case h a of None \<Rightarrow> Inl use_after_free | Some c \<Rightarrow> Inr c)"

definition retain :: "address \<Rightarrow> heap \<Rightarrow> heap result" where
  "retain a h = (case h a of None \<Rightarrow> Inl use_after_free | Some c \<Rightarrow> Inr (h(a \<mapsto> c + 1)))"

definition release :: "address \<Rightarrow> heap \<Rightarrow> heap result" where
  "release a h =
     (case h a of
        None \<Rightarrow> Inl use_after_free
      | Some c \<Rightarrow> if c = 1 then Inr (h(a := None)) else Inr (h(a \<mapsto> c - 1)))"

section \<open>The contract of a counter\<close>

text \<open>
  What a client relies on: \<open>refs\<close> is the number of references an object has,
  zero once it is deleted. Taking one needs an object that is alive; giving one
  back needs one that was taken.
\<close>

locale refcount =
  fixes take give :: "'o \<Rightarrow> 'h \<Rightarrow> love_error + 'h"
    and refs :: "'h \<Rightarrow> 'o \<Rightarrow> nat"
    and limit :: nat
  assumes take_alive: "0 < refs h a \<Longrightarrow> Suc (refs h a) < limit \<Longrightarrow>
      \<exists>h'. take a h = Inr h' \<and> refs h' = (refs h)(a := Suc (refs h a))"
    and give_owned: "0 < refs h a \<Longrightarrow> \<exists>h'. give a h = Inr h' \<and> refs h' = (refs h)(a := refs h a - 1)"
    and take_dead: "refs h a = 0 \<Longrightarrow> \<exists>e. take a h = Inl e"
    and give_dead: "refs h a = 0 \<Longrightarrow> \<exists>e. give a h = Inl e"
begin

fun take_all :: "'o list \<Rightarrow> 'h \<Rightarrow> love_error + 'h" where
  "take_all [] h = Inr h"
| "take_all (a # as) h = bind_result (take a h) (take_all as)"

fun give_all :: "'o list \<Rightarrow> 'h \<Rightarrow> love_error + 'h" where
  "give_all [] h = Inr h"
| "give_all (a # as) h = bind_result (give a h) (give_all as)"

lemma take_all_alive:
  "(\<And>a. a \<in> set as \<Longrightarrow> 0 < refs h a) \<Longrightarrow> (\<And>a. refs h a + length as < limit) \<Longrightarrow>
     \<exists>h'. take_all as h = Inr h' \<and> refs h' = (\<lambda>a. refs h a + count_list as a)"
proof (induction as arbitrary: h)
  case (Cons a as)
  obtain h1 where h1: "take a h = Inr h1" "refs h1 = (refs h)(a := Suc (refs h a))"
    using take_alive [of h a] Cons.prems(1) [of a] Cons.prems(2) [of a] by auto
  have "0 < refs h1 b" if "b \<in> set as" for b
    using that Cons.prems(1) [of b] h1(2) by simp
  moreover have "refs h1 b + length as < limit" for b
    using Cons.prems(2) [of b] h1(2) by auto
  ultimately obtain h2 where "take_all as h1 = Inr h2" "refs h2 = (\<lambda>a. refs h1 a + count_list as a)"
    using Cons.IH [of h1] by blast
  then show ?case
    using h1 by (intro exI [of _ h2]) (auto simp: fun_eq_iff)
qed simp

lemma give_all_owned:
  "(\<And>a. count_list as a \<le> refs h a) \<Longrightarrow>
     \<exists>h'. give_all as h = Inr h' \<and> refs h' = (\<lambda>a. refs h a - count_list as a)"
proof (induction as arbitrary: h)
  case (Cons a as)
  have "0 < refs h a"
    using Cons.prems [of a] by simp
  then obtain h1 where h1: "give a h = Inr h1" "refs h1 = (refs h)(a := refs h a - 1)"
    using give_owned [of h a] by auto
  have "count_list as b \<le> refs h1 b" for b
    using Cons.prems [of b] h1(2) by (auto split: if_splits)
  then obtain h2 where "give_all as h1 = Inr h2" "refs h2 = (\<lambda>a. refs h1 a - count_list as a)"
    using Cons.IH [of h1] by blast
  then show ?case
    using h1 by (intro exI [of _ h2]) (auto simp: fun_eq_iff)
qed simp

text \<open>The references a client takes and later gives back, in any order, leave no trace.\<close>

lemma take_give_all:
  assumes "\<And>a. a \<in> set as \<Longrightarrow> 0 < refs h a" "\<And>a. refs h a + length as < limit"
    "\<And>a. count_list bs a = count_list as a"
  shows "\<exists>h' h''. take_all as h = Inr h' \<and> give_all bs h' = Inr h'' \<and> refs h'' = refs h"
proof -
  obtain h' where h': "take_all as h = Inr h'" "refs h' = (\<lambda>a. refs h a + count_list as a)"
    using take_all_alive assms(1,2) by blast
  moreover have "count_list bs a \<le> refs h' a" for a
    using h'(2) assms(3) by simp
  then obtain h'' where "give_all bs h' = Inr h''" "refs h'' = (\<lambda>a. refs h' a - count_list bs a)"
    using give_all_owned by blast
  ultimately show ?thesis
    using assms(3) by (auto simp: fun_eq_iff)
qed

end

definition heap_refs :: "heap \<Rightarrow> address \<Rightarrow> nat" where
  "heap_refs h a = (case h a of None \<Rightarrow> 0 | Some c \<Rightarrow> if c = 0 then 2 ^ 32 else unat c)"

lemma unat_plus_one: "Suc (unat c) < 2 ^ 32 \<Longrightarrow> unat (c + 1 :: 32 word) = Suc (unat c)"
  using unat_add_lem [of c 1] by simp

lemma unat_minus_one: "c \<noteq> 0 \<Longrightarrow> unat (c - 1 :: 32 word) = unat c - 1"
  by (simp add: unat_minus_one)

text \<open>A counter of zero stands for the wrapped-around \<open>2 ^ 32\<close> references.\<close>

lemma heap_refs_zero: "heap_refs h a = 0 \<longleftrightarrow> h a = None"
  by (auto simp: heap_refs_def unat_eq_0 unat_gt_0 split: option.splits)

interpretation counter: refcount retain release heap_refs "2 ^ 32"
proof unfold_locales
  fix h a
  show "\<exists>h'. retain a h = Inr h' \<and> heap_refs h' = (heap_refs h)(a := Suc (heap_refs h a))"
    if alive: "0 < heap_refs h a" and room: "Suc (heap_refs h a) < 2 ^ 32"
  proof -
    obtain c where c: "h a = Some c"
      using alive by (auto simp: heap_refs_def split: option.splits)
    then have n: "c \<noteq> 0" "Suc (unat c) < 2 ^ 32"
      using room by (auto simp: heap_refs_def split: if_splits)
    then have "unat (c + 1) = Suc (unat c)"
      by (simp add: unat_plus_one)
    moreover from this have "c + 1 \<noteq> 0"
      by (metis Zero_not_Suc unat_0)
    ultimately show ?thesis
      using c n by (intro exI [of _ "h(a \<mapsto> c + 1)"]) (auto simp: retain_def heap_refs_def fun_eq_iff)
  qed
  show "\<exists>h'. release a h = Inr h' \<and> heap_refs h' = (heap_refs h)(a := heap_refs h a - 1)"
    if alive: "0 < heap_refs h a"
  proof -
    obtain c where c: "h a = Some c"
      using alive by (auto simp: heap_refs_def split: option.splits)
    consider "c = 0" | "c = 1" | "c \<noteq> 0" "c \<noteq> 1"
      by blast
    then show ?thesis
    proof cases
      case 1
      then show ?thesis
        using c by (intro exI [of _ "h(a \<mapsto> - 1)"])
          (auto simp: release_def heap_refs_def fun_eq_iff unsigned_minus_1_eq_mask mask_eq_exp_minus_1)
    next
      case 3
      then show ?thesis
        using c unat_minus_one [of c]
        by (intro exI [of _ "h(a \<mapsto> c - 1)"]) (auto simp: release_def heap_refs_def fun_eq_iff)
    next
      case 2
      then show ?thesis
        using c by (intro exI [of _ "h(a := None)"]) (auto simp: release_def heap_refs_def fun_eq_iff)
    qed
  qed
qed (auto simp: heap_refs_zero retain_def release_def)

section \<open>StrongRef\<close>

text \<open>
  A \<^verbatim>\<open>StrongRef\<close> is the pointer it holds. The mutable state is the heap and the
  references that are alive.
\<close>

datatype acquire = RETAIN | NORETAIN

definition ref_init :: "address option \<Rightarrow> acquire \<Rightarrow> heap \<Rightarrow> (address option \<times> heap) result" where
  "ref_init obj acq h =
     (case obj of
        Some a \<Rightarrow> if acq = RETAIN then bind_result (retain a h) (\<lambda>h. Inr (obj, h)) else Inr (obj, h)
      | None \<Rightarrow> Inr (obj, h))"

definition ref_copy :: "address option \<Rightarrow> heap \<Rightarrow> (address option \<times> heap) result" where
  "ref_copy other h =
     (case other of
        Some a \<Rightarrow> bind_result (retain a h) (\<lambda>h. Inr (other, h))
      | None \<Rightarrow> Inr (other, h))"

text \<open>The move constructor answers the new reference and what is left of the old one.\<close>

definition ref_move :: "address option \<Rightarrow> address option \<times> address option" where
  "ref_move other = (other, None)"

definition ref_destroy :: "address option \<Rightarrow> heap \<Rightarrow> heap result" where
  "ref_destroy r h = (case r of Some a \<Rightarrow> release a h | None \<Rightarrow> Inr h)"

definition ref_set :: "address option \<Rightarrow> acquire \<Rightarrow> address option \<Rightarrow> heap \<Rightarrow> (address option \<times> heap) result" where
  "ref_set obj acq r h =
     bind_result (case obj of Some a \<Rightarrow> if acq = RETAIN then retain a h else Inr h | None \<Rightarrow> Inr h)
       (\<lambda>h. bind_result (case r of Some b \<Rightarrow> release b h | None \<Rightarrow> Inr h)
              (\<lambda>h. Inr (obj, h)))"

definition ref_assign :: "address option \<Rightarrow> address option \<Rightarrow> heap \<Rightarrow> (address option \<times> heap) result" where
  "ref_assign other r h = ref_set other RETAIN r h"

subsection \<open>Programs over references\<close>

text \<open>
  The engine's code is a sequence of these operations. \<open>raw\<close> counts the
  references a piece of code holds by hand: \<open>new\<close> answers one, \<open>retain\<close> takes
  one, and \<open>release\<close> or an adopting \<open>StrongRef\<close> (\<^verbatim>\<open>NORETAIN\<close>) uses one up.
\<close>

record world =
  objs :: heap
  srefs :: "address option list"
  raw :: "address \<Rightarrow> nat"

datatype ref_op =
    New address
  | Retain address
  | Release address
  | Init "address option" acquire
  | Copy nat
  | Move nat
  | Destroy nat
  | Set nat "address option" acquire
  | Assign nat nat

definition drop_nth :: "nat \<Rightarrow> 'a list \<Rightarrow> 'a list" where
  "drop_nth i xs = take i xs @ drop (Suc i) xs"

fun ref_step :: "ref_op \<Rightarrow> world \<Rightarrow> world result" where
  "ref_step (New a) w = Inr (w\<lparr>objs := object_new a (objs w), raw := (raw w)(a := raw w a + 1)\<rparr>)"
| "ref_step (Retain a) w =
     bind_result (retain a (objs w)) (\<lambda>h. Inr (w\<lparr>objs := h, raw := (raw w)(a := raw w a + 1)\<rparr>))"
| "ref_step (Release a) w =
     bind_result (release a (objs w)) (\<lambda>h. Inr (w\<lparr>objs := h, raw := (raw w)(a := raw w a - 1)\<rparr>))"
| "ref_step (Init obj acq) w =
     bind_result (ref_init obj acq (objs w))
       (\<lambda>(r, h). Inr (w\<lparr>objs := h, srefs := srefs w @ [r],
          raw := (case obj of Some a \<Rightarrow> if acq = NORETAIN then (raw w)(a := raw w a - 1) else raw w
                            | None \<Rightarrow> raw w)\<rparr>))"
| "ref_step (Copy i) w =
     bind_result (ref_copy (srefs w ! i) (objs w)) (\<lambda>(r, h). Inr (w\<lparr>objs := h, srefs := srefs w @ [r]\<rparr>))"
| "ref_step (Move i) w =
     (let (r, old) = ref_move (srefs w ! i) in Inr (w\<lparr>srefs := (srefs w)[i := old] @ [r]\<rparr>))"
| "ref_step (Destroy i) w =
     bind_result (ref_destroy (srefs w ! i) (objs w)) (\<lambda>h. Inr (w\<lparr>objs := h, srefs := drop_nth i (srefs w)\<rparr>))"
| "ref_step (Set i obj acq) w =
     bind_result (ref_set obj acq (srefs w ! i) (objs w))
       (\<lambda>(r, h). Inr (w\<lparr>objs := h, srefs := (srefs w)[i := r],
          raw := (case obj of Some a \<Rightarrow> if acq = NORETAIN then (raw w)(a := raw w a - 1) else raw w
                            | None \<Rightarrow> raw w)\<rparr>))"
| "ref_step (Assign i j) w =
     bind_result (ref_assign (srefs w ! j) (srefs w ! i) (objs w))
       (\<lambda>(r, h). Inr (w\<lparr>objs := h, srefs := (srefs w)[i := r]\<rparr>))"

definition ref_owners :: "world \<Rightarrow> address \<Rightarrow> nat" where
  "ref_owners w a = raw w a + count_list (srefs w) (Some a)"

text \<open>The discipline the code follows: only an object that has an owner is touched, and only a
  reference held by hand is given back.\<close>

definition held :: "world \<Rightarrow> address option \<Rightarrow> acquire \<Rightarrow> bool" where
  "held w obj acq =
     (case obj of None \<Rightarrow> True | Some a \<Rightarrow> if acq = RETAIN then 0 < ref_owners w a else 0 < raw w a)"

fun disciplined :: "ref_op \<Rightarrow> world \<Rightarrow> bool" where
  "disciplined (New a) w = (ref_owners w a = 0)"
| "disciplined (Retain a) w = (0 < ref_owners w a)"
| "disciplined (Release a) w = (0 < raw w a)"
| "disciplined (Init obj acq) w = held w obj acq"
| "disciplined (Copy i) w = (i < length (srefs w))"
| "disciplined (Move i) w = (i < length (srefs w))"
| "disciplined (Destroy i) w = (i < length (srefs w))"
| "disciplined (Set i obj acq) w = (i < length (srefs w) \<and> held w obj acq)"
| "disciplined (Assign i j) w = (i < length (srefs w) \<and> j < length (srefs w))"

definition owned :: "world \<Rightarrow> bool" where
  "owned w \<longleftrightarrow> heap_refs (objs w) = ref_owners w"

section \<open>No object is used after its deletion, and none is deleted early\<close>

lemma count_list_nth: "i < length xs \<Longrightarrow> 0 < count_list xs (xs ! i)"
  by (metis count_list_0_iff gr0I nth_mem)

lemma count_list_update:
  "i < length xs \<Longrightarrow>
     count_list (xs[i := y]) x = count_list xs x - (if xs ! i = x then 1 else 0) + (if y = x then 1 else 0)"
proof (induction xs arbitrary: i)
  case (Cons z xs)
  then show ?case
    using count_list_nth [of "i - 1" xs] by (cases i) (auto simp: Suc_diff_le)
qed simp

lemma count_list_drop_nth:
  "i < length xs \<Longrightarrow> count_list (drop_nth i xs) x = count_list xs x - (if xs ! i = x then 1 else 0)"
proof -
  assume "i < length xs"
  then have "count_list xs x = count_list (take i xs @ xs ! i # drop (Suc i) xs) x"
    by (simp flip: id_take_nth_drop)
  then show ?thesis
    by (simp add: drop_nth_def)
qed

lemma owners_new_refs [simp]:
  "ref_owners (w\<lparr>objs := h\<rparr>) = ref_owners w"
  by (simp add: ref_owners_def fun_eq_iff)

lemma retain_owned:
  assumes "owned w" "0 < ref_owners w a" "Suc (ref_owners w a) < 2 ^ 32"
  shows "\<exists>h. retain a (objs w) = Inr h \<and> heap_refs h = (ref_owners w)(a := Suc (ref_owners w a))"
  using counter.take_alive [of "objs w" a] assms by (simp add: owned_def)

lemma release_owned:
  assumes "heap_refs h = f" "0 < f a"
  shows "\<exists>h'. release a h = Inr h' \<and> heap_refs h' = f(a := f a - 1)"
  using counter.give_owned [of h a] assms by simp

lemma step_new:
  assumes "owned w" "ref_owners w a = 0"
  shows "\<exists>w'. ref_step (New a) w = Inr w' \<and> owned w'"
  using assms by (auto simp: owned_def ref_owners_def object_new_def heap_refs_def fun_eq_iff)

lemma step_retain:
  assumes "owned w" "0 < ref_owners w a" "Suc (ref_owners w a) < 2 ^ 32"
  shows "\<exists>w'. ref_step (Retain a) w = Inr w' \<and> owned w'"
  using retain_owned [OF assms] by (auto simp: owned_def ref_owners_def fun_eq_iff)

lemma step_release:
  assumes "owned w" "0 < raw w a"
  shows "\<exists>w'. ref_step (Release a) w = Inr w' \<and> owned w'"
proof -
  obtain h where "release a (objs w) = Inr h" "heap_refs h = (ref_owners w)(a := ref_owners w a - 1)"
    using release_owned [of "objs w" "ref_owners w" a] assms by (auto simp: owned_def ref_owners_def)
  then show ?thesis
    using assms by (auto simp: owned_def ref_owners_def fun_eq_iff)
qed

text \<open>Taking the new object of a reference, retained or adopted.\<close>

lemma acquire_owned:
  assumes "owned w" "held w (Some a) acq" "Suc (ref_owners w a) < 2 ^ 32"
  shows "\<exists>h. (if acq = RETAIN then retain a (objs w) else Inr (objs w)) = Inr h \<and>
             heap_refs h = (\<lambda>x. (if acq = NORETAIN then (raw w)(a := raw w a - 1) else raw w) x
                               + count_list (srefs w) (Some x) + (if x = a then 1 else 0))"
proof (cases acq)
  case RETAIN
  then show ?thesis
    using retain_owned [of w a] assms by (auto simp: held_def ref_owners_def fun_eq_iff)
next
  case NORETAIN
  then show ?thesis
    using assms by (auto simp: held_def owned_def ref_owners_def fun_eq_iff)
qed

lemma step_init:
  assumes "owned w" "held w obj acq" "\<And>a. Suc (ref_owners w a) < 2 ^ 32"
  shows "\<exists>w'. ref_step (Init obj acq) w = Inr w' \<and> owned w'"
proof (cases obj)
  case (Some a)
  then show ?thesis
    using acquire_owned [of w a acq] assms
    by (cases acq) (auto simp: ref_init_def held_def owned_def ref_owners_def fun_eq_iff)
qed (use assms in \<open>auto simp: ref_init_def owned_def ref_owners_def fun_eq_iff\<close>)

lemma step_copy:
  assumes "owned w" "i < length (srefs w)" "\<And>a. Suc (ref_owners w a) < 2 ^ 32"
  shows "\<exists>w'. ref_step (Copy i) w = Inr w' \<and> owned w'"
proof (cases "srefs w ! i")
  case (Some a)
  then have "0 < ref_owners w a"
    using count_list_nth [OF assms(2)] by (simp add: ref_owners_def)
  then show ?thesis
    using retain_owned [of w a] assms Some
    by (auto simp: ref_copy_def owned_def ref_owners_def fun_eq_iff)
qed (use assms in \<open>auto simp: ref_copy_def owned_def ref_owners_def fun_eq_iff\<close>)

lemma step_move:
  assumes "owned w" "i < length (srefs w)"
  shows "\<exists>w'. ref_step (Move i) w = Inr w' \<and> owned w'"
  using assms count_list_nth [OF assms(2)]
  by (auto simp: ref_move_def owned_def ref_owners_def fun_eq_iff count_list_update)

lemma step_destroy:
  assumes "owned w" "i < length (srefs w)"
  shows "\<exists>w'. ref_step (Destroy i) w = Inr w' \<and> owned w'"
proof (cases "srefs w ! i")
  case (Some a)
  then have n: "0 < count_list (srefs w) (Some a)"
    using count_list_nth [OF assms(2)] by simp
  then obtain h where "release a (objs w) = Inr h" "heap_refs h = (ref_owners w)(a := ref_owners w a - 1)"
    using release_owned [of "objs w" "ref_owners w" a] assms by (auto simp: owned_def ref_owners_def)
  then show ?thesis
    using assms Some n by (auto simp: ref_destroy_def owned_def ref_owners_def fun_eq_iff count_list_drop_nth)
qed (use assms in \<open>auto simp: ref_destroy_def owned_def ref_owners_def fun_eq_iff count_list_drop_nth\<close>)

lemma step_set:
  assumes "owned w" "i < length (srefs w)" "held w obj acq" "\<And>a. Suc (ref_owners w a) < 2 ^ 32"
  shows "\<exists>w'. ref_step (Set i obj acq) w = Inr w' \<and> owned w'"
proof -
  define raw' where "raw' = (case obj of
      Some a \<Rightarrow> if acq = NORETAIN then (raw w)(a := raw w a - 1) else raw w | None \<Rightarrow> raw w)"
  obtain h where h: "(case obj of Some a \<Rightarrow> if acq = RETAIN then retain a (objs w) else Inr (objs w)
      | None \<Rightarrow> Inr (objs w)) = Inr h"
    "heap_refs h = (\<lambda>x. raw' x + count_list (srefs w) (Some x) + (if obj = Some x then 1 else 0))"
  proof (cases obj)
    case None
    then show ?thesis
      using that assms(1) by (auto simp: raw'_def owned_def ref_owners_def fun_eq_iff)
  next
    case (Some a)
    then obtain h where "(if acq = RETAIN then retain a (objs w) else Inr (objs w)) = Inr h"
      "heap_refs h = (\<lambda>x. raw' x + count_list (srefs w) (Some x) + (if x = a then 1 else 0))"
      using acquire_owned [of w a acq] assms by (auto simp: raw'_def)
    then show ?thesis
      using Some by (intro that [of h]) (auto simp: fun_eq_iff)
  qed
  obtain h' where h': "(case srefs w ! i of Some b \<Rightarrow> release b h | None \<Rightarrow> Inr h) = Inr h'"
    "heap_refs h' = (\<lambda>x. raw' x + count_list ((srefs w)[i := obj]) (Some x))"
  proof (cases "srefs w ! i")
    case None
    then show ?thesis
      using h(2) assms(2) by (intro that [of h]) (auto simp: count_list_update fun_eq_iff)
  next
    case (Some b)
    have n: "0 < count_list (srefs w) (Some b)"
      using count_list_nth [OF assms(2)] Some by simp
    then obtain h' where "release b h = Inr h'" "heap_refs h' = (\<lambda>x. raw' x + count_list (srefs w) (Some x)
        + (if obj = Some x then 1 else 0)) (b := raw' b + count_list (srefs w) (Some b)
        + (if obj = Some b then 1 else 0) - 1)"
      using release_owned [OF h(2), of b] by auto
    then show ?thesis
      using n assms(2) Some by (intro that [of h']) (auto simp: count_list_update fun_eq_iff)
  qed
  then show ?thesis
    using h(1) by (auto simp: ref_set_def owned_def ref_owners_def raw'_def fun_eq_iff)
qed

lemma same_raw: "w\<lparr>objs := h, srefs := rs, raw := raw w\<rparr> = w\<lparr>objs := h, srefs := rs\<rparr>"
  by (cases w) simp

lemma step_assign:
  assumes "owned w" "i < length (srefs w)" "j < length (srefs w)" "\<And>a. Suc (ref_owners w a) < 2 ^ 32"
  shows "\<exists>w'. ref_step (Assign i j) w = Inr w' \<and> owned w'"
proof -
  have "held w (srefs w ! j) RETAIN"
    using count_list_nth [OF assms(3)] by (auto simp: held_def ref_owners_def split: option.splits)
  then have "\<exists>w'. ref_step (Set i (srefs w ! j) RETAIN) w = Inr w' \<and> owned w'"
    using step_set assms by blast
  then show ?thesis
    by (cases "srefs w ! j") (simp_all add: ref_assign_def same_raw)
qed

lemma ref_step_owned:
  assumes "owned w" "disciplined op w" "\<And>a. Suc (ref_owners w a) < 2 ^ 32"
  shows "\<exists>w'. ref_step op w = Inr w' \<and> owned w'"
  using assms
  by (cases op)
     (metis disciplined.simps step_new step_retain step_release step_init step_copy step_move step_destroy
        step_set step_assign)+

subsection \<open>Whole programs\<close>

fun run_refs :: "ref_op list \<Rightarrow> world \<Rightarrow> world result" where
  "run_refs [] w = Inr w"
| "run_refs (op # ops) w = bind_result (ref_step op w) (run_refs ops)"

fun all_disciplined :: "ref_op list \<Rightarrow> world \<Rightarrow> bool" where
  "all_disciplined [] w = True"
| "all_disciplined (op # ops) w =
     (disciplined op w \<and> (case ref_step op w of Inl e \<Rightarrow> True | Inr w' \<Rightarrow> all_disciplined ops w'))"

lemma ref_step_limit:
  assumes "ref_step op w = Inr w'" "disciplined op w"
  shows "ref_owners w' a \<le> Suc (ref_owners w a)"
proof (cases op)
  case (Move i)
  then show ?thesis
    using assms count_list_nth [of i "srefs w"]
    by (auto simp: ref_owners_def ref_move_def count_list_update)
qed (use assms in \<open>auto simp: ref_owners_def ref_init_def ref_copy_def ref_set_def ref_assign_def
      bind_result_def count_list_update count_list_drop_nth split: sum.splits option.splits if_splits\<close>)

text \<open>Claim C6. Code that keeps to the discipline - it touches only objects that have an owner, and
  gives back by hand only what it holds by hand - never touches a deleted object, whatever mix of
  \<open>StrongRef\<close> constructors, copies, moves, assignments (a self-assignment included) and
  destructors it runs; and at its end each object is alive exactly if something still refers to
  it, with the counter equal to the number of its owners.\<close>

theorem strong_ref_safe:
  assumes "owned w" "all_disciplined ops w" "\<And>a. ref_owners w a + length ops < 2 ^ 32"
  shows "\<exists>w'. run_refs ops w = Inr w' \<and>
              (\<forall>a. objs w' a = (if ref_owners w' a = 0 then None else Some (of_nat (ref_owners w' a))))"
proof -
  have count: "objs w a = (if ref_owners w a = 0 then None else Some (of_nat (ref_owners w a)))"
    if "owned w" "ref_owners w a < 2 ^ 32" for w a
  proof -
    have refs: "ref_owners w a = heap_refs (objs w) a"
      using that by (simp add: owned_def)
    have "(0 :: nat) < unat c" if "c \<noteq> 0" for c :: "32 word"
      using that by (simp add: unat_gt_0)
    then show ?thesis
      using that(2) unfolding refs by (cases "objs w a") (auto simp: heap_refs_def split: if_splits)
  qed
  show ?thesis
    using assms
  proof (induction ops arbitrary: w)
    case (Cons op ops)
    have "Suc (ref_owners w a) < 2 ^ 32" for a
      using Cons.prems(3) [of a] by simp
    then obtain w1 where w1: "ref_step op w = Inr w1" "owned w1"
      using ref_step_owned [of w op] Cons.prems(1,2) by auto
    have "ref_owners w1 a + length ops < 2 ^ 32" for a
      using ref_step_limit [OF w1(1), of a] Cons.prems(2) Cons.prems(3) [of a] by simp
    then show ?case
      using Cons.IH [of w1] Cons.prems(2) w1 by simp
  qed (use count in simp)
qed

definition empty_world :: world where
  "empty_world = \<lparr>objs = (\<lambda>_. None), srefs = [], raw = (\<lambda>_. 0)\<rparr>"

definition example_refs :: "ref_op list" where
  "example_refs =
     [New 7, Init (Some 7) NORETAIN, Copy 0, Assign 0 0, Set 1 None RETAIN, Retain 7, Move 0, Destroy 0,
      Release 7, New 8, Set 1 (Some 8) NORETAIN]"

theorem strong_ref_safe_witness:
  "\<exists>w'. run_refs example_refs empty_world = Inr w' \<and>
        (\<forall>a. objs w' a = (if ref_owners w' a = 0 then None else Some (of_nat (ref_owners w' a))))"
proof (rule strong_ref_safe)
  show "owned empty_world"
    by (simp add: owned_def empty_world_def ref_owners_def heap_refs_def fun_eq_iff)
  show "all_disciplined example_refs empty_world"
    by (simp add: example_refs_def empty_world_def ref_owners_def held_def object_new_def ref_init_def
        ref_copy_def ref_assign_def ref_set_def ref_move_def ref_destroy_def retain_def release_def
        drop_nth_def)
  show "ref_owners empty_world a + length example_refs < 2 ^ 32" for a
    by (simp add: empty_world_def ref_owners_def example_refs_def)
qed

end
