(* ===== verification/Registry.thy ===== *)
theory Registry
  imports LoveTypes Objects
begin

text \<open>
  The object glue between the engine and its script machine
  (\<^verbatim>\<open>src/src/lh/lh.cpp\<close>, \<^verbatim>\<open>lh.h\<close>): the registry that pairs every \<^verbatim>\<open>love::Type\<close> with a
  hostdata tag, the wrapping of an object (\<open>pushObject\<close>), the check a binding makes
  of its argument (\<open>checkObject\<close>) and the members every object answers (\<open>dispose\<close>,
  \<open>type\<close>, \<open>typeOf\<close>).

  The machine is a library of its own: what the glue calls of it is the record
  \<open>lhat_api\<close>, a parameter of the definitions.
\<close>

section \<open>The registry\<close>

text \<open>
  \<^verbatim>\<open>tags\<close> is an ordered map keyed by the address of a type object; a type is its
  index here, so the indices stand in the order of the addresses.
\<close>

record 'tag registry =
  tags :: "(nat \<times> 'tag) list"
  typs :: "'tag \<Rightarrow> nat option"

fun tags_put :: "nat \<Rightarrow> 'tag \<Rightarrow> (nat \<times> 'tag) list \<Rightarrow> (nat \<times> 'tag) list" where
  "tags_put t tag [] = [(t, tag)]"
| "tags_put t tag ((s, u) # rest) =
     (if t < s then (t, tag) # (s, u) # rest
      else if t = s then (t, tag) # rest
      else (s, u) # tags_put t tag rest)"

definition registry_add :: "nat \<Rightarrow> 'tag \<Rightarrow> 'tag registry \<Rightarrow> 'tag registry" where
  "registry_add t tag reg = reg\<lparr>tags := tags_put t tag (tags reg), typs := (typs reg)(tag \<mapsto> t)\<rparr>"

definition typeFor :: "'tag registry \<Rightarrow> 'tag \<Rightarrow> nat option" where
  "typeFor reg tag = typs reg tag"

text \<open>The loop of \<open>tagFor\<close>, over the test it makes of two types.\<close>

type_synonym 'w test = "'w \<Rightarrow> nat \<Rightarrow> nat \<Rightarrow> ('w \<times> bool) result"

fun tag_search ::
  "'w test \<Rightarrow> 'w \<Rightarrow> nat \<Rightarrow> (nat \<times> 'tag) list \<Rightarrow> (nat \<times> 'tag) option \<Rightarrow> ('w \<times> 'tag option) result" where
  "tag_search isa w t [] best = Inr (w, map_option snd best)"
| "tag_search isa w t ((s, tag) # rest) best =
     bind_result (isa w t s) (\<lambda>(w, m).
       if \<not> m then tag_search isa w t rest best
       else case best of
              None \<Rightarrow> tag_search isa w t rest (Some (s, tag))
            | Some (b, btag) \<Rightarrow>
                bind_result (isa w s b) (\<lambda>(w, n).
                  tag_search isa w t rest (if n then Some (s, tag) else best)))"

definition tagFor :: "types_state \<Rightarrow> 'tag registry \<Rightarrow> nat \<Rightarrow> (types_state \<times> 'tag option) result" where
  "tagFor w reg t =
     (case map_of (tags reg) t of
        Some tag \<Rightarrow> Inr (w, Some tag)
      | None \<Rightarrow> tag_search type_isa w t (tags reg) None)"

section \<open>The contract of the type test\<close>

locale type_test =
  fixes isa :: "'w test"
    and ok :: "'w \<Rightarrow> bool"
    and valid :: "nat \<Rightarrow> bool"
    and anc :: "nat \<Rightarrow> nat set"
  assumes test: "ok w \<Longrightarrow> valid t \<Longrightarrow> valid s \<Longrightarrow> \<exists>w'. isa w t s = Inr (w', s \<in> anc t) \<and> ok w'"
    and anc_refl: "t \<in> anc t"
    and anc_chain: "a \<in> anc t \<Longrightarrow> b \<in> anc t \<Longrightarrow> a \<in> anc b \<or> b \<in> anc a"
    and anc_trans: "b \<in> anc a \<Longrightarrow> c \<in> anc b \<Longrightarrow> c \<in> anc a"
begin

definition nearest_in :: "(nat \<times> 'tag) list \<Rightarrow> nat \<Rightarrow> (nat \<times> 'tag) option \<Rightarrow> bool" where
  "nearest_in es t best =
     (case best of
        None \<Rightarrow> fst ` set es \<inter> anc t = {}
      | Some (s, tag) \<Rightarrow> (s, tag) \<in> set es \<and> s \<in> anc t \<and> fst ` set es \<inter> anc t \<subseteq> anc s)"

lemma nearest_more:
  assumes "nearest_in es t best"
  shows "s \<notin> anc t \<Longrightarrow> nearest_in (es @ [(s, tag)]) t best"
    and "s \<in> anc t \<Longrightarrow> best = None \<Longrightarrow> nearest_in (es @ [(s, tag)]) t (Some (s, tag))"
    and "s \<in> anc t \<Longrightarrow> best = Some (b, btag) \<Longrightarrow> b \<in> anc s \<Longrightarrow> nearest_in (es @ [(s, tag)]) t (Some (s, tag))"
    and "s \<in> anc t \<Longrightarrow> best = Some (b, btag) \<Longrightarrow> b \<notin> anc s \<Longrightarrow> nearest_in (es @ [(s, tag)]) t best"
proof -
  show "s \<in> anc t \<Longrightarrow> best = Some (b, btag) \<Longrightarrow> b \<notin> anc s \<Longrightarrow> nearest_in (es @ [(s, tag)]) t best"
    using assms anc_chain [of s t b] by (auto simp: nearest_in_def split: option.splits)
  show "s \<in> anc t \<Longrightarrow> best = Some (b, btag) \<Longrightarrow> b \<in> anc s \<Longrightarrow> nearest_in (es @ [(s, tag)]) t (Some (s, tag))"
    using assms anc_refl [of s] anc_trans [of b s] by (force simp: nearest_in_def)
qed (use assms anc_refl in \<open>auto simp: nearest_in_def split: option.splits\<close>)

lemma tag_search_nearest:
  assumes "ok w" "valid t" "\<And>s tag. (s, tag) \<in> set (seen @ rest) \<Longrightarrow> valid s" "nearest_in seen t best"
  shows "\<exists>w' best'. tag_search isa w t rest best = Inr (w', map_option snd best') \<and> ok w' \<and>
           nearest_in (seen @ rest) t best'"
  using assms
proof (induction rest arbitrary: w seen best)
  case (Cons e rest)
  obtain s tag where e: "e = (s, tag)"
    by (cases e)
  have s: "valid s"
    using Cons.prems(3) [of s tag] e by simp
  obtain w1 where w1: "isa w t s = Inr (w1, s \<in> anc t)" "ok w1"
    using test Cons.prems(1,2) s by blast
  have go: "\<exists>w' best'. tag_search isa v t rest best2 = Inr (w', map_option snd best') \<and> ok w' \<and>
           nearest_in (seen @ e # rest) t best'" if "ok v" "nearest_in (seen @ [(s, tag)]) t best2" for v best2
    using Cons.IH [of v "seen @ [(s, tag)]" best2] that Cons.prems(2,3) e by auto
  show ?case
  proof (cases "s \<in> anc t")
    case False
    then show ?thesis
      using go [OF w1(2) nearest_more(1) [OF Cons.prems(4) False]] w1 e by simp
  next
    case m: True
    show ?thesis
    proof (cases best)
      case None
      then show ?thesis
        using go [OF w1(2) nearest_more(2) [OF Cons.prems(4) m None]] w1 e m by simp
    next
      case (Some c)
      obtain b btag where b: "best = Some (b, btag)"
        using Some by (cases c) auto
      have "valid b"
        using Cons.prems(3,4) b by (auto simp: nearest_in_def)
      then obtain w2 where w2: "isa w1 s b = Inr (w2, b \<in> anc s)" "ok w2"
        using test w1(2) s by blast
      show ?thesis
        using go [OF w2(2) nearest_more(3) [OF Cons.prems(4) m b]]
          go [OF w2(2) nearest_more(4) [OF Cons.prems(4) m b]] w1 w2 e m b
        by (cases "b \<in> anc s") simp_all
    qed
  qed
qed auto

end

definition types_ok :: "types_state \<Rightarrow> types_state \<Rightarrow> bool" where
  "types_ok w0 w \<longleftrightarrow> types_inv {} w \<and> same_decls w0 w \<and> length (tys w0) < MAX_TYPES"

lemma ancestors_trans: "b \<in> ancestors w a \<Longrightarrow> c \<in> ancestors w b \<Longrightarrow> c \<in> ancestors w a"
  by (auto simp: ancestors_def)

lemma ancestors_chain:
  assumes "a \<in> ancestors w t" "b \<in> ancestors w t"
  shows "a \<in> ancestors w b \<or> b \<in> ancestors w a"
proof -
  have "single_valued (parent_rel w)"
    by (auto simp: single_valued_def parent_rel_def)
  then show ?thesis
    using assms single_valued_confluent [of "parent_rel w" t a b] by (auto simp: ancestors_def)
qed

interpretation hierarchy: type_test type_isa "types_ok w0" "\<lambda>t. t < length (tys w0)" "ancestors w0" for w0
proof unfold_locales
  fix w t s
  assume ok: "types_ok w0 w" and t: "t < length (tys w0)" "s < length (tys w0)"
  then have same: "same_decls w0 w" "types_inv {} w"
    by (simp_all add: types_ok_def)
  have "\<exists>w'. type_isa w t s = Inr (w', s \<in> ancestors w t) \<and> types_inv {} w' \<and> same_decls w w'"
    using same ok t by (intro type_isa_total) (auto simp: types_ok_def same_declsD)
  then show "\<exists>w'. type_isa w t s = Inr (w', s \<in> ancestors w0 t) \<and> types_ok w0 w'"
    using ok same same_decls_trans by (auto simp: types_ok_def same_decls_ancestors)
qed (auto intro: ancestors_trans dest: ancestors_chain)

text \<open>Claim C29. The tag of a type is the tag registered for its nearest ancestor, itself included:
  every registered ancestor of the type is an ancestor of the one chosen, whatever order the
  registry iterates in; there is no tag only if no ancestor is registered.\<close>

theorem tagFor_nearest:
  assumes "types_inv {} w" "length (tys w) < MAX_TYPES" "t < length (tys w)"
    "\<forall>s \<in> fst ` set (tags reg). s < length (tys w)" "distinct (map fst (tags reg))"
  shows "\<exists>w' best. tagFor w reg t = Inr (w', best) \<and> types_inv {} w' \<and> same_decls w w' \<and>
     (case best of
        None \<Rightarrow> \<forall>s \<in> fst ` set (tags reg). s \<notin> ancestors w t
      | Some tag \<Rightarrow> \<exists>s. map_of (tags reg) s = Some tag \<and> s \<in> ancestors w t \<and>
          (\<forall>r \<in> fst ` set (tags reg). r \<in> ancestors w t \<longrightarrow> r \<in> ancestors w s))"
proof (cases "map_of (tags reg) t")
  case (Some tag)
  then show ?thesis
    using assms(1) by (auto simp: tagFor_def)
next
  case None
  have "types_ok w w"
    using assms by (simp add: types_ok_def)
  moreover have "hierarchy.nearest_in w [] t None"
    by (simp add: hierarchy.nearest_in_def)
  ultimately obtain w' best where "tag_search type_isa w t (tags reg) None = Inr (w', map_option snd best)"
    "types_ok w w'" "hierarchy.nearest_in w (tags reg) t best"
    using hierarchy.tag_search_nearest [of w w t "[]" "tags reg" None] assms(3,4) by force
  then show ?thesis
    using None assms(5)
    by (auto simp: tagFor_def types_ok_def hierarchy.nearest_in_def split: option.splits)
qed

section \<open>Wrapping an object\<close>

text \<open>
  What the glue reads of a hostdata value: its tag, the pointer it carries and
  whether the machine has released it.
\<close>

record 'tag hostdata =
  hd_tag :: 'tag
  hd_pointer :: "address option"
  hd_released :: bool

text \<open>The machine's own functions, each named after the one it stands for.\<close>

record ('m, 'v, 'tag) lhat_api =
  lhat_nil :: 'v
  lhat_bool :: "bool \<Rightarrow> 'v"
  hostdata_at :: "'m \<Rightarrow> 'v \<Rightarrow> 'tag hostdata option"
  clear_pointer :: "'m \<Rightarrow> 'v \<Rightarrow> 'm"
  weak_cache_get :: "'m \<Rightarrow> address \<Rightarrow> 'm \<times> 'v"
  weak_cache_put :: "'m \<Rightarrow> address \<Rightarrow> 'v \<Rightarrow> 'm"
  weak_cache_forget :: "'m \<Rightarrow> address \<Rightarrow> 'm"
  make_hostdata :: "'m \<Rightarrow> 'tag \<Rightarrow> address \<Rightarrow> ('m \<times> 'v) option"
  make_string :: "'m \<Rightarrow> string \<Rightarrow> ('m \<times> 'v) option"
  string_of :: "'m \<Rightarrow> 'v \<Rightarrow> string option"
  tag_name :: "'tag \<Rightarrow> string"

text \<open>The state the glue works on: the machine, the engine's objects and its types.\<close>

record 'm glue =
  machine :: 'm
  gheap :: heap
  gtypes :: types_state

definition pushObject ::
  "('m, 'v, 'tag) lhat_api \<Rightarrow> 'tag registry \<Rightarrow> nat \<Rightarrow> address option \<Rightarrow> 'm glue \<Rightarrow> ('m glue \<times> 'v) result" where
  "pushObject api reg t obj g =
     (case obj of
        None \<Rightarrow> Inr (g, lhat_nil api)
      | Some a \<Rightarrow>
          let (m, known) = weak_cache_get api (machine g) a; g = g\<lparr>machine := m\<rparr>
          in if known \<noteq> lhat_nil api then Inr (g, known)
             else bind_result (tagFor (gtypes g) reg t) (\<lambda>(w, tag).
               let g = g\<lparr>gtypes := w\<rparr>
               in case tag of
                    None \<Rightarrow> Inr (g, lhat_nil api)
                  | Some tag \<Rightarrow>
                      (case make_hostdata api (machine g) tag a of
                         None \<Rightarrow> Inr (g, lhat_nil api)
                       | Some (m, v) \<Rightarrow>
                           bind_result (retain a (gheap g)) (\<lambda>h.
                             Inr (g\<lparr>machine := weak_cache_put api m a v, gheap := h\<rparr>, v)))))"

definition checkObject ::
  "('m, 'v, 'tag) lhat_api \<Rightarrow> 'tag registry \<Rightarrow> 'v \<Rightarrow> nat \<Rightarrow> 'm glue \<Rightarrow> ('m glue \<times> address option) result" where
  "checkObject api reg v t g =
     (case hostdata_at api (machine g) v of
        None \<Rightarrow> Inr (g, None)
      | Some d \<Rightarrow>
          if hd_released d \<or> hd_pointer d = None then Inr (g, None)
          else case typeFor reg (hd_tag d) of
                 None \<Rightarrow> Inr (g, None)
               | Some own \<Rightarrow>
                   bind_result (type_isa (gtypes g) own t) (\<lambda>(w, m).
                     Inr (g\<lparr>gtypes := w\<rparr>, if \<not> m then None else hd_pointer d)))"

text \<open>The members every object answers; an answer of \<^verbatim>\<open>None\<close> is a call that answers nothing.\<close>

definition lh_object_dispose ::
  "('m, 'v, 'tag) lhat_api \<Rightarrow> 'v list \<Rightarrow> 'm glue \<Rightarrow> 'm glue result" where
  "lh_object_dispose api args g =
     (case args of
        [] \<Rightarrow> Inr g
      | v # _ \<Rightarrow>
          (case hostdata_at api (machine g) v of
             None \<Rightarrow> Inr g
           | Some d \<Rightarrow>
               (case hd_pointer d of
                  None \<Rightarrow> Inr g
                | Some a \<Rightarrow>
                    let m = weak_cache_forget api (machine g) a
                    in bind_result (release a (gheap g)) (\<lambda>h.
                         Inr (g\<lparr>machine := clear_pointer api m v, gheap := h\<rparr>)))))"

definition lh_object_type ::
  "('m, 'v, 'tag) lhat_api \<Rightarrow> 'v list \<Rightarrow> 'm glue \<Rightarrow> 'm glue \<times> 'v" where
  "lh_object_type api args g =
     (case args of
        [] \<Rightarrow> (g, lhat_nil api)
      | v # _ \<Rightarrow>
          (case hostdata_at api (machine g) v of
             None \<Rightarrow> (g, lhat_nil api)
           | Some d \<Rightarrow>
               (case make_string api (machine g) (tag_name api (hd_tag d)) of
                  None \<Rightarrow> (g, lhat_nil api)
                | Some (m, s) \<Rightarrow> (g\<lparr>machine := m\<rparr>, s))))"

definition lh_object_typeOf ::
  "('m, 'v, 'tag) lhat_api \<Rightarrow> 'tag registry \<Rightarrow> 'v list \<Rightarrow> 'm glue \<Rightarrow> ('m glue \<times> 'v) result" where
  "lh_object_typeOf api reg args g =
     (case args of
        v # n # _ \<Rightarrow>
          (case hostdata_at api (machine g) v of
             None \<Rightarrow> Inr (g, lhat_bool api False)
           | Some d \<Rightarrow>
               (case string_of api (machine g) n of
                  None \<Rightarrow> Inr (g, lhat_bool api False)
                | Some name \<Rightarrow>
                    (case (typeFor reg (hd_tag d), type_byName (gtypes g) (c_string name)) of
                       (Some own, Some asked) \<Rightarrow>
                         bind_result (type_isa (gtypes g) own asked) (\<lambda>(w, m).
                           Inr (g\<lparr>gtypes := w\<rparr>, lhat_bool api m))
                     | _ \<Rightarrow> Inr (g, lhat_bool api False))))
      | _ \<Rightarrow> Inr (g, lhat_bool api False))"

definition lh_object_retain :: "address \<Rightarrow> 'm glue \<Rightarrow> 'm glue result" where
  "lh_object_retain a g = bind_result (retain a (gheap g)) (\<lambda>h. Inr (g\<lparr>gheap := h\<rparr>))"

definition lh_object_let_go :: "address \<Rightarrow> 'm glue \<Rightarrow> 'm glue result" where
  "lh_object_let_go a g = bind_result (release a (gheap g)) (\<lambda>h. Inr (g\<lparr>gheap := h\<rparr>))"

section \<open>The life of a wrapper\<close>

text \<open>What the machine documents of those functions, as far as the glue relies on it.\<close>

definition lhat_laws :: "('m, 'v, 'tag) lhat_api \<Rightarrow> bool" where
  "lhat_laws api \<longleftrightarrow>
     (\<forall>m tag a m' v. make_hostdata api m tag a = Some (m', v) \<longrightarrow>
        v \<noteq> lhat_nil api \<and> hostdata_at api m' v = Some \<lparr>hd_tag = tag, hd_pointer = Some a, hd_released = False\<rparr>) \<and>
     (\<forall>m a v. hostdata_at api (weak_cache_put api m a v) = hostdata_at api m) \<and>
     (\<forall>m a. hostdata_at api (weak_cache_forget api m a) = hostdata_at api m) \<and>
     (\<forall>m a v. snd (weak_cache_get api (weak_cache_put api m a v) a) \<in> {v, lhat_nil api}) \<and>
     (\<forall>m a v. snd (weak_cache_get api (clear_pointer api (weak_cache_forget api m a) v) a) = lhat_nil api) \<and>
     (\<forall>m v d. hostdata_at api m v = Some d \<longrightarrow>
        hostdata_at api (clear_pointer api m v) v = Some (d\<lparr>hd_pointer := None\<rparr>))"

text \<open>The two maps of the registry agree, and name types that exist.\<close>

definition reg_ok :: "types_state \<Rightarrow> 'tag registry \<Rightarrow> bool" where
  "reg_ok w reg \<longleftrightarrow>
     distinct (map fst (tags reg)) \<and>
     (\<forall>(s, tag) \<in> set (tags reg). s < length (tys w) \<and> typs reg tag = Some s) \<and>
     (\<forall>tag s. typs reg tag = Some s \<longrightarrow> s < length (tys w))"

lemma map_of_tags_put: "map_of (tags_put t tag xs) = (map_of xs)(t \<mapsto> tag)" if "sorted (map fst xs)"
  using that by (induction t tag xs rule: tags_put.induct) (auto simp: fun_eq_iff map_of_eq_None_iff)

definition nearest_tag :: "types_state \<Rightarrow> 'tag registry \<Rightarrow> nat \<Rightarrow> nat \<Rightarrow> 'tag \<Rightarrow> bool" where
  "nearest_tag w reg t s tag \<longleftrightarrow> (s, tag) \<in> set (tags reg) \<and> s \<in> ancestors w t \<and>
     (\<forall>r \<in> fst ` set (tags reg). r \<in> ancestors w t \<longrightarrow> r \<in> ancestors w s)"

lemma tagFor_some:
  assumes "types_ok w0 w" "reg_ok w reg" "t < length (tys w)" "tagFor w reg t = Inr (w', Some tag)"
  shows "types_ok w0 w' \<and> (\<exists>s. nearest_tag w reg t s tag)"
proof (cases "map_of (tags reg) t")
  case (Some u)
  have "r \<in> ancestors w t" if "r \<in> ancestors w t" for r
    using that .
  then show ?thesis
    using Some assms by (auto simp: tagFor_def nearest_tag_def dest: map_of_SomeD intro!: exI [of _ t])
next
  case None
  have "types_ok w w"
    using assms(1) by (auto simp: types_ok_def same_declsD)
  moreover have "hierarchy.nearest_in w [] t None"
    by (simp add: hierarchy.nearest_in_def)
  ultimately obtain w2 best where "tag_search type_isa w t (tags reg) None = Inr (w2, map_option snd best)"
    "types_ok w w2" "hierarchy.nearest_in w (tags reg) t best"
    using hierarchy.tag_search_nearest [of w w t "[]" "tags reg" None] assms(2,3)
    by (force simp: reg_ok_def)
  moreover from this obtain n where "best = Some (n, tag)"
    using None assms(4) by (cases best) (auto simp: tagFor_def)
  ultimately have "nearest_tag w reg t n tag" "w2 = w'"
    using None assms(4)
    by (auto simp: tagFor_def hierarchy.nearest_in_def nearest_tag_def)
  then show ?thesis
    using \<open>types_ok w w2\<close> assms(1) same_decls_trans by (auto simp: types_ok_def)
qed

lemma checkObject_live:
  assumes "types_ok w0 (gtypes g)" "reg_ok (gtypes g) reg" "s < length (tys (gtypes g))"
    "hostdata_at api (machine g) v = Some \<lparr>hd_tag = tag, hd_pointer = Some a, hd_released = False\<rparr>"
    "(n, tag) \<in> set (tags reg)"
  shows "\<exists>g'. checkObject api reg v s g = Inr (g', if s \<in> ancestors (gtypes g) n then Some a else None)"
proof -
  have n: "typs reg tag = Some n" "n < length (tys (gtypes g))"
    using assms(2,5) by (auto simp: reg_ok_def)
  then obtain w' where "type_isa (gtypes g) n s = Inr (w', s \<in> ancestors (gtypes g) n)"
    using type_isa_total [of "gtypes g" n s] assms(1,3) by (auto simp: types_ok_def same_declsD)
  then show ?thesis
    using assms(4) n by (simp add: checkObject_def typeFor_def)
qed

lemma lh_object_dispose_live:
  assumes "lhat_laws api" "hostdata_at api (machine g) v = Some d" "hd_pointer d = Some a"
    "0 < heap_refs (gheap g) a"
  shows "\<exists>g'. lh_object_dispose api (v # args) g = Inr g' \<and>
    heap_refs (gheap g') = (heap_refs (gheap g))(a := heap_refs (gheap g) a - 1) \<and> gtypes g' = gtypes g \<and>
    hostdata_at api (machine g') v = Some (d\<lparr>hd_pointer := None\<rparr>) \<and>
    snd (weak_cache_get api (machine g') a) = lhat_nil api"
proof -
  obtain h where "release a (gheap g) = Inr h" "heap_refs h = (heap_refs (gheap g))(a := heap_refs (gheap g) a - 1)"
    using counter.give_owned [OF assms(4)] by blast
  then show ?thesis
    using assms by (auto simp: lh_object_dispose_def lhat_laws_def Let_def)
qed

lemma pushObject_fresh:
  assumes laws: "lhat_laws api" and types: "types_ok w0 (gtypes g)" "reg_ok (gtypes g) reg" "t < length (tys (gtypes g))"
    and alive: "0 < heap_refs (gheap g) a" "Suc (heap_refs (gheap g) a) < 2 ^ 32"
    and fresh: "snd (weak_cache_get api (machine g) a) = lhat_nil api"
    and push: "pushObject api reg t (Some a) g = Inr (g1, v)" "v \<noteq> lhat_nil api"
  shows "heap_refs (gheap g1) = (heap_refs (gheap g))(a := Suc (heap_refs (gheap g) a)) \<and>
    types_ok w0 (gtypes g1) \<and> snd (weak_cache_get api (machine g1) a) \<in> {v, lhat_nil api} \<and>
    (\<exists>n tag. nearest_tag (gtypes g) reg t n tag \<and>
       hostdata_at api (machine g1) v = Some \<lparr>hd_tag = tag, hd_pointer = Some a, hd_released = False\<rparr>)"
proof -
  obtain m where m: "weak_cache_get api (machine g) a = (m, lhat_nil api)"
    using fresh by (cases "weak_cache_get api (machine g) a") auto
  obtain w tag where w: "tagFor (gtypes g) reg t = Inr (w, Some tag)"
    using push m by (cases "tagFor (gtypes g) reg t") (auto simp: pushObject_def Let_def split: option.splits)
  obtain m' where m': "make_hostdata api m tag a = Some (m', v)"
    using push m w by (auto simp: pushObject_def Let_def bind_result_def split: option.splits sum.splits)
  obtain h where h: "retain a (gheap g) = Inr h" "heap_refs h = (heap_refs (gheap g))(a := Suc (heap_refs (gheap g) a))"
    using counter.take_alive alive by blast
  have "g1 = g\<lparr>machine := weak_cache_put api m' a v, gheap := h, gtypes := w\<rparr>"
    using push m w m' h by (auto simp: pushObject_def Let_def)
  then show ?thesis
    using tagFor_some [OF types w] laws m' h(2) by (auto simp: lhat_laws_def)
qed

text \<open>Claim C8. The life of a wrapper. Pushing an object the machine has no wrapper for takes one
  reference; the wrapper then passes the check for exactly the types that its nearest registered
  type is or derives from; disposing of it gives the one reference back, after which the check
  refuses it, the machine no longer answers it for that object, and disposing of it again does
  nothing.\<close>

theorem wrapper_lifecycle:
  assumes "lhat_laws api" "types_ok w0 (gtypes g)" "reg_ok (gtypes g) reg"
    "t < length (tys (gtypes g))" "s < length (tys (gtypes g))"
    "0 < heap_refs (gheap g) a" "Suc (heap_refs (gheap g) a) < 2 ^ 32"
    "snd (weak_cache_get api (machine g) a) = lhat_nil api"
    "pushObject api reg t (Some a) g = Inr (g1, v)" "v \<noteq> lhat_nil api"
  shows "heap_refs (gheap g1) = (heap_refs (gheap g))(a := Suc (heap_refs (gheap g) a)) \<and>
    (\<exists>n tag g2 g3. nearest_tag (gtypes g) reg t n tag \<and>
       checkObject api reg v s g1 = Inr (g2, if s \<in> ancestors (gtypes g) n then Some a else None) \<and>
       lh_object_dispose api [v] g1 = Inr g3 \<and> heap_refs (gheap g3) = heap_refs (gheap g) \<and>
       checkObject api reg v s g3 = Inr (g3, None) \<and>
       snd (weak_cache_get api (machine g3) a) = lhat_nil api \<and>
       lh_object_dispose api [v] g3 = Inr g3)"
proof -
  note push = pushObject_fresh [OF assms(1-4,6-10)]
  then obtain n tag where n: "nearest_tag (gtypes g) reg t n tag"
    and hd: "hostdata_at api (machine g1) v = Some \<lparr>hd_tag = tag, hd_pointer = Some a, hd_released = False\<rparr>"
    by blast
  have same: "same_decls w0 (gtypes g)" "same_decls w0 (gtypes g1)"
    using push assms(2) by (auto simp: types_ok_def)
  then have anc: "ancestors (gtypes g1) = ancestors (gtypes g)" and len: "length (tys (gtypes g1)) = length (tys (gtypes g))"
    by (auto simp: fun_eq_iff same_decls_ancestors same_declsD)
  have "reg_ok (gtypes g1) reg" "(n, tag) \<in> set (tags reg)"
    using assms(3) n len by (auto simp: reg_ok_def nearest_tag_def)
  then obtain g2 where g2: "checkObject api reg v s g1 = Inr (g2, if s \<in> ancestors (gtypes g) n then Some a else None)"
    using checkObject_live [of w0 g1 reg s api v tag a n] push hd assms(5) anc len by auto
  obtain g3 where g3: "lh_object_dispose api [v] g1 = Inr g3"
    "heap_refs (gheap g3) = (heap_refs (gheap g1))(a := heap_refs (gheap g1) a - 1)"
    "hostdata_at api (machine g3) v = Some \<lparr>hd_tag = tag, hd_pointer = None, hd_released = False\<rparr>"
    "snd (weak_cache_get api (machine g3) a) = lhat_nil api"
    using lh_object_dispose_live [OF assms(1) hd, of a "[]"] push by auto
  have "checkObject api reg v s g3 = Inr (g3, None)" "lh_object_dispose api [v] g3 = Inr g3"
    using g3(3) by (simp_all add: checkObject_def lh_object_dispose_def)
  moreover have "heap_refs (gheap g3) = heap_refs (gheap g)"
    using g3(2) push by (auto simp: fun_eq_iff)
  ultimately show ?thesis
    using push n g2 g3 by blast
qed

text \<open>A small machine to run the glue on: its values are nil, a boolean, a text and a hostdata.\<close>

datatype toy_value = TNil | TBool bool | TStr string | THost nat

record toy_machine =
  hosts :: "string hostdata list"
  cache :: "address \<Rightarrow> toy_value option"

definition toy_api :: "(toy_machine, toy_value, string) lhat_api" where
  "toy_api = \<lparr>lhat_nil = TNil, lhat_bool = TBool,
     hostdata_at = (\<lambda>m v. case v of THost i \<Rightarrow> if i < length (hosts m) then Some (hosts m ! i) else None | _ \<Rightarrow> None),
     clear_pointer = (\<lambda>m v. case v of THost i \<Rightarrow> m\<lparr>hosts := (hosts m)[i := (hosts m ! i)\<lparr>hd_pointer := None\<rparr>]\<rparr> | _ \<Rightarrow> m),
     weak_cache_get = (\<lambda>m a. (m, case cache m a of Some v \<Rightarrow> v | None \<Rightarrow> TNil)),
     weak_cache_put = (\<lambda>m a v. m\<lparr>cache := (cache m)(a \<mapsto> v)\<rparr>),
     weak_cache_forget = (\<lambda>m a. m\<lparr>cache := (cache m)(a := None)\<rparr>),
     make_hostdata = (\<lambda>m tag a. Some (m\<lparr>hosts := hosts m @ [\<lparr>hd_tag = tag, hd_pointer = Some a, hd_released = False\<rparr>]\<rparr>,
                                   THost (length (hosts m)))),
     make_string = (\<lambda>m s. Some (m, TStr s)),
     string_of = (\<lambda>m v. case v of TStr s \<Rightarrow> Some s | _ \<Rightarrow> None),
     tag_name = (\<lambda>t. t)\<rparr>"

lemma toy_laws: "lhat_laws toy_api"
  by (auto simp: lhat_laws_def toy_api_def split: toy_value.splits if_splits)

definition toy_registry :: "string registry" where
  "toy_registry = registry_add 1 ''love.Drawable'' (registry_add 0 ''love.Object'' \<lparr>tags = [], typs = (\<lambda>_. None)\<rparr>)"

definition toy_glue :: "toy_machine glue" where
  "toy_glue = \<lparr>machine = \<lparr>hosts = [], cache = (\<lambda>_. None)\<rparr>, gheap = object_new 7 (\<lambda>_. None), gtypes = example_types\<rparr>"

definition toy_pushed :: "toy_machine glue" where
  "toy_pushed = (case pushObject toy_api toy_registry 2 (Some 7) toy_glue of Inr (g, v) \<Rightarrow> g | Inl e \<Rightarrow> toy_glue)"

lemma toy_push: "pushObject toy_api toy_registry 2 (Some 7) toy_glue = Inr (toy_pushed, THost 0)"
  by (simp add: toy_pushed_def pushObject_def toy_api_def toy_glue_def toy_registry_def registry_add_def
      tagFor_def type_isa_def ensure_init_def type_init.simps example_types_def initial_types_def mk_type_def
      enter_type_def join_parent_def set_type_def MAX_TYPES_def Let_def retain_def object_new_def bit_simps)

theorem wrapper_lifecycle_witness:
  "heap_refs (gheap toy_pushed) = (heap_refs (gheap toy_glue))(7 := Suc (heap_refs (gheap toy_glue) 7)) \<and>
    (\<exists>n tag g2 g3. nearest_tag (gtypes toy_glue) toy_registry 2 n tag \<and>
       checkObject toy_api toy_registry (THost 0) 0 toy_pushed =
         Inr (g2, if 0 \<in> ancestors (gtypes toy_glue) n then Some 7 else None) \<and>
       lh_object_dispose toy_api [THost 0] toy_pushed = Inr g3 \<and>
       heap_refs (gheap g3) = heap_refs (gheap toy_glue) \<and>
       checkObject toy_api toy_registry (THost 0) 0 g3 = Inr (g3, None) \<and>
       snd (weak_cache_get toy_api (machine g3) 7) = lhat_nil toy_api \<and>
       lh_object_dispose toy_api [THost 0] g3 = Inr g3)"
proof (rule wrapper_lifecycle [OF toy_laws _ _ _ _ _ _ _ toy_push])
  show "types_ok example_types (gtypes toy_glue)"
    using example_types_inv by (simp add: types_ok_def toy_glue_def example_types_def initial_types_def MAX_TYPES_def)
qed (simp_all add: reg_ok_def toy_registry_def registry_add_def toy_glue_def example_types_def initial_types_def
      toy_api_def object_new_def heap_refs_def)

theorem tagFor_nearest_witness:
  "\<exists>w' best. tagFor example_types toy_registry 2 = Inr (w', best) \<and> types_inv {} w' \<and> same_decls example_types w' \<and>
     (case best of
        None \<Rightarrow> \<forall>s \<in> fst ` set (tags toy_registry). s \<notin> ancestors example_types 2
      | Some tag \<Rightarrow> \<exists>s. map_of (tags toy_registry) s = Some tag \<and> s \<in> ancestors example_types 2 \<and>
          (\<forall>r \<in> fst ` set (tags toy_registry). r \<in> ancestors example_types 2 \<longrightarrow> r \<in> ancestors example_types s))"
  by (rule tagFor_nearest)
     (use example_types_inv in \<open>simp_all add: example_types_def initial_types_def MAX_TYPES_def
        toy_registry_def registry_add_def\<close>)

end
