(* ===== verification/HashFunction.thy ===== *)
theory HashFunction
  imports Prelude Complex_Main
begin

text \<open>
  The message digests of \<^verbatim>\<open>src/src/modules/data/HashFunction.cpp\<close>: MD5, SHA-1, SHA-224,
  SHA-256, SHA-384 and SHA-512, each on machine words of its width, with the
  padding buffer, the message schedule and the rounds as the code has them.

  The digests are instances of one construction, a compression function run
  over the blocks of a padded message; the locale \<^verbatim>\<open>merkle_damgard\<close> states what that
  construction asks of a padding and proves what it gives.
\<close>

section \<open>Helpers\<close>

text \<open>The shift amounts of the code are between 1 and the width minus one.\<close>

definition leftrot :: "uint32 \<Rightarrow> nat \<Rightarrow> uint32" where
  "leftrot x amount = push_bit amount x OR drop_bit (32 - amount) x"

definition rightrot32 :: "uint32 \<Rightarrow> nat \<Rightarrow> uint32" where
  "rightrot32 x amount = drop_bit amount x OR push_bit (32 - amount) x"

definition rightrot64 :: "uint64 \<Rightarrow> nat \<Rightarrow> uint64" where
  "rightrot64 x amount = drop_bit amount x OR push_bit (64 - amount) x"

definition extend_multiple :: "uint64 \<Rightarrow> uint64 \<Rightarrow> uint64" where
  "extend_multiple a n = (let r = a mod n in if r = 0 then a else a + (n - r))"

text \<open>A word of memory on the little-endian machines the file admits.\<close>

fun le32 :: "byte list \<Rightarrow> uint32" where
  "le32 [] = 0"
| "le32 (b # bs) = ucast b OR push_bit 8 (le32 bs)"

fun le64 :: "byte list \<Rightarrow> uint64" where
  "le64 [] = 0"
| "le64 (b # bs) = ucast b OR push_bit 8 (le64 bs)"

definition bytes_le32 :: "uint32 \<Rightarrow> byte list" where
  "bytes_le32 x = map (\<lambda>i. ucast (drop_bit (8 * i) x)) [0..<4]"

definition bytes_be32 :: "uint32 \<Rightarrow> byte list" where
  "bytes_be32 x = [ucast (drop_bit 24 x AND 0xff), ucast (drop_bit 16 x AND 0xff),
                   ucast (drop_bit 8 x AND 0xff), ucast (drop_bit 0 x AND 0xff)]"

definition bytes_be64 :: "uint64 \<Rightarrow> byte list" where
  "bytes_be64 x = [ucast (drop_bit 56 x AND 0xff), ucast (drop_bit 48 x AND 0xff),
                   ucast (drop_bit 40 x AND 0xff), ucast (drop_bit 32 x AND 0xff),
                   ucast (drop_bit 24 x AND 0xff), ucast (drop_bit 16 x AND 0xff),
                   ucast (drop_bit 8 x AND 0xff), ucast (drop_bit 0 x AND 0xff)]"

definition bytes_le64 :: "uint64 \<Rightarrow> byte list" where
  "bytes_le64 x = map (\<lambda>i. ucast (drop_bit (8 * i) x)) [0..<8]"

text \<open>The bit length, written byte by byte from its top.\<close>

definition be_length :: "uint64 \<Rightarrow> byte list" where
  "be_length n = map (\<lambda>i. ucast (drop_bit (56 - i * 8) n AND 0xff)) [0..<8]"

section \<open>The padded message\<close>

text \<open>
  The buffer: the message, the appended bit, zeros, and the eight bytes of the
  length in bits at its very end. \<^verbatim>\<open>field\<close> is what the algorithm reserves for the
  length (eight bytes, or sixteen of which only the last eight are written). All
  sizes are 64-bit, so a length close to \<open>2 ^ 64\<close> wraps and the copy leaves the
  buffer.
\<close>

definition pad_message :: "uint64 \<Rightarrow> uint64 \<Rightarrow> (uint64 \<Rightarrow> byte list) \<Rightarrow> byte list \<Rightarrow> byte list result" where
  "pad_message block field enc input =
     (let len = of_nat (length input) :: uint64;
          padded_length = unat (extend_multiple (len + 1 + field) block)
      in if length input \<ge> 2 ^ 64 \<or> padded_length \<le> length input \<or> padded_length < 8
         then Inl (Undefined_behaviour ''padding buffer overrun'')
         else
           let buf = input @ replicate (padded_length - length input) 0;
               buf = buf[length input := 0x80];
               bit_length = len * 8
           in Inr (take (padded_length - 8) buf @ enc bit_length))"

section \<open>Which function a digest serves\<close>

datatype hash_function = FUNCTION_MD5 | FUNCTION_SHA1 | FUNCTION_SHA224 | FUNCTION_SHA256 |
  FUNCTION_SHA384 | FUNCTION_SHA512 | FUNCTION_MAX_ENUM

section \<open>MD5\<close>

type_synonym md5_state = "uint32 \<times> uint32 \<times> uint32 \<times> uint32"

definition md5_isSupported :: "hash_function \<Rightarrow> bool" where
  "md5_isSupported f \<longleftrightarrow> f = FUNCTION_MD5"

definition md5_shifts :: "nat list" where
  "md5_shifts =
     [7, 12, 17, 22, 7, 12, 17, 22, 7, 12, 17, 22, 7, 12, 17, 22,
      5, 9, 14, 20, 5, 9, 14, 20, 5, 9, 14, 20, 5, 9, 14, 20,
      4, 11, 16, 23, 4, 11, 16, 23, 4, 11, 16, 23, 4, 11, 16, 23,
      6, 10, 15, 21, 6, 10, 15, 21, 6, 10, 15, 21, 6, 10, 15, 21]"

definition md5_constants :: "uint32 list" where
  "md5_constants =
     [0xd76aa478, 0xe8c7b756, 0x242070db, 0xc1bdceee,
      0xf57c0faf, 0x4787c62a, 0xa8304613, 0xfd469501,
      0x698098d8, 0x8b44f7af, 0xffff5bb1, 0x895cd7be,
      0x6b901122, 0xfd987193, 0xa679438e, 0x49b40821,
      0xf61e2562, 0xc040b340, 0x265e5a51, 0xe9b6c7aa,
      0xd62f105d, 0x02441453, 0xd8a1e681, 0xe7d3fbc8,
      0x21e1cde6, 0xc33707d6, 0xf4d50d87, 0x455a14ed,
      0xa9e3e905, 0xfcefa3f8, 0x676f02d9, 0x8d2a4c8a,
      0xfffa3942, 0x8771f681, 0x6d9d6122, 0xfde5380c,
      0xa4beea44, 0x4bdecfa9, 0xf6bb4b60, 0xbebfbc70,
      0x289b7ec6, 0xeaa127fa, 0xd4ef3085, 0x04881d05,
      0xd9d4d039, 0xe6db99e5, 0x1fa27cf8, 0xc4ac5665,
      0xf4292244, 0x432aff97, 0xab9423a7, 0xfc93a039,
      0x655b59c3, 0x8f0ccc92, 0xffeff47d, 0x85845dd1,
      0x6fa87e4f, 0xfe2ce6e0, 0xa3014314, 0x4e0811a1,
      0xf7537e82, 0xbd3af235, 0x2ad7d2bb, 0xeb86d391]"

definition md5_round :: "uint32 list \<Rightarrow> md5_state \<Rightarrow> nat \<Rightarrow> md5_state" where
  "md5_round chunk st j =
     (case st of (A, B, C, D) \<Rightarrow>
        let (F, g) =
              (if j < 16 then ((B AND C) OR (NOT B AND D), j)
               else if j < 32 then ((D AND B) OR (NOT D AND C), (5 * j + 1) mod 16)
               else if j < 48 then (B XOR C XOR D, (3 * j + 5) mod 16)
               else (C XOR (B OR NOT D), (7 * j) mod 16));
            temp = D; D = C; C = B;
            B = B + leftrot (A + F + md5_constants ! j + chunk ! g) (md5_shifts ! j);
            A = temp
        in (A, B, C, D))"

definition md5_chunk :: "md5_state \<Rightarrow> byte list \<Rightarrow> md5_state" where
  "md5_chunk st bytes =
     (let chunk = map (\<lambda>j. le32 (take 4 (drop (4 * j) bytes))) [0..<16]
      in case st of (a0, b0, c0, d0) \<Rightarrow>
         case foldl (md5_round chunk) (a0, b0, c0, d0) [0..<64] of
           (A, B, C, D) \<Rightarrow> (a0 + A, b0 + B, c0 + C, d0 + D))"

definition md5_initial :: md5_state where
  "md5_initial = (0x67452301, 0xefcdab89, 0x98badcfe, 0x10325476)"

text \<open>The loop over the chunks of a buffer.\<close>

fun over_chunks :: "nat \<Rightarrow> ('s \<Rightarrow> byte list \<Rightarrow> 's) \<Rightarrow> 's \<Rightarrow> nat \<Rightarrow> byte list \<Rightarrow> 's" where
  "over_chunks blk step st 0 buf = st"
| "over_chunks blk step st (Suc n) buf = over_chunks blk step (step st (take blk buf)) n (drop blk buf)"

definition md5_output :: "md5_state \<Rightarrow> byte list" where
  "md5_output st =
     (case st of (a0, b0, c0, d0) \<Rightarrow> bytes_le32 a0 @ bytes_le32 b0 @ bytes_le32 c0 @ bytes_le32 d0)"

definition md5_hash :: "hash_function \<Rightarrow> byte list \<Rightarrow> byte list result" where
  "md5_hash f input =
     (if f \<noteq> FUNCTION_MD5 then Inl (Exception ''Hash function not supported by MD5 implementation'')
      else bind_result (pad_message 64 8 bytes_le64 input) (\<lambda>padded.
             Inr (md5_output (over_chunks 64 md5_chunk md5_initial (length padded div 64) padded))))"

section \<open>SHA-1\<close>

type_synonym sha1_state = "uint32 list"

definition sha1_isSupported :: "hash_function \<Rightarrow> bool" where
  "sha1_isSupported f \<longleftrightarrow> f = FUNCTION_SHA1"

definition sha1_initial :: sha1_state where
  "sha1_initial = [0x67452301, 0xEFCDAB89, 0x98BADCFE, 0x10325476, 0xC3D2E1F0]"

text \<open>The bytes of a chunk's word in reverse order, read back as a word.\<close>

definition swapped32 :: "uint32 \<Rightarrow> uint32" where
  "swapped32 c = le32 (bytes_be32 c)"

fun sha1_extend :: "nat \<Rightarrow> uint32 list \<Rightarrow> uint32 list" where
  "sha1_extend 0 ws = ws"
| "sha1_extend (Suc n) ws =
     (let j = length ws
      in sha1_extend n (ws @ [leftrot (ws ! (j - 3) XOR ws ! (j - 8) XOR ws ! (j - 14) XOR ws ! (j - 16)) 1]))"

definition sha1_words :: "byte list \<Rightarrow> uint32 list" where
  "sha1_words bytes =
     sha1_extend 64 (map (\<lambda>j. swapped32 (le32 (take 4 (drop (4 * j) bytes)))) [0..<16])"

definition sha1_round ::
  "uint32 list \<Rightarrow> uint32 \<times> uint32 \<times> uint32 \<times> uint32 \<times> uint32 \<Rightarrow> nat \<Rightarrow> uint32 \<times> uint32 \<times> uint32 \<times> uint32 \<times> uint32" where
  "sha1_round ws st j =
     (case st of (A, B, C, D, E) \<Rightarrow>
        let temp = leftrot A 5 + E + ws ! j;
            temp = temp +
              (if j < 20 then 0x5A827999 + ((B AND C) OR (NOT B AND D))
               else if j < 40 then 0x6ED9EBA1 + (B XOR C XOR D)
               else if j < 60 then 0x8F1BBCDC + ((B AND C) OR (B AND D) OR (C AND D))
               else 0xCA62C1D6 + (B XOR C XOR D))
        in (temp, A, leftrot B 30, C, D))"

definition sha1_chunk :: "sha1_state \<Rightarrow> byte list \<Rightarrow> sha1_state" where
  "sha1_chunk st bytes =
     (case foldl (sha1_round (sha1_words bytes)) (st ! 0, st ! 1, st ! 2, st ! 3, st ! 4) [0..<80] of
        (A, B, C, D, E) \<Rightarrow> [st ! 0 + A, st ! 1 + B, st ! 2 + C, st ! 3 + D, st ! 4 + E])"

definition sha1_hash :: "hash_function \<Rightarrow> byte list \<Rightarrow> byte list result" where
  "sha1_hash f input =
     (if f \<noteq> FUNCTION_SHA1 then Inl (Exception ''Hash function not supported by SHA1 implementation'')
      else bind_result (pad_message 64 8 be_length input) (\<lambda>padded.
             let st = over_chunks 64 sha1_chunk sha1_initial (length padded div 64) padded
             in Inr (concat (map (\<lambda>i. bytes_be32 (st ! i)) [0..<5]))))"

section \<open>SHA-224 and SHA-256\<close>

type_synonym sha256_state = "uint32 list"

definition sha256_isSupported :: "hash_function \<Rightarrow> bool" where
  "sha256_isSupported f \<longleftrightarrow> f = FUNCTION_SHA224 \<or> f = FUNCTION_SHA256"

definition initial224 :: "uint32 list" where
  "initial224 =
     [0xc1059ed8, 0x367cd507, 0x3070dd17, 0xf70e5939,
      0xffc00b31, 0x68581511, 0x64f98fa7, 0xbefa4fa4]"

definition initial256 :: "uint32 list" where
  "initial256 =
     [0x6a09e667, 0xbb67ae85, 0x3c6ef372, 0xa54ff53a,
      0x510e527f, 0x9b05688c, 0x1f83d9ab, 0x5be0cd19]"

definition sha256_constants :: "uint32 list" where
  "sha256_constants = concat
     [[0x428a2f98, 0x71374491, 0xb5c0fbcf, 0xe9b5dba5],
      [0x3956c25b, 0x59f111f1, 0x923f82a4, 0xab1c5ed5],
      [0xd807aa98, 0x12835b01, 0x243185be, 0x550c7dc3],
      [0x72be5d74, 0x80deb1fe, 0x9bdc06a7, 0xc19bf174],
      [0xe49b69c1, 0xefbe4786, 0x0fc19dc6, 0x240ca1cc],
      [0x2de92c6f, 0x4a7484aa, 0x5cb0a9dc, 0x76f988da],
      [0x983e5152, 0xa831c66d, 0xb00327c8, 0xbf597fc7],
      [0xc6e00bf3, 0xd5a79147, 0x06ca6351, 0x14292967],
      [0x27b70a85, 0x2e1b2138, 0x4d2c6dfc, 0x53380d13],
      [0x650a7354, 0x766a0abb, 0x81c2c92e, 0x92722c85],
      [0xa2bfe8a1, 0xa81a664b, 0xc24b8b70, 0xc76c51a3],
      [0xd192e819, 0xd6990624, 0xf40e3585, 0x106aa070],
      [0x19a4c116, 0x1e376c08, 0x2748774c, 0x34b0bcb5],
      [0x391c0cb3, 0x4ed8aa4a, 0x5b9cca4f, 0x682e6ff3],
      [0x748f82ee, 0x78a5636f, 0x84c87814, 0x8cc70208],
      [0x90befffa, 0xa4506ceb, 0xbef9a3f7, 0xc67178f2]]"

fun sha256_extend :: "nat \<Rightarrow> uint32 list \<Rightarrow> uint32 list" where
  "sha256_extend 0 ws = ws"
| "sha256_extend (Suc n) ws =
     (let j = length ws; p = ws ! (j - 2); q = ws ! (j - 15);
          w = rightrot32 p 17 XOR rightrot32 p 19 XOR drop_bit 10 p;
          w = w + (rightrot32 q 7 XOR rightrot32 q 18 XOR drop_bit 3 q);
          w = w + (ws ! (j - 7) + ws ! (j - 16))
      in sha256_extend n (ws @ [w]))"

definition sha256_words :: "byte list \<Rightarrow> uint32 list" where
  "sha256_words bytes =
     sha256_extend 48 (map (\<lambda>j. swapped32 (le32 (take 4 (drop (4 * j) bytes)))) [0..<16])"

type_synonym 'w sha2_vars = "'w \<times> 'w \<times> 'w \<times> 'w \<times> 'w \<times> 'w \<times> 'w \<times> 'w"

definition sha256_round :: "uint32 list \<Rightarrow> uint32 sha2_vars \<Rightarrow> nat \<Rightarrow> uint32 sha2_vars" where
  "sha256_round ws st j =
     (case st of (A, B, C, D, E, F, G, H) \<Rightarrow>
        let temp1 = H + sha256_constants ! j + ws ! j;
            temp1 = temp1 + (rightrot32 E 6 XOR rightrot32 E 11 XOR rightrot32 E 25);
            temp1 = temp1 + ((E AND F) XOR (NOT E AND G));
            temp2 = rightrot32 A 2 XOR rightrot32 A 13 XOR rightrot32 A 22;
            temp2 = temp2 + ((A AND B) XOR (A AND C) XOR (B AND C))
        in (temp1 + temp2, A, B, C, D + temp1, E, F, G))"

definition sha256_chunk :: "sha256_state \<Rightarrow> byte list \<Rightarrow> sha256_state" where
  "sha256_chunk st bytes =
     (case foldl (sha256_round (sha256_words bytes))
             (st ! 0, st ! 1, st ! 2, st ! 3, st ! 4, st ! 5, st ! 6, st ! 7) [0..<64] of
        (A, B, C, D, E, F, G, H) \<Rightarrow>
          [st ! 0 + A, st ! 1 + B, st ! 2 + C, st ! 3 + D, st ! 4 + E, st ! 5 + F, st ! 6 + G, st ! 7 + H])"

definition sha256_hash :: "hash_function \<Rightarrow> byte list \<Rightarrow> byte list result" where
  "sha256_hash f input =
     (if \<not> sha256_isSupported f
      then Inl (Exception ''Hash function not supported by SHA-224/SHA-256 implementation'')
      else bind_result (pad_message 64 8 be_length input) (\<lambda>padded.
             let st = over_chunks 64 sha256_chunk (if f = FUNCTION_SHA224 then initial224 else initial256)
                        (length padded div 64) padded;
                 hashlength = (if f = FUNCTION_SHA224 then 28 else 32)
             in Inr (concat (map (\<lambda>i. bytes_be32 (st ! i)) [0..<hashlength div 4]))))"

section \<open>SHA-384 and SHA-512\<close>

type_synonym sha512_state = "uint64 list"

definition sha512_isSupported :: "hash_function \<Rightarrow> bool" where
  "sha512_isSupported f \<longleftrightarrow> f = FUNCTION_SHA384 \<or> f = FUNCTION_SHA512"

definition initial384 :: "uint64 list" where
  "initial384 =
     [0xcbbb9d5dc1059ed8, 0x629a292a367cd507, 0x9159015a3070dd17, 0x152fecd8f70e5939,
      0x67332667ffc00b31, 0x8eb44a8768581511, 0xdb0c2e0d64f98fa7, 0x47b5481dbefa4fa4]"

definition initial512 :: "uint64 list" where
  "initial512 =
     [0x6a09e667f3bcc908, 0xbb67ae8584caa73b, 0x3c6ef372fe94f82b, 0xa54ff53a5f1d36f1,
      0x510e527fade682d1, 0x9b05688c2b3e6c1f, 0x1f83d9abfb41bd6b, 0x5be0cd19137e2179]"

definition sha512_constants :: "uint64 list" where
  "sha512_constants = concat
     [[0x428a2f98d728ae22, 0x7137449123ef65cd, 0xb5c0fbcfec4d3b2f, 0xe9b5dba58189dbbc],
      [0x3956c25bf348b538, 0x59f111f1b605d019, 0x923f82a4af194f9b, 0xab1c5ed5da6d8118],
      [0xd807aa98a3030242, 0x12835b0145706fbe, 0x243185be4ee4b28c, 0x550c7dc3d5ffb4e2],
      [0x72be5d74f27b896f, 0x80deb1fe3b1696b1, 0x9bdc06a725c71235, 0xc19bf174cf692694],
      [0xe49b69c19ef14ad2, 0xefbe4786384f25e3, 0x0fc19dc68b8cd5b5, 0x240ca1cc77ac9c65],
      [0x2de92c6f592b0275, 0x4a7484aa6ea6e483, 0x5cb0a9dcbd41fbd4, 0x76f988da831153b5],
      [0x983e5152ee66dfab, 0xa831c66d2db43210, 0xb00327c898fb213f, 0xbf597fc7beef0ee4],
      [0xc6e00bf33da88fc2, 0xd5a79147930aa725, 0x06ca6351e003826f, 0x142929670a0e6e70],
      [0x27b70a8546d22ffc, 0x2e1b21385c26c926, 0x4d2c6dfc5ac42aed, 0x53380d139d95b3df],
      [0x650a73548baf63de, 0x766a0abb3c77b2a8, 0x81c2c92e47edaee6, 0x92722c851482353b],
      [0xa2bfe8a14cf10364, 0xa81a664bbc423001, 0xc24b8b70d0f89791, 0xc76c51a30654be30],
      [0xd192e819d6ef5218, 0xd69906245565a910, 0xf40e35855771202a, 0x106aa07032bbd1b8],
      [0x19a4c116b8d2d0c8, 0x1e376c085141ab53, 0x2748774cdf8eeb99, 0x34b0bcb5e19b48a8],
      [0x391c0cb3c5c95a63, 0x4ed8aa4ae3418acb, 0x5b9cca4f7763e373, 0x682e6ff3d6b2b8a3],
      [0x748f82ee5defb2fc, 0x78a5636f43172f60, 0x84c87814a1f0ab72, 0x8cc702081a6439ec],
      [0x90befffa23631e28, 0xa4506cebde82bde9, 0xbef9a3f7b2c67915, 0xc67178f2e372532b],
      [0xca273eceea26619c, 0xd186b8c721c0c207, 0xeada7dd6cde0eb1e, 0xf57d4f7fee6ed178],
      [0x06f067aa72176fba, 0x0a637dc5a2c898a6, 0x113f9804bef90dae, 0x1b710b35131c471b],
      [0x28db77f523047d84, 0x32caab7b40c72493, 0x3c9ebe0a15c9bebc, 0x431d67c49c100d4c],
      [0x4cc5d4becb3e42b6, 0x597f299cfc657e2a, 0x5fcb6fab3ad6faec, 0x6c44198c4a475817]]"

definition swapped64 :: "uint64 \<Rightarrow> uint64" where
  "swapped64 c = le64 (bytes_be64 c)"

fun sha512_extend :: "nat \<Rightarrow> uint64 list \<Rightarrow> uint64 list" where
  "sha512_extend 0 ws = ws"
| "sha512_extend (Suc n) ws =
     (let j = length ws; p = ws ! (j - 2); q = ws ! (j - 15);
          w = ws ! (j - 7) + ws ! (j - 16);
          w = w + (rightrot64 p 19 XOR rightrot64 p 61 XOR drop_bit 6 p);
          w = w + (rightrot64 q 1 XOR rightrot64 q 8 XOR drop_bit 7 q)
      in sha512_extend n (ws @ [w]))"

definition sha512_words :: "byte list \<Rightarrow> uint64 list" where
  "sha512_words bytes =
     sha512_extend 64 (map (\<lambda>j. swapped64 (le64 (take 8 (drop (8 * j) bytes)))) [0..<16])"

definition sha512_round :: "uint64 list \<Rightarrow> uint64 sha2_vars \<Rightarrow> nat \<Rightarrow> uint64 sha2_vars" where
  "sha512_round ws st j =
     (case st of (A, B, C, D, E, F, G, H) \<Rightarrow>
        let temp1 = H + sha512_constants ! j + ws ! j;
            temp1 = temp1 + (rightrot64 E 14 XOR rightrot64 E 18 XOR rightrot64 E 41);
            temp1 = temp1 + ((E AND F) XOR (NOT E AND G));
            temp2 = rightrot64 A 28 XOR rightrot64 A 34 XOR rightrot64 A 39;
            temp2 = temp2 + ((A AND B) XOR (A AND C) XOR (B AND C))
        in (temp1 + temp2, A, B, C, D + temp1, E, F, G))"

definition sha512_chunk :: "sha512_state \<Rightarrow> byte list \<Rightarrow> sha512_state" where
  "sha512_chunk st bytes =
     (case foldl (sha512_round (sha512_words bytes))
             (st ! 0, st ! 1, st ! 2, st ! 3, st ! 4, st ! 5, st ! 6, st ! 7) [0..<80] of
        (A, B, C, D, E, F, G, H) \<Rightarrow>
          [st ! 0 + A, st ! 1 + B, st ! 2 + C, st ! 3 + D, st ! 4 + E, st ! 5 + F, st ! 6 + G, st ! 7 + H])"

definition sha512_hash :: "hash_function \<Rightarrow> byte list \<Rightarrow> byte list result" where
  "sha512_hash f input =
     (if \<not> sha512_isSupported f
      then Inl (Exception ''Hash function not supported by SHA-384/SHA-512 implementation'')
      else bind_result (pad_message 128 16 be_length input) (\<lambda>padded.
             let st = over_chunks 128 sha512_chunk (if f = FUNCTION_SHA384 then initial384 else initial512)
                        (length padded div 128) padded;
                 hashlength = (if f = FUNCTION_SHA384 then 48 else 64)
             in Inr (concat (map (\<lambda>i. bytes_be64 (st ! i)) [0..<hashlength div 8]))))"

section \<open>The dispatch\<close>

text \<open>\<^verbatim>\<open>getHashFunction\<close> answers the object whose \<^verbatim>\<open>hash\<close> is to be called.\<close>

definition getHashFunction :: "hash_function \<Rightarrow> (hash_function \<Rightarrow> byte list \<Rightarrow> byte list result) option" where
  "getHashFunction f =
     (case f of
        FUNCTION_MD5 \<Rightarrow> Some md5_hash
      | FUNCTION_SHA1 \<Rightarrow> Some sha1_hash
      | FUNCTION_SHA224 \<Rightarrow> Some sha256_hash
      | FUNCTION_SHA256 \<Rightarrow> Some sha256_hash
      | FUNCTION_SHA384 \<Rightarrow> Some sha512_hash
      | FUNCTION_SHA512 \<Rightarrow> Some sha512_hash
      | FUNCTION_MAX_ENUM \<Rightarrow> None)"

section \<open>The construction\<close>

text \<open>
  What makes a compression function into a digest: a padding that can be undone
  and whose last block tells how many blocks there are. Two messages with the
  same final state then exhibit a collision of the compression function among
  the states and blocks that hashing the two really visits.
\<close>

locale merkle_damgard =
  fixes pad :: "'m \<Rightarrow> 'b list"
    and ok :: "'m \<Rightarrow> bool"
  assumes pad_inj: "ok m \<Longrightarrow> ok m' \<Longrightarrow> pad m = pad m' \<Longrightarrow> m = m'"
    and pad_nonempty: "ok m \<Longrightarrow> pad m \<noteq> []"
    and pad_last: "ok m \<Longrightarrow> ok m' \<Longrightarrow> last (pad m) = last (pad m') \<Longrightarrow> length (pad m) = length (pad m')"
begin

definition state_at :: "('s \<Rightarrow> 'b \<Rightarrow> 's) \<Rightarrow> 's \<Rightarrow> 'm \<Rightarrow> nat \<Rightarrow> 's" where
  "state_at compress iv m i = foldl compress iv (take i (pad m))"

definition collides :: "('s \<Rightarrow> 'b \<Rightarrow> 's) \<Rightarrow> 's \<Rightarrow> 'm \<Rightarrow> 'm \<Rightarrow> nat \<Rightarrow> nat \<Rightarrow> bool" where
  "collides compress iv m m' i j \<longleftrightarrow>
     i < length (pad m) \<and> j < length (pad m') \<and>
     (state_at compress iv m i, pad m ! i) \<noteq> (state_at compress iv m' j, pad m' ! j) \<and>
     compress (state_at compress iv m i) (pad m ! i) = compress (state_at compress iv m' j) (pad m' ! j)"

lemma state_at_Suc:
  "i < length (pad m) \<Longrightarrow> state_at compress iv m (Suc i) = compress (state_at compress iv m i) (pad m ! i)"
  by (simp add: state_at_def take_Suc_conv_app_nth)

lemma no_collision_same_blocks:
  assumes "length (pad m) = length (pad m')" "\<And>i. \<not> collides compress iv m m' i i"
    "n \<le> length (pad m)" "state_at compress iv m n = state_at compress iv m' n"
  shows "take n (pad m) = take n (pad m')"
  using assms(3,4)
proof (induction n)
  case (Suc n)
  then have n: "n < length (pad m)" "n < length (pad m')"
    using assms(1) by simp_all
  have "compress (state_at compress iv m n) (pad m ! n) = compress (state_at compress iv m' n) (pad m' ! n)"
    using Suc.prems(2) n by (simp add: state_at_Suc)
  then have "state_at compress iv m n = state_at compress iv m' n" "pad m ! n = pad m' ! n"
    using assms(2) [of n] n by (auto simp: collides_def)
  then show ?case
    using Suc n by (simp add: take_Suc_conv_app_nth)
qed simp

theorem collision:
  assumes "ok m" "ok m'" "m \<noteq> m'" "foldl compress iv (pad m) = foldl compress iv (pad m')"
  shows "\<exists>i j. collides compress iv m m' i j"
proof (cases "last (pad m) = last (pad m')")
  case True
  then have len: "length (pad m) = length (pad m')"
    using pad_last assms by blast
  have same: "state_at compress iv m (length (pad m)) = state_at compress iv m' (length (pad m))"
    using assms(4) len by (simp add: state_at_def)
  show ?thesis
  proof (rule ccontr)
    assume "\<nexists>i j. collides compress iv m m' i j"
    then have "take (length (pad m)) (pad m) = take (length (pad m)) (pad m')"
      using no_collision_same_blocks [OF len _ _ same] by blast
    then show False
      using len assms pad_inj by simp
  qed
next
  case False
  let ?i = "length (pad m) - 1" and ?j = "length (pad m') - 1"
  have ij: "?i < length (pad m)" "?j < length (pad m')"
    using pad_nonempty assms(1,2) by (auto simp: neq_Nil_conv)
  have "state_at compress iv m (Suc ?i) = state_at compress iv m' (Suc ?j)"
    using assms(4) ij by (simp add: state_at_def)
  then have "compress (state_at compress iv m ?i) (pad m ! ?i) = compress (state_at compress iv m' ?j) (pad m' ! ?j)"
    unfolding state_at_Suc [OF ij(1)] state_at_Suc [OF ij(2)] .
  then have "collides compress iv m m' ?i ?j"
    using False ij pad_nonempty assms(1,2) by (auto simp: collides_def last_conv_nth)
  then show ?thesis
    by blast
qed

end

section \<open>The padding of the code\<close>

lemma unat_extend_multiple:
  assumes "0 < n" "unat a + unat n < 2 ^ 64"
  shows "unat (extend_multiple a n) = (if unat a mod unat n = 0 then unat a else unat a + (unat n - unat a mod unat n))"
proof -
  let ?r = "a mod n"
  have r: "unat ?r = unat a mod unat n"
    by (simp add: unat_mod)
  have n: "0 < unat n"
    using assms(1) by (simp add: unat_gt_0)
  then have "unat ?r < unat n"
    by (simp add: r)
  then have sub: "unat (n - ?r) = unat n - unat ?r"
    by (intro unat_sub) (simp add: word_le_nat_alt)
  then have "unat (a + (n - ?r)) = unat a + (unat n - unat ?r)"
    using assms(2) by (subst unat_add_lem [THEN iffD1]) auto
  moreover have "?r = 0 \<longleftrightarrow> unat a mod unat n = 0"
    by (simp flip: r add: unat_eq_0)
  ultimately show ?thesis
    by (simp add: extend_multiple_def Let_def r)
qed

definition pad_zeros :: "nat \<Rightarrow> nat \<Rightarrow> nat \<Rightarrow> nat" where
  "pad_zeros block field n =
     (let r = (n + 1 + field) mod block in field - 8 + (if r = 0 then 0 else block - r))"

lemma pad_message_eq:
  assumes "length input < 2 ^ 61" "(block, field) = (64, 8) \<or> (block, field) = (128, 16)"
  shows "pad_message (of_nat block) (of_nat field) enc input =
    Inr (input @ 0x80 # replicate (pad_zeros block field (length input)) 0 @ enc (of_nat (8 * length input)))"
proof -
  let ?n = "length input"
  have n: "unat (of_nat ?n :: uint64) = ?n"
    using assms(1) by (intro unat_of_nat_small) simp
  have bf: "unat (of_nat block :: uint64) = block" "0 < (of_nat block :: uint64)"
    using assms(2) by auto
  have "unat (of_nat ?n + 1 + of_nat field :: uint64) = unat (of_nat (?n + 1 + field) :: uint64)"
    by simp (simp add: ac_simps)
  also have "\<dots> = ?n + 1 + field"
    using assms by (intro unat_of_nat_small) auto
  finally have sum: "unat (of_nat ?n + 1 + of_nat field :: uint64) = ?n + 1 + field" .
  have ext: "unat (extend_multiple (of_nat ?n + 1 + of_nat field) (of_nat block) :: uint64) =
      ?n + 9 + pad_zeros block field ?n"
    using assms bf sum
    by (subst unat_extend_multiple) (auto simp: pad_zeros_def Let_def)
  have "of_nat ?n * 8 = (of_nat (8 * ?n) :: uint64)"
    by simp
  moreover have "take (?n + 9 + z - 8) ((input @ replicate (?n + 9 + z - ?n) (0 :: byte))[?n := 0x80]) =
      input @ 0x80 # replicate z 0" for z
  proof -
    have "replicate (?n + 9 + z - ?n) (0 :: byte) = 0 # replicate (z + 8) 0"
      by (simp add: numeral_eq_Suc)
    then show ?thesis
      by (simp add: list_update_append take_Cons')
  qed
  ultimately show ?thesis
    using assms(1) by (simp add: pad_message_def Let_def ext del: of_nat_mult)
qed

lemma pad_zeros_mod:
  assumes "(block, field) = (64, 8) \<or> (block, field) = (128, 16)"
  shows "(n + 9 + pad_zeros block field n) mod block = 0"
proof -
  have up: "(a + (if a mod block = 0 then 0 else block - a mod block)) mod block = 0" for a
  proof (cases "a mod block = 0")
    case False
    have "a mod block \<le> block"
      using assms by (auto intro: less_imp_le)
    then have "a + (block - a mod block) = a div block * block + block"
      using div_mult_mod_eq [of a block] by linarith
    then show ?thesis
      using False by simp
  qed simp
  have "n + 9 + pad_zeros block field n =
      n + 1 + field + (if (n + 1 + field) mod block = 0 then 0 else block - (n + 1 + field) mod block)"
    using assms by (auto simp: pad_zeros_def Let_def)
  then show ?thesis
    using up [of "n + 1 + field"] by metis
qed

lemma length_enc [simp]: "length (bytes_le64 n) = 8" "length (be_length n) = 8"
  by (simp_all add: bytes_le64_def be_length_def)

lemma word64_bits: "(\<And>k. k < 64 \<Longrightarrow> bit (a :: uint64) k = bit b k) \<Longrightarrow> a = b"
  by (rule bit_word_eqI) simp

lemma bytes_le64_inj: "bytes_le64 a = bytes_le64 b \<Longrightarrow> a = b"
proof (rule word64_bits)
  fix k :: nat
  assume eq: "bytes_le64 a = bytes_le64 b" and k: "k < 64"
  have b: "bit n k = bit (bytes_le64 n ! (k div 8)) (k mod 8)" for n
    using k by (simp add: bytes_le64_def bit_ucast_iff bit_drop_bit_eq less_mult_imp_div_less)
  show "bit a k = bit b k"
    by (simp add: b [of a] b [of b] eq)
qed

lemma be_length_inj: "be_length a = be_length b \<Longrightarrow> a = b"
proof (rule word64_bits)
  fix k :: nat
  assume eq: "be_length a = be_length b" and k: "k < 64"
  have "56 - (7 - k div 8) * 8 + k mod 8 = k"
    using k by presburger
  moreover have "bit (0xff :: uint64) (k mod 8)"
  proof -
    have "(0xff :: uint64) = mask 8"
      by (simp add: mask_eq_exp_minus_1)
    moreover have "k mod 8 < 8"
      by simp
    ultimately show ?thesis
      by (simp only: bit_mask_iff) simp
  qed
  moreover have "[0..<8] ! (7 - k div 8) = 7 - k div 8"
    by (subst nth_upt) auto
  ultimately have b: "bit n k = bit (be_length n ! (7 - k div 8)) (k mod 8)" for n
    using k by (simp add: be_length_def bit_ucast_iff bit_drop_bit_eq bit_and_iff less_mult_imp_div_less)
  show "bit a k = bit b k"
    by (simp add: b [of a] b [of b] eq)
qed

section \<open>The blocks of a message\<close>

fun chunk_list :: "nat \<Rightarrow> nat \<Rightarrow> byte list \<Rightarrow> byte list list" where
  "chunk_list blk 0 buf = []"
| "chunk_list blk (Suc n) buf = take blk buf # chunk_list blk n (drop blk buf)"

lemma over_chunks_foldl: "over_chunks blk step st n buf = foldl step st (chunk_list blk n buf)"
  by (induction n arbitrary: st buf) auto

lemma length_chunk_list [simp]: "length (chunk_list blk n buf) = n"
  by (induction n arbitrary: buf) auto

lemma concat_chunk_list: "concat (chunk_list blk n buf) = take (n * blk) buf"
  by (induction n arbitrary: buf) (auto simp: take_add)

lemma last_chunk_list:
  "length buf = Suc n * blk \<Longrightarrow> last (chunk_list blk (Suc n) buf) = drop (n * blk) buf"
proof (induction n arbitrary: buf)
  case (Suc n)
  then have "last (chunk_list blk (Suc n) (drop blk buf)) = drop (n * blk) (drop blk buf)"
    by (intro Suc.IH) simp
  then show ?case
    by (simp add: add.commute)
qed simp

definition padded :: "nat \<Rightarrow> nat \<Rightarrow> (uint64 \<Rightarrow> byte list) \<Rightarrow> byte list \<Rightarrow> byte list" where
  "padded block field enc m = m @ 0x80 # replicate (pad_zeros block field (length m)) 0 @ enc (of_nat (8 * length m))"

definition message_blocks :: "nat \<Rightarrow> nat \<Rightarrow> (uint64 \<Rightarrow> byte list) \<Rightarrow> byte list \<Rightarrow> byte list list" where
  "message_blocks block field enc m =
     chunk_list block (length (padded block field enc m) div block) (padded block field enc m)"

definition fits :: "byte list \<Rightarrow> bool" where
  "fits m \<longleftrightarrow> length m < 2 ^ 61"

lemma bit_length_inj:
  assumes "fits m" "fits m'" "(of_nat (8 * length m) :: uint64) = of_nat (8 * length m')"
  shows "length m = length m'"
proof -
  have "unat (of_nat (8 * length m) :: uint64) = 8 * length m" if "fits m" for m :: "byte list"
    using that by (intro unat_of_nat_small) (simp add: fits_def)
  then have "8 * length m = 8 * length m'"
    using assms by metis
  then show ?thesis
    by simp
qed

lemma merkle_padding:
  assumes enc: "\<And>a b. enc a = enc b \<Longrightarrow> a = b" "\<And>n. length (enc n) = 8"
    and bf: "(block, field) = (64, 8) \<or> (block, field) = (128, 16)"
  shows "merkle_damgard (message_blocks block field enc) fits"
proof
  let ?p = "padded block field enc"
  have len: "length (?p m) = length m + 9 + pad_zeros block field (length m)" for m
    by (simp add: padded_def enc)
  then have whole: "length (?p m) = length (?p m) div block * block" for m
    using pad_zeros_mod [OF bf, of "length m"] by (metis mod_div_decomp add.right_neutral)
  have pos: "0 < length (?p m) div block" for m
    using whole [of m] len [of m] by (metis add_gr_0 gr0I mult_0 less_not_refl zero_less_numeral)
  have tail: "drop (length (?p m) - 8) (?p m) = enc (of_nat (8 * length m))" for m
    unfolding len by (simp add: padded_def enc)
  show "message_blocks block field enc m \<noteq> []" for m
    using pos [of m] by (metis length_chunk_list length_greater_0_conv message_blocks_def)
  show "length (message_blocks block field enc m) = length (message_blocks block field enc m')"
    if ok: "fits m" "fits m'" and eq: "last (message_blocks block field enc m) = last (message_blocks block field enc m')"
    for m m'
  proof -
    have last_tail: "drop (block - 8) (last (message_blocks block field enc m)) = enc (of_nat (8 * length m))" for m
    proof -
      obtain n where n: "length (?p m) div block = Suc n"
        using pos [of m] by (metis Suc_pred)
      then have l: "length (?p m) = Suc n * block"
        using whole [of m] by simp
      have "drop (block - 8) (last (message_blocks block field enc m)) = drop (block - 8 + n * block) (?p m)"
        using last_chunk_list [OF l] n by (simp add: message_blocks_def add.commute)
      also have "block - 8 + n * block = length (?p m) - 8"
        using bf l by auto
      finally show ?thesis
        using tail by simp
    qed
    have "enc (of_nat (8 * length m)) = enc (of_nat (8 * length m'))"
      using last_tail [of m] last_tail [of m'] eq by simp
    then have "length m = length m'"
      using enc(1) bit_length_inj ok by blast
    then show ?thesis
      by (simp add: message_blocks_def len)
  qed
  show "m = m'" if ok: "fits m" "fits m'" and eq: "message_blocks block field enc m = message_blocks block field enc m'"
    for m m'
  proof -
    have "concat (message_blocks block field enc m) = ?p m" for m
      using whole [of m] by (simp add: message_blocks_def concat_chunk_list)
    then have p: "?p m = ?p m'"
      using eq by metis
    then have "enc (of_nat (8 * length m)) = enc (of_nat (8 * length m'))"
      using tail by metis
    then have "length m = length m'"
      using enc(1) bit_length_inj ok by blast
    then show "m = m'"
      using p by (simp add: padded_def)
  qed
qed

interpretation md5_md: merkle_damgard "message_blocks 64 8 bytes_le64" fits
  by (rule merkle_padding) (auto dest: bytes_le64_inj)

interpretation sha32_md: merkle_damgard "message_blocks 64 8 be_length" fits
  by (rule merkle_padding) (auto dest: be_length_inj)

interpretation sha64_md: merkle_damgard "message_blocks 128 16 be_length" fits
  by (rule merkle_padding) (auto dest: be_length_inj)

section \<open>Digest sizes and collisions\<close>

lemma foldl_length: "(\<And>st b. length st = n \<Longrightarrow> length (step st b) = n) \<Longrightarrow> length st = n \<Longrightarrow> length (foldl step st bs) = n"
  by (induction bs arbitrary: st) auto

lemma length_chunk [simp]:
  "length (sha1_chunk st b) = 5" "length (sha256_chunk st b) = 8" "length (sha512_chunk st' b) = 8"
  by (simp_all add: sha1_chunk_def sha256_chunk_def sha512_chunk_def split: prod.splits)

lemma length_initial [simp]:
  "length sha1_initial = 5" "length initial224 = 8" "length initial256 = 8" "length initial384 = 8" "length initial512 = 8"
  by (simp_all add: sha1_initial_def initial224_def initial256_def initial384_def initial512_def)

lemma length_bytes_be [simp]: "length (bytes_be32 x) = 4" "length (bytes_be64 y) = 8" "length (bytes_le32 x) = 4"
  by (simp_all add: bytes_be32_def bytes_be64_def bytes_le32_def)

lemma hash_blocks:
  assumes "fits m"
  shows "md5_hash FUNCTION_MD5 m = Inr (md5_output (foldl md5_chunk md5_initial (message_blocks 64 8 bytes_le64 m)))"
    and "sha1_hash FUNCTION_SHA1 m =
      (let st = foldl sha1_chunk sha1_initial (message_blocks 64 8 be_length m)
       in Inr (concat (map (\<lambda>i. bytes_be32 (st ! i)) [0..<5])))"
    and "f = FUNCTION_SHA224 \<or> f = FUNCTION_SHA256 \<Longrightarrow> sha256_hash f m =
      (let st = foldl sha256_chunk (if f = FUNCTION_SHA224 then initial224 else initial256) (message_blocks 64 8 be_length m)
       in Inr (concat (map (\<lambda>i. bytes_be32 (st ! i)) [0..<(if f = FUNCTION_SHA224 then 28 else 32) div 4])))"
    and "f = FUNCTION_SHA384 \<or> f = FUNCTION_SHA512 \<Longrightarrow> sha512_hash f m =
      (let st = foldl sha512_chunk (if f = FUNCTION_SHA384 then initial384 else initial512) (message_blocks 128 16 be_length m)
       in Inr (concat (map (\<lambda>i. bytes_be64 (st ! i)) [0..<(if f = FUNCTION_SHA384 then 48 else 64) div 8])))"
proof -
  have pad: "pad_message 64 8 enc m = Inr (padded 64 8 enc m)" "pad_message 128 16 enc m = Inr (padded 128 16 enc m)" for enc
    using pad_message_eq [of m 64 8 enc] pad_message_eq [of m 128 16 enc] assms
    by (simp_all add: fits_def padded_def)
  show "md5_hash FUNCTION_MD5 m = Inr (md5_output (foldl md5_chunk md5_initial (message_blocks 64 8 bytes_le64 m)))"
    by (simp add: md5_hash_def pad over_chunks_foldl message_blocks_def)
  show "sha1_hash FUNCTION_SHA1 m =
      (let st = foldl sha1_chunk sha1_initial (message_blocks 64 8 be_length m)
       in Inr (concat (map (\<lambda>i. bytes_be32 (st ! i)) [0..<5])))"
    by (simp add: sha1_hash_def pad over_chunks_foldl message_blocks_def)
  show "f = FUNCTION_SHA224 \<or> f = FUNCTION_SHA256 \<Longrightarrow> sha256_hash f m =
      (let st = foldl sha256_chunk (if f = FUNCTION_SHA224 then initial224 else initial256) (message_blocks 64 8 be_length m)
       in Inr (concat (map (\<lambda>i. bytes_be32 (st ! i)) [0..<(if f = FUNCTION_SHA224 then 28 else 32) div 4])))"
    by (auto simp: sha256_hash_def sha256_isSupported_def pad over_chunks_foldl message_blocks_def)
  show "f = FUNCTION_SHA384 \<or> f = FUNCTION_SHA512 \<Longrightarrow> sha512_hash f m =
      (let st = foldl sha512_chunk (if f = FUNCTION_SHA384 then initial384 else initial512) (message_blocks 128 16 be_length m)
       in Inr (concat (map (\<lambda>i. bytes_be64 (st ! i)) [0..<(if f = FUNCTION_SHA384 then 48 else 64) div 8])))"
    by (auto simp: sha512_hash_def sha512_isSupported_def pad over_chunks_foldl message_blocks_def)
qed

fun digest_size :: "hash_function \<Rightarrow> nat" where
  "digest_size FUNCTION_MD5 = 16"
| "digest_size FUNCTION_SHA1 = 20"
| "digest_size FUNCTION_SHA224 = 28"
| "digest_size FUNCTION_SHA256 = 32"
| "digest_size FUNCTION_SHA384 = 48"
| "digest_size FUNCTION_SHA512 = 64"
| "digest_size FUNCTION_MAX_ENUM = 0"

text \<open>Every function of the enumeration is served by an implementation that supports it:
  for every message shorter than \<open>2 ^ 61\<close> bytes, it answers a digest of exactly the function's
  size, without an exception and without leaving the padding buffer.\<close>

theorem digest_total:
  assumes "length m < 2 ^ 61" "f \<noteq> FUNCTION_MAX_ENUM"
  shows "\<exists>h d. getHashFunction f = Some h \<and> h f m = Inr d \<and> length d = digest_size f"
proof -
  have ok: "fits m"
    using assms(1) by (simp add: fits_def)
  show ?thesis
    using assms(2) hash_blocks [OF ok]
    by (cases f) (auto simp: getHashFunction_def Let_def md5_output_def length_concat o_def sum_list_triv split: prod.split)
qed

theorem digest_total_witness:
  "\<exists>h d. getHashFunction FUNCTION_SHA384 = Some h \<and> h FUNCTION_SHA384 (bytes_of ''abc'') = Inr d \<and>
         length d = digest_size FUNCTION_SHA384"
  by (rule digest_total) simp_all

lemma bytes_be32_inj: "bytes_be32 a = bytes_be32 b \<Longrightarrow> a = b"
proof (rule bit_word_eqI)
  fix k
  assume eq: "bytes_be32 a = bytes_be32 b" and "k < LENGTH(32)"
  then have k: "k < 32"
    by simp
  have m: "(0xff :: uint32) = mask 8"
    by (simp add: mask_eq_exp_minus_1)
  have low: "bit (ucast (drop_bit n x AND 0xff :: uint32) :: byte) (k - n) = bit x k"
    if "n \<le> k" "k < n + 8" for n x
    using that k unfolding m by (auto simp: bit_ucast_iff bit_and_iff bit_drop_bit_eq bit_mask_iff)
  consider "k < 8" | "8 \<le> k" "k < 16" | "16 \<le> k" "k < 24" | "24 \<le> k"
    by linarith
  then show "bit a k = bit b k"
  proof cases
    case 1
    then show ?thesis
      using eq low [of 0 a] low [of 0 b] by (simp add: bytes_be32_def)
  next
    case 2
    then show ?thesis
      using eq low [of 8 a] low [of 8 b] by (simp add: bytes_be32_def)
  next
    case 3
    then show ?thesis
      using eq low [of 16 a] low [of 16 b] by (simp add: bytes_be32_def)
  next
    case 4
    then show ?thesis
      using eq low [of 24 a] low [of 24 b] k by (simp add: bytes_be32_def)
  qed
qed

definition serialise32 :: "nat \<Rightarrow> uint32 list \<Rightarrow> byte list" where
  "serialise32 n st = concat (map (\<lambda>i. bytes_be32 (st ! i)) [0..<n])"

lemma serialise32_Suc: "length xs = n \<Longrightarrow> serialise32 (Suc n) (xs @ [x]) = serialise32 n xs @ bytes_be32 x"
  by (auto simp: serialise32_def nth_append intro!: arg_cong [where f = concat])

lemma serialise32_inj:
  "length st = n \<Longrightarrow> length st' = n \<Longrightarrow> serialise32 n st = serialise32 n st' \<Longrightarrow> st = st'"
proof (induction n arbitrary: st st')
  case (Suc n)
  obtain x xs y ys where st: "st = xs @ [x]" "st' = ys @ [y]"
    using Suc.prems(1,2) by (metis length_Suc_conv_rev)
  then have len: "length xs = n" "length ys = n"
    using Suc.prems(1,2) by simp_all
  then have "serialise32 n xs = serialise32 n ys" "bytes_be32 x = bytes_be32 y"
    using Suc.prems(3) st by (simp_all add: serialise32_Suc)
  then show ?case
    using Suc.IH [OF len] bytes_be32_inj st by simp
qed simp

lemma sha256_hash_eq:
  "fits m \<Longrightarrow> sha256_hash FUNCTION_SHA256 m =
     Inr (serialise32 8 (foldl sha256_chunk initial256 (message_blocks 64 8 be_length m)))"
  using hash_blocks(3) [of m FUNCTION_SHA256] by (simp add: serialise32_def Let_def)

text \<open>
  The state before block \<^verbatim>\<open>i\<close> of a message, and two different calls of the
  compression function, made while hashing two messages, that answer the same.
\<close>

definition sha256_state_before :: "byte list \<Rightarrow> nat \<Rightarrow> uint32 list" where
  "sha256_state_before m i = foldl sha256_chunk initial256 (take i (message_blocks 64 8 be_length m))"

definition sha256_clash :: "byte list \<Rightarrow> byte list \<Rightarrow> nat \<Rightarrow> nat \<Rightarrow> bool" where
  "sha256_clash m m' i j \<longleftrightarrow>
     (let bs = message_blocks 64 8 be_length m; bs' = message_blocks 64 8 be_length m';
          s = sha256_state_before m i; s' = sha256_state_before m' j
      in i < length bs \<and> j < length bs' \<and> (s, bs ! i) \<noteq> (s', bs' ! j) \<and>
         sha256_chunk s (bs ! i) = sha256_chunk s' (bs' ! j))"

text \<open>Claim C34. Two different messages, each shorter than \<open>2 ^ 61\<close> bytes, have different SHA-256
  digests unless hashing them runs into a collision of the compression function itself: neither the
  padding, nor the chunking, nor the serialisation of the digest can make two messages collide.\<close>

theorem sha256_collision:
  assumes "length m < 2 ^ 61" "length m' < 2 ^ 61" "m \<noteq> m'"
  shows "sha256_hash FUNCTION_SHA256 m \<noteq> sha256_hash FUNCTION_SHA256 m' \<or> (\<exists>i j. sha256_clash m m' i j)"
proof (cases "sha256_hash FUNCTION_SHA256 m = sha256_hash FUNCTION_SHA256 m'")
  case True
  have ok: "fits m" "fits m'"
    using assms by (simp_all add: fits_def)
  let ?st = "\<lambda>m. foldl sha256_chunk initial256 (message_blocks 64 8 be_length m)"
  have len: "length (?st m) = 8" for m
    by (rule foldl_length) simp_all
  have "serialise32 8 (?st m) = serialise32 8 (?st m')"
    using True by (simp only: sha256_hash_eq [OF ok(1)] sha256_hash_eq [OF ok(2)] sum.inject)
  then have "?st m = ?st m'"
    by (rule serialise32_inj [OF len len])
  then obtain i j where "sha32_md.collides sha256_chunk initial256 m m' i j"
    using sha32_md.collision [OF ok assms(3)] by metis
  then have "sha256_clash m m' i j"
    by (simp add: sha32_md.collides_def sha32_md.state_at_def sha256_clash_def sha256_state_before_def Let_def)
  then show ?thesis
    by blast
qed simp

theorem sha256_collision_witness:
  "bytes_of ''abc'' \<noteq> bytes_of ''abd'' \<and>
   (if sha256_hash FUNCTION_SHA256 (bytes_of ''abc'') = sha256_hash FUNCTION_SHA256 (bytes_of ''abd'')
    then \<exists>i j. sha256_clash (bytes_of ''abc'') (bytes_of ''abd'') i j else True)"
proof -
  have distinct: "bytes_of ''abc'' \<noteq> bytes_of ''abd''"
    by (simp add: bytes_of_def byte_of_char_def of_char_def)
  then have "sha256_hash FUNCTION_SHA256 (bytes_of ''abc'') \<noteq> sha256_hash FUNCTION_SHA256 (bytes_of ''abd'') \<or>
   (\<exists>i j. sha256_clash (bytes_of ''abc'') (bytes_of ''abd'') i j)"
    by (intro sha256_collision) (simp_all add: bytes_of_def)
  then show ?thesis
    using distinct by simp
qed

section \<open>SHA-256 against its standard\<close>

text \<open>
  The functions of FIPS 180-4, on the library's rotation, with the schedule as a
  function of the index and the block's words read big-endian.
\<close>

definition Sigma0 :: "uint32 \<Rightarrow> uint32" where
  "Sigma0 x = word_rotr 2 x XOR word_rotr 13 x XOR word_rotr 22 x"

definition Sigma1 :: "uint32 \<Rightarrow> uint32" where
  "Sigma1 x = word_rotr 6 x XOR word_rotr 11 x XOR word_rotr 25 x"

definition sigma0 :: "uint32 \<Rightarrow> uint32" where
  "sigma0 x = word_rotr 7 x XOR word_rotr 18 x XOR drop_bit 3 x"

definition sigma1 :: "uint32 \<Rightarrow> uint32" where
  "sigma1 x = word_rotr 17 x XOR word_rotr 19 x XOR drop_bit 10 x"

definition be_word :: "byte list \<Rightarrow> nat \<Rightarrow> uint32" where
  "be_word b t = le32 (rev (take 4 (drop (4 * t) b)))"

fun fips_W :: "byte list \<Rightarrow> nat \<Rightarrow> uint32" where
  "fips_W b t =
     (if t < 16 then be_word b t
      else sigma1 (fips_W b (t - 2)) + fips_W b (t - 7) + sigma0 (fips_W b (t - 15)) + fips_W b (t - 16))"

text \<open>
  The constants of the rounds are the first 32 bits of the fractional parts of the cube roots of the first 64 primes. The primes are the
  numbers below 312 that no prime up to 17 divides properly; the integer part of the root is lost in the 32-bit word.
\<close>

definition fips_primes :: "nat list" where
  "fips_primes = filter (\<lambda>p. list_all (\<lambda>d. d dvd p \<longrightarrow> d = p) [2, 3, 5, 7, 11, 13, 17]) [2..<312]"

definition fips_K :: "nat \<Rightarrow> uint32" where
  "fips_K t = word_of_int \<lfloor>root 3 (real (fips_primes ! t)) * 2 ^ 32\<rfloor>"

fun fips_vars :: "byte list \<Rightarrow> uint32 sha2_vars \<Rightarrow> nat \<Rightarrow> uint32 sha2_vars" where
  "fips_vars blk st 0 = st"
| "fips_vars blk st (Suc t) =
     (case fips_vars blk st t of (a, b, c, d, e, f, g, h) \<Rightarrow>
        let T1 = h + Sigma1 e + ((e AND f) XOR (NOT e AND g)) + fips_K t + fips_W blk t;
            T2 = Sigma0 a + ((a AND b) XOR (a AND c) XOR (b AND c))
        in (T1 + T2, a, b, c, d + T1, e, f, g))"

declare fips_W.simps [simp del]

lemma rightrot32_rotr: "0 < n \<Longrightarrow> n < 32 \<Longrightarrow> rightrot32 x n = word_rotr n x"
proof (rule bit_word_eqI)
  fix k assume n: "0 < n" "n < 32" and "k < LENGTH(32)"
  then have k: "k < 32"
    by simp
  show "bit (rightrot32 x n) k \<longleftrightarrow> bit (word_rotr n x) k"
  proof (cases "k + n < 32")
    case True
    then have "\<not> 32 - n \<le> k"
      using n by linarith
    then show ?thesis
      using True n k by (simp add: rightrot32_def bit_or_iff bit_drop_bit_eq bit_push_bit_iff bit_word_rotr_iff add.commute)
  next
    case False
    then have "(k + n) mod 32 = k - (32 - n)"
      using n k by (simp add: mod_if)
    moreover have "\<not> bit x (k + n)"
      using False by (auto dest: bit_imp_le_length)
    moreover have "32 - n \<le> k"
      using False by linarith
    ultimately show ?thesis
      using n k
      by (simp add: rightrot32_def bit_or_iff bit_drop_bit_eq bit_push_bit_iff bit_word_rotr_iff add.commute)
  qed
qed

lemma bit_le32: "bit (le32 bs) k \<longleftrightarrow> k < 32 \<and> k div 8 < length bs \<and> bit (bs ! (k div 8)) (k mod 8)"
proof (induction bs arbitrary: k)
  case (Cons b bs)
  show ?case
  proof (cases "k < 8")
    case False
    then have "k div 8 = Suc ((k - 8) div 8)" "(k - 8) mod 8 = k mod 8"
      by (simp_all add: le_div_geq le_mod_geq)
    then show ?thesis
      using False Cons.IH [of "k - 8"]
      by (auto simp: bit_or_iff bit_push_bit_iff bit_ucast_iff)
  qed (auto simp: bit_or_iff bit_push_bit_iff bit_ucast_iff)
qed simp

lemma byte_of_le32:
  assumes "i < length bs" "i < 4"
  shows "ucast (drop_bit (8 * i) (le32 bs) AND 0xff :: uint32) = bs ! i"
proof -
  have m: "(0xff :: uint32) = mask 8"
    by (simp add: mask_eq_exp_minus_1)
  show ?thesis
    unfolding m
    by (rule bit_word_eqI)
       (use assms in \<open>auto simp: bit_ucast_iff bit_and_iff bit_drop_bit_eq bit_mask_iff bit_le32\<close>)
qed

lemma bytes_be32_le32: "bytes_be32 (le32 [a, b, c, d]) = [d, c, b, a]"
  using byte_of_le32 [of 0 "[a, b, c, d]"] byte_of_le32 [of 1 "[a, b, c, d]"]
    byte_of_le32 [of 2 "[a, b, c, d]"] byte_of_le32 [of 3 "[a, b, c, d]"]
  by (simp add: bytes_be32_def del: le32.simps)

lemma swapped32_le32: "length bs = 4 \<Longrightarrow> swapped32 (le32 bs) = le32 (rev bs)"
  unfolding swapped32_def
  by (auto simp: bytes_be32_le32 numeral_eq_Suc length_Suc_conv simp del: le32.simps)

text \<open>The schedule, as a list that grows by one word per turn, is the standard's function.\<close>

lemma sha256_extend_W:
  assumes "length ws = j" "16 \<le> j" "\<And>t. t < j \<Longrightarrow> ws ! t = fips_W b t" "t < j + n"
  shows "length (sha256_extend n ws) = j + n \<and> sha256_extend n ws ! t = fips_W b t"
  using assms
proof (induction n arbitrary: ws j)
  case (Suc n)
  let ?w = "fips_W b j"
  have "fips_W b j = (rightrot32 (ws ! (j - 2)) 17 XOR rightrot32 (ws ! (j - 2)) 19 XOR drop_bit 10 (ws ! (j - 2)))
      + (rightrot32 (ws ! (j - 15)) 7 XOR rightrot32 (ws ! (j - 15)) 18 XOR drop_bit 3 (ws ! (j - 15)))
      + (ws ! (j - 7) + ws ! (j - 16))"
    using Suc.prems(2,3) by (subst fips_W.simps) (simp add: sigma0_def sigma1_def rightrot32_rotr ac_simps)
  then have step: "sha256_extend (Suc n) ws = sha256_extend n (ws @ [?w])"
    using Suc.prems(1) by (simp add: Let_def)
  have "(ws @ [?w]) ! t = fips_W b t" if "t < Suc j" for t
    using that Suc.prems(1,3) by (auto simp: nth_append less_Suc_eq)
  then show ?case
    using Suc.IH [of "ws @ [?w]" "Suc j"] Suc.prems step by simp
qed simp

lemma sha256_words_W:
  assumes "length b = 64" "t < 64"
  shows "sha256_words b ! t = fips_W b t"
proof -
  let ?ws = "map (\<lambda>j. swapped32 (le32 (take 4 (drop (4 * j) b)))) [0..<16]"
  have first: "?ws ! t = fips_W b t" if "t < 16" for t
    using that assms(1) by (subst fips_W.simps) (simp add: swapped32_le32 be_word_def)
  have "length ?ws = 16"
    by simp
  then show ?thesis
    using sha256_extend_W [of ?ws 16 b t 48] assms(2) first unfolding sha256_words_def by simp
qed

text \<open>The table of the code is the table of the standard.\<close>

lemma cube_root_bits:
  fixes k :: int
  assumes "0 \<le> k" "k ^ 3 \<le> int p * 2 ^ 96" "int p * 2 ^ 96 < (k + 1) ^ 3"
  shows "\<lfloor>root 3 (real p) * 2 ^ 32\<rfloor> = k"
proof -
  have root: "root 3 (real p) * 2 ^ 32 = root 3 (real_of_int (int p * 2 ^ 96))"
  proof -
    have "root 3 ((2 ^ 32) ^ 3) = (2 ^ 32 :: real)"
      by (rule real_root_power_cancel) simp_all
    then show ?thesis
      by (simp add: real_root_mult)
  qed
  have "root 3 (real_of_int (k ^ 3)) \<le> root 3 (real_of_int (int p * 2 ^ 96))"
    using assms(2) by (subst real_root_le_iff) (simp_all only: of_int_le_iff zero_less_numeral)
  moreover have "root 3 (real_of_int (int p * 2 ^ 96)) < root 3 (real_of_int ((k + 1) ^ 3))"
    using assms(3) by (subst real_root_less_iff) (simp_all only: of_int_less_iff zero_less_numeral)
  moreover have "root 3 (real_of_int (k ^ 3)) = real_of_int k" "root 3 (real_of_int ((k + 1) ^ 3)) = real_of_int k + 1"
    using assms(1) real_root_power_cancel [of 3 "real_of_int k"] real_root_power_cancel [of 3 "real_of_int (k + 1)"] by simp_all
  ultimately show ?thesis
    unfolding root by (intro floor_unique) (simp_all only: of_int_le_iff)
qed

lemma fips_primes_eq: "fips_primes = concat
  [[2, 3, 5, 7, 11, 13, 17, 19, 23, 29, 31, 37, 41, 43, 47, 53], [59, 61, 67, 71, 73, 79, 83, 89, 97, 101, 103, 107, 109, 113, 127, 131],
   [137, 139, 149, 151, 157, 163, 167, 173, 179, 181, 191, 193, 197, 199, 211, 223],
   [227, 229, 233, 239, 241, 251, 257, 263, 269, 271, 277, 281, 283, 293, 307, 311]]"
  by (simp add: fips_primes_def upt_rec_numeral)
definition cube_roots :: "int list" where
  "cube_roots = map2 (\<lambda>n w. n * 2 ^ 32 + uint w)
     (concat [[1, 1, 1, 1], [2, 2, 2, 2, 2], [3, 3, 3, 3, 3, 3, 3, 3, 3], [4, 4, 4, 4, 4, 4, 4, 4, 4, 4, 4, 4], [5, 5, 5, 5, 5, 5, 5, 5, 5, 5, 5, 5, 5, 5, 5, 5, 5], [6, 6, 6, 6, 6, 6, 6, 6, 6, 6, 6, 6, 6, 6, 6, 6, 6]]) sha256_constants"

lemma cube_roots_ok:
  "list_all2 (\<lambda>k p. 0 \<le> k \<and> k ^ 3 \<le> int p * 2 ^ 96 \<and> int p * 2 ^ 96 < (k + 1) ^ 3) cube_roots fips_primes"
  by (simp add: cube_roots_def fips_primes_eq sha256_constants_def)

lemma sha256_constants_fips: "t < 64 \<Longrightarrow> sha256_constants ! t = fips_K t"
proof -
  assume t: "t < 64"
  have len: "length sha256_constants = 64" "length cube_roots = 64"
    by (simp_all add: cube_roots_def sha256_constants_def)
  then have "\<lfloor>root 3 (real (fips_primes ! t)) * 2 ^ 32\<rfloor> = cube_roots ! t"
    using t cube_roots_ok by (intro cube_root_bits) (simp_all add: list_all2_conv_all_nth)
  moreover have "word_of_int (n * 2 ^ 32 + uint w) = w" for n and w :: "uint32"
    using uint_lt2p [of w] by (intro word_uint_eqI) (simp only: uint_word_of_int, simp)
  ultimately show ?thesis
    using t len by (simp add: fips_K_def cube_roots_def)
qed
lemma sha256_round_fips:
  "t < 64 \<Longrightarrow> ws ! t = fips_W b t \<Longrightarrow> st = fips_vars b st0 t \<Longrightarrow> sha256_round ws st t = fips_vars b st0 (Suc t)"
  by (simp add: sha256_round_def sha256_constants_fips Sigma0_def Sigma1_def rightrot32_rotr Let_def ac_simps split: prod.splits)

lemma sha256_rounds_fips:
  "n \<le> 64 \<Longrightarrow> (\<And>t. t < n \<Longrightarrow> ws ! t = fips_W b t) \<Longrightarrow> foldl (sha256_round ws) st0 [0..<n] = fips_vars b st0 n"
proof (induction n)
  case (Suc n)
  then have "foldl (sha256_round ws) st0 [0..<Suc n] = sha256_round ws (fips_vars b st0 n) n"
    by simp
  also have "\<dots> = fips_vars b st0 (Suc n)"
    by (rule sha256_round_fips) (use Suc.prems in auto)
  finally show ?case .
qed simp

text \<open>Claim C33. The compression function computes, on every 64-byte block and every eight-word state,
  the function of the standard: rotations of words, the schedule as a function of the index over the
  block's big-endian words, the constants made of the cube roots of the primes, 64 steps, and the sum with the state it started from.\<close>

theorem sha256_chunk_fips:
  assumes "length b = 64" "st = [s0, s1, s2, s3, s4, s5, s6, s7]"
  shows "sha256_chunk st b =
    (case fips_vars b (s0, s1, s2, s3, s4, s5, s6, s7) 64 of (A, B, C, D, E, F, G, H) \<Rightarrow>
       map2 (+) st [A, B, C, D, E, F, G, H])"
proof -
  have "foldl (sha256_round (sha256_words b)) (s0, s1, s2, s3, s4, s5, s6, s7) [0..<64]
      = fips_vars b (s0, s1, s2, s3, s4, s5, s6, s7) 64"
    by (rule sha256_rounds_fips) (auto intro: sha256_words_W [OF assms(1)])
  moreover have "(st ! 0, st ! 1, st ! 2, st ! 3, st ! 4, st ! 5, st ! 6, st ! 7) = (s0, s1, s2, s3, s4, s5, s6, s7)"
    by (simp add: assms(2))
  ultimately show ?thesis
    unfolding sha256_chunk_def by (simp add: assms(2) split: prod.split)
qed

theorem sha256_chunk_fips_witness:
  "sha256_chunk [1, 2, 3, 4, 5, 6, 7, 8] (replicate 64 97) =
    (case fips_vars (replicate 64 97) (1, 2, 3, 4, 5, 6, 7, 8) 64 of (A, B, C, D, E, F, G, H) \<Rightarrow>
       map2 (+) [1, 2, 3, 4, 5, 6, 7, 8] [A, B, C, D, E, F, G, H])"
  by (rule sha256_chunk_fips) simp_all

end
