(* ===== verification/DataModule.thy ===== *)
theory DataModule
  imports Base64 HashFunction
begin

text \<open>
  The text encodings and the dispatch of \<^verbatim>\<open>src/src/modules/data/DataModule.cpp\<close>:
  hexadecimal text, the choice between it and Base64, and the choice of a digest.
  Both encodings meet one contract, the locale \<^verbatim>\<open>codec\<close>.
\<close>

section \<open>Hexadecimal text\<close>

definition hexchars :: "byte list" where
  "hexchars = bytes_of ''0123456789abcdef''"

definition bytesToHex :: "allocator \<Rightarrow> byte list \<Rightarrow> (byte list option \<times> nat) result" where
  "bytesToHex new_ok src =
     (let dstlen = length src * 2
      in if dstlen = 0 then Inr (None, dstlen)
         else if \<not> new_ok (dstlen + 1) then Inl out_of_memory
         else Inr (Some (concat (map (\<lambda>b. [hexchars ! unat (drop_bit 4 b), hexchars ! unat (b AND 0xF)]) src)), dstlen))"

text \<open>The three ranges of digits; any other character counts as zero.\<close>

definition nibble :: "byte \<Rightarrow> byte" where
  "nibble c =
     (if 48 \<le> c \<and> c \<le> 57 then c - 48
      else if 65 \<le> c \<and> c \<le> 70 then c - 65 + 0x0a
      else if 97 \<le> c \<and> c \<le> 102 then c - 97 + 0x0a
      else 0)"

definition skip_0x :: "byte list \<Rightarrow> byte list" where
  "skip_0x src =
     (if length src \<ge> 2 \<and> src ! 0 = 48 \<and> (src ! 1 = 120 \<or> src ! 1 = 88) then drop 2 src else src)"

definition hexToBytes :: "allocator \<Rightarrow> byte list \<Rightarrow> (byte list option \<times> nat) result" where
  "hexToBytes new_ok src0 =
     (let src = skip_0x src0; srclen = length src; dstlen = (srclen + 1) div 2
      in if dstlen = 0 then Inr (None, dstlen)
         else if \<not> new_ok dstlen then Inl out_of_memory
         else Inr (Some (map (\<lambda>i. push_bit 4 (nibble (src ! (i * 2)))
                             OR (if i * 2 + 1 < srclen then nibble (src ! (i * 2 + 1)) else 0)) [0..<dstlen]), dstlen))"

section \<open>The dispatch\<close>

datatype encode_format = ENCODE_BASE64 | ENCODE_HEX | ENCODE_MAX_ENUM

definition encode :: "allocator \<Rightarrow> encode_format \<Rightarrow> byte list \<Rightarrow> nat \<Rightarrow> (byte list option \<times> nat) result" where
  "encode new_ok format src linelen =
     (case format of
        ENCODE_HEX \<Rightarrow> bytesToHex new_ok src
      | _ \<Rightarrow> b64_encode new_ok src linelen)"

definition decode :: "allocator \<Rightarrow> encode_format \<Rightarrow> byte list \<Rightarrow> byte \<Rightarrow> (byte list option \<times> nat) result" where
  "decode new_ok format src past =
     (case format of
        ENCODE_HEX \<Rightarrow> hexToBytes new_ok src
      | _ \<Rightarrow> bind_result (b64_decode new_ok src past) (\<lambda>dst. Inr (Some dst, length dst)))"

text \<open>\<open>hash\<close> of a buffer, with the check of the function's implementation.\<close>

definition data_hash :: "hash_function \<Rightarrow> byte list \<Rightarrow> byte list result" where
  "data_hash f input =
     (case getHashFunction f of
        None \<Rightarrow> Inl (Exception ''Invalid hash function.'')
      | Some h \<Rightarrow> h f input)"

section \<open>The contract of an encoding\<close>

text \<open>What a caller reads of an answer: a null pointer stands for the empty text.\<close>

definition answer_text :: "byte list option \<times> nat \<Rightarrow> byte list" where
  "answer_text r = (case fst r of None \<Rightarrow> [] | Some t \<Rightarrow> take (snd r) t)"

locale codec =
  fixes enc dec :: "byte list \<Rightarrow> (byte list option \<times> nat) result"
    and ok :: "byte list \<Rightarrow> bool"
  assumes enc_total: "ok src \<Longrightarrow> \<exists>r. enc src = Inr r \<and> length (answer_text r) = snd r"
    and dec_enc: "ok src \<Longrightarrow> enc src = Inr r \<Longrightarrow>
      \<exists>s. dec (answer_text r) = Inr s \<and> answer_text s = src \<and> snd s = length src"
begin

lemma round_trip:
  "ok src \<Longrightarrow> \<exists>r s. enc src = Inr r \<and> length (answer_text r) = snd r \<and>
     dec (answer_text r) = Inr s \<and> answer_text s = src \<and> snd s = length src"
  using enc_total [of src] dec_enc [of src] by auto

lemma enc_inj: "ok a \<Longrightarrow> ok b \<Longrightarrow> enc a = enc b \<Longrightarrow> a = b"
proof -
  assume ok: "ok a" "ok b" and eq: "enc a = enc b"
  obtain r where r: "enc a = Inr r"
    using enc_total [OF ok(1)] by blast
  obtain s where s: "dec (answer_text r) = Inr s" "answer_text s = a"
    using dec_enc [OF ok(1) r] by blast
  obtain s' where s': "dec (answer_text r) = Inr s'" "answer_text s' = b"
    using dec_enc [OF ok(2)] r eq by auto
  show ?thesis
    using s s' by simp
qed

end

section \<open>Hexadecimal text reads back\<close>

lemma hexchars_bytes: "hexchars = [48, 49, 50, 51, 52, 53, 54, 55, 56, 57, 97, 98, 99, 100, 101, 102]"
  by (simp add: hexchars_def bytes_of_def byte_of_char_def of_char_def)

lemma hex_digit:
  assumes "unat x < 16"
  shows "nibble (hexchars ! unat x) = x \<and> hexchars ! unat x \<noteq> 120 \<and> hexchars ! unat x \<noteq> 88"
proof -
  have "list_all (\<lambda>i. nibble (hexchars ! i) = of_nat i \<and> hexchars ! i \<noteq> 120 \<and> hexchars ! i \<noteq> 88) [0..<16]"
    by (simp add: hexchars_bytes nibble_def upt_rec)
  then show ?thesis
    using assms by (auto simp: list_all_iff)
qed

lemma nibbles_lt: "unat (drop_bit 4 b) < 16" "unat (b AND 0xF) < 16" for b :: byte
proof -
  have m: "(0xF :: byte) = mask 4"
    by (simp add: mask_eq_exp_minus_1)
  have "unat (drop_bit 4 b) = unat b div 16"
    by (simp add: unat_drop_bit_eq) (simp add: drop_bit_eq_div)
  moreover have "unat b < 2 ^ LENGTH(8)"
    by (rule unsigned_less)
  ultimately show "unat (drop_bit 4 b) < 16"
    by simp
  show "unat (b AND 0xF) < 16"
    unfolding m by (simp flip: take_bit_eq_mask add: unsigned_take_bit_eq) (simp add: take_bit_eq_mod)
qed

lemma join_nibbles: "push_bit 4 (drop_bit 4 b) OR (b AND 0xF) = b" for b :: byte
proof -
  have m: "(0xF :: byte) = mask 4"
    by (simp add: mask_eq_exp_minus_1)
  show ?thesis
    unfolding m
    by (rule bit_word_eqI) (auto simp: bit_or_iff bit_and_iff bit_push_bit_iff bit_drop_bit_eq bit_mask_iff)
qed

definition hex_text :: "byte list \<Rightarrow> byte list" where
  "hex_text src = concat (map (\<lambda>b. [hexchars ! unat (drop_bit 4 b), hexchars ! unat (b AND 0xF)]) src)"

lemma length_hex_text [simp]: "length (hex_text src) = 2 * length src"
  by (induction src) (auto simp: hex_text_def)

lemma hex_text_nth:
  "i < length src \<Longrightarrow> hex_text src ! (i * 2) = hexchars ! unat (drop_bit 4 (src ! i)) \<and>
     hex_text src ! (i * 2 + 1) = hexchars ! unat (src ! i AND 0xF)"
proof (induction src arbitrary: i)
  case (Cons b src)
  then show ?case
    by (cases i) (auto simp: hex_text_def)
qed simp

lemma skip_0x_hex [simp]: "skip_0x (hex_text src) = hex_text src"
proof (cases src)
  case (Cons b bs)
  then show ?thesis
    using hex_text_nth [of 0 src] hex_digit [OF nibbles_lt(2), of b] by (simp add: skip_0x_def)
qed (simp add: skip_0x_def hex_text_def)

lemma hex_round_trip:
  assumes "\<forall>n. new_ok n" "src \<noteq> []"
  shows "hexToBytes new_ok (hex_text src) = Inr (Some src, length src)"
proof -
  have "map (\<lambda>i. push_bit 4 (nibble (hex_text src ! (i * 2)))
      OR (if i * 2 + 1 < length (hex_text src) then nibble (hex_text src ! (i * 2 + 1)) else 0)) [0..<length src]
      = map (\<lambda>i. src ! i) [0..<length src]"
    by (rule map_cong)
       (auto simp: hex_text_nth hex_text_nth [simplified] hex_digit nibbles_lt join_nibbles simp del: unat_drop_bit_eq)
  then show ?thesis
    using assms by (simp add: hexToBytes_def Let_def map_nth)
qed

lemma codec_hex: "\<forall>n. new_ok n \<Longrightarrow> codec (bytesToHex new_ok) (hexToBytes new_ok) (\<lambda>_. True)"
proof
  assume ok: "\<forall>n. new_ok n"
  have enc: "bytesToHex new_ok src = Inr (if src = [] then (None, 0) else (Some (hex_text src), 2 * length src))" for src
    using ok by (simp add: bytesToHex_def hex_text_def mult.commute)
  show "\<exists>r. bytesToHex new_ok src = Inr r \<and> length (answer_text r) = snd r" for src
    by (simp add: enc answer_text_def)
  show "\<exists>s. hexToBytes new_ok (answer_text r) = Inr s \<and> answer_text s = src \<and> snd s = length src"
    if "bytesToHex new_ok src = Inr r" for src r
  proof (cases "src = []")
    case True
    then show ?thesis
      using that by (auto simp: enc answer_text_def hexToBytes_def skip_0x_def)
  next
    case False
    then show ?thesis
      using that hex_round_trip [OF ok False] by (auto simp: enc answer_text_def)
  qed
qed

lemma codec_base64:
  assumes ok: "\<forall>n. new_ok n" and line: "4 dvd linelen"
  shows "codec (\<lambda>src. encode new_ok ENCODE_BASE64 src linelen) (\<lambda>src. decode new_ok ENCODE_BASE64 src past)
           (\<lambda>src. length src < 2 ^ 61)"
proof
  fix src :: "byte list"
  assume src: "length src < 2 ^ 61"
  have "(\<exists>t. encode new_ok ENCODE_BASE64 src linelen = Inr (Some t, length t) \<and> b64_decode new_ok t past = Inr src) \<or>
        src = [] \<and> encode new_ok ENCODE_BASE64 src linelen = Inr (None, 0) \<and> b64_decode new_ok [] past = Inr []"
  proof (cases "src = []")
    case True
    then show ?thesis
      using ok by (simp add: encode_def b64_encode_def b64_decode_eq sextets_def Let_def)
  next
    case False
    then show ?thesis
      using b64_encode_decode [OF False src line ok, of past] by (auto simp: encode_def)
  qed
  note cases = this
  show "\<exists>r. encode new_ok ENCODE_BASE64 src linelen = Inr r \<and> length (answer_text r) = snd r"
    using cases by (auto simp: answer_text_def)
  show "\<exists>s. decode new_ok ENCODE_BASE64 (answer_text r) past = Inr s \<and> answer_text s = src \<and> snd s = length src"
    if "encode new_ok ENCODE_BASE64 src linelen = Inr r" for r
    using that cases by (auto simp: answer_text_def decode_def)
qed

interpretation hex: codec "\<lambda>src. encode (\<lambda>_. True) ENCODE_HEX src linelen"
  "\<lambda>src. decode (\<lambda>_. True) ENCODE_HEX src past" "\<lambda>_. True" for linelen past
  using codec_hex [of "\<lambda>_. True"] by (simp add: encode_def decode_def)

interpretation base64: codec "\<lambda>src. encode (\<lambda>_. True) ENCODE_BASE64 src (4 * k)"
  "\<lambda>src. decode (\<lambda>_. True) ENCODE_BASE64 src past" "\<lambda>src. length src < 2 ^ 61" for k past
  by (rule codec_base64) simp_all

text \<open>Claim C35. Encoding data and decoding the text gives the data back, the empty data included, in
  hexadecimal and, without a line length or with one that is a multiple of four, in Base64; the
  encoder announces exactly the text it wrote, and the decoder exactly the data.\<close>

theorem encode_decode:
  assumes "length src < 2 ^ 61" "format = ENCODE_HEX \<or> format = ENCODE_BASE64 \<and> 4 dvd linelen"
  shows "\<exists>r s. encode (\<lambda>_. True) format src linelen = Inr r \<and> length (answer_text r) = snd r \<and>
    decode (\<lambda>_. True) format (answer_text r) past = Inr s \<and> answer_text s = src \<and> snd s = length src"
proof (cases "format = ENCODE_HEX")
  case True
  then show ?thesis
    using hex.round_trip [of src linelen past] by simp
next
  case False
  then obtain k where "linelen = 4 * k" "format = ENCODE_BASE64"
    using assms(2) by auto
  then show ?thesis
    using base64.round_trip [OF assms(1), of k past] by simp
qed

theorem encode_decode_witness:
  "\<exists>r s. encode (\<lambda>_. True) ENCODE_BASE64 [104, 105] 76 = Inr r \<and> length (answer_text r) = snd r \<and>
    decode (\<lambda>_. True) ENCODE_BASE64 (answer_text r) 0 = Inr s \<and> answer_text s = [104, 105] \<and> snd s = length [104 :: byte, 105]"
  by (rule encode_decode) simp_all

end
