(* ===== verification/Compressor.thy ===== *)
theory Compressor
  imports HashFunction
begin

text \<open>
  The compressors of \<^verbatim>\<open>src/src/modules/data/Compressor.cpp\<close> and the data they produce
  (\<^verbatim>\<open>CompressedData.cpp\<close>, \<open>compress\<close> and \<open>decompress\<close> of \<^verbatim>\<open>DataModule.cpp\<close>). LZ4 and
  zlib are libraries: their entry points are the record \<open>codec_lib\<close>, a parameter.
\<close>

section \<open>The libraries\<close>

definition Z_OK :: int where "Z_OK = 0"
definition Z_STREAM_END :: int where "Z_STREAM_END = 1"
definition Z_NEED_DICT :: int where "Z_NEED_DICT = 2"
definition Z_DATA_ERROR :: int where "Z_DATA_ERROR = -3"
definition Z_BUF_ERROR :: int where "Z_BUF_ERROR = -5"
definition Z_DEFAULT_COMPRESSION :: int where "Z_DEFAULT_COMPRESSION = -1"
definition LZ4_MAX_INPUT_SIZE :: nat where "LZ4_MAX_INPUT_SIZE = 0x7E000000"

lemmas z_codes = Z_OK_def Z_STREAM_END_def Z_NEED_DICT_def Z_DATA_ERROR_def Z_BUF_ERROR_def

text \<open>
  A call of \<^verbatim>\<open>deflate\<close> or \<^verbatim>\<open>inflate\<close> on a fresh stream with \<^verbatim>\<open>Z_FINISH\<close>: the error code,
  what it wrote, and how much input and output room it left. The initialisers and
  the end calls answer an error code.
\<close>

record z_answer =
  z_err :: int
  z_out :: "byte list"
  z_avail_in :: nat
  z_avail_out :: nat

record codec_lib =
  LZ4_compressBound :: "nat \<Rightarrow> nat"
  LZ4_compress_HC :: "byte list \<Rightarrow> nat \<Rightarrow> byte list option"
  LZ4_compress_default :: "byte list \<Rightarrow> nat \<Rightarrow> byte list option"
  LZ4_decompress_fast :: "byte list \<Rightarrow> nat \<Rightarrow> byte list option"
  LZ4_decompress_safe :: "byte list \<Rightarrow> nat \<Rightarrow> byte list option"
  deflateInit2 :: "int \<Rightarrow> int \<Rightarrow> int"
  deflate :: "int \<Rightarrow> int \<Rightarrow> byte list \<Rightarrow> nat \<Rightarrow> z_answer"
  deflateEnd :: "z_answer \<Rightarrow> int"
  inflateInit2 :: "int \<Rightarrow> int"
  inflate :: "int \<Rightarrow> byte list \<Rightarrow> nat \<Rightarrow> z_answer"
  inflateEnd :: "z_answer \<Rightarrow> int"

datatype format = FORMAT_LZ4 | FORMAT_ZLIB | FORMAT_GZIP | FORMAT_DEFLATE | FORMAT_MAX_ENUM

section \<open>LZ4\<close>

definition lz4_isSupported :: "format \<Rightarrow> bool" where
  "lz4_isSupported f \<longleftrightarrow> f = FORMAT_LZ4"

text \<open>The size of the raw data is stored, at 32 bits, ahead of the compressed bytes.\<close>

definition lz4_compress :: "codec_lib \<Rightarrow> allocator \<Rightarrow> format \<Rightarrow> byte list \<Rightarrow> int \<Rightarrow> byte list result" where
  "lz4_compress lib new_ok f data level =
     (if f \<noteq> FORMAT_LZ4 then Inl (Exception ''Invalid format (expecting LZ4)'')
      else if length data > LZ4_MAX_INPUT_SIZE then Inl (Exception ''Data is too large for LZ4 compressor.'')
      else
        let maxdestsize = LZ4_compressBound lib (length data); maxsize = 4 + maxdestsize
        in if \<not> new_ok maxsize then Inl out_of_memory
           else
             let header = bytes_le32 (of_nat (length data));
                 csize = (if level > 8 then LZ4_compress_HC lib data maxdestsize
                          else LZ4_compress_default lib data maxdestsize)
             in case csize of
                  None \<Rightarrow> Inl (Exception ''Could not LZ4-compress data.'')
                | Some c \<Rightarrow>
                    if c = [] then Inl (Exception ''Could not LZ4-compress data.'')
                    else Inr (header @ c))"

definition lz4_decompress ::
  "codec_lib \<Rightarrow> allocator \<Rightarrow> format \<Rightarrow> byte list \<Rightarrow> nat \<Rightarrow> byte list result" where
  "lz4_decompress lib new_ok f data decompressedSize =
     (if f \<noteq> FORMAT_LZ4 then Inl (Exception ''Invalid format (expecting LZ4)'')
      else if length data < 4 then Inl (Exception ''Invalid LZ4-compressed data size.'')
      else
        let rawsize = unat (le32 (take 4 data))
        in if \<not> new_ok rawsize then Inl out_of_memory
           else if decompressedSize > 0 \<and> decompressedSize = rawsize
           then (case LZ4_decompress_fast lib (drop 4 data) decompressedSize of
                   None \<Rightarrow> Inl (Exception ''Could not decompress LZ4-compressed data.'')
                 | Some m \<Rightarrow> Inr (take decompressedSize m))
           else (case LZ4_decompress_safe lib (drop 4 data) rawsize of
                   None \<Rightarrow> Inl (Exception ''Could not decompress LZ4-compressed data.'')
                 | Some m \<Rightarrow> Inr m))"

section \<open>zlib\<close>

definition zlib_isSupported :: "format \<Rightarrow> bool" where
  "zlib_isSupported f \<longleftrightarrow> f = FORMAT_ZLIB \<or> f = FORMAT_GZIP \<or> f = FORMAT_DEFLATE"

definition zlibCompressBound :: "format \<Rightarrow> nat \<Rightarrow> nat" where
  "zlibCompressBound f n =
     (let s = n + n div 2 ^ 12 + n div 2 ^ 14 + n div 2 ^ 25 + 13
      in if f = FORMAT_GZIP then s + (18 - 6) else s)"

text \<open>The stream counts its input and its room at 32 bits (\<^verbatim>\<open>uInt\<close>).\<close>

definition uInt :: "nat \<Rightarrow> nat" where
  "uInt n = n mod 2 ^ 32"

definition zlibCompress :: "codec_lib \<Rightarrow> format \<Rightarrow> nat \<Rightarrow> byte list \<Rightarrow> int \<Rightarrow> int \<times> byte list" where
  "zlibCompress lib f destLen source level =
     (let windowbits = (if f = FORMAT_GZIP then 15 + 16 else if f = FORMAT_DEFLATE then - 15 else 15);
          err = deflateInit2 lib level windowbits
      in if err \<noteq> Z_OK then (err, [])
         else
           let stream = deflate lib level windowbits (take (uInt (length source)) source) (uInt destLen)
           in if z_err stream \<noteq> Z_STREAM_END
              then (if z_err stream = Z_OK then Z_BUF_ERROR else z_err stream, [])
              else (deflateEnd lib stream, z_out stream))"

definition zlibDecompress :: "codec_lib \<Rightarrow> format \<Rightarrow> nat \<Rightarrow> byte list \<Rightarrow> int \<times> byte list" where
  "zlibDecompress lib f destLen source =
     (let windowbits = (if f = FORMAT_DEFLATE then - 15 else 15 + 32);
          err = inflateInit2 lib windowbits
      in if err \<noteq> Z_OK then (err, [])
         else
           let stream = inflate lib windowbits (take (uInt (length source)) source) (uInt destLen)
           in if z_err stream \<noteq> Z_STREAM_END
              then (if z_err stream = Z_NEED_DICT \<or>
                       (z_err stream = Z_BUF_ERROR \<and> z_avail_out stream > 0 \<and> z_avail_in stream = 0)
                    then Z_DATA_ERROR else z_err stream, [])
              else (inflateEnd lib stream, z_out stream))"

definition zlib_compress :: "codec_lib \<Rightarrow> allocator \<Rightarrow> format \<Rightarrow> byte list \<Rightarrow> int \<Rightarrow> byte list result" where
  "zlib_compress lib new_ok f data level =
     (if \<not> zlib_isSupported f then Inl (Exception ''Invalid format (expecting zlib or gzip)'')
      else
        let level = (if level < 0 then Z_DEFAULT_COMPRESSION else if level > 9 then 9 else level);
            maxsize = zlibCompressBound f (length data)
        in if \<not> new_ok maxsize then Inl out_of_memory
           else case zlibCompress lib f maxsize data level of
                  (status, dest) \<Rightarrow>
                    if status \<noteq> Z_OK then Inl (Exception ''Could not zlib/gzip-compress data.'')
                    else Inr dest)"

text \<open>
  The loop that tries ever larger buffers. It may never end, so its result is an
  option and \<^verbatim>\<open>None\<close> is a call that does not return.
\<close>

partial_function (option) zlib_decompress_loop ::
  "codec_lib \<Rightarrow> allocator \<Rightarrow> format \<Rightarrow> byte list \<Rightarrow> nat \<Rightarrow> byte list result option" where
  "zlib_decompress_loop lib new_ok f data rawsize =
     (if \<not> new_ok rawsize then Some (Inl out_of_memory)
      else case zlibDecompress lib f rawsize data of
             (status, dest) \<Rightarrow>
               if status = Z_OK then Some (Inr dest)
               else if status \<noteq> Z_BUF_ERROR
               then Some (Inl (Exception (''Could not decompress zlib/gzip-compressed data (error code: ''
                                           @ decimal_int status @ '').'')))
               else zlib_decompress_loop lib new_ok f data (rawsize * 2 mod 2 ^ 64))"

definition zlib_decompress ::
  "codec_lib \<Rightarrow> allocator \<Rightarrow> format \<Rightarrow> byte list \<Rightarrow> nat \<Rightarrow> byte list result option" where
  "zlib_decompress lib new_ok f data decompressedSize =
     (if \<not> zlib_isSupported f then Some (Inl (Exception ''Invalid format (expecting zlib or gzip)''))
      else zlib_decompress_loop lib new_ok f data
             (if decompressedSize > 0 then decompressedSize else length data * 2))"

section \<open>The choice of a compressor and the data it makes\<close>

datatype compressor = LZ4Compressor | ZlibCompressor

definition getCompressor :: "format \<Rightarrow> compressor option" where
  "getCompressor f =
     (if lz4_isSupported f then Some LZ4Compressor
      else if zlib_isSupported f then Some ZlibCompressor
      else None)"

record compressed_data =
  cd_format :: format
  cd_data :: "byte list"
  cd_originalSize :: nat

definition compress :: "codec_lib \<Rightarrow> allocator \<Rightarrow> format \<Rightarrow> byte list \<Rightarrow> int \<Rightarrow> compressed_data result" where
  "compress lib new_ok f raw level =
     (case getCompressor f of
        None \<Rightarrow> Inl (Exception ''Invalid compression format.'')
      | Some c \<Rightarrow>
          bind_result (case c of LZ4Compressor \<Rightarrow> lz4_compress lib new_ok f raw level
                               | ZlibCompressor \<Rightarrow> zlib_compress lib new_ok f raw level)
            (\<lambda>cbytes. Inr \<lparr>cd_format = f, cd_data = cbytes, cd_originalSize = length raw\<rparr>))"

definition decompress_bytes ::
  "codec_lib \<Rightarrow> allocator \<Rightarrow> format \<Rightarrow> byte list \<Rightarrow> nat \<Rightarrow> byte list result option" where
  "decompress_bytes lib new_ok f cbytes rawsize =
     (case getCompressor f of
        None \<Rightarrow> Some (Inl (Exception ''Invalid compression format.''))
      | Some LZ4Compressor \<Rightarrow> Some (lz4_decompress lib new_ok f cbytes rawsize)
      | Some ZlibCompressor \<Rightarrow> zlib_decompress lib new_ok f cbytes rawsize)"

definition decompress :: "codec_lib \<Rightarrow> allocator \<Rightarrow> compressed_data \<Rightarrow> byte list result option" where
  "decompress lib new_ok d = decompress_bytes lib new_ok (cd_format d) (cd_data d) (cd_originalSize d)"

text \<open>A copy of compressed data: the format, the size and the bytes, in a block of its own.\<close>

definition clone_compressed :: "allocator \<Rightarrow> compressed_data \<Rightarrow> compressed_data result" where
  "clone_compressed new_ok c =
     (if \<not> new_ok (length (cd_data c)) then Inl out_of_memory
      else Inr \<lparr>cd_format = cd_format c, cd_data = cd_data c, cd_originalSize = cd_originalSize c\<rparr>)"

section \<open>What the libraries document\<close>

definition lz4_reads :: "codec_lib \<Rightarrow> byte list \<Rightarrow> byte list \<Rightarrow> bool" where
  "lz4_reads lib c m \<longleftrightarrow> c \<noteq> [] \<and> LZ4_decompress_fast lib c (length m) = Some m \<and>
     (\<forall>room \<ge> length m. LZ4_decompress_safe lib c room = Some m)"

definition lz4_laws :: "codec_lib \<Rightarrow> bool" where
  "lz4_laws lib \<longleftrightarrow> (\<forall>m. length m \<le> LZ4_MAX_INPUT_SIZE \<longrightarrow>
     (\<exists>c. LZ4_compress_HC lib m (LZ4_compressBound lib (length m)) = Some c \<and> lz4_reads lib c m) \<and>
     (\<exists>c. LZ4_compress_default lib m (LZ4_compressBound lib (length m)) = Some c \<and> lz4_reads lib c m))"

text \<open>
  An inflater with room finds the end of the stream; one without it says that
  the buffer was the problem, having used its room up. A stream made with a zlib
  or gzip header is read by the detecting inflater, a raw one by the raw one.
\<close>

definition z_reads :: "codec_lib \<Rightarrow> int \<Rightarrow> byte list \<Rightarrow> byte list \<Rightarrow> bool" where
  "z_reads lib w c m \<longleftrightarrow> (\<forall>room. 0 < room \<longrightarrow>
     (let a = inflate lib w c room
      in if length m \<le> room then z_err a = Z_STREAM_END \<and> z_out a = m \<and> inflateEnd lib a = Z_OK
         else z_err a = Z_BUF_ERROR \<and> z_avail_out a = 0))"

definition zlib_laws :: "codec_lib \<Rightarrow> bool" where
  "zlib_laws lib \<longleftrightarrow>
     inflateInit2 lib 47 = Z_OK \<and> inflateInit2 lib (- 15) = Z_OK \<and>
     (\<forall>level \<in> {-1..9}. \<forall>(w, w', f) \<in> {(15, 47, FORMAT_ZLIB), (31, 47, FORMAT_GZIP), (- 15, - 15, FORMAT_DEFLATE)}.
        deflateInit2 lib level w = Z_OK \<and>
        (\<forall>m room. zlibCompressBound f (length m) \<le> room \<longrightarrow>
           (let a = deflate lib level w m room
            in z_err a = Z_STREAM_END \<and> deflateEnd lib a = Z_OK \<and> z_out a \<noteq> [] \<and>
               length (z_out a) \<le> zlibCompressBound f (length m) \<and> z_reads lib w' (z_out a) m)))"

section \<open>Round trips\<close>

lemma le32_bytes_le32: "le32 (bytes_le32 x) = x"
proof (rule bit_word_eqI)
  fix k assume "k < LENGTH(32)"
  then have k: "k < 32" "k div 8 < 4"
    by auto
  then have "bytes_le32 x ! (k div 8) = ucast (drop_bit (8 * (k div 8)) x)"
    by (simp add: bytes_le32_def nth_upt)
  then show "bit (le32 (bytes_le32 x)) k = bit x k"
    using k by (simp add: bit_le32 bit_ucast_iff bit_drop_bit_eq)
qed

lemma lz4_round_trip:
  assumes "lz4_laws lib" "\<forall>n. new_ok n" "length m \<le> LZ4_MAX_INPUT_SIZE"
  shows "\<exists>c. lz4_compress lib new_ok FORMAT_LZ4 m level = Inr c \<and> lz4_decompress lib new_ok FORMAT_LZ4 c hint = Inr m"
proof -
  let ?h = "bytes_le32 (of_nat (length m))"
  have "\<exists>c. (if level > 8 then LZ4_compress_HC lib m (LZ4_compressBound lib (length m))
             else LZ4_compress_default lib m (LZ4_compressBound lib (length m))) = Some c \<and> lz4_reads lib c m"
    using assms(1,3) by (auto simp: lz4_laws_def)
  then obtain c where c: "lz4_compress lib new_ok FORMAT_LZ4 m level = Inr (?h @ c)" "lz4_reads lib c m"
    using assms(2,3) by (auto simp: lz4_compress_def Let_def lz4_reads_def)
  have "unat (of_nat (length m) :: uint32) = length m"
    using assms(3) by (intro unat_of_nat_small) (simp add: LZ4_MAX_INPUT_SIZE_def)
  then have "lz4_decompress lib new_ok FORMAT_LZ4 (?h @ c) hint = Inr m"
    using c(2) assms(2) by (auto simp: lz4_decompress_def Let_def lz4_reads_def le32_bytes_le32)
  then show ?thesis
    using c(1) by blast
qed

lemma uInt_small [simp]: "n < 2 ^ 32 \<Longrightarrow> uInt n = n"
  by (simp add: uInt_def)

text \<open>The window bits each format is written and read with.\<close>

definition write_bits :: "format \<Rightarrow> int" where
  "write_bits f = (if f = FORMAT_GZIP then 15 + 16 else if f = FORMAT_DEFLATE then - 15 else 15)"

definition read_bits :: "format \<Rightarrow> int" where
  "read_bits f = (if f = FORMAT_DEFLATE then - 15 else 15 + 32)"

lemma zlib_laws_at:
  assumes "zlib_laws lib" "zlib_isSupported f" "- 1 \<le> level" "level \<le> 9"
  shows "inflateInit2 lib (read_bits f) = Z_OK" "deflateInit2 lib level (write_bits f) = Z_OK"
    and "zlibCompressBound f (length m) \<le> room \<Longrightarrow>
      (let a = deflate lib level (write_bits f) m room
       in z_err a = Z_STREAM_END \<and> deflateEnd lib a = Z_OK \<and> z_out a \<noteq> [] \<and>
          length (z_out a) \<le> zlibCompressBound f (length m) \<and> z_reads lib (read_bits f) (z_out a) m)"
  using assms by (auto simp: zlib_laws_def zlib_isSupported_def write_bits_def read_bits_def)

lemma zlib_compress_reads:
  assumes laws: "zlib_laws lib" "zlib_isSupported f" and new: "\<forall>n. new_ok n"
    and bound: "zlibCompressBound f (length m) < 2 ^ 32"
  shows "\<exists>c. zlib_compress lib new_ok f m level = Inr c \<and> c \<noteq> [] \<and>
    length c \<le> zlibCompressBound f (length m) \<and> z_reads lib (read_bits f) c m"
proof -
  define l where "l = (if level < 0 then Z_DEFAULT_COMPRESSION else if level > 9 then 9 else level)"
  have l: "- 1 \<le> l" "l \<le> 9"
    by (auto simp: l_def Z_DEFAULT_COMPRESSION_def)
  have "length m \<le> zlibCompressBound f (length m)"
    by (simp add: zlibCompressBound_def Let_def)
  then have small: "uInt (length m) = length m" "uInt (zlibCompressBound f (length m)) = zlibCompressBound f (length m)"
    using bound by simp_all
  let ?a = "deflate lib l (write_bits f) m (zlibCompressBound f (length m))"
  have a: "z_err ?a = Z_STREAM_END" "deflateEnd lib ?a = Z_OK" "z_out ?a \<noteq> []"
    "length (z_out ?a) \<le> zlibCompressBound f (length m)" "z_reads lib (read_bits f) (z_out ?a) m"
    using zlib_laws_at(3) [OF laws l, of m "zlibCompressBound f (length m)"] by (simp_all add: Let_def)
  have "zlibCompress lib f (zlibCompressBound f (length m)) m l = (Z_OK, z_out ?a)"
    using zlib_laws_at(2) [OF laws l] a(1,2) small
    by (simp add: zlibCompress_def Let_def flip: write_bits_def)
  then have "zlib_compress lib new_ok f m level = Inr (z_out ?a)"
    using laws(2) new by (simp add: zlib_compress_def Let_def flip: l_def)
  then show ?thesis
    using a by blast
qed

lemma zlibDecompress_reads:
  assumes laws: "zlib_laws lib" "zlib_isSupported f" and c: "z_reads lib (read_bits f) c m" "length c < 2 ^ 32"
    and room: "0 < room" "room < 2 ^ 32"
  shows "zlibDecompress lib f room c = (if length m \<le> room then (Z_OK, m) else (Z_BUF_ERROR, []))"
proof -
  have "inflateInit2 lib (read_bits f) = Z_OK"
    using zlib_laws_at(1) [OF laws, of 0] by simp
  then show ?thesis
    using c room by (auto simp: zlibDecompress_def z_reads_def z_codes Let_def simp flip: read_bits_def)
qed

lemma zlib_loop_reads:
  assumes "zlib_laws lib" "zlib_isSupported f" "\<forall>n. new_ok n"
    "z_reads lib (read_bits f) c m" "length c < 2 ^ 32" "length m \<le> 2 ^ 31"
  shows "0 < room \<Longrightarrow> room < 2 ^ 32 \<Longrightarrow> zlib_decompress_loop lib new_ok f c room = Some (Inr m)"
proof (induction "2 ^ 32 - room" arbitrary: room rule: less_induct)
  case less
  note step = zlibDecompress_reads [OF assms(1,2,4,5) less.prems]
  show ?case
  proof (cases "length m \<le> room")
    case True
    then show ?thesis
      using step assms(3) by (subst zlib_decompress_loop.simps) simp
  next
    case False
    then have "room * 2 < 2 ^ 32"
      using assms(6) by simp
    moreover from this have "room * 2 mod 2 ^ 64 = room * 2"
      by simp
    ultimately have "zlib_decompress_loop lib new_ok f c (room * 2) = Some (Inr m)"
      using less.hyps [of "room * 2"] less.prems by simp
    then show ?thesis
      using False step assms(3) \<open>room * 2 mod 2 ^ 64 = room * 2\<close>
      by (subst zlib_decompress_loop.simps) (simp add: z_codes)
  qed
qed

lemma zlib_round_trip:
  assumes "zlib_laws lib" "zlib_isSupported f" "\<forall>n. new_ok n" "zlibCompressBound f (length m) < 2 ^ 31" "hint < 2 ^ 32"
  shows "\<exists>c. zlib_compress lib new_ok f m level = Inr c \<and> zlib_decompress lib new_ok f c hint = Some (Inr m)"
proof -
  obtain c where c: "zlib_compress lib new_ok f m level = Inr c" "c \<noteq> []"
    "length c \<le> zlibCompressBound f (length m)" "z_reads lib (read_bits f) c m"
    using zlib_compress_reads [OF assms(1-3), of m level] assms(4) by auto
  have "length m \<le> zlibCompressBound f (length m)"
    by (simp add: zlibCompressBound_def Let_def)
  then have "zlib_decompress_loop lib new_ok f c (if hint > 0 then hint else length c * 2) = Some (Inr m)"
    using assms c by (intro zlib_loop_reads) auto
  then show ?thesis
    using c(1) assms(2) by (auto simp: zlib_decompress_def)
qed

lemma zlibCompressBound_small:
  assumes "length m \<le> LZ4_MAX_INPUT_SIZE"
  shows "zlibCompressBound f (length m) < 2 ^ 31"
proof -
  let ?n = "length m"
  have n: "?n \<le> 2113929216"
    using assms by (simp add: LZ4_MAX_INPUT_SIZE_def)
  then have "?n div 2 ^ 12 \<le> 2113929216 div 2 ^ 12" "?n div 2 ^ 14 \<le> 2113929216 div 2 ^ 14"
    "?n div 2 ^ 25 \<le> 2113929216 div 2 ^ 25"
    by (intro div_le_mono; simp)+
  then show ?thesis
    using n by (simp add: zlibCompressBound_def Let_def)
qed

text \<open>Claim C31. For every format of the enumeration, any level and any data up to the limit of LZ4,
  compressing and decompressing gives the data back: the header, the window bits and the growing
  buffer fit together. A copy of the compressed data decompresses to the same.\<close>

theorem compress_decompress:
  assumes "lz4_laws lib" "zlib_laws lib" "\<forall>n. new_ok n" "f \<noteq> FORMAT_MAX_ENUM" "length m \<le> LZ4_MAX_INPUT_SIZE"
  shows "\<exists>d. compress lib new_ok f m level = Inr d \<and> decompress lib new_ok d = Some (Inr m) \<and>
    (\<exists>d'. clone_compressed new_ok d = Inr d' \<and> decompress lib new_ok d' = Some (Inr m))"
proof (cases "f = FORMAT_LZ4")
  case True
  obtain c where "lz4_compress lib new_ok FORMAT_LZ4 m level = Inr c"
    "lz4_decompress lib new_ok FORMAT_LZ4 c (length m) = Inr m"
    using lz4_round_trip [OF assms(1,3,5)] by blast
  then show ?thesis
    using True spec [OF assms(3), of "length c"]
    by (simp add: compress_def decompress_def decompress_bytes_def getCompressor_def lz4_isSupported_def clone_compressed_def)
next
  case False
  then have f: "zlib_isSupported f" "getCompressor f = Some ZlibCompressor"
    using assms(4) by (cases f; simp add: zlib_isSupported_def getCompressor_def lz4_isSupported_def)+
  have "length m < 2 ^ 32"
    using assms(5) by (simp add: LZ4_MAX_INPUT_SIZE_def)
  then obtain c where "zlib_compress lib new_ok f m level = Inr c"
    "zlib_decompress lib new_ok f c (length m) = Some (Inr m)"
    using zlib_round_trip [OF assms(2) f(1) assms(3) zlibCompressBound_small [OF assms(5)]] by blast
  then show ?thesis
    using f(2) spec [OF assms(3), of "length c"]
    by (simp add: compress_def decompress_def decompress_bytes_def clone_compressed_def)
qed

text \<open>A library that stores the data after one byte, to run the code on.\<close>

definition store_lib :: codec_lib where
  "store_lib = \<lparr>LZ4_compressBound = Suc,
     LZ4_compress_HC = (\<lambda>m n. Some (0 # m)), LZ4_compress_default = (\<lambda>m n. Some (1 # m)),
     LZ4_decompress_fast = (\<lambda>c n. Some (take n (tl c))),
     LZ4_decompress_safe = (\<lambda>c n. if length c \<le> Suc n then Some (tl c) else None),
     deflateInit2 = (\<lambda>level w. 0),
     deflate = (\<lambda>level w m room. \<lparr>z_err = 1, z_out = 0 # m, z_avail_in = 0, z_avail_out = room - Suc (length m)\<rparr>),
     deflateEnd = (\<lambda>a. 0), inflateInit2 = (\<lambda>w. 0),
     inflate = (\<lambda>w c room.
       if c = [] then \<lparr>z_err = - 5, z_out = [], z_avail_in = 0, z_avail_out = room\<rparr>
       else if length c \<le> Suc room
       then \<lparr>z_err = 1, z_out = tl c, z_avail_in = 0, z_avail_out = room - length (tl c)\<rparr>
       else \<lparr>z_err = - 5, z_out = take room (tl c), z_avail_in = 1, z_avail_out = 0\<rparr>),
     inflateEnd = (\<lambda>a. 0)\<rparr>"

lemma store_lib_laws: "lz4_laws store_lib" "zlib_laws store_lib"
  by (auto simp: lz4_laws_def lz4_reads_def zlib_laws_def z_reads_def z_codes store_lib_def zlibCompressBound_def Let_def)

theorem compress_decompress_witness:
  "\<exists>d. compress store_lib (\<lambda>_. True) FORMAT_GZIP (bytes_of ''abc'') 9 = Inr d \<and>
    decompress store_lib (\<lambda>_. True) d = Some (Inr (bytes_of ''abc'')) \<and>
    (\<exists>d'. clone_compressed (\<lambda>_. True) d = Inr d' \<and> decompress store_lib (\<lambda>_. True) d' = Some (Inr (bytes_of ''abc'')))"
  by (rule compress_decompress [OF store_lib_laws]) (simp_all add: LZ4_MAX_INPUT_SIZE_def)

text \<open>Claim C37. Decompressing no bytes at all, without a hint of the size, never returns: the guessed
  buffer is twice nothing, an inflater without input or room says that the buffer was the problem,
  and doubling nothing gives nothing.\<close>

theorem zlib_decompress_empty_hangs:
  assumes "zlib_isSupported f" "new_ok 0" "inflateInit2 lib (read_bits f) = Z_OK"
    "z_err (inflate lib (read_bits f) [] 0) = Z_BUF_ERROR" "z_avail_out (inflate lib (read_bits f) [] 0) = 0"
  shows "decompress_bytes lib new_ok f [] 0 = None"
proof -
  have retry: "zlibDecompress lib f 0 [] = (Z_BUF_ERROR, [])"
    using assms(3-5) by (simp add: zlibDecompress_def Let_def z_codes uInt_def flip: read_bits_def)
  have stuck: "\<not> (c = [] \<and> room = 0 \<and> lib' = lib \<and> new' = new_ok \<and> f' = f)"
    if "zlib_decompress_loop lib' new' f' c room = Some r" for lib' new' f' c room r
    using that
    by (rule zlib_decompress_loop.raw_induct [rotated, where P = "\<lambda>lib' new' f' c room r.
          \<not> (c = [] \<and> room = 0 \<and> lib' = lib \<and> new' = new_ok \<and> f' = f)"])
       (use retry assms(2) in \<open>fastforce simp: z_codes\<close>)
  have "zlib_decompress_loop lib new_ok f [] 0 = None"
    by (cases "zlib_decompress_loop lib new_ok f [] 0") (use stuck [of lib new_ok f "[]" 0] in auto)
  then show ?thesis
    using assms(1) by (auto simp: decompress_bytes_def getCompressor_def lz4_isSupported_def zlib_isSupported_def zlib_decompress_def)
qed

theorem zlib_decompress_empty_hangs_witness:
  "decompress_bytes store_lib (\<lambda>_. True) FORMAT_ZLIB [] 0 = None"
  by (rule zlib_decompress_empty_hangs) (simp_all add: zlib_isSupported_def store_lib_def z_codes)

end
