(* ===== verification/DataObjects.thy ===== *)
theory DataObjects
  imports Prelude
begin

text \<open>
  Blocks of memory and the objects that look at them: \<^verbatim>\<open>ByteData\<close>, \<^verbatim>\<open>DataView\<close> and
  \<^verbatim>\<open>DataStream\<close> (\<^verbatim>\<open>src/src/modules/data\<close>) and the reading and writing of data objects
  every stream offers (\<^verbatim>\<open>src/src/common/Stream.cpp\<close>).

  Several views and streams share one block, so the objects live in a store: a
  list, in the order of their creation. A view names the object it was made of,
  which is older than itself.
\<close>

section \<open>The store\<close>

datatype data_object =
    ByteData "byte list"
  | DataView nat nat nat

type_synonym store = "data_object list"

definition data_size :: "store \<Rightarrow> nat \<Rightarrow> nat" where
  "data_size st d = (case st ! d of ByteData bs \<Rightarrow> length bs | DataView p off sz \<Rightarrow> sz)"

text \<open>\<^verbatim>\<open>getData\<close>: the block an object points into and where.\<close>

function data_pointer :: "store \<Rightarrow> nat \<Rightarrow> nat \<times> nat" where
  "data_pointer st d =
     (case st ! d of
        ByteData bs \<Rightarrow> (d, 0)
      | DataView p off sz \<Rightarrow>
          if p < d then (case data_pointer st p of (root, o') \<Rightarrow> (root, o' + off)) else (d, 0))"
  by pat_completeness auto
termination
  by (relation "measure snd") auto

declare data_pointer.simps [simp del]

definition block :: "store \<Rightarrow> nat \<Rightarrow> byte list" where
  "block st root = (case st ! root of ByteData bs \<Rightarrow> bs | DataView p off sz \<Rightarrow> [])"

definition data_bytes :: "store \<Rightarrow> nat \<Rightarrow> byte list" where
  "data_bytes st d =
     (case data_pointer st d of (root, off) \<Rightarrow> take (data_size st d) (drop off (block st root)))"

section \<open>ByteData\<close>

text \<open>
  The constructors. A block of no bytes is refused; the bytes of one that is not
  cleared are whatever the allocator left there (\<^verbatim>\<open>fill\<close>).
\<close>

definition bytedata_create :: "allocator \<Rightarrow> nat \<Rightarrow> byte list \<Rightarrow> store \<Rightarrow> (store \<times> nat) result" where
  "bytedata_create new_ok len content st =
     (if len = 0 then Inl (Exception ''ByteData size must be greater than 0.'')
      else if \<not> new_ok len then Inl out_of_memory
      else Inr (st @ [ByteData content], length st))"

definition newByteData_size ::
  "allocator \<Rightarrow> (nat \<Rightarrow> byte) \<Rightarrow> nat \<Rightarrow> bool \<Rightarrow> store \<Rightarrow> (store \<times> nat) result" where
  "newByteData_size new_ok fill len clear st =
     bytedata_create new_ok len (map (\<lambda>i. if clear then 0 else fill i) [0..<len]) st"

definition newByteData_copy :: "allocator \<Rightarrow> byte list \<Rightarrow> store \<Rightarrow> (store \<times> nat) result" where
  "newByteData_copy new_ok d st = bytedata_create new_ok (length d) d st"

definition bytedata_clone :: "allocator \<Rightarrow> nat \<Rightarrow> store \<Rightarrow> (store \<times> nat) result" where
  "bytedata_clone new_ok d st = bytedata_create new_ok (data_size st d) (data_bytes st d) st"

section \<open>DataView\<close>

definition newDataView :: "nat \<Rightarrow> nat \<Rightarrow> nat \<Rightarrow> store \<Rightarrow> (store \<times> nat) result" where
  "newDataView d offset len st =
     (let n = data_size st d
      in if offset \<ge> n \<or> len > n \<or> offset > n - len
         then Inl (Exception (''Offset and size of Data View must fit within the original Data'' @ CHR 0x27 # ''s size.''))
         else if len = 0 then Inl (Exception ''DataView size must be greater than 0.'')
         else Inr (st @ [DataView d offset len], length st))"

definition dataview_clone :: "nat \<Rightarrow> store \<Rightarrow> store \<times> nat" where
  "dataview_clone d st = (st @ [st ! d], length st)"

section \<open>DataStream\<close>

text \<open>A stream over an object: where it reads and writes next, and the size it found.\<close>

record data_stream =
  ds_data :: nat
  ds_offset :: nat
  ds_size :: nat

definition newDataStream :: "nat \<Rightarrow> store \<Rightarrow> data_stream" where
  "newDataStream d st = \<lparr>ds_data = d, ds_offset = 0, ds_size = data_size st d\<rparr>"

definition stream_clone :: "data_stream \<Rightarrow> data_stream" where
  "stream_clone s = s\<lparr>ds_offset := 0\<rparr>"

text \<open>What \<^verbatim>\<open>memcpy\<close> reads and writes through the pointer of an object.\<close>

definition peek :: "store \<Rightarrow> nat \<Rightarrow> nat \<Rightarrow> nat \<Rightarrow> byte list" where
  "peek st d off n = take n (drop off (data_bytes st d))"

definition splice :: "nat \<Rightarrow> byte list \<Rightarrow> byte list \<Rightarrow> byte list" where
  "splice off new old = take off old @ new @ drop (off + length new) old"

definition poke :: "store \<Rightarrow> nat \<Rightarrow> nat \<Rightarrow> byte list \<Rightarrow> store" where
  "poke st d off bs =
     (case data_pointer st d of (root, o') \<Rightarrow> st[root := ByteData (splice (o' + off) bs (block st root))])"

definition stream_read :: "store \<Rightarrow> int \<Rightarrow> data_stream \<Rightarrow> byte list \<times> data_stream" where
  "stream_read st len s =
     (if len \<le> 0 then ([], s)
      else if ds_offset s \<ge> ds_size s then ([], s)
      else
        let readsize = nat (min len (int (ds_size s) - int (ds_offset s)))
        in (peek st (ds_data s) (ds_offset s) readsize, s\<lparr>ds_offset := ds_offset s + readsize\<rparr>))"

definition stream_write :: "byte list \<Rightarrow> int \<Rightarrow> store \<Rightarrow> data_stream \<Rightarrow> bool \<times> store \<times> data_stream" where
  "stream_write data len st s =
     (if len \<le> 0 then (False, st, s)
      else if ds_offset s \<ge> ds_size s then (False, st, s)
      else
        let writesize = nat (min len (int (ds_size s) - int (ds_offset s)))
        in (True, poke st (ds_data s) (ds_offset s) (take writesize data),
            s\<lparr>ds_offset := ds_offset s + writesize\<rparr>))"

datatype seek_origin = SEEKORIGIN_BEGIN | SEEKORIGIN_CURRENT | SEEKORIGIN_END

text \<open>The sum is formed at 64 bits and read as a signed number again.\<close>

definition wrap64 :: "int \<Rightarrow> int" where
  "wrap64 i = (i + 2 ^ 63) mod 2 ^ 64 - 2 ^ 63"

definition stream_seek :: "int \<Rightarrow> seek_origin \<Rightarrow> data_stream \<Rightarrow> bool \<times> data_stream" where
  "stream_seek pos origin s =
     (let pos = (case origin of
                   SEEKORIGIN_BEGIN \<Rightarrow> pos
                 | SEEKORIGIN_CURRENT \<Rightarrow> wrap64 (pos + int (ds_offset s))
                 | SEEKORIGIN_END \<Rightarrow> wrap64 (pos + int (ds_size s)))
      in if pos < 0 \<or> pos > int (ds_size s) then (False, s)
         else (True, s\<lparr>ds_offset := nat pos\<rparr>))"

definition stream_tell :: "data_stream \<Rightarrow> nat" where
  "stream_tell s = ds_offset s"

section \<open>Reading and writing data objects\<close>

text \<open>\<^verbatim>\<open>Stream::read\<close> on a stream that can seek: a new data object with what is there.\<close>

definition stream_read_data ::
  "allocator \<Rightarrow> int \<Rightarrow> store \<Rightarrow> data_stream \<Rightarrow> (nat \<times> store \<times> data_stream) result" where
  "stream_read_data new_ok len st s =
     (let cur = min (int (stream_tell s)) (int (ds_size s));
          len = (if cur + len > int (ds_size s) then int (ds_size s) - cur else len)
      in if len < 0 then Inl out_of_memory
         else bind_result (newByteData_size new_ok (\<lambda>_. 0) (nat len) False st) (\<lambda>(st, dst).
           let (bs, s) = stream_read st len s
           in if bs = [] \<and> len \<noteq> 0 then Inl (Exception ''Could not read from stream.'')
              else if int (length bs) < len
              then bind_result (newByteData_copy new_ok bs st) (\<lambda>(st, dst). Inr (dst, st, s))
              else Inr (dst, poke st dst 0 bs, s)))"

text \<open>
  \<^verbatim>\<open>memcpy\<close> must not be given overlapping ranges, so writing a stream's own block into
  itself is only defined apart.
\<close>

definition apart :: "store \<Rightarrow> nat \<Rightarrow> nat \<Rightarrow> nat \<Rightarrow> nat \<Rightarrow> nat \<Rightarrow> bool" where
  "apart st src from dst to n =
     (case (data_pointer st src, data_pointer st dst) of ((r, o1), (r', o2)) \<Rightarrow>
        r \<noteq> r' \<or> o1 + from + n \<le> o2 + to \<or> o2 + to + n \<le> o1 + from)"

text \<open>The range check of \<^verbatim>\<open>Stream::write\<close> adds two signed 64-bit numbers.\<close>

definition stream_write_range ::
  "nat \<Rightarrow> int \<Rightarrow> int \<Rightarrow> store \<Rightarrow> data_stream \<Rightarrow> (bool \<times> store \<times> data_stream) result" where
  "stream_write_range src offset len st s =
     (if offset < 0 \<or> len < 0
      then Inl (Exception (''Offset and size parameters do not fit within the given Data'' @ CHR 0x27 # ''s size.''))
      else if offset + len \<ge> 2 ^ 63 then Inl (Undefined_behaviour ''signed overflow'')
      else if offset + len > int (data_size st src)
      then Inl (Exception (''Offset and size parameters do not fit within the given Data'' @ CHR 0x27 # ''s size.''))
      else
        let n = min (nat len) (ds_size s - ds_offset s)
        in if \<not> apart st src (nat offset) (ds_data s) (ds_offset s) n
           then Inl (Undefined_behaviour ''memcpy of overlapping ranges'')
           else Inr (stream_write (peek st src (nat offset) (nat len)) len st s))"

definition stream_write_data :: "nat \<Rightarrow> store \<Rightarrow> data_stream \<Rightarrow> (bool \<times> store \<times> data_stream) result" where
  "stream_write_data src st s = stream_write_range src 0 (int (data_size st src)) st s"

section \<open>Every pointer stays in its block\<close>

definition object_ok :: "store \<Rightarrow> nat \<Rightarrow> bool" where
  "object_ok st d =
     (case st ! d of
        ByteData bs \<Rightarrow> True
      | DataView p off sz \<Rightarrow> p < d \<and> 0 < sz \<and> off + sz \<le> data_size st p)"

definition store_ok :: "store \<Rightarrow> bool" where
  "store_ok st \<longleftrightarrow> (\<forall>d < length st. object_ok st d)"

lemma data_pointer_view:
  "st ! d = DataView p off sz \<Longrightarrow> p < d \<Longrightarrow> data_pointer st p = (root, o') \<Longrightarrow> data_pointer st d = (root, o' + off)"
  by (simp add: data_pointer.simps [of st d])

lemma data_pointer_bytes: "st ! d = ByteData bs \<Longrightarrow> data_pointer st d = (d, 0)"
  by (simp add: data_pointer.simps [of st d])

lemma pointer_in_block:
  assumes "store_ok st" "d < length st" "data_pointer st d = (root, off)"
  shows "root \<le> d \<and> (\<exists>bs. st ! root = ByteData bs \<and> off + data_size st d \<le> length bs)"
  using assms(2,3)
proof (induction d arbitrary: off rule: less_induct)
  case (less d)
  show ?case
  proof (cases "st ! d")
    case (ByteData bs)
    then show ?thesis
      using less.prems(2) by (simp add: data_pointer_bytes data_size_def)
  next
    case (DataView p off' sz)
    have ok: "p < d" "off' + sz \<le> data_size st p"
      using assms(1) less.prems(1) DataView by (auto simp: store_ok_def object_ok_def)
    obtain r o' where p: "data_pointer st p = (r, o')"
      by fastforce
    then have r: "root = r" "off = o' + off'"
      using data_pointer_view [OF DataView ok(1) p] less.prems(2) by simp_all
    moreover have "r \<le> p \<and> (\<exists>bs. st ! r = ByteData bs \<and> o' + data_size st p \<le> length bs)"
      using less.IH [OF ok(1), of o'] less.prems(1) ok(1) p r(1) by simp
    ultimately show ?thesis
      using ok DataView by (auto simp: data_size_def)
  qed
qed

lemma length_data_bytes:
  assumes "store_ok st" "d < length st"
  shows "length (data_bytes st d) = data_size st d"
proof -
  obtain root off where p: "data_pointer st d = (root, off)"
    by fastforce
  then show ?thesis
    using pointer_in_block [OF assms p] by (auto simp: data_bytes_def block_def)
qed

subsection \<open>A new object leaves the others as they are\<close>

lemma append_size: "d < length st \<Longrightarrow> data_size (st @ os) d = data_size st d"
  by (simp add: data_size_def nth_append)

lemma append_pointer: "store_ok st \<Longrightarrow> d < length st \<Longrightarrow> data_pointer (st @ os) d = data_pointer st d"
proof (induction d rule: less_induct)
  case (less d)
  show ?case
  proof (cases "st ! d")
    case (ByteData bs)
    then show ?thesis
      using less.prems(2) by (simp add: data_pointer_bytes nth_append)
  next
    case (DataView p off sz)
    then have p: "p < d"
      using less.prems by (auto simp: store_ok_def object_ok_def)
    then have "data_pointer (st @ os) p = data_pointer st p"
      using less by simp
    then show ?thesis
      using DataView p less.prems(2) by (simp add: data_pointer.simps [of st d] data_pointer.simps [of "st @ os" d] nth_append)
  qed
qed

lemma append_bytes:
  assumes "store_ok st" "d < length st"
  shows "data_bytes (st @ os) d = data_bytes st d"
proof -
  obtain root off where p: "data_pointer st d = (root, off)"
    by fastforce
  then show ?thesis
    using pointer_in_block [OF assms p] assms
    by (auto simp: data_bytes_def append_pointer append_size block_def nth_append)
qed

lemma store_ok_append:
  assumes "store_ok st" "object_ok (st @ [x]) (length st)"
  shows "store_ok (st @ [x])"
  using assms unfolding store_ok_def
  by (auto simp: less_Suc_eq object_ok_def nth_append append_size split: data_object.splits)

lemma create_ok: "store_ok st \<Longrightarrow> store_ok (st @ [ByteData bs])"
  by (rule store_ok_append) (simp_all add: object_ok_def)

text \<open>A view is made exactly if it is not empty and its range lies within the object it looks
  at; then it shows precisely that range of the object's bytes - of a view of a view, the range of
  the range - and no object made before changes.\<close>

theorem newDataView_slice:
  assumes "store_ok st" "d < length st"
  shows "(case newDataView d offset len st of
      Inl e \<Rightarrow> len = 0 \<or> offset + len > data_size st d
    | Inr (st', v) \<Rightarrow> 0 < len \<and> offset + len \<le> data_size st d \<and> store_ok st' \<and>
        data_bytes st' v = take len (drop offset (data_bytes st d)) \<and>
        (\<forall>x < length st. data_bytes st' x = data_bytes st x))"
proof (cases "newDataView d offset len st")
  case (Inl e)
  then show ?thesis
    by (auto simp: newDataView_def Let_def split: if_splits)
next
  case (Inr r)
  let ?st = "st @ [DataView d offset len]"
  have r: "r = (?st, length st)" and fits: "0 < len" "offset + len \<le> data_size st d"
    using Inr by (auto simp: newDataView_def Let_def split: if_splits)
  have ok: "store_ok ?st"
    using assms fits by (intro store_ok_append) (auto simp: object_ok_def append_size)
  obtain root o' where p: "data_pointer st d = (root, o')"
    by fastforce
  then have "data_pointer ?st d = (root, o')"
    using assms by (simp add: append_pointer)
  then have v: "data_pointer ?st (length st) = (root, o' + offset)"
    using assms(2) by (intro data_pointer_view [where p = d]) simp_all
  have "root < length st"
    using pointer_in_block [OF assms p] assms(2) by simp
  then have "data_bytes ?st (length st) = take len (drop offset (data_bytes st d))"
    using fits p v by (simp add: data_bytes_def block_def nth_append data_size_def take_drop min_def add.commute)
  then show ?thesis
    using Inr r ok fits assms(1) by (simp add: append_bytes)
qed

definition example_store :: store where
  "example_store = [ByteData [1, 2, 3, 4, 5, 6], DataView 0 1 4]"

lemma example_store_ok: "store_ok example_store"
  by (simp add: store_ok_def example_store_def object_ok_def data_size_def less_Suc_eq)

theorem newDataView_slice_witness:
  "(case newDataView 1 2 2 example_store of
      Inl e \<Rightarrow> (2 :: nat) = 0 \<or> 2 + 2 > data_size example_store 1
    | Inr (st', v) \<Rightarrow> 0 < (2 :: nat) \<and> 2 + 2 \<le> data_size example_store 1 \<and> store_ok st' \<and>
        data_bytes st' v = take 2 (drop 2 (data_bytes example_store 1)) \<and>
        (\<forall>x < length example_store. data_bytes st' x = data_bytes example_store x))"
  by (rule newDataView_slice [OF example_store_ok]) (simp add: example_store_def)

section \<open>Writing through a pointer\<close>

lemma length_splice: "off + length new \<le> length old \<Longrightarrow> length (splice off new old) = length old"
  by (simp add: splice_def)

lemma splice_nth:
  "off + length new \<le> length old \<Longrightarrow> i < length old \<Longrightarrow>
     splice off new old ! i = (if off \<le> i \<and> i < off + length new then new ! (i - off) else old ! i)"
  by (auto simp: splice_def nth_append min_def)

lemma poke_store:
  assumes "store_ok st" "d < length st" "data_pointer st d = (root, o')" "off + length bs \<le> data_size st d"
  obtains old where "st ! root = ByteData old" "poke st d off bs = st[root := ByteData (splice (o' + off) bs old)]"
    "o' + off + length bs \<le> length old" "root < length st"
  using pointer_in_block [OF assms(1-3)] assms(2-4) by (auto simp: poke_def block_def)

lemma update_block:
  assumes "store_ok st" "st ! root = ByteData old" "root < length st" "length new = length old"
  shows "data_size (st[root := ByteData new]) x = data_size st x"
    and "x < length st \<Longrightarrow> data_pointer (st[root := ByteData new]) x = data_pointer st x"
    and "store_ok (st[root := ByteData new])"
proof -
  let ?st = "st[root := ByteData new]"
  show size: "data_size ?st x = data_size st x" for x
    using assms by (cases "x = root") (auto simp: data_size_def)
  show "store_ok ?st"
    using assms(1,3) size unfolding store_ok_def object_ok_def
    by (auto simp: nth_list_update split: data_object.splits)
  show "data_pointer ?st x = data_pointer st x" if "x < length st"
    using that
  proof (induction x rule: less_induct)
    case (less x)
    show ?case
    proof (cases "st ! x")
      case (ByteData bs)
      then show ?thesis
        using less.prems by (cases "x = root") (simp_all add: data_pointer_bytes)
    next
      case (DataView p off sz)
      then have "x \<noteq> root" "p < x"
        using assms(1,2) less.prems by (auto simp: store_ok_def object_ok_def)
      then show ?thesis
        using DataView less by (simp add: data_pointer.simps [of st x] data_pointer.simps [of ?st x])
    qed
  qed
qed

text \<open>A write through any object is seen through every object on the same block, and nowhere else.\<close>

lemma poke_seen:
  assumes ok: "store_ok st" "d < length st" "x < length st" and fits: "off + length bs \<le> data_size st d"
  shows "store_ok (poke st d off bs) \<and> data_size (poke st d off bs) x = data_size st x \<and>
    data_pointer (poke st d off bs) x = data_pointer st x \<and>
    (\<forall>i < data_size st x. data_bytes (poke st d off bs) x ! i =
      (case (data_pointer st d, data_pointer st x) of ((r, o1), (r', o2)) \<Rightarrow>
         if r = r' \<and> o1 + off \<le> o2 + i \<and> o2 + i < o1 + off + length bs then bs ! (o2 + i - (o1 + off))
         else data_bytes st x ! i))"
proof -
  obtain root o1 where pd: "data_pointer st d = (root, o1)"
    by fastforce
  obtain old where old: "st ! root = ByteData old" "poke st d off bs = st[root := ByteData (splice (o1 + off) bs old)]"
    "o1 + off + length bs \<le> length old" "root < length st"
    using poke_store [OF ok(1,2) pd fits] .
  note len = length_splice [OF old(3)]
  note upd = update_block [OF ok(1) old(1,4) len]
  obtain r' o2 where px: "data_pointer st x = (r', o2)"
    by fastforce
  obtain bx where bx: "st ! r' = ByteData bx" "o2 + data_size st x \<le> length bx" "r' < length st"
    using pointer_in_block [OF ok(1,3) px] ok(3) by auto
  have "data_bytes (poke st d off bs) x ! i = (if root = r' \<and> o1 + off \<le> o2 + i \<and> o2 + i < o1 + off + length bs
      then bs ! (o2 + i - (o1 + off)) else data_bytes st x ! i)" if "i < data_size st x" for i
  proof (cases "root = r'")
    case True
    then have "bx = old"
      using bx old by simp
    then show ?thesis
      using True that bx old px upd(1,2) [of x] ok(3)
      by (simp add: data_bytes_def block_def splice_nth len)
  next
    case False
    then show ?thesis
      using that bx old px upd(1,2) [of x] ok(3) by (simp add: data_bytes_def block_def)
  qed
  then show ?thesis
    using upd ok(3) pd px unfolding old(2) by simp
qed

section \<open>Streams\<close>

text \<open>A stream over a live object, at a place inside it.\<close>

definition stream_ok :: "store \<Rightarrow> data_stream \<Rightarrow> bool" where
  "stream_ok st s \<longleftrightarrow> ds_data s < length st \<and> ds_size s = data_size st (ds_data s) \<and> ds_offset s \<le> ds_size s"

lemma stream_read_eq:
  assumes "store_ok st" "stream_ok st s"
  shows "stream_read st n s =
    (let k = min (nat n) (ds_size s - ds_offset s)
     in (take k (drop (ds_offset s) (data_bytes st (ds_data s))), s\<lparr>ds_offset := ds_offset s + k\<rparr>))"
proof (cases "n \<le> 0 \<or> ds_offset s \<ge> ds_size s")
  case True
  then show ?thesis
    by (auto simp: stream_read_def Let_def)
next
  case False
  then have "nat (min n (int (ds_size s) - int (ds_offset s))) = min (nat n) (ds_size s - ds_offset s)"
    by (auto simp: min_def nat_diff_distrib)
  then show ?thesis
    using False by (simp add: stream_read_def peek_def Let_def)
qed

text \<open>Claim C30. Writing at a place of a stream and going back reads the written bytes again, cut at the
  end of the data; every other object of the store shows the write exactly where it looks at the
  same bytes of the same block and is otherwise unchanged, and the stream stays inside its data.\<close>

theorem stream_write_read:
  assumes "store_ok st" "stream_ok st s" "bs \<noteq> []" "ds_offset s < ds_size s" "ds_size s < 2 ^ 63"
    "stream_write bs (int (length bs)) st s = (done, st', s')"
  shows "done \<and> store_ok st' \<and> stream_ok st' s' \<and>
    ds_offset s' = ds_offset s + min (length bs) (ds_size s - ds_offset s) \<and>
    (let (sought, s'') = stream_seek (int (ds_offset s)) SEEKORIGIN_BEGIN s'
     in sought \<and> fst (stream_read st' (int (length bs)) s'') = take (ds_size s - ds_offset s) bs) \<and>
    (\<forall>x < length st. \<forall>i < data_size st x. data_bytes st' x ! i =
      (case (data_pointer st (ds_data s), data_pointer st x) of ((r, o1), (r', o2)) \<Rightarrow>
         if r = r' \<and> o1 + ds_offset s \<le> o2 + i \<and> o2 + i < o1 + ds_offset s'
         then bs ! (o2 + i - (o1 + ds_offset s)) else data_bytes st x ! i))"
proof -
  let ?d = "ds_data s" and ?k = "min (length bs) (ds_size s - ds_offset s)"
  have d: "?d < length st" "ds_size s = data_size st ?d"
    using assms(2) by (auto simp: stream_ok_def)
  have "nat (min (int (length bs)) (int (ds_size s) - int (ds_offset s))) = ?k"
    using assms(4) by (auto simp: min_def nat_diff_distrib)
  then have w: "done" "st' = poke st ?d (ds_offset s) (take ?k bs)" "s' = s\<lparr>ds_offset := ds_offset s + ?k\<rparr>"
    using assms(3,4,6) by (auto simp: stream_write_def Let_def)
  have fits: "ds_offset s + length (take ?k bs) \<le> data_size st ?d"
    using assms(4) d(2) by simp
  note seen = poke_seen [OF assms(1) d(1) _ fits]
  have ok: "store_ok st'" "data_size st' ?d = data_size st ?d"
    using seen [OF d(1)] w(2) by simp_all
  have len: "length st' = length st"
    by (auto simp: w(2) poke_def split: prod.split)
  obtain r o1 where pd: "data_pointer st ?d = (r, o1)"
    by fastforce
  have "drop (ds_offset s) (data_bytes st' ?d) ! i = bs ! i" if "i < ?k" for i
  proof -
    have "ds_offset s + i < data_size st ?d"
      using that d(2) by (simp add: less_diff_conv add.commute)
    then have "data_bytes st' ?d ! (ds_offset s + i) = take ?k bs ! i"
      using seen [OF d(1)] that pd unfolding w(2) by simp
    then show ?thesis
      using that ok d len assms(4) length_data_bytes [of st' ?d] by simp
  qed
  moreover have "?k \<le> length (drop (ds_offset s) (data_bytes st' ?d))"
    using ok d len length_data_bytes [of st' ?d] by simp
  ultimately have again: "take ?k (drop (ds_offset s) (data_bytes st' ?d)) = take ?k bs"
    by (intro nth_equalityI) auto
  have "stream_ok st' (s\<lparr>ds_offset := ds_offset s\<rparr>)"
    using d ok len assms(4) by (simp add: stream_ok_def)
  then have "fst (stream_read st' (int (length bs)) (s\<lparr>ds_offset := ds_offset s\<rparr>)) = take (ds_size s - ds_offset s) bs"
    using again by (simp add: stream_read_eq [OF ok(1)] Let_def) (simp add: min_def)
  moreover have "stream_seek (int (ds_offset s)) SEEKORIGIN_BEGIN s' = (True, s\<lparr>ds_offset := ds_offset s\<rparr>)"
    using assms(4) w(3) by (simp add: stream_seek_def)
  moreover have "stream_ok st' s'"
    using d ok len assms(4) w(3) by (simp add: stream_ok_def)
  moreover have "\<forall>x < length st. \<forall>i < data_size st x. data_bytes st' x ! i =
      (case (data_pointer st ?d, data_pointer st x) of ((r, o1), (r', o2)) \<Rightarrow>
         if r = r' \<and> o1 + ds_offset s \<le> o2 + i \<and> o2 + i < o1 + ds_offset s'
         then bs ! (o2 + i - (o1 + ds_offset s)) else data_bytes st x ! i)"
    using seen w by (auto split: prod.splits intro!: nth_take)
  ultimately show ?thesis
    using w ok by simp
qed

definition example_stream :: data_stream where
  "example_stream = \<lparr>ds_data = 1, ds_offset = 1, ds_size = 4\<rparr>"

definition written_store :: store where
  "written_store = [ByteData [1, 2, 9, 8, 5, 6], DataView 0 1 4]"

lemma example_write:
  "stream_write [9, 8] (int (length [9 :: byte, 8])) example_store example_stream =
     (True, written_store, example_stream\<lparr>ds_offset := 3\<rparr>)"
  by (simp add: stream_write_def example_stream_def example_store_def written_store_def poke_def
      data_pointer.simps block_def splice_def numeral_eq_Suc)

theorem stream_write_read_witness:
  "store_ok written_store \<and> stream_ok written_store (example_stream\<lparr>ds_offset := 3\<rparr>) \<and>
    list_all (\<lambda>x. list_all (\<lambda>i. data_bytes written_store x ! i =
      (case (data_pointer example_store (ds_data example_stream), data_pointer example_store x) of ((r, o1), (r', o2)) \<Rightarrow>
         if r = r' \<and> o1 + ds_offset example_stream \<le> o2 + i \<and> o2 + i < o1 + ds_offset (example_stream\<lparr>ds_offset := 3\<rparr>)
         then [9, 8] ! (o2 + i - (o1 + ds_offset example_stream)) else data_bytes example_store x ! i))
        [0..<data_size example_store x]) [0..<length example_store]"
  using stream_write_read [OF example_store_ok _ _ _ _ example_write]
  by (simp add: stream_ok_def example_stream_def example_store_def data_size_def list_all_iff)

end
