(* ===== verification/RandomGenerator.thy ===== *)
theory RandomGenerator
  imports Prelude Complex_Main
begin

text \<open>
  The generator of \<^verbatim>\<open>src/src/modules/math/RandomGenerator.cpp\<close> and \<^verbatim>\<open>RandomGenerator.h\<close>: an
  xorshift* step on a 64-bit state, the hash that turns a seed into a state, the
  textual form of the state, and the numbers made of it. A double is the real
  number it stands for; the functions of the C library that
  \<open>randomNormal\<close> calls are parameters.
\<close>

section \<open>The model\<close>

definition wangHash64 :: "uint64 \<Rightarrow> uint64" where
  "wangHash64 key =
     (let key = NOT key + push_bit 21 key;
          key = key XOR drop_bit 24 key;
          key = (key + push_bit 3 key) + push_bit 8 key;
          key = key XOR drop_bit 14 key;
          key = (key + push_bit 2 key) + push_bit 4 key;
          key = key XOR drop_bit 28 key
      in key + push_bit 31 key)"

text \<open>The cached number is infinity when there is none.\<close>

record generator =
  seed :: uint64
  rng_state :: uint64
  last_randomnormal :: "real option"

definition rand :: "generator \<Rightarrow> uint64 \<times> generator" where
  "rand g =
     (let s = rng_state g;
          s = s XOR drop_bit 12 s;
          s = s XOR push_bit 25 s;
          s = s XOR drop_bit 27 s
      in (s * 2685821657736338717, g\<lparr>rng_state := s\<rparr>))"

text \<open>
  The bits \<^verbatim>\<open>0x3FF << 52\<close> are the double 1; with 52 bits of the number below them they
  are a double in [1, 2), from which 1 is taken.
\<close>

definition double_of_bits :: "uint64 \<Rightarrow> real" where
  "double_of_bits u =
     (1 + real (unat (u AND (2 ^ 52 - 1))) / 2 ^ 52) * 2 powr (real (unat (drop_bit 52 u AND 0x7FF)) - 1023)"

definition random :: "generator \<Rightarrow> real \<times> generator" where
  "random g = (let (r, g) = rand g in (double_of_bits (push_bit 52 0x3FF OR drop_bit 12 r) - 1, g))"

definition random_max :: "real \<Rightarrow> generator \<Rightarrow> real \<times> generator" where
  "random_max m g = (let (x, g) = random g in (x * m, g))"

definition random_range :: "real \<Rightarrow> real \<Rightarrow> generator \<Rightarrow> real \<times> generator" where
  "random_range lo hi g = (let (x, g) = random g in (x * (hi - lo) + lo, g))"

definition randomNormal ::
  "(real \<Rightarrow> real) \<Rightarrow> (real \<Rightarrow> real) \<Rightarrow> (real \<Rightarrow> real) \<Rightarrow> (real \<Rightarrow> real) \<Rightarrow> real \<Rightarrow> real \<Rightarrow> generator \<Rightarrow> real \<times> generator" where
  "randomNormal c_sqrt c_log c_cos c_sin c_pi stddev g =
     (case last_randomnormal g of
        Some r \<Rightarrow> (r * stddev, g\<lparr>last_randomnormal := None\<rparr>)
      | None \<Rightarrow>
          let (x, g) = random g; r = c_sqrt (- 2 * c_log (1 - x));
              (y, g) = random g; phi = 2 * c_pi * (1 - y)
          in (r * c_sin phi * stddev, g\<lparr>last_randomnormal := Some (r * c_cos phi)\<rparr>))"

text \<open>The loop of \<open>setSeed\<close>: hash until the state is not zero. \<^verbatim>\<open>None\<close> is a loop that does not end.\<close>

partial_function (option) hash_until_nonzero :: "uint64 \<Rightarrow> uint64 option" where
  "hash_until_nonzero s = (let s = wangHash64 s in if s = 0 then hash_until_nonzero s else Some s)"

definition setSeed :: "uint64 \<Rightarrow> generator \<Rightarrow> generator option" where
  "setSeed newseed g =
     (case hash_until_nonzero newseed of
        None \<Rightarrow> None
      | Some s \<Rightarrow> Some \<lparr>seed = newseed, rng_state = s, last_randomnormal = None\<rparr>)"

definition getSeed :: "generator \<Rightarrow> uint64" where
  "getSeed g = seed g"

definition initial_seed :: uint64 where
  "initial_seed = 0x0139408DCBBF7A44"

definition newGenerator :: "generator option" where
  "newGenerator = setSeed initial_seed \<lparr>seed = 0, rng_state = 0, last_randomnormal = None\<rparr>"

subsection \<open>The state as text\<close>

definition hex_value :: "char \<Rightarrow> nat option" where
  "hex_value c =
     (let n = of_char c :: nat
      in if 48 \<le> n \<and> n \<le> 57 then Some (n - 48)
         else if 65 \<le> n \<and> n \<le> 70 then Some (n - 55)
         else if 97 \<le> n \<and> n \<le> 102 then Some (n - 87)
         else None)"

text \<open>
  \<^verbatim>\<open>strtoull\<close> with base 16 on a text that starts with \<^verbatim>\<open>0x\<close>: the value of the digits, at
  most \<open>2 ^ 64 - 1\<close>, and what is left of the text. With no digit after the
  \<^verbatim>\<open>0x\<close> the number is the \<^verbatim>\<open>0\<close> alone.
\<close>

fun hex_digits :: "nat \<Rightarrow> string \<Rightarrow> nat \<times> string" where
  "hex_digits n [] = (n, [])"
| "hex_digits n (c # cs) =
     (case hex_value c of None \<Rightarrow> (n, c # cs) | Some v \<Rightarrow> hex_digits (n * 16 + v) cs)"

definition strtoull16 :: "string \<Rightarrow> nat \<times> string" where
  "strtoull16 s =
     (case drop 2 s of
        [] \<Rightarrow> (0, drop 1 s)
      | c # cs \<Rightarrow>
          if hex_value c = None then (0, drop 1 s)
          else let (n, rest) = hex_digits 0 (c # cs) in (min n (2 ^ 64 - 1), rest))"

definition setState :: "string \<Rightarrow> generator \<Rightarrow> generator result" where
  "setState statestr g =
     (if take 2 statestr \<noteq> ''0x'' \<or> length statestr < 3
      then Inl (Exception (''Invalid random state: '' @ c_string statestr))
      else
        let (state, end) = strtoull16 (c_string statestr)
        in if end \<noteq> [] then Inl (Exception (''Invalid random state: '' @ c_string statestr))
           else Inr (g\<lparr>rng_state := of_nat state, last_randomnormal := None\<rparr>))"

definition hex_digit_char :: "nat \<Rightarrow> char" where
  "hex_digit_char n = char_of (if n < 10 then 48 + n else 87 + n)"

text \<open>Sixteen digits, filled with zeros.\<close>

definition getState :: "generator \<Rightarrow> string" where
  "getState g = ''0x'' @ map (\<lambda>i. hex_digit_char (unat (rng_state g) div 16 ^ (15 - i) mod 16)) [0..<16]"

section \<open>The steps are one to one\<close>

lemma inj_times:
  fixes m k :: uint64
  assumes "m * k = 1"
  shows "inj (\<lambda>x. x * m)"
proof (rule injI)
  fix x y
  assume eq: "x * m = y * m"
  have "z * m * k = z" for z
    by (simp only: mult.assoc assms mult_1_right)
  then show "x = y"
    using eq by metis
qed

lemma inj_xor_drop: "0 < n \<Longrightarrow> inj (\<lambda>x :: uint64. x XOR drop_bit n x)"
proof (intro injI bit_word_eqI)
  fix x y :: uint64
  assume assms: "0 < n" "x XOR drop_bit n x = y XOR drop_bit n y"
  have high: "\<not> bit (z :: uint64) k" if "64 \<le> k" for z k
    using that bit_imp_le_length [of z k] by auto
  have "bit x k = bit y k" for k
  proof (induction "64 - k" arbitrary: k rule: less_induct)
    case less
    show ?case
    proof (cases "k < 64")
      case True
      then have "bit x (k + n) = bit y (k + n)"
        using less.hyps [of "k + n"] assms(1) by simp
      moreover have "bit (x XOR drop_bit n x) k = bit (y XOR drop_bit n y) k"
        by (simp add: assms(2))
      ultimately show ?thesis
        by (auto simp: bit_xor_iff bit_drop_bit_eq add.commute)
    qed (simp add: high)
  qed
  then show "bit x k = bit y k" for k .
qed

lemma inj_xor_push: "0 < n \<Longrightarrow> inj (\<lambda>x :: uint64. x XOR push_bit n x)"
proof (intro injI bit_word_eqI)
  fix x y :: uint64
  assume assms: "0 < n" "x XOR push_bit n x = y XOR push_bit n y"
  have "k < 64 \<longrightarrow> bit x k = bit y k" for k
  proof (induction k rule: less_induct)
    case (less k)
    have "bit (x XOR push_bit n x) k = bit (y XOR push_bit n y) k"
      by (simp add: assms(2))
    then show ?case
      using less [of "k - n"] assms(1) by (auto simp: bit_xor_iff bit_push_bit_iff)
  qed
  then show "k < LENGTH(64) \<Longrightarrow> bit x k = bit y k" for k
    by simp
qed

text \<open>The mixing steps are multiplications by odd constants.\<close>

lemma wang_steps:
  "NOT k + push_bit 21 k = k * 0x1FFFFF - (1 :: uint64)"
  "k + push_bit 3 k + push_bit 8 k = k * (265 :: uint64)"
  "k + push_bit 2 k + push_bit 4 k = k * (21 :: uint64)"
  "k + push_bit 31 k = k * (0x80000001 :: uint64)"
  by (simp_all add: push_bit_eq_mult not_eq_complement algebra_simps)

lemma wangHash64_comp:
  "wangHash64 = (\<lambda>x. x * 0x80000001) \<circ> (\<lambda>x. x XOR drop_bit 28 x) \<circ> (\<lambda>x. x * 21) \<circ> (\<lambda>x. x XOR drop_bit 14 x)
     \<circ> (\<lambda>x. x * 265) \<circ> (\<lambda>x. x XOR drop_bit 24 x) \<circ> (\<lambda>x. x - 1) \<circ> (\<lambda>x. x * 0x1FFFFF)"
  by (rule ext) (simp add: wangHash64_def wang_steps Let_def)

lemma inj_wangHash64: "inj wangHash64"
  unfolding wangHash64_comp
  by (intro inj_compose inj_xor_drop inj_times [where k = "0x3fffffff80000001"] inj_times [where k = "0xcf3cf3cf3cf3cf3d"]
        inj_times [where k = "0xd38ff08b1c03dd39"] inj_times [where k = "0x7ffffbffffdfffff"])
     (simp_all add: inj_on_def)

lemma wangHash64_zero: "wangHash64 0 \<noteq> 0"
  by code_simp

text \<open>A second hash is enough: zero does not hash to zero.\<close>

lemma hash_until_nonzero_eq:
  "hash_until_nonzero s = Some (if wangHash64 s = 0 then wangHash64 0 else wangHash64 s)"
proof -
  have "hash_until_nonzero 0 = Some (wangHash64 0)"
    using wangHash64_zero by (subst hash_until_nonzero.simps) simp
  then show ?thesis
    by (subst hash_until_nonzero.simps) (simp add: Let_def)
qed

definition rand_step :: "uint64 \<Rightarrow> uint64" where
  "rand_step = (\<lambda>x. x XOR drop_bit 27 x) \<circ> (\<lambda>x. x XOR push_bit 25 x) \<circ> (\<lambda>x. x XOR drop_bit 12 x)"

lemma inj_rand_step: "inj rand_step"
  unfolding rand_step_def by (intro inj_compose inj_xor_drop inj_xor_push) simp_all

lemma rand_eq: "rand g = (rand_step (rng_state g) * 2685821657736338717, g\<lparr>rng_state := rand_step (rng_state g)\<rparr>)"
  by (simp only: rand_def rand_step_def Let_def o_def)

lemma rand_step_zero [simp]: "rand_step 0 = 0"
  by (simp add: rand_step_def)

lemma rand_step_nonzero: "x \<noteq> 0 \<Longrightarrow> rand_step x \<noteq> 0"
  using inj_rand_step by (auto dest: injD [of rand_step x 0])

lemma rand_zero: "rng_state g = 0 \<Longrightarrow> rand g = (0, g)"
  by (cases g) (simp add: rand_eq)

lemma rand_nonzero:
  assumes "rng_state g \<noteq> 0"
  shows "rng_state (snd (rand g)) \<noteq> 0 \<and> fst (rand g) \<noteq> 0"
proof -
  have "inj (\<lambda>x :: uint64. x * 2685821657736338717)"
    by (rule inj_times [where k = "0x59071d96d81ecd35"]) simp
  then have "x * 2685821657736338717 \<noteq> 0" if "x \<noteq> 0" for x :: uint64
    using that injD [of "\<lambda>x :: uint64. x * 2685821657736338717" x 0] by auto
  then show ?thesis
    using assms by (simp add: rand_eq rand_step_nonzero)
qed

text \<open>The generator after some numbers were drawn.\<close>

fun draws :: "nat \<Rightarrow> generator \<Rightarrow> generator" where
  "draws 0 g = g"
| "draws (Suc n) g = draws n (snd (rand g))"

text \<open>Claim C38. Seeding always ends, remembers the seed, and starts a sequence that never reaches the
  state zero: whatever the seed and however many numbers were drawn, no number drawn is zero, and
  two seeds that are different give different states unless one of them hashes to zero.\<close>

theorem setSeed_never_zero:
  "\<exists>g'. setSeed s g = Some g' \<and> getSeed g' = s \<and> last_randomnormal g' = None \<and>
    rng_state (draws n g') \<noteq> 0 \<and> fst (rand (draws n g')) \<noteq> 0 \<and>
    (\<forall>t h. setSeed t g = Some h \<and> rng_state h = rng_state g' \<longrightarrow>
       s = t \<or> wangHash64 s = 0 \<or> wangHash64 t = 0)"
proof -
  define g' where "g' = \<lparr>seed = s, rng_state = (if wangHash64 s = 0 then wangHash64 0 else wangHash64 s), last_randomnormal = None\<rparr>"
  have g': "setSeed s g = Some g'"
    by (simp add: setSeed_def hash_until_nonzero_eq g'_def)
  have "rng_state h \<noteq> 0 \<Longrightarrow> rng_state (draws n h) \<noteq> 0" for h n
    by (induction n arbitrary: h) (simp_all add: rand_nonzero)
  moreover have "rng_state g' \<noteq> 0"
    using wangHash64_zero by (simp add: g'_def)
  moreover have "s = t \<or> wangHash64 s = 0 \<or> wangHash64 t = 0"
    if "setSeed t g = Some h" "rng_state h = rng_state g'" for t h
  proof -
    have "rng_state h = (if wangHash64 t = 0 then wangHash64 0 else wangHash64 t)"
      using that(1) by (auto simp: setSeed_def hash_until_nonzero_eq)
    then show ?thesis
      using that(2) injD [OF inj_wangHash64, of s t] by (auto simp: g'_def split: if_splits)
  qed
  moreover have "getSeed g' = s" "last_randomnormal g' = None"
    by (simp_all add: getSeed_def g'_def)
  ultimately show ?thesis
    using g' rand_nonzero by (intro exI [of _ g'] conjI allI impI) blast+
qed

lemma hex_value_char: "n < 16 \<Longrightarrow> hex_value (hex_digit_char n) = Some n"
  by (auto simp: hex_value_def hex_digit_char_def Let_def)


lemma hex_digit_ok: "n < 16 \<Longrightarrow> hex_digit_char n \<noteq> CHR 0x00"
  using hex_value_char [of n] by (auto simp: hex_value_def)

text \<open>Reading the digits of a number, most significant first.\<close>

definition hex_text :: "nat \<Rightarrow> nat \<Rightarrow> string" where
  "hex_text k n = map (\<lambda>i. hex_digit_char (n div 16 ^ (k - 1 - i) mod 16)) [0..<k]"

lemma hex_text_Suc: "hex_text (Suc k) n = hex_digit_char (n div 16 ^ k mod 16) # hex_text k n"
  unfolding hex_text_def by (subst upt_conv_Cons) (simp_all add: map_Suc_upt [symmetric] del: upt_Suc)

lemma hex_digits_text: "hex_digits m (hex_text k n) = (m * 16 ^ k + n mod 16 ^ k, [])"
proof (induction k arbitrary: m)
  case (Suc k)
  have "n mod 16 ^ Suc k = 16 ^ k * (n div 16 ^ k mod 16) + n mod 16 ^ k"
    by (simp only: power_Suc2 mod_mult2_eq)
  then show ?case
    using Suc.IH [of "m * 16 + n div 16 ^ k mod 16"]
    by (simp add: hex_text_Suc hex_value_char algebra_simps)
qed (simp add: hex_text_def)

lemma hex_text_state: "getState g = ''0x'' @ hex_text 16 (unat (rng_state g))"
  by (simp add: getState_def hex_text_def)

text \<open>The text of a state restores exactly that state, on any generator.\<close>

theorem setState_getState:
  "setState (getState g) h = Inr (h\<lparr>rng_state := rng_state g, last_randomnormal := None\<rparr>)"
proof -
  let ?n = "unat (rng_state g)"
  have n: "?n < 16 ^ 16"
  proof -
    have "?n < 2 ^ LENGTH(64)"
      by (rule unsigned_less)
    then show ?thesis
      by simp
  qed
  have no_nul: "c_string (getState g) = getState g"
    by (auto simp: c_string_def hex_text_state hex_text_def hex_digit_ok takeWhile_eq_all_conv)
  have "strtoull16 (getState g) = (min (?n mod 16 ^ 16) (2 ^ 64 - 1), [])"
  proof -
    obtain c cs where c: "hex_text 16 ?n = c # cs" "hex_value c \<noteq> None"
      using hex_text_Suc [of 15 ?n] by (simp add: hex_value_char)
    then show ?thesis
      using hex_digits_text [of 0 16 ?n] by (simp add: strtoull16_def hex_text_state)
  qed
  then have "strtoull16 (getState g) = (?n, [])"
    using n by simp
  moreover have "hex_text 16 ?n \<noteq> []"
    by (simp add: hex_text_def)
  ultimately show ?thesis
    using no_nul by (simp add: setState_def hex_text_state)
qed

text \<open>A restored state may be zero, the one value the generator cannot handle: after it every
  number drawn is zero, for ever.\<close>

theorem state_zero_stuck:
  "\<exists>h. setState ''0x0'' g = Inr h \<and> fst (rand (draws n h)) = 0"
proof -
  define h where "h = g\<lparr>rng_state := 0, last_randomnormal := None\<rparr>"
  have "setState ''0x0'' g = Inr h"
    by (simp add: setState_def c_string_def strtoull16_def hex_value_def h_def)
  moreover have "draws n h = h" for n
    by (induction n) (simp_all add: rand_zero h_def)
  ultimately show ?thesis
    by (simp add: rand_zero h_def)
qed

text \<open>A random number is one of the \<open>2 ^ 52\<close> equally spaced numbers from 0 up to but without
  1, made of the upper 52 bits drawn.\<close>

lemma random_unit:
  "fst (random g) = real (unat (drop_bit 12 (fst (rand g)))) / 2 ^ 52 \<and>
   0 \<le> fst (random g) \<and> fst (random g) < 1 \<and> snd (random g) = snd (rand g)"
proof -
  let ?r = "fst (rand g)"
  let ?m = "drop_bit 12 ?r"
  have m: "unat ?m < 2 ^ 52"
  proof -
    have "unat ?r < 2 ^ LENGTH(64)"
      by (rule unsigned_less)
    moreover have "unat ?m = unat ?r div 2 ^ 12"
      by (simp add: unat_drop_bit_eq) (simp add: drop_bit_eq_div)
    ultimately show ?thesis
      by simp
  qed
  have masks: "(2 ^ 52 - 1 :: uint64) = mask 52" "(0x3FF :: uint64) = mask 10" "(0x7FF :: uint64) = mask 11"
    by (simp_all add: mask_eq_exp_minus_1)
  define one where "one = (push_bit 52 0x3FF :: uint64)"
  have one: "bit one k \<longleftrightarrow> 52 \<le> k \<and> k < 62" for k
    unfolding one_def masks by (auto simp: bit_push_bit_iff bit_mask_iff)
  have low: "(one OR ?m) AND (2 ^ 52 - 1) = ?m"
    unfolding masks
    by (rule bit_word_eqI) (auto simp: bit_or_iff bit_and_iff bit_mask_iff bit_drop_bit_eq one dest: bit_imp_le_length)
  have exp: "drop_bit 52 (one OR ?m) AND 0x7FF = (0x3FF :: uint64)"
    unfolding masks
    by (rule bit_word_eqI) (auto simp: bit_or_iff bit_and_iff bit_mask_iff bit_drop_bit_eq one dest: bit_imp_le_length)
  have "double_of_bits (one OR ?m) = 1 + real (unat ?m) / 2 ^ 52"
    unfolding double_of_bits_def low exp by simp
  then have "fst (random g) = real (unat ?m) / 2 ^ 52"
    by (simp only: random_def one_def Let_def split_beta fst_conv)
  moreover have "0 \<le> real (unat ?m) / 2 ^ 52 \<and> real (unat ?m) / 2 ^ 52 < 1"
  proof -
    have "real (unat ?m) < real (2 ^ 52)"
      using m by (simp only: of_nat_less_iff)
    moreover have "0 \<le> real (unat ?m)"
      by (rule of_nat_0_le_iff)
    ultimately show ?thesis
      by (simp only: divide_less_eq_1 zero_le_divide_iff) simp
  qed
  moreover have "snd (random g) = snd (rand g)"
    by (simp add: random_def split_beta)
  ultimately show ?thesis
    by metis
qed

theorem setSeed_never_zero_witness:
  "\<exists>g'. setSeed 42 \<lparr>seed = 0, rng_state = 0, last_randomnormal = None\<rparr> = Some g' \<and> getSeed g' = 42 \<and> rng_state (draws 1000 g') \<noteq> 0 \<and>
    (\<forall>h. setSeed 43 \<lparr>seed = 0, rng_state = 0, last_randomnormal = None\<rparr> = Some h \<and> rng_state h = rng_state g' \<longrightarrow>
       wangHash64 42 = 0 \<or> wangHash64 43 = 0)"
proof -
  obtain g' where g': "setSeed 42 \<lparr>seed = 0, rng_state = 0, last_randomnormal = None\<rparr> = Some g'" "getSeed g' = 42" "rng_state (draws 1000 g') \<noteq> 0"
    and other: "\<And>t h. setSeed t \<lparr>seed = 0, rng_state = 0, last_randomnormal = None\<rparr> = Some h \<Longrightarrow> rng_state h = rng_state g' \<Longrightarrow>
      42 = t \<or> wangHash64 42 = 0 \<or> wangHash64 t = 0"
    using setSeed_never_zero [of 42 "\<lparr>seed = 0, rng_state = 0, last_randomnormal = None\<rparr>" 1000] by blast
  have "(42 :: uint64) \<noteq> 43"
    by simp
  then show ?thesis
    using g' other [of 43] by blast
qed

end
