(* ===== verification/Geometry.thy ===== *)
theory Geometry
  imports Prelude Complex_Main
begin

text \<open>
  Polygons (\<^verbatim>\<open>src/src/modules/math/MathModule.cpp\<close>): the ear-clipping triangulation
  over two arrays of neighbours, and the convexity test, with the vectors of
  \<^verbatim>\<open>src/src/common/Vector.h\<close> they use. A \<^verbatim>\<open>float\<close> is a real number here: what is
  shown is what the algorithm does without rounding. A vertex is known by its
  place in the polygon, which is what the addresses compared by the code tell
  apart.
\<close>

section \<open>Vectors\<close>

record vector2 =
  vec_x :: real
  vec_y :: real

definition vec :: "real \<Rightarrow> real \<Rightarrow> vector2" where
  "vec a b = \<lparr>vec_x = a, vec_y = b\<rparr>"

lemma vec_sel [simp]: "vec_x (vec a b) = a" "vec_y (vec a b) = b"
  by (simp_all add: vec_def)

definition vec_minus :: "vector2 \<Rightarrow> vector2 \<Rightarrow> vector2" where
  "vec_minus u v = vec (vec_x u - vec_x v) (vec_y u - vec_y v)"

definition vec_cross :: "vector2 \<Rightarrow> vector2 \<Rightarrow> real" where
  "vec_cross u v = vec_x u * vec_y v - vec_y u * vec_x v"

definition vec_plus :: "vector2 \<Rightarrow> vector2 \<Rightarrow> vector2" where
  "vec_plus u v = vec (vec_x u + vec_x v) (vec_y u + vec_y v)"

definition vec_times :: "vector2 \<Rightarrow> real \<Rightarrow> vector2" where
  "vec_times v s = vec (vec_x v * s) (vec_y v * s)"

section \<open>Indices\<close>

text \<open>A \<^verbatim>\<open>float\<close> converted to \<^verbatim>\<open>size_t\<close> loses its fraction; what does not fit has no value.\<close>

definition to_index :: "real \<Rightarrow> nat result" where
  "to_index x =
     (if x \<le> -1 \<or> x \<ge> 2 ^ 64 then Inl (Undefined_behaviour ''float out of the range of size_t'')
      else Inr (nat \<lfloor>x\<rfloor>))"

definition element :: "'a list \<Rightarrow> nat \<Rightarrow> 'a result" where
  "element xs i = (if i < length xs then Inr (xs ! i) else Inl (Undefined_behaviour ''index past the end of a vector''))"

text \<open>\<^verbatim>\<open>size() - 1\<close>, which wraps around for an empty vector.\<close>

definition last_index :: "'a list \<Rightarrow> nat" where
  "last_index xs = (length xs + (2 ^ 64 - 1)) mod 2 ^ 64"

section \<open>The tests of a corner\<close>

definition is_oriented_ccw :: "vector2 \<Rightarrow> vector2 \<Rightarrow> vector2 \<Rightarrow> bool" where
  "is_oriented_ccw a b c \<longleftrightarrow>
     (vec_x b - vec_x a) * (vec_y c - vec_y a) - (vec_y b - vec_y a) * (vec_x c - vec_x a) \<ge> 0"

definition on_same_side :: "vector2 \<Rightarrow> vector2 \<Rightarrow> vector2 \<Rightarrow> vector2 \<Rightarrow> bool" where
  "on_same_side a b c d \<longleftrightarrow>
     (let px = vec_x d - vec_x c; py = vec_y d - vec_y c;
          l = px * (vec_y a - vec_y c) - py * (vec_x a - vec_x c);
          m = px * (vec_y b - vec_y c) - py * (vec_x b - vec_x c)
      in l * m \<ge> 0)"

definition point_in_triangle :: "vector2 \<Rightarrow> vector2 \<Rightarrow> vector2 \<Rightarrow> vector2 \<Rightarrow> bool" where
  "point_in_triangle p a b c \<longleftrightarrow> on_same_side p a b c \<and> on_same_side p b a c \<and> on_same_side p c a b"

fun any_point_in_triangle :: "vector2 list \<Rightarrow> nat list \<Rightarrow> nat \<Rightarrow> nat \<Rightarrow> nat \<Rightarrow> bool" where
  "any_point_in_triangle polygon [] a b c = False"
| "any_point_in_triangle polygon (p # vertices) a b c =
     (if p \<noteq> a \<and> p \<noteq> b \<and> p \<noteq> c \<and> point_in_triangle (polygon ! p) (polygon ! a) (polygon ! b) (polygon ! c) then True
      else any_point_in_triangle polygon vertices a b c)"

definition is_ear :: "vector2 list \<Rightarrow> nat \<Rightarrow> nat \<Rightarrow> nat \<Rightarrow> nat list \<Rightarrow> bool" where
  "is_ear polygon a b c vertices \<longleftrightarrow>
     is_oriented_ccw (polygon ! a) (polygon ! b) (polygon ! c) \<and> \<not> any_point_in_triangle polygon vertices a b c"

section \<open>Triangulation\<close>

record triangle =
  tri_a :: vector2
  tri_b :: vector2
  tri_c :: vector2

definition mk_triangle :: "vector2 \<Rightarrow> vector2 \<Rightarrow> vector2 \<Rightarrow> triangle" where
  "mk_triangle a b c = \<lparr>tri_a = a, tri_b = b, tri_c = c\<rparr>"

fun leftmost :: "vector2 list \<Rightarrow> nat list \<Rightarrow> nat \<Rightarrow> nat" where
  "leftmost polygon [] idx_lm = idx_lm"
| "leftmost polygon (i # rest) idx_lm =
     (let lm = polygon ! idx_lm; p = polygon ! i
      in leftmost polygon rest
           (if vec_x p < vec_x lm \<or> vec_x p = vec_x lm \<and> vec_y p < vec_y lm then i else idx_lm))"

definition next_indices :: "nat \<Rightarrow> nat list" where
  "next_indices n = (map Suc [0..<n])[n - 1 := 0]"

definition prev_indices :: "nat \<Rightarrow> nat list" where
  "prev_indices n = (map (\<lambda>i. i - 1) [0..<n])[0 := n - 1]"

definition concave_vertices :: "vector2 list \<Rightarrow> nat list \<Rightarrow> nat list \<Rightarrow> nat list" where
  "concave_vertices polygon nx pv =
     filter (\<lambda>i. \<not> is_oriented_ccw (polygon ! (pv ! i)) (polygon ! i) (polygon ! (nx ! i))) [0..<length polygon]"

text \<open>
  The clipping loop. A corner that is an ear is cut off; otherwise the walk goes on
  to the next vertex, and gives up when it has gone around without finding one.
\<close>

function clip ::
  "vector2 list \<Rightarrow> nat list \<Rightarrow> nat list \<Rightarrow> nat list \<Rightarrow> triangle list \<Rightarrow> nat \<Rightarrow> nat \<Rightarrow> nat \<Rightarrow> triangle list result" where
  "clip polygon nx pv concave triangles n_vertices current skipped =
     (if n_vertices > 3
      then
        let nxt = nx ! current; prv = pv ! current
        in if is_ear polygon prv current nxt concave
           then clip polygon (nx[prv := nxt]) (pv[nxt := prv]) (removeAll current concave)
                  (triangles @ [mk_triangle (polygon ! prv) (polygon ! current) (polygon ! nxt)]) (n_vertices - 1) nxt 0
           else if Suc skipped > n_vertices then Inl (Exception ''Cannot triangulate polygon.'')
           else clip polygon nx pv concave triangles n_vertices nxt (Suc skipped)
      else Inr (triangles @ [mk_triangle (polygon ! (pv ! current)) (polygon ! current) (polygon ! (nx ! current))]))"
  by pat_completeness auto
termination
  by (relation "measures [\<lambda>(_, _, _, _, _, n, _, _). n, \<lambda>(_, _, _, _, _, n, _, skipped). Suc n - skipped]") auto

declare clip.simps [simp del]

definition winding_kept :: "vector2 list \<Rightarrow> bool" where
  "winding_kept polygon =
     (let n = length polygon; idx_lm = leftmost polygon [0..<n] 0
      in is_oriented_ccw (polygon ! (prev_indices n ! idx_lm)) (polygon ! idx_lm) (polygon ! (next_indices n ! idx_lm)))"

definition triangulate :: "vector2 list \<Rightarrow> triangle list result" where
  "triangulate polygon =
     (if length polygon < 3 then Inl (Exception ''Not a polygon'')
      else if length polygon = 3 then Inr [mk_triangle (polygon ! 0) (polygon ! 1) (polygon ! 2)]
      else
        let n = length polygon;
            (nx, pv) = (if winding_kept polygon then (next_indices n, prev_indices n) else (prev_indices n, next_indices n))
        in clip polygon nx pv (concave_vertices polygon nx pv) [] n 1 0)"

section \<open>Convexity\<close>

text \<open>The loop compares the turn at every corner with the one at the last vertex.\<close>

function convex_loop :: "vector2 list \<Rightarrow> real \<Rightarrow> nat \<Rightarrow> nat \<Rightarrow> bool" where
  "convex_loop polygon winding j k =
     (if k + 1 < length polygon
      then
        let i = j; j = k; k = k + 1;
            p = vec_minus (polygon ! j) (polygon ! i);
            q = vec_minus (polygon ! k) (polygon ! j)
        in if vec_cross p q * winding < 0 then False else convex_loop polygon winding j k
      else True)"
  by pat_completeness auto
termination
  by (relation "measure (\<lambda>(polygon, _, _, k). length polygon - k)") auto

declare convex_loop.simps [simp del]

definition isConvex :: "vector2 list \<Rightarrow> bool" where
  "isConvex polygon =
     (if length polygon < 3 then False
      else
        let i = length polygon - 2; j = length polygon - 1; k = 0;
            p = vec_minus (polygon ! j) (polygon ! i);
            q = vec_minus (polygon ! k) (polygon ! j)
        in convex_loop polygon (vec_cross p q) j k)"

section \<open>Rings of neighbours\<close>

text \<open>Consecutive members of a path point at each other.\<close>

fun linked :: "nat list \<Rightarrow> nat list \<Rightarrow> nat list \<Rightarrow> bool" where
  "linked nx pv (u # v # rest) \<longleftrightarrow> nx ! u = v \<and> pv ! v = u \<and> linked nx pv (v # rest)"
| "linked nx pv _ \<longleftrightarrow> True"

definition ring :: "nat \<Rightarrow> nat list \<Rightarrow> nat list \<Rightarrow> nat list \<Rightarrow> bool" where
  "ring n nx pv xs \<longleftrightarrow> xs \<noteq> [] \<and> distinct xs \<and> set xs \<subseteq> {..<n} \<and> length nx = n \<and> length pv = n \<and> linked nx pv (xs @ [hd xs])"

lemma linked_append:
  "linked nx pv (xs @ u # v # ys) \<longleftrightarrow> linked nx pv (xs @ [u]) \<and> nx ! u = v \<and> pv ! v = u \<and> linked nx pv (v # ys)"
  by (induction xs rule: induct_list012) auto

lemma linked_snoc: "linked nx pv (xs @ [u, v]) \<longleftrightarrow> linked nx pv (xs @ [u]) \<and> nx ! u = v \<and> pv ! v = u"
  using linked_append [of nx pv xs u v "[]"] by simp

lemma linked_update:
  assumes "a \<notin> set (butlast xs)" "c \<notin> set (tl xs)"
  shows "linked (nx[a := k]) (pv[c := l]) xs = linked nx pv xs"
  using assms
proof (induction xs rule: induct_list012)
  case (3 u v rest)
  then have "linked (nx[a := k]) (pv[c := l]) (v # rest) = linked nx pv (v # rest)"
    by (cases rest) auto
  then show ?case
    using 3 by auto
qed auto

text \<open>A step of the walk turns the ring; cutting the current vertex off closes it behind its neighbours.\<close>

lemma ring_linked:
  assumes "ring n nx pv (b # c # rest)"
  shows "nx ! b = c" "pv ! c = b" "linked nx pv ((c # rest) @ [b])"
  using assms by (simp_all add: ring_def)

lemma ring_parts:
  assumes "ring n nx pv (b # c # rest)"
  shows "nx ! b = c" "pv ! b = last (c # rest)" "b < n" "c < n" "last (c # rest) < n"
proof -
  obtain ys a where ys: "c # rest = ys @ [a]"
    by (metis append_butlast_last_id list.discI)
  have "linked nx pv (ys @ [a, b])"
    using ring_linked(3) [OF assms] unfolding ys by simp
  then have "pv ! b = a"
    unfolding linked_snoc by simp
  moreover have "last (c # rest) = a"
    unfolding ys by simp
  ultimately show "pv ! b = last (c # rest)"
    by simp
  have "set (b # c # rest) \<subseteq> {..<n}" "last (c # rest) \<in> set (c # rest)"
    using assms last_in_set [of "c # rest"] by (simp_all add: ring_def)
  then show "b < n" "c < n" "last (c # rest) < n"
    by auto
qed (rule ring_linked(1) [OF assms])

lemma ring_turn:
  assumes "ring n nx pv (b # c # rest)"
  shows "ring n nx pv (c # rest @ [b])"
proof -
  have "linked nx pv ((c # rest) @ [b])" "nx ! b = c" "pv ! c = b"
    using assms by (simp_all add: ring_def)
  then have "linked nx pv ((c # rest) @ [b, c])"
    unfolding linked_snoc by simp
  then show ?thesis
    using assms by (auto simp: ring_def)
qed

lemma ring_cut:
  assumes "ring n nx pv (b # c # rest)" "rest \<noteq> []"
  shows "ring n (nx[pv ! b := nx ! b]) (pv[nx ! b := pv ! b]) (c # rest)"
proof -
  define a where "a = last (c # rest)"
  have parts: "nx ! b = c" "pv ! b = a" "a < n" "c < n"
    using ring_parts [OF assms(1)] by (simp_all add: a_def)
  obtain ys where ys: "c # rest = ys @ [a]"
    by (metis a_def append_butlast_last_id list.discI)
  have ring: "distinct (c # rest)" "length nx = n" "length pv = n" "set (c # rest) \<subseteq> {..<n}"
    using assms(1) by (simp_all add: ring_def)
  have path: "linked nx pv (ys @ [a])"
    using ring_linked(3) [OF assms(1)] unfolding ys by (simp add: linked_snoc)
  have "a \<notin> set (butlast (ys @ [a]))" "c \<notin> set (tl (ys @ [a]))"
    using ring(1) unfolding ys by (simp, metis ring(1) distinct.simps(2) list.sel(3) ys)
  then have "linked (nx[a := c]) (pv[c := a]) (ys @ [a])"
    using path linked_update by blast
  then have "linked (nx[a := c]) (pv[c := a]) (ys @ [a, c])"
    unfolding linked_snoc using ring parts by simp
  moreover have "hd (ys @ [a]) = c"
    using ys by (metis list.sel(1))
  ultimately show ?thesis
    using ring ys parts by (simp add: ring_def)
qed

section \<open>Area\<close>

definition area2 :: "triangle \<Rightarrow> real" where
  "area2 t = vec_cross (vec_minus (tri_b t) (tri_a t)) (vec_minus (tri_c t) (tri_a t))"

fun path_area :: "vector2 list \<Rightarrow> nat list \<Rightarrow> real" where
  "path_area p (u # v # rest) = vec_cross (p ! u) (p ! v) + path_area p (v # rest)"
| "path_area p _ = 0"

definition ring_area :: "vector2 list \<Rightarrow> nat list \<Rightarrow> real" where
  "ring_area p xs = path_area p (xs @ [hd xs])"

lemma path_area_append: "path_area p (xs @ u # ys) = path_area p (xs @ [u]) + path_area p (u # ys)"
  by (induction xs rule: induct_list012) auto

lemma area2_corner: "area2 (mk_triangle a b c) = vec_cross a b + vec_cross b c - vec_cross a c"
  by (simp add: area2_def mk_triangle_def vec_cross_def vec_minus_def algebra_simps)

lemma ccw_area: "is_oriented_ccw a b c \<longleftrightarrow> area2 (mk_triangle a b c) \<ge> 0"
  by (simp add: is_oriented_ccw_def area2_def mk_triangle_def vec_cross_def vec_minus_def)

lemma ring_area_turn: "ring_area p (c # rest @ [b]) = ring_area p (b # c # rest)"
  using path_area_append [of p "c # rest" b "[c]"] by (simp add: ring_area_def)

lemma ring_area_cut:
  assumes "rest \<noteq> []"
  shows "ring_area p (b # c # rest) = ring_area p (c # rest) + area2 (mk_triangle (p ! last (c # rest)) (p ! b) (p ! c))"
proof -
  obtain ys a where ys: "c # rest = ys @ [a]"
    by (metis append_butlast_last_id list.discI)
  have "path_area p (c # rest @ [x]) = path_area p (c # rest) + vec_cross (p ! a) (p ! x)" for x
    using path_area_append [of p ys a "[x]"] ys by (metis append_Cons append_assoc append_Nil path_area.simps(1,3) add_0_right)
  moreover have "last (c # rest) = a"
    using ys by (metis last_snoc)
  ultimately show ?thesis
    by (simp add: ring_area_def area2_corner)
qed

section \<open>The neighbours the loop starts from\<close>

lemma linked_upt: "(\<And>i. Suc i < n \<Longrightarrow> nx ! i = Suc i \<and> pv ! Suc i = i) \<Longrightarrow> m \<le> n \<Longrightarrow> linked nx pv [m..<n]"
proof (induction "n - m" arbitrary: m)
  case (Suc k)
  then have up: "[m..<n] = m # [Suc m..<n]" and later: "linked nx pv [Suc m..<n]"
    by (simp_all add: upt_conv_Cons)
  show ?case
  proof (cases "Suc m < n")
    case True
    then have "[Suc m..<n] = Suc m # [Suc (Suc m)..<n]"
      by (simp add: upt_conv_Cons)
    then show ?thesis
      using up later Suc.prems(1) [OF True] by simp
  next
    case False
    then show ?thesis
      using up by simp
  qed
qed simp

lemma linked_rev: "linked nx pv (rev xs) = linked pv nx xs"
proof (induction xs rule: induct_list012)
  case (3 u v rest)
  then show ?case
    using linked_append [of nx pv "rev rest" v u "[]"] by auto
qed auto

lemma indices_nth:
  assumes "Suc i < n"
  shows "next_indices n ! i = Suc i" "prev_indices n ! Suc i = i" "next_indices n ! (n - 1) = 0" "prev_indices n ! 0 = n - 1"
  using assms by (simp_all add: next_indices_def prev_indices_def)

lemma ring_start: "2 \<le> n \<Longrightarrow> ring n (next_indices n) (prev_indices n) [0..<n]"
proof -
  assume n: "2 \<le> n"
  then obtain k where k: "n = Suc (Suc k)"
    by (metis add_2_eq_Suc le_Suc_ex)
  have "linked (next_indices n) (prev_indices n) [0..<n]"
    using indices_nth by (intro linked_upt) auto
  moreover have "[0..<n] @ [0] = [0..<n - 1] @ [n - 1, 0]"
    by (simp add: k)
  moreover have "[0..<n] = [0..<n - 1] @ [n - 1]"
    by (simp add: k)
  ultimately have "linked (next_indices n) (prev_indices n) ([0..<n] @ [0])"
    using indices_nth [of 0 n] n unfolding linked_snoc [of _ _ "[0..<n - 1]"] by (metis One_nat_def Suc_1 Suc_le_lessD linked_snoc)
  moreover have "hd [0..<n] = 0" "[0..<n] \<noteq> []" "length (next_indices n) = n" "length (prev_indices n) = n"
    using n by (auto simp: next_indices_def prev_indices_def)
  ultimately show ?thesis
    by (simp only: ring_def) auto
qed

text \<open>The walk starts at vertex 1, forwards or backwards.\<close>

definition first_ring :: "bool \<Rightarrow> nat \<Rightarrow> nat list" where
  "first_ring forwards n = (if forwards then [1..<n] @ [0] else 1 # 0 # rev [2..<n])"

lemma upt_first: "3 \<le> n \<Longrightarrow> [0..<n] = 0 # 1 # [2..<n]"
  by (simp add: upt_conv_Cons numeral_2_eq_2)

lemma ring_first:
  assumes "3 \<le> n"
  shows "ring n (next_indices n) (prev_indices n) (first_ring True n)"
    "ring n (prev_indices n) (next_indices n) (first_ring False n)"
proof -
  have "[0..<n] = 0 # 1 # [2..<n]"
    by (rule upt_first [OF assms])
  then have "ring n (next_indices n) (prev_indices n) (0 # 1 # [2..<n])"
    using ring_start [of n] assms by simp
  then have turned: "ring n (next_indices n) (prev_indices n) (1 # [2..<n] @ [0])"
    by (rule ring_turn)
  then show "ring n (next_indices n) (prev_indices n) (first_ring True n)"
    using assms by (simp add: first_ring_def upt_conv_Cons numeral_2_eq_2)
  have "linked (prev_indices n) (next_indices n) (rev ((1 # [2..<n] @ [0]) @ [1]))"
    using turned unfolding linked_rev by (simp add: ring_def)
  then show "ring n (prev_indices n) (next_indices n) (first_ring False n)"
    using turned by (auto simp: ring_def first_ring_def)
qed

section \<open>What is cut off adds up\<close>

definition corners_of :: "triangle \<Rightarrow> vector2 set" where
  "corners_of t = {tri_a t, tri_b t, tri_c t}"

lemma corners_mk [simp]: "corners_of (mk_triangle a b c) = {a, b, c}"
  by (simp add: corners_of_def mk_triangle_def)

text \<open>A list of triangles that covers a ring: one for every corner but two, all but the last turning left.\<close>

definition covers :: "vector2 list \<Rightarrow> nat list \<Rightarrow> triangle list \<Rightarrow> bool" where
  "covers p xs ts \<longleftrightarrow> length ts + 2 = length xs \<and> sum_list (map area2 ts) = ring_area p xs \<and>
     (\<forall>t \<in> set ts. corners_of t \<subseteq> set p) \<and> (\<forall>t \<in> set (butlast ts). area2 t \<ge> 0)"

lemma covers_cut:
  assumes "covers p (c # rest) ts" "rest \<noteq> []" "is_oriented_ccw (p ! last (c # rest)) (p ! b) (p ! c)"
    and "b < length p" "c < length p" "last (c # rest) < length p" "ts \<noteq> []"
  shows "covers p (b # c # rest) (mk_triangle (p ! last (c # rest)) (p ! b) (p ! c) # ts)"
  using assms ring_area_cut [OF assms(2), of p b c] ccw_area
  by (auto simp: covers_def)

lemma covers_last:
  assumes "a < length p" "b < length p" "c < length p"
  shows "covers p [b, c, a] [mk_triangle (p ! a) (p ! b) (p ! c)]"
proof -
  have "area2 (mk_triangle (p ! a) (p ! b) (p ! c)) = ring_area p [b, c, a]"
    unfolding area2_corner by (simp add: ring_area_def vec_cross_def)
  then show ?thesis
    using assms by (simp add: covers_def)
qed

lemma covers_turn: "covers p (c # rest @ [b]) ts = covers p (b # c # rest) ts"
  by (simp add: covers_def ring_area_turn)

lemma clip_covers:
  assumes "clip p nx pv concave ts n b skipped = Inr result" "ring (length p) nx pv (b # rest)"
    and "length (b # rest) = n" "3 \<le> n"
  shows "\<exists>new. result = ts @ new \<and> covers p (b # rest) new"
  using assms
proof (induction p nx pv concave ts n b skipped arbitrary: rest rule: clip.induct)
  case (1 p nx pv concave ts n b skipped)
  obtain c rest' where rest: "rest = c # rest'" "rest' \<noteq> []"
    using "1.prems"(3,4) by (cases rest) (auto simp: Suc_le_eq)
  note ring = "1.prems"(2) [unfolded rest(1)]
  note parts = ring_parts [OF ring]
  let ?t = "mk_triangle (p ! (pv ! b)) (p ! b) (p ! (nx ! b))"
  show ?case
  proof (cases "n > 3")
    case False
    then obtain a where a: "rest' = [a]"
      using "1.prems"(3,4) rest by (cases rest'; cases "tl rest'") auto
    then have "result = ts @ [mk_triangle (p ! a) (p ! b) (p ! c)]"
      using "1.prems"(1) False parts by (simp add: clip.simps [of p nx pv])
    moreover have "covers p [b, c, a] [mk_triangle (p ! a) (p ! b) (p ! c)]"
      using parts a by (intro covers_last) simp_all
    ultimately show ?thesis
      using a rest(1) by blast
  next
    case big: True
    show ?thesis
    proof (cases "is_ear p (pv ! b) b (nx ! b) concave")
      case True
      then have "clip p (nx[pv ! b := nx ! b]) (pv[nx ! b := pv ! b]) (removeAll b concave) (ts @ [?t]) (n - 1) c 0 = Inr result"
        using "1.prems"(1) big parts(1) by (simp add: clip.simps [of p nx pv] Let_def)
      moreover have "ring (length p) (nx[pv ! b := nx ! b]) (pv[nx ! b := pv ! b]) (c # rest')"
        by (rule ring_cut [OF ring rest(2)])
      ultimately obtain new where new: "result = (ts @ [?t]) @ new" "covers p (c # rest') new"
        using "1.IH"(1) [OF big refl refl True, of rest'] "1.prems"(3) big rest(1) parts(1) by auto
      have "new \<noteq> []"
        using new(2) big "1.prems"(3) rest(1) by (auto simp: covers_def)
      then have "covers p (b # c # rest') (?t # new)"
        using covers_cut [OF new(2) rest(2)] True parts by (simp add: is_ear_def)
      then show ?thesis
        using new(1) rest(1) by simp
    next
      case False
      have "clip p nx pv concave ts n c (Suc skipped) = Inr result" "\<not> Suc skipped > n"
        using "1.prems"(1) big False parts(1) by (simp_all add: clip.simps [of p nx pv concave ts n b] Let_def split: if_splits)
      then obtain new where "result = ts @ new" "covers p (c # rest' @ [b]) new"
        using "1.IH"(2) [OF big refl refl False, of "rest' @ [b]"] ring_turn [OF ring] "1.prems"(3,4) rest(1) parts(1) by auto
      then show ?thesis
        using covers_turn rest(1) by auto
    qed
  qed
qed

text \<open>The shoelace formula: twice the area a closed polygon encloses, counted positive when it turns left.\<close>

definition shoelace :: "vector2 list \<Rightarrow> real" where
  "shoelace p = (\<Sum>i < length p. vec_cross (p ! i) (p ! (Suc i mod length p)))"

lemma path_area_upt: "path_area p [0..<Suc n] = (\<Sum>i < n. vec_cross (p ! i) (p ! Suc i))"
proof (induction n)
  case (Suc n)
  have "[0..<Suc (Suc n)] = [0..<n] @ n # [Suc n]"
    by simp
  then have "path_area p [0..<Suc (Suc n)] = path_area p ([0..<n] @ [n]) + vec_cross (p ! n) (p ! Suc n)"
    by (metis add.right_neutral path_area.simps(1,3) path_area_append)
  then show ?case
    using Suc by simp
qed simp

lemma ring_area_upt:
  assumes "p \<noteq> []"
  shows "ring_area p [0..<length p] = shoelace p"
proof -
  obtain n where n: "length p = Suc n"
    using assms by (cases p) auto
  have "[0..<Suc n] @ [hd [0..<Suc n]] = [0..<n] @ n # [0]"
    using hd_upt [of 0 "Suc n"] by simp
  then have "ring_area p [0..<length p] = path_area p [0..<Suc n] + vec_cross (p ! n) (p ! 0)"
    unfolding ring_area_def n by (simp only: path_area_append [of p "[0..<n]" n "[0]"]) simp
  also have "path_area p [0..<Suc n] = (\<Sum>i < n. vec_cross (p ! i) (p ! (Suc i mod Suc n)))"
    unfolding path_area_upt by (rule sum.cong) simp_all
  finally show ?thesis
    by (simp add: shoelace_def n)
qed

lemma path_area_rev: "path_area p (rev xs) = - path_area p xs"
proof (induction xs rule: induct_list012)
  case (3 u v rest)
  have "path_area p (rev (u # v # rest)) = path_area p (rev (v # rest)) + vec_cross (p ! v) (p ! u)"
    using path_area_append [of p "rev rest" v "[u]"] by simp
  then show ?case
    using 3 by (simp add: vec_cross_def)
qed auto

lemma ring_area_first:
  assumes "3 \<le> length p"
  shows "ring_area p (first_ring forwards (length p)) = (if forwards then shoelace p else - shoelace p)"
proof -
  have "[0..<length p] = 0 # 1 # [2..<length p]"
    by (rule upt_first [OF assms])
  then have "ring_area p (0 # 1 # [2..<length p]) = shoelace p"
    using ring_area_upt [of p] assms by force
  then have forw: "ring_area p (1 # [2..<length p] @ [0]) = shoelace p"
    by (simp only: ring_area_turn)
  moreover have "first_ring True (length p) = 1 # [2..<length p] @ [0]"
    using assms by (simp add: first_ring_def upt_conv_Cons numeral_2_eq_2)
  moreover have "ring_area p (first_ring False (length p)) = path_area p (rev (1 # [2..<length p] @ [0, 1]))"
    by (simp add: ring_area_def first_ring_def)
  then have "ring_area p (first_ring False (length p)) = - path_area p (1 # [2..<length p] @ [0, 1])"
    by (simp only: path_area_rev)
  ultimately show ?thesis
    using forw by (cases forwards) (simp_all add: ring_area_def)
qed

lemma triangulate_adds_up:
  assumes "triangulate p = Inr ts"
  shows "3 \<le> length p \<and> length ts = length p - 2 \<and> (\<forall>t \<in> set ts. corners_of t \<subseteq> set p) \<and>
    sum_list (map area2 ts) = (if length p = 3 \<or> winding_kept p then shoelace p else - shoelace p) \<and>
    (length p > 3 \<longrightarrow> (\<forall>t \<in> set (butlast ts). area2 t \<ge> 0))"
proof (cases "length p = 3")
  case True
  have "ts = [mk_triangle (p ! 0) (p ! 1) (p ! 2)]"
    using assms True by (simp add: triangulate_def)
  moreover have "covers p [1, 2, 0] [mk_triangle (p ! 0) (p ! 1) (p ! 2)]"
    using True by (intro covers_last) simp_all
  moreover have "ring_area p [1, 2, 0] = shoelace p"
  proof -
    have "[0..<length p] = [0, 1, 2]" "p \<noteq> []"
      using True by (auto simp: upt_rec numeral_2_eq_2)
    then have "ring_area p [0, 1, 2] = shoelace p"
      using ring_area_upt [of p] by metis
    then show ?thesis
      using ring_area_turn [of p 1 "[2]" 0] by simp
  qed
  ultimately show ?thesis
    using True by (simp add: covers_def)
next
  case False
  then have n: "3 < length p"
    using assms by (auto simp: triangulate_def split: if_splits)
  let ?n = "length p"
  define w where "w = winding_kept p"
  obtain nx pv where nx: "(nx, pv) = (if w then (next_indices ?n, prev_indices ?n) else (prev_indices ?n, next_indices ?n))"
    by (metis surj_pair)
  have "ring ?n nx pv (first_ring w ?n)"
    using ring_first [of ?n] n nx by (cases w) simp_all
  moreover have "clip p nx pv (concave_vertices p nx pv) [] ?n 1 0 = Inr ts"
    using assms n nx by (cases w) (simp_all add: triangulate_def w_def Let_def)
  moreover obtain rest where "first_ring w ?n = 1 # rest" "length (1 # rest) = ?n"
    using n by (cases w) (auto simp: first_ring_def upt_conv_Cons)
  ultimately have "covers p (first_ring w ?n) ts"
    using clip_covers [of p nx pv "concave_vertices p nx pv" "[]" ?n 1 0 ts rest] n by auto
  then show ?thesis
    using n ring_area_first [of p w] \<open>first_ring w ?n = 1 # rest\<close> \<open>length (1 # rest) = ?n\<close>
    by (auto simp: covers_def w_def)
qed

section \<open>What is cut off is an ear\<close>

text \<open>
  Ear clipping without its arrays: a corner of a ring may be cut off when it does not turn
  right and the vertices of the ring that turned right in the polygon lie strictly
  outside the triangle, its own corners apart. A triangle without area has no outside.
\<close>

definition outside :: "vector2 \<Rightarrow> triangle \<Rightarrow> bool" where
  "outside v t \<longleftrightarrow> area2 t > 0 \<and>
     (area2 (mk_triangle (tri_a t) (tri_b t) v) < 0 \<or> area2 (mk_triangle (tri_b t) (tri_c t) v) < 0 \<or>
      area2 (mk_triangle (tri_c t) (tri_a t) v) < 0)"

definition corner :: "vector2 list \<Rightarrow> nat list \<Rightarrow> triangle" where
  "corner p xs = mk_triangle (p ! last xs) (p ! (xs ! 0)) (p ! (xs ! 1))"

definition ear :: "vector2 list \<Rightarrow> nat set \<Rightarrow> nat list \<Rightarrow> bool" where
  "ear p R xs \<longleftrightarrow> area2 (corner p xs) \<ge> 0 \<and>
     (\<forall>v \<in> set xs \<inter> R - {last xs, xs ! 0, xs ! 1}. outside (p ! v) (corner p xs))"

inductive ears :: "vector2 list \<Rightarrow> nat set \<Rightarrow> nat list \<Rightarrow> triangle list \<Rightarrow> nat list \<Rightarrow> bool" for p R xs where
  ears_none: "ears p R xs [] xs"
| ears_turn: "ears p R xs ts ys \<Longrightarrow> ears p R xs ts (rotate1 ys)"
| ears_cut: "ears p R xs ts ys \<Longrightarrow> 3 < length ys \<Longrightarrow> ear p R ys \<Longrightarrow> ears p R xs (ts @ [corner p ys]) (tl ys)"

text \<open>No corner of the ring is an ear.\<close>

definition stuck :: "vector2 list \<Rightarrow> nat set \<Rightarrow> nat list \<Rightarrow> bool" where
  "stuck p R ys \<longleftrightarrow> (\<forall>k < length ys. \<not> ear p R (rotate k ys))"

text \<open>The vertices at which the polygon turns right, walked forwards or backwards.\<close>

definition turns_right :: "vector2 list \<Rightarrow> bool \<Rightarrow> nat set" where
  "turns_right p forwards =
     {i. i < length p \<and>
         (let prv = p ! ((i + length p - 1) mod length p); nxt = p ! (Suc i mod length p)
          in area2 (if forwards then mk_triangle prv (p ! i) nxt else mk_triangle nxt (p ! i) prv) < 0)}"

lemma mult_ge: "s \<noteq> 0 \<Longrightarrow> l * s \<ge> 0 \<longleftrightarrow> (if s > 0 then l \<ge> 0 else l \<le> (0::real))"
  by (auto simp: zero_le_mult_iff)

lemma area2_swap: "area2 (mk_triangle b a c) = - area2 (mk_triangle a b c)"
  and area2_turn: "area2 (mk_triangle b c a) = area2 (mk_triangle a b c)"
  unfolding area2_corner by (simp_all add: vec_cross_def algebra_simps)

lemma same_side_areas:
  "on_same_side a b c d \<longleftrightarrow> area2 (mk_triangle c d a) * area2 (mk_triangle c d b) \<ge> 0"
  by (simp add: on_same_side_def area2_def mk_triangle_def vec_cross_def vec_minus_def Let_def)

lemma point_outside:
  assumes "area2 (mk_triangle a b c) \<ge> 0"
  shows "point_in_triangle v a b c \<longleftrightarrow> \<not> outside v (mk_triangle a b c)"
proof -
  let ?s = "area2 (mk_triangle a b c)"
  have sides: "area2 (mk_triangle b c a) = ?s" "area2 (mk_triangle a c b) = - ?s"
    "area2 (mk_triangle a c v) = - area2 (mk_triangle c a v)"
    using area2_turn [of b c a] area2_swap [of c a b] area2_swap [of c a v] area2_turn [of c a b] by simp_all
  have in_sides: "point_in_triangle v a b c \<longleftrightarrow>
      area2 (mk_triangle b c v) * ?s \<ge> 0 \<and> area2 (mk_triangle c a v) * ?s \<ge> 0 \<and> area2 (mk_triangle a b v) * ?s \<ge> 0"
    by (simp add: point_in_triangle_def same_side_areas sides)
  show ?thesis
  proof (cases "?s = 0")
    case True
    then show ?thesis
      unfolding in_sides outside_def by simp
  next
    case False
    then have "?s > 0"
      using assms by simp
    then show ?thesis
      unfolding in_sides outside_def using mult_ge [OF False] by (auto simp: mk_triangle_def not_less)
  qed
qed

lemma any_point_iff:
  "any_point_in_triangle p vs a b c \<longleftrightarrow>
     (\<exists>v \<in> set vs - {a, b, c}. point_in_triangle (p ! v) (p ! a) (p ! b) (p ! c))"
  by (induction vs) auto

lemma ring_corner:
  assumes "ring n nx pv ys" "2 \<le> length ys"
  shows "pv ! (ys ! 0) = last ys" "nx ! (ys ! 0) = ys ! 1"
proof -
  obtain b c rest where "ys = b # c # rest"
    using assms(2) by (cases ys; cases "tl ys") auto
  then show "pv ! (ys ! 0) = last ys" "nx ! (ys ! 0) = ys ! 1"
    using ring_parts [of n nx pv b c rest] assms(1) by simp_all
qed

lemma ear_tested:
  assumes "ring n nx pv ys" "2 \<le> length ys" "set concave = R \<inter> set ys"
  shows "is_ear p (pv ! (ys ! 0)) (ys ! 0) (nx ! (ys ! 0)) concave = ear p R ys"
proof -
  let ?a = "p ! last ys" and ?b = "p ! (ys ! 0)" and ?c = "p ! (ys ! 1)"
  have "is_ear p (pv ! (ys ! 0)) (ys ! 0) (nx ! (ys ! 0)) concave \<longleftrightarrow>
      area2 (mk_triangle ?a ?b ?c) \<ge> 0 \<and>
      \<not> (\<exists>v \<in> set ys \<inter> R - {last ys, ys ! 0, ys ! 1}. point_in_triangle (p ! v) ?a ?b ?c)"
    unfolding is_ear_def any_point_iff ring_corner [OF assms(1,2)] ccw_area assms(3) by auto
  then show ?thesis
    unfolding ear_def corner_def using point_outside by blast
qed

lemma ring_rotate: "ring n nx pv ys \<Longrightarrow> ring n nx pv (rotate k ys)"
proof (induction k)
  case (Suc k)
  then have r: "ring n nx pv (rotate k ys)" "ring n nx pv (rotate k ys) \<Longrightarrow> rotate k ys \<noteq> []"
    by (simp_all add: ring_def)
  obtain b rest where ys: "rotate k ys = b # rest"
    using r by (cases "rotate k ys") auto
  show ?case
  proof (cases rest)
    case Nil
    then show ?thesis
      using r ys by simp
  next
    case (Cons c rest')
    then show ?thesis
      using ring_turn [of n nx pv b c rest'] r ys by simp
  qed
qed simp

lemma ring_stuck:
  assumes "ring n nx pv ys" "2 \<le> length ys" "set concave = R \<inter> set ys"
    and none: "\<And>v. v \<in> set ys \<Longrightarrow> \<not> is_ear p (pv ! v) v (nx ! v) concave"
  shows "stuck p R ys"
  unfolding stuck_def
proof (intro allI impI)
  fix k assume "k < length ys"
  have r: "ring n nx pv (rotate k ys)" "2 \<le> length (rotate k ys)" "set concave = R \<inter> set (rotate k ys)"
    using ring_rotate assms(1-3) by simp_all
  have "rotate k ys ! 0 \<in> set ys"
    using assms(2) nth_mem [of 0 "rotate k ys"] by (cases "ys = []") auto
  then show "\<not> ear p R (rotate k ys)"
    using none ear_tested [OF r] by blast
qed

text \<open>The loop cuts ears off until three vertices are left, or until it has asked every corner in vain.\<close>

definition cut_to :: "vector2 list \<Rightarrow> nat set \<Rightarrow> nat list \<Rightarrow> triangle list result \<Rightarrow> bool" where
  "cut_to p R xs r \<longleftrightarrow>
     (\<exists>ts ys. ears p R xs ts ys \<and>
        (if length ys = 3 then r = Inr (ts @ [corner p ys])
         else 3 < length ys \<and> stuck p R ys \<and> r = Inl (Exception ''Cannot triangulate polygon.'')))"

lemma clip_ears:
  assumes "ring (length p) nx pv (b # rest)" "length (b # rest) = n" "3 \<le> n"
    and "set concave = R \<inter> set (b # rest)" "ears p R xs ts (b # rest)"
    and "\<forall>v \<in> set (drop (n - skipped) (b # rest)). \<not> is_ear p (pv ! v) v (nx ! v) concave" "skipped \<le> n"
  shows "cut_to p R xs (clip p nx pv concave ts n b skipped)"
  using assms
proof (induction p nx pv concave ts n b skipped arbitrary: rest rule: clip.induct)
  case (1 p nx pv concave ts n b skipped)
  obtain c rest' where rest: "rest = c # rest'" "rest' \<noteq> []"
    using "1.prems"(2,3) by (cases rest) (auto simp: Suc_le_eq)
  note ring = "1.prems"(1) [unfolded rest(1)]
  note parts = ring_parts [OF ring]
  have tested: "is_ear p (pv ! b) b (nx ! b) concave = ear p R (b # rest)"
    using ear_tested [OF "1.prems"(1) _ "1.prems"(4)] "1.prems"(2,3) by simp
  have cor: "corner p (b # rest) = mk_triangle (p ! (pv ! b)) (p ! b) (p ! (nx ! b))"
    using parts rest by (simp add: corner_def)
  show ?case
  proof (cases "n > 3")
    case False
    then have "clip p nx pv concave ts n b skipped = Inr (ts @ [corner p (b # rest)])" "length (b # rest) = 3"
      using "1.prems"(2,3) cor by (simp_all add: clip.simps [of p nx pv])
    then show ?thesis
      unfolding cut_to_def using "1.prems"(5) by (intro exI [of _ ts] exI [of _ "b # rest"]) simp
  next
    case big: True
    show ?thesis
    proof (cases "is_ear p (pv ! b) b (nx ! b) concave")
      case True
      have "clip p nx pv concave ts n b skipped =
          clip p (nx[pv ! b := nx ! b]) (pv[nx ! b := pv ! b]) (removeAll b concave) (ts @ [mk_triangle (p ! (pv ! b)) (p ! b) (p ! (nx ! b))]) (n - 1) (nx ! b) 0"
        using big True by (simp add: clip.simps [of p nx pv] Let_def)
      moreover have "ring (length p) (nx[pv ! b := nx ! b]) (pv[nx ! b := pv ! b]) (nx ! b # rest')"
        using ring_cut [OF ring rest(2)] parts(1) by simp
      moreover have "set (removeAll b concave) = R \<inter> set (nx ! b # rest')"
        using "1.prems"(1,4) rest(1) parts(1) by (auto simp: ring_def)
      moreover have "ears p R xs (ts @ [mk_triangle (p ! (pv ! b)) (p ! b) (p ! (nx ! b))]) (nx ! b # rest')"
        using ears_cut [OF "1.prems"(5)] True tested big "1.prems"(2) rest(1) parts(1) cor by simp
      ultimately show ?thesis
        using "1.IH"(1) [OF big refl refl True, of rest'] "1.prems"(2) big rest(1) by simp
    next
      case False
      show ?thesis
      proof (cases "Suc skipped > n")
        case True
        have "stuck p R (b # rest)"
          using True False "1.prems"(6,7) "1.prems"(2,3) by (intro ring_stuck [OF "1.prems"(1) _ "1.prems"(4)]) auto
        moreover have "clip p nx pv concave ts n b skipped = Inl (Exception ''Cannot triangulate polygon.'')"
          using big False True by (simp add: clip.simps [of p nx pv] Let_def)
        ultimately show ?thesis
          unfolding cut_to_def using "1.prems"(5,2) big by (intro exI [of _ ts] exI [of _ "b # rest"]) simp
      next
        case more: False
        have "clip p nx pv concave ts n b skipped = clip p nx pv concave ts n (nx ! b) (Suc skipped)"
          using big False more by (simp add: clip.simps [of p nx pv concave ts n b] Let_def)
        moreover have "ring (length p) nx pv (nx ! b # rest' @ [b])"
          using ring_turn [OF ring] parts(1) by simp
        moreover have "ears p R xs ts (nx ! b # rest' @ [b])"
          using ears_turn [OF "1.prems"(5)] rest(1) parts(1) by simp
        moreover have "set (drop (n - Suc skipped) (nx ! b # rest' @ [b])) \<subseteq> insert b (set (drop (n - skipped) (b # rest)))"
        proof -
          have "n - skipped = Suc (n - Suc skipped)" "n - Suc skipped \<le> length (c # rest')"
            using more "1.prems"(2) rest(1) by simp_all
          then show ?thesis
            using rest(1) parts(1) by (auto simp: drop_Cons' split: if_splits)
        qed
        ultimately show ?thesis
          using "1.IH"(2) [OF big refl refl False more, of "rest' @ [b]"] "1.prems"(2-4,6) big rest(1) False more parts(1)
          by auto
      qed
    qed
  qed
qed

lemma concave_turn:
  assumes "2 \<le> length p"
  shows "set (concave_vertices p (next_indices (length p)) (prev_indices (length p))) = turns_right p True"
    "set (concave_vertices p (prev_indices (length p)) (next_indices (length p))) = turns_right p False"
proof -
  have "next_indices (length p) ! i = Suc i mod length p" "prev_indices (length p) ! i = (i + length p - 1) mod length p"
    if "i < length p" for i
    using that assms by (auto simp: next_indices_def prev_indices_def nth_list_update mod_Suc mod_if)
  then show "set (concave_vertices p (next_indices (length p)) (prev_indices (length p))) = turns_right p True"
    "set (concave_vertices p (prev_indices (length p)) (next_indices (length p))) = turns_right p False"
    by (auto simp: concave_vertices_def turns_right_def ccw_area Let_def not_le)
qed

lemma triangulate_ears:
  assumes "3 < length p"
  shows "cut_to p (turns_right p (winding_kept p)) (first_ring (winding_kept p) (length p)) (triangulate p)"
proof -
  let ?n = "length p"
  define w where "w = winding_kept p"
  obtain nx pv where nx: "(nx, pv) = (if w then (next_indices ?n, prev_indices ?n) else (prev_indices ?n, next_indices ?n))"
    by (metis surj_pair)
  have "ring ?n nx pv (first_ring w ?n)"
    using ring_first [of ?n] assms nx by (cases w) simp_all
  moreover have "triangulate p = clip p nx pv (concave_vertices p nx pv) [] ?n 1 0"
    using assms nx by (cases w) (simp_all add: triangulate_def w_def Let_def)
  moreover obtain rest where rest: "first_ring w ?n = 1 # rest" "length (1 # rest) = ?n"
    using assms by (cases w) (auto simp: first_ring_def upt_conv_Cons)
  moreover have "set (concave_vertices p nx pv) = turns_right p w \<inter> set (1 # rest)"
  proof -
    have "set (concave_vertices p nx pv) = turns_right p w"
      using concave_turn [of p] assms nx by (cases w) simp_all
    moreover have "set (first_ring w ?n) = {..<?n}"
      using assms by (cases w) (auto simp: first_ring_def)
    moreover have "turns_right p w \<subseteq> {..<?n}"
      by (auto simp: turns_right_def)
    ultimately show ?thesis
      using rest(1) by auto
  qed
  ultimately show ?thesis
    using clip_ears [of p nx pv 1 rest ?n "concave_vertices p nx pv" "turns_right p w" "1 # rest" "[]" 0] assms ears_none
    unfolding w_def by simp
qed

text \<open>Claim C11. The triangulation always ends. It throws for fewer than three vertices and
  answers the one triangle there is for three. From there on it is ear clipping: it cuts ears
  off, one after the other, until three vertices are left, which are its last triangle, or until
  it is stuck, with more than three vertices left of which none is the tip of an ear; then, and only
  then, it throws. (A polygon that crosses itself can end this way.) An ear turned left or not
  at all, and no vertex left at which the polygon turned right lies in it. What it answers is
  one triangle fewer than two for each vertex, of the polygon's own vertices, whose
  areas add up exactly to what the polygon encloses, with the sign the corner at its leftmost vertex
  turned.\<close>

theorem triangulate_area:
  "(length p < 3 \<longrightarrow> triangulate p = Inl (Exception ''Not a polygon'')) \<and>
   (length p = 3 \<longrightarrow> triangulate p = Inr [mk_triangle (p ! 0) (p ! 1) (p ! 2)]) \<and>
   (3 < length p \<longrightarrow>
      cut_to p (turns_right p (winding_kept p)) (first_ring (winding_kept p) (length p)) (triangulate p)) \<and>
   (\<forall>ts. triangulate p = Inr ts \<longrightarrow>
      3 \<le> length p \<and> length ts = length p - 2 \<and> (\<forall>t \<in> set ts. corners_of t \<subseteq> set p) \<and>
      sum_list (map area2 ts) = (if length p = 3 \<or> winding_kept p then shoelace p else - shoelace p) \<and>
      (length p > 3 \<longrightarrow> (\<forall>t \<in> set (butlast ts). area2 t \<ge> 0)))"
  using triangulate_ears [of p] triangulate_adds_up [of p] by (simp add: triangulate_def)

definition notched :: "vector2 list" where
  "notched = [vec 0 0, vec 4 0, vec 4 4, vec 2 1, vec 0 4]"

lemma notched_triangles:
  "triangulate notched = Inr [mk_triangle (vec 4 0) (vec 4 4) (vec 2 1), mk_triangle (vec 2 1) (vec 0 4) (vec 0 0),
     mk_triangle (vec 2 1) (vec 0 0) (vec 4 0)]"
proof -
  have indices: "next_indices 5 = [1, 2, 3, 4, 0]" "prev_indices 5 = [4, 0, 1, 2, 3]"
    by code_simp+
  have n: "length notched = 5" "[0..<5] = [0, 1, 2, 3, 4]"
    by (simp add: notched_def, code_simp)
  have l: "leftmost notched [0, 1, 2, 3, 4] 0 = 0"
    by (simp add: notched_def Let_def)
  have w: "winding_kept notched"
    unfolding winding_kept_def Let_def n indices l by (simp add: notched_def is_oriented_ccw_def)
  have c: "concave_vertices notched [1, 2, 3, 4, 0] [4, 0, 1, 2, 3] = [3]"
    by (simp only: concave_vertices_def n) (simp add: notched_def is_oriented_ccw_def)
  have "triangulate notched = clip notched [1, 2, 3, 4, 0] [4, 0, 1, 2, 3] [3] [] 5 1 0"
    by (simp only: triangulate_def Let_def n indices w c if_True prod.case) simp
  also have "\<dots> = Inr [mk_triangle (vec 4 0) (vec 4 4) (vec 2 1), mk_triangle (vec 2 1) (vec 0 4) (vec 0 0),
     mk_triangle (vec 2 1) (vec 0 0) (vec 4 0)]"
    by (simp add: clip.simps notched_def is_ear_def is_oriented_ccw_def point_in_triangle_def on_same_side_def Let_def)
  finally show ?thesis .
qed

definition crossed :: "vector2 list" where
  "crossed = [vec 5 4, vec 2 5, vec 3 5, vec 0 0, vec 5 5]"

lemma crossed_throws: "triangulate crossed = Inl (Exception ''Cannot triangulate polygon.'')"
proof -
  have indices: "next_indices 5 = [1, 2, 3, 4, 0]" "prev_indices 5 = [4, 0, 1, 2, 3]"
    by code_simp+
  have n: "length crossed = 5" "[0..<5] = [0, 1, 2, 3, 4]"
    by (simp add: crossed_def, code_simp)
  have l: "leftmost crossed [0, 1, 2, 3, 4] 0 = 3"
    by (simp add: crossed_def Let_def)
  have w: "winding_kept crossed"
    unfolding winding_kept_def Let_def n indices l by (simp add: crossed_def is_oriented_ccw_def)
  have c: "concave_vertices crossed [1, 2, 3, 4, 0] [4, 0, 1, 2, 3] = [0, 1, 2, 4]"
    by (simp only: concave_vertices_def n) (simp add: crossed_def is_oriented_ccw_def)
  have "triangulate crossed = clip crossed [1, 2, 3, 4, 0] [4, 0, 1, 2, 3] [0, 1, 2, 4] [] 5 1 0"
    by (simp only: triangulate_def Let_def n indices w c if_True prod.case) simp
  also have "\<dots> = Inl (Exception ''Cannot triangulate polygon.'')"
    by (simp add: clip.simps crossed_def is_ear_def is_oriented_ccw_def point_in_triangle_def on_same_side_def Let_def)
  finally show ?thesis .
qed

theorem triangulate_area_witness:
  "(\<exists>ts. triangulate notched = Inr ts \<and> length ts = 3 \<and> sum_list (map area2 ts) = 20 \<and> shoelace notched = 20 \<and>
      (\<forall>t \<in> set (butlast ts). area2 t \<ge> 0)) \<and>
   (\<exists>R xs ts ys. ears crossed R xs ts ys \<and> 3 < length ys \<and> stuck crossed R ys)"
proof (rule conjI)
  have "3 < length crossed"
    by (simp add: crossed_def)
  then have "cut_to crossed (turns_right crossed (winding_kept crossed))
      (first_ring (winding_kept crossed) (length crossed)) (triangulate crossed)"
    using triangulate_area [of crossed] by blast
  then show "\<exists>R xs ts ys. ears crossed R xs ts ys \<and> 3 < length ys \<and> stuck crossed R ys"
    unfolding crossed_throws cut_to_def by (auto split: if_splits)
next
  let ?ts = "[mk_triangle (vec 4 0) (vec 4 4) (vec 2 1), mk_triangle (vec 2 1) (vec 0 4) (vec 0 0),
     mk_triangle (vec 2 1) (vec 0 0) (vec 4 0)]"
  have areas: "sum_list (map area2 ?ts) = 20"
    unfolding list.map area2_corner by (simp add: vec_cross_def)
  have "length ?ts = length notched - 2" "length notched > 3"
    by (simp_all add: notched_def)
  moreover have "(if winding_kept notched then shoelace notched else - shoelace notched) = 20"
    using triangulate_area [of notched] notched_triangles areas by (simp add: notched_def)
  moreover have "shoelace notched = 20"
  proof -
    have "[0..<length notched] = [0, 1, 2, 3, 4]"
      unfolding notched_def by code_simp
    then show ?thesis
      using ring_area_upt [of notched] by (simp add: notched_def ring_area_def vec_cross_def)
  qed
  moreover have "\<forall>t \<in> set (butlast ?ts). area2 t \<ge> 0"
    using triangulate_area [of notched] notched_triangles \<open>length notched > 3\<close> by blast
  ultimately show "\<exists>ts. triangulate notched = Inr ts \<and> length ts = 3 \<and> sum_list (map area2 ts) = 20 \<and> shoelace notched = 20 \<and>
      (\<forall>t \<in> set (butlast ts). area2 t \<ge> 0)"
    using notched_triangles areas by (intro exI [of _ ?ts]) simp
qed

section \<open>Polygons that turn one way\<close>

text \<open>No three vertices, in the order of the polygon, turn to the right.\<close>

definition convex_position :: "vector2 list \<Rightarrow> bool" where
  "convex_position p \<longleftrightarrow> (\<forall>k < length p. \<forall>j < k. \<forall>i < j. is_oriented_ccw (p ! i) (p ! j) (p ! k))"

lemma ccw_rotate: "is_oriented_ccw a b c = is_oriented_ccw b c a"
  unfolding ccw_area area2_corner by (simp add: vec_cross_def algebra_simps)

definition cyclic :: "nat list \<Rightarrow> bool" where
  "cyclic xs \<longleftrightarrow> (\<exists>ys zs. xs = ys @ zs \<and> sorted_wrt (<) (zs @ ys))"

lemma cyclic_turn: "cyclic (b # rest) \<Longrightarrow> cyclic (rest @ [b])"
proof -
  assume "cyclic (b # rest)"
  then obtain ys zs where s: "b # rest = ys @ zs" "sorted_wrt (<) (zs @ ys)"
    by (auto simp: cyclic_def)
  show "cyclic (rest @ [b])"
  proof (cases ys)
    case Nil
    then have "rest @ [b] = rest @ [b]" "sorted_wrt (<) ([b] @ rest)"
      using s by auto
    then show ?thesis
      unfolding cyclic_def by blast
  next
    case (Cons y ys')
    then have "rest @ [b] = ys' @ (zs @ [b])" "sorted_wrt (<) ((zs @ [b]) @ ys')"
      using s by auto
    then show ?thesis
      unfolding cyclic_def by blast
  qed
qed

lemma cyclic_tl: "cyclic (b # rest) \<Longrightarrow> cyclic rest"
proof -
  assume "cyclic (b # rest)"
  then obtain ys zs where s: "b # rest = ys @ zs" "sorted_wrt (<) (zs @ ys)"
    by (auto simp: cyclic_def)
  show "cyclic rest"
  proof (cases ys)
    case Nil
    then have "rest = rest @ []" "sorted_wrt (<) ([] @ rest)"
      using s by auto
    then show ?thesis
      unfolding cyclic_def by blast
  next
    case (Cons y ys')
    then have "rest = ys' @ zs" "sorted_wrt (<) (zs @ ys')"
      using s by (auto simp: sorted_wrt_append)
    then show ?thesis
      unfolding cyclic_def by blast
  qed
qed

lemma cyclic_ccw:
  assumes "cyclic (b # c # rest)" "rest \<noteq> []" "convex_position p" "set (b # c # rest) \<subseteq> {..<length p}"
  shows "is_oriented_ccw (p ! last rest) (p ! b) (p ! c)"
proof -
  obtain ys zs where s: "b # c # rest = ys @ zs" "sorted_wrt (<) (zs @ ys)"
    using assms(1) by (auto simp: cyclic_def)
  define a where "a = last rest"
  obtain mid where mid: "rest = mid @ [a]"
    using assms(2) by (metis a_def append_butlast_last_id)
  have "b < c \<and> c < a \<or> c < a \<and> a < b \<or> a < b \<and> b < c"
  proof (cases ys)
    case Nil
    then show ?thesis
      using s mid by auto
  next
    case (Cons y ys')
    note y = Cons
    show ?thesis
    proof (cases ys')
      case Nil
      then show ?thesis
        using s mid y by (auto simp: sorted_wrt_append)
    next
      case (Cons y2 ys'')
      then show ?thesis
        using s mid y by (cases zs rule: rev_cases; cases ys'' rule: rev_cases) (auto simp: sorted_wrt_append)
    qed
  qed
  moreover have "a < length p" "b < length p" "c < length p"
    using assms(4) mid by auto
  ultimately show ?thesis
    using assms(3) unfolding convex_position_def a_def [symmetric] by (metis ccw_rotate)
qed

lemma clip_convex:
  assumes "ring (length p) nx pv (b # rest)" "length (b # rest) = n" "3 \<le> n" "cyclic (b # rest)" "convex_position p"
  shows "\<exists>new. clip p nx pv [] ts n b skipped = Inr (ts @ new) \<and> (\<forall>t \<in> set new. area2 t \<ge> 0)"
  using assms(1-4)
proof (induction n arbitrary: nx pv ts b rest skipped)
  case (Suc n)
  obtain c rest' where rest: "rest = c # rest'" "rest' \<noteq> []"
    using Suc.prems(2,3) by (cases rest) (auto simp: Suc_le_eq)
  note ring = Suc.prems(1) [unfolded rest(1)]
  note parts = ring_parts [OF ring]
  let ?t = "mk_triangle (p ! (pv ! b)) (p ! b) (p ! (nx ! b))"
  have ear: "is_oriented_ccw (p ! (pv ! b)) (p ! b) (p ! (nx ! b))"
    using cyclic_ccw [of b c rest' p] Suc.prems(1,4) rest assms(5) parts by (simp add: ring_def)
  then have ccw: "area2 ?t \<ge> 0"
    by (simp add: ccw_area)
  show ?case
  proof (cases "Suc n > 3")
    case True
    have "ring (length p) (nx[pv ! b := nx ! b]) (pv[nx ! b := pv ! b]) (c # rest')" "cyclic (c # rest')"
      using ring_cut [OF ring rest(2)] cyclic_tl [of b rest] Suc.prems(4) rest(1) by simp_all
    then obtain new where new: "clip p (nx[pv ! b := nx ! b]) (pv[nx ! b := pv ! b]) [] (ts @ [?t]) n c 0 = Inr ((ts @ [?t]) @ new)"
      "\<forall>t \<in> set new. area2 t \<ge> 0"
      using Suc.IH [of "nx[pv ! b := nx ! b]" "pv[nx ! b := pv ! b]" c rest' "ts @ [?t]" 0] Suc.prems(2,3) rest(1) True by auto
    have "clip p nx pv [] ts (Suc n) b skipped = clip p (nx[pv ! b := nx ! b]) (pv[nx ! b := pv ! b]) [] (ts @ [?t]) n c 0"
      using True ear parts(1) by (simp add: clip.simps [of p nx pv] is_ear_def Let_def)
    then show ?thesis
      using new ccw by (intro exI [of _ "?t # new"]) simp
  next
    case False
    then show ?thesis
      using ccw by (intro exI [of _ "[?t]"]) (simp add: clip.simps [of p nx pv])
  qed
qed simp

text \<open>Three neighbours around the start of the arrays.\<close>

lemma neighbours_ccw:
  assumes "convex_position p" "3 \<le> length p" "i < length p"
  shows "is_oriented_ccw (p ! (prev_indices (length p) ! i)) (p ! i) (p ! (next_indices (length p) ! i))"
proof -
  let ?n = "length p"
  have nx: "next_indices ?n ! i = (if i = ?n - 1 then 0 else Suc i)" and pv: "prev_indices ?n ! i = (if i = 0 then ?n - 1 else i - 1)"
    using assms(2,3) by (auto simp: next_indices_def prev_indices_def nth_list_update)
  have ordered: "is_oriented_ccw (p ! x) (p ! y) (p ! z)" if "x < y" "y < z" "z < ?n" for x y z
    using assms(1) that unfolding convex_position_def by blast
  consider "i = 0" | "i = ?n - 1" "i \<noteq> 0" | "i \<noteq> 0" "i < ?n - 1"
    using assms(3) by linarith
  then show ?thesis
  proof cases
    case 1
    then show ?thesis
      using ordered [of 0 1 "?n - 1"] nx pv assms(2) ccw_rotate by simp
  next
    case 2
    then show ?thesis
      using ordered [of 0 "i - 1" i] nx pv assms(2,3) ccw_rotate by simp
  next
    case 3
    then show ?thesis
      using ordered [of "i - 1" i "Suc i"] nx pv by simp
  qed
qed

lemma leftmost_lt: "\<forall>i \<in> set is. i < n \<Longrightarrow> k < n \<Longrightarrow> leftmost p is k < n"
  by (induction "is" arbitrary: k) (auto simp: Let_def)

text \<open>A polygon whose vertices never turn right is always triangulated, and none of its
  triangles turns right.\<close>

theorem convex_triangulated:
  assumes "convex_position p" "3 \<le> length p"
  shows "\<exists>ts. triangulate p = Inr ts \<and> (\<forall>t \<in> set ts. area2 t \<ge> 0)"
proof (cases "length p = 3")
  case True
  then have "is_oriented_ccw (p ! 0) (p ! 1) (p ! 2)"
    using assms(1) unfolding convex_position_def by auto
  then show ?thesis
    using True by (simp add: triangulate_def ccw_area)
next
  case False
  let ?n = "length p"
  have n: "3 < ?n"
    using assms(2) False by simp
  have "leftmost p [0..<?n] 0 < ?n"
    using n by (intro leftmost_lt) auto
  then have kept: "winding_kept p"
    using neighbours_ccw [OF assms] by (simp add: winding_kept_def Let_def)
  have none: "concave_vertices p (next_indices ?n) (prev_indices ?n) = []"
    using neighbours_ccw [OF assms] by (auto simp: concave_vertices_def filter_empty_conv)
  obtain rest where rest: "first_ring True ?n = 1 # rest" "length (1 # rest) = ?n"
    using n by (auto simp: first_ring_def upt_conv_Cons)
  have "sorted_wrt (<) ([0] @ [1..<?n])"
    by (auto simp: sorted_wrt_append)
  then have "cyclic (first_ring True ?n)"
    unfolding first_ring_def cyclic_def if_True by blast
  then have "\<exists>new. clip p (next_indices ?n) (prev_indices ?n) [] [] ?n 1 0 = Inr ([] @ new) \<and> (\<forall>t \<in> set new. area2 t \<ge> 0)"
    using clip_convex [of p "next_indices ?n" "prev_indices ?n" 1 rest ?n "[]" 0] ring_first(1) [of ?n] assms(1) n rest by simp
  then show ?thesis
    using kept none n by (simp add: triangulate_def Let_def)
qed

definition square :: "vector2 list" where
  "square = [vec 0 0, vec 1 0, vec 1 1, vec 0 1]"

lemma convex_square: "convex_position square"
  by (auto simp: convex_position_def square_def is_oriented_ccw_def less_Suc_eq numeral_eq_Suc)

theorem convex_triangulated_witness: "\<exists>ts. triangulate square = Inr ts \<and> (\<forall>t \<in> set ts. area2 t \<ge> 0)"
  by (rule convex_triangulated [OF convex_square]) (simp add: square_def)

section \<open>The convexity test\<close>

definition turn_at :: "vector2 list \<Rightarrow> nat \<Rightarrow> real" where
  "turn_at p k =
     (let n = length p; before = p ! ((k + n - 1) mod n); after = p ! (Suc k mod n)
      in vec_cross (vec_minus (p ! k) before) (vec_minus after (p ! k)))"

lemma all_from: "(k :: nat) < m \<Longrightarrow> (\<forall>l. k \<le> l \<and> l < m \<longrightarrow> P l) \<longleftrightarrow> P k \<and> (\<forall>l. k + 1 \<le> l \<and> l < m \<longrightarrow> P l)"
  by (metis Suc_eq_plus1 Suc_leD le_eq_less_or_eq less_eq_Suc_le)

lemma convex_loop_turns:
  assumes "j = (k + length p - 1) mod length p" "k < length p" "3 \<le> length p"
  shows "convex_loop p w j k \<longleftrightarrow> (\<forall>l. k \<le> l \<and> l < length p - 1 \<longrightarrow> turn_at p l * w \<ge> 0)"
  using assms
proof (induction p w j k rule: convex_loop.induct)
  case (1 p w j k)
  show ?case
  proof (cases "k + 1 < length p")
    case True
    have here: "vec_cross (vec_minus (p ! k) (p ! j)) (vec_minus (p ! (k + 1)) (p ! k)) = turn_at p k"
      using True 1(2) by (simp add: turn_at_def Let_def)
    have "k = (k + 1 + length p - 1) mod length p"
      using True by simp
    then have later: "turn_at p k * w \<ge> 0 \<Longrightarrow> convex_loop p w k (k + 1) \<longleftrightarrow>
        (\<forall>l. k + 1 \<le> l \<and> l < length p - 1 \<longrightarrow> turn_at p l * w \<ge> 0)"
      using 1(1) [OF True refl refl refl refl refl] True 1(4) here by simp
    have "convex_loop p w j k \<longleftrightarrow> turn_at p k * w \<ge> 0 \<and> convex_loop p w k (k + 1)"
      using True here by (auto simp: convex_loop.simps [of p w j k] Let_def)
    also have "\<dots> \<longleftrightarrow> turn_at p k * w \<ge> 0 \<and> (\<forall>l. k + 1 \<le> l \<and> l < length p - 1 \<longrightarrow> turn_at p l * w \<ge> 0)"
      using later by blast
    also have "\<dots> \<longleftrightarrow> (\<forall>l. k \<le> l \<and> l < length p - 1 \<longrightarrow> turn_at p l * w \<ge> 0)"
      by (rule all_from [symmetric]) (use True in simp)
    finally show ?thesis .
  next
    case False
    then have "k = length p - 1"
      using 1(3) by simp
    then show ?thesis
      using 1(4) False by (subst convex_loop.simps) auto
  qed
qed

text \<open>The convexity test accepts exactly the polygons of at least three vertices none of
  whose corners turns against the corner at the last vertex; so when the neighbours of the
  last vertex are in line with it, every polygon is accepted, whatever it looks like.\<close>

theorem isConvex_iff:
  "isConvex p \<longleftrightarrow> 3 \<le> length p \<and> (\<forall>k < length p. turn_at p k * turn_at p (length p - 1) \<ge> 0)"
proof (cases "3 \<le> length p")
  case True
  let ?n = "length p"
  have last: "turn_at p (?n - 1) = vec_cross (vec_minus (p ! (?n - 1)) (p ! (?n - 2))) (vec_minus (p ! 0) (p ! (?n - 1)))"
  proof -
    have "?n - 1 + ?n - 1 = ?n - 2 + ?n" "Suc (?n - 1) = ?n"
      using True by simp_all
    then have "(?n - 1 + ?n - 1) mod ?n = (?n - 2 + ?n) mod ?n" "Suc (?n - 1) mod ?n = 0"
      by (simp_all only: mod_self)
    moreover have "(?n - 2 + ?n) mod ?n = ?n - 2"
      using True by (subst mod_add_self2) simp
    ultimately show ?thesis
      by (simp add: turn_at_def Let_def)
  qed
  have "isConvex p \<longleftrightarrow> convex_loop p (turn_at p (?n - 1)) (?n - 1) 0"
    using True unfolding last by (simp add: isConvex_def Let_def)
  also have "\<dots> \<longleftrightarrow> (\<forall>l. l < ?n - 1 \<longrightarrow> turn_at p l * turn_at p (?n - 1) \<ge> 0)"
    using True convex_loop_turns [of "?n - 1" 0 p "turn_at p (?n - 1)"] by (cases "p = []") simp_all
  also have "\<dots> \<longleftrightarrow> (\<forall>k < ?n. turn_at p k * turn_at p (?n - 1) \<ge> 0)"
  proof -
    have "k < ?n \<longleftrightarrow> k < ?n - 1 \<or> k = ?n - 1" for k
      using True by linarith
    then show ?thesis
      by auto
  qed
  finally show ?thesis
    using True by simp
qed (simp add: isConvex_def)

text \<open>A star of five corners, two of which turn inwards, with the last vertex in the middle of an edge.\<close>

definition dented :: "vector2 list" where
  "dented = [vec 0 0, vec 1 1, vec 2 0, vec 2 2, vec 0 2, vec 0 1]"

theorem isConvex_iff_witness: "isConvex dented \<and> turn_at dented 1 < 0 \<and> turn_at dented 2 > 0"
proof -
  have "turn_at dented (length dented - 1) = 0" "turn_at dented 1 < 0" "turn_at dented 2 > 0" "3 \<le> length dented"
    by (simp_all add: dented_def turn_at_def vec_cross_def vec_minus_def Let_def)
  then show ?thesis
    unfolding isConvex_iff by simp
qed

end
