(* ===== verification/StringMap.thy ===== *)
theory StringMap
  imports Prelude
begin

text \<open>
  The tables between the engine's enumerations and their names: \<^verbatim>\<open>StringMap\<close>
  (\<^verbatim>\<open>src/src/common/StringMap.h\<close>), a hash table with open addressing and a reverse
  array, and \<^verbatim>\<open>EnumMap\<close> (\<^verbatim>\<open>src/src/common/EnumMap.h\<close>), a pair of arrays. An enumeration
  value is its number.
\<close>

section \<open>StringMap\<close>

text \<open>Characters are signed: one above 127 is added to the hash as a negative number.\<close>

definition char_int :: "char \<Rightarrow> uint32" where
  "char_int c = scast (byte_of_char c)"

fun djb2_loop :: "uint32 \<Rightarrow> string \<Rightarrow> uint32" where
  "djb2_loop h [] = h"
| "djb2_loop h (c # cs) = djb2_loop (push_bit 5 h + h + char_int c) cs"

definition djb2 :: "string \<Rightarrow> uint32" where
  "djb2 key = djb2_loop 5381 key"

fun streq :: "string \<Rightarrow> string \<Rightarrow> bool" where
  "streq (a # as) (b # bs) = (if a \<noteq> b then False else streq as bs)"
| "streq as bs = (as = [] \<and> bs = [])"

record string_map =
  sm_size :: nat
  records :: "(string \<times> nat) option list"
  reverse :: "string option list"

definition sm_max :: "string_map \<Rightarrow> nat" where
  "sm_max m = sm_size m * 2"

definition slot :: "string_map \<Rightarrow> string \<Rightarrow> nat \<Rightarrow> nat" where
  "slot m key i = unat (djb2 key + of_nat i) mod sm_max m"

definition empty_map :: "nat \<Rightarrow> string_map" where
  "empty_map n = \<lparr>sm_size = n, records = replicate (n * 2) None, reverse = replicate n None\<rparr>"

text \<open>The probing loops, from turn \<^verbatim>\<open>i\<close>.\<close>

function find_loop :: "string_map \<Rightarrow> string \<Rightarrow> nat \<Rightarrow> nat option" where
  "find_loop m key i =
     (if i < sm_max m
      then case records m ! slot m key i of
             None \<Rightarrow> None
           | Some (k, v) \<Rightarrow> if streq k key then Some v else find_loop m key (Suc i)
      else None)"
  by pat_completeness auto
termination
  by (relation "measure (\<lambda>(m, key, i). sm_max m - i)") auto

declare find_loop.simps [simp del]

definition sm_find :: "string_map \<Rightarrow> string \<Rightarrow> nat option" where
  "sm_find m key = find_loop m key 0"

definition sm_name :: "string_map \<Rightarrow> nat \<Rightarrow> string option" where
  "sm_name m v = (if v \<ge> sm_size m then None else reverse m ! v)"

function insert_loop :: "string_map \<Rightarrow> string \<Rightarrow> nat \<Rightarrow> nat \<Rightarrow> string_map \<times> bool" where
  "insert_loop m key v i =
     (if i < sm_max m
      then if records m ! slot m key i = None
           then (m\<lparr>records := (records m)[slot m key i := Some (key, v)]\<rparr>, True)
           else insert_loop m key v (Suc i)
      else (m, False))"
  by pat_completeness auto
termination
  by (relation "measure (\<lambda>(m, key, v, i). sm_max m - i)") auto

declare insert_loop.simps [simp del]

text \<open>A value out of range is reported; its name is found all the same, but not the other way.\<close>

definition sm_add :: "string \<Rightarrow> nat \<Rightarrow> string_map \<Rightarrow> string_map \<times> bool" where
  "sm_add key v m =
     (let (m, inserted) = insert_loop m key v 0
      in if v \<ge> sm_size m then (m, False)
         else (m\<lparr>reverse := (reverse m)[v := Some key]\<rparr>, inserted))"

definition new_map :: "nat \<Rightarrow> (string \<times> nat) list \<Rightarrow> string_map" where
  "new_map n entries = foldl (\<lambda>m (k, v). fst (sm_add k v m)) (empty_map n) entries"

definition getNames :: "string_map \<Rightarrow> string list" where
  "getNames m = concat (map (\<lambda>i. case reverse m ! i of None \<Rightarrow> [] | Some k \<Rightarrow> [k]) [0..<sm_size m])"

section \<open>EnumMap\<close>

record enum_map =
  peak :: nat
  values_u :: "nat option list"
  values_t :: "nat option list"

definition enum_entry :: "enum_map \<Rightarrow> nat \<times> nat \<Rightarrow> enum_map" where
  "enum_entry m e =
     (let (t, u) = e;
          m = (if t < peak m then m\<lparr>values_u := (values_u m)[t := Some u]\<rparr> else m)
      in if u < peak m then m\<lparr>values_t := (values_t m)[u := Some t]\<rparr> else m)"

definition new_enum_map :: "nat \<Rightarrow> (nat \<times> nat) list \<Rightarrow> enum_map" where
  "new_enum_map n es =
     foldl enum_entry \<lparr>peak = n, values_u = replicate n None, values_t = replicate n None\<rparr> es"

definition enum_find_u :: "enum_map \<Rightarrow> nat \<Rightarrow> nat option" where
  "enum_find_u m t = (if t < peak m then values_u m ! t else None)"

definition enum_find_t :: "enum_map \<Rightarrow> nat \<Rightarrow> nat option" where
  "enum_find_t m u = (if u < peak m then values_t m ! u else None)"

section \<open>The contract of a name table\<close>

text \<open>A table to which names are added; a name added twice keeps its first value.\<close>

locale name_table =
  fixes find :: "'m \<Rightarrow> string \<Rightarrow> 'v option"
    and add :: "string \<Rightarrow> 'v \<Rightarrow> 'm \<Rightarrow> 'm"
    and ok :: "'m \<Rightarrow> bool"
    and room :: "'m \<Rightarrow> nat"
  assumes add_ok: "ok m \<Longrightarrow> 0 < room m \<Longrightarrow> ok (add k v m) \<and> Suc (room (add k v m)) = room m"
    and find_add: "ok m \<Longrightarrow> 0 < room m \<Longrightarrow>
      find (add k v m) k' = (case find m k' of Some w \<Rightarrow> Some w | None \<Rightarrow> if k' = k then Some v else None)"
begin

lemma find_build:
  "ok m \<Longrightarrow> length es \<le> room m \<Longrightarrow>
     find (foldl (\<lambda>m (k, v). add k v m) m es) key = (case find m key of Some w \<Rightarrow> Some w | None \<Rightarrow> map_of es key)"
proof (induction es arbitrary: m)
  case (Cons e es)
  obtain k v where e: "e = (k, v)"
    by (cases e)
  have "0 < room m"
    using Cons.prems(2) by (cases "room m") auto
  note added = add_ok [OF Cons.prems(1) this, of k v] find_add [OF Cons.prems(1) this, of k v key]
  have "length es \<le> room (add k v m)"
    using Cons.prems(2) added(1) by simp
  then show ?case
    using Cons.IH [of "add k v m"] added e by (auto split: option.splits)
qed (simp split: option.split)

end

section \<open>Probing\<close>

lemma streq_iff [simp]: "streq a b \<longleftrightarrow> a = b"
  by (induction a b rule: streq.induct) auto

text \<open>What a search answers: the record of its first hit, unless a free slot comes first.\<close>

lemma find_loop_Some:
  "find_loop m key i = Some v \<longleftrightarrow>
     (\<exists>d. i \<le> d \<and> d < sm_max m \<and> records m ! slot m key d = Some (key, v) \<and>
        (\<forall>j. i \<le> j \<and> j < d \<longrightarrow> (\<exists>k w. records m ! slot m key j = Some (k, w) \<and> k \<noteq> key)))"
proof (induction m key i rule: find_loop.induct)
  case (1 m key i)
  let ?Q = "\<lambda>i. \<exists>d. i \<le> d \<and> d < sm_max m \<and> records m ! slot m key d = Some (key, v) \<and>
        (\<forall>j. i \<le> j \<and> j < d \<longrightarrow> (\<exists>k w. records m ! slot m key j = Some (k, w) \<and> k \<noteq> key))"
  have here: "?Q i \<longleftrightarrow> i < sm_max m \<and> (records m ! slot m key i = Some (key, v) \<or>
      (\<exists>k w. records m ! slot m key i = Some (k, w) \<and> k \<noteq> key) \<and> ?Q (Suc i))"
  proof (cases "records m ! slot m key i = Some (key, v)")
    case True
    have "?Q i" if "i < sm_max m"
      using that True by (intro exI [of _ i]) auto
    then show ?thesis
      using True by auto
  next
    case False
    have "(\<exists>k w. records m ! slot m key i = Some (k, w) \<and> k \<noteq> key) \<and> ?Q (Suc i)" if q: "?Q i"
    proof -
      obtain d where d: "i \<le> d" "d < sm_max m" "records m ! slot m key d = Some (key, v)"
        "\<forall>j. i \<le> j \<and> j < d \<longrightarrow> (\<exists>k w. records m ! slot m key j = Some (k, w) \<and> k \<noteq> key)"
        using q by blast
      have "i \<noteq> d"
        using False d(3) by metis
      then have "i < d"
        using d(1) by simp
      then have "\<exists>k w. records m ! slot m key i = Some (k, w) \<and> k \<noteq> key"
        using d(4) by blast
      moreover have "?Q (Suc i)"
        using d \<open>i < d\<close> by (intro exI [of _ d]) simp
      ultimately show ?thesis
        by blast
    qed
    moreover have "?Q i" if hit: "\<exists>k w. records m ! slot m key i = Some (k, w) \<and> k \<noteq> key" and q: "?Q (Suc i)"
    proof -
      obtain d where d: "Suc i \<le> d" "d < sm_max m" "records m ! slot m key d = Some (key, v)"
        "\<forall>j. Suc i \<le> j \<and> j < d \<longrightarrow> (\<exists>k w. records m ! slot m key j = Some (k, w) \<and> k \<noteq> key)"
        using q by blast
      have "\<exists>k w. records m ! slot m key j = Some (k, w) \<and> k \<noteq> key" if "i \<le> j" "j < d" for j
        using d(4) that hit
        by (cases "j = i") (auto simp: Suc_le_eq)
      then show ?thesis
        using d by (intro exI [of _ d]) simp
    qed
    moreover have "i < sm_max m" if "?Q i"
      using that by auto
    ultimately show ?thesis
      using False by blast
  qed
  show ?case
  proof (cases "i < sm_max m")
    case False
    then show ?thesis
      using here by (simp add: find_loop.simps [of m key i])
  next
    case i: True
    show ?thesis
    proof (cases "records m ! slot m key i")
      case None
      then show ?thesis
        unfolding here using i by (simp add: find_loop.simps [of m key i])
    next
      case (Some r)
      obtain k w where r: "r = (k, w)"
        by (cases r)
      show ?thesis
      proof (cases "k = key")
        case True
        then show ?thesis
          unfolding here using i Some r by (simp add: find_loop.simps [of m key i])
      next
        case False
        then show ?thesis
          unfolding here using i Some r "1.IH" [OF i Some r [symmetric]] by (simp add: find_loop.simps [of m key i])
      qed
    qed
  qed
qed

lemma sm_find_Some:
  "sm_find m key = Some v \<longleftrightarrow>
     (\<exists>d < sm_max m. records m ! slot m key d = Some (key, v) \<and>
        (\<forall>j < d. \<exists>k w. records m ! slot m key j = Some (k, w) \<and> k \<noteq> key))"
  by (auto simp: sm_find_def find_loop_Some)

text \<open>Every record can be reached from the hash of its key without meeting a free slot.\<close>

definition reachable :: "string_map \<Rightarrow> bool" where
  "reachable m \<longleftrightarrow>
     (\<forall>p < sm_max m. \<forall>k v. records m ! p = Some (k, v) \<longrightarrow>
        (\<exists>d < sm_max m. p = slot m k d \<and> (\<forall>j < d. records m ! slot m k j \<noteq> None)))"

definition used :: "string_map \<Rightarrow> nat" where
  "used m = card {p. p < sm_max m \<and> records m ! p \<noteq> None}"

definition sm_ok :: "string_map \<Rightarrow> bool" where
  "sm_ok m \<longleftrightarrow> 0 < sm_size m \<and> sm_size m * 2 < 2 ^ 32 \<and> length (records m) = sm_max m \<and>
     length (reverse m) = sm_size m \<and> reachable m \<and> used m \<le> sm_size m"

lemma slot_less [simp]: "0 < sm_size m \<Longrightarrow> slot m key i < sm_max m"
  by (simp add: slot_def sm_max_def)

lemma find_None_no_record:
  assumes "sm_ok m" "sm_find m key = None" "p < sm_max m"
  shows "records m ! p \<noteq> Some (key, v)"
proof
  assume rec: "records m ! p = Some (key, v)"
  then obtain d where d: "d < sm_max m" "p = slot m key d" "\<forall>j < d. records m ! slot m key j \<noteq> None"
    using assms(1,3) by (auto simp: sm_ok_def reachable_def)
  let ?P = "\<lambda>j. \<exists>w. records m ! slot m key j = Some (key, w)"
  have ex: "?P d"
    using rec d by blast
  define e where "e = (LEAST j. ?P j)"
  have e: "?P e" "e \<le> d" "\<And>j. j < e \<Longrightarrow> \<not> ?P j"
    unfolding e_def by (rule LeastI [of ?P, OF ex], rule Least_le [of ?P, OF ex], rule not_less_Least [of _ ?P])
  obtain w where "records m ! slot m key e = Some (key, w)"
    using e(1) by blast
  moreover have "\<exists>k u. records m ! slot m key j = Some (k, u) \<and> k \<noteq> key" if "j < e" for j
  proof -
    have "records m ! slot m key j \<noteq> None"
      using d(3) e(2) that by simp
    then show ?thesis
      using e(3) [OF that] by (cases "records m ! slot m key j") auto
  qed
  ultimately have "sm_find m key = Some w"
    using d(1) e(2) by (auto simp: sm_find_Some intro!: exI [of _ e])
  then show False
    using assms(2) by simp
qed

text \<open>
  The sum of the hash and the turn wraps at 32 bits, so the slots of a key need
  not be all slots; but they are at least as many as the enumeration has values.
\<close>

lemma slots_enough:
  assumes "0 < sm_size m" "sm_size m * 2 < 2 ^ 32"
  shows "sm_size m \<le> card (slot m key ` {..<sm_max m})"
proof -
  let ?M = "sm_max m" and ?h = "unat (djb2 key)"
  have M: "?M = 2 * sm_size m" "0 < ?M" "?M < 2 ^ 32"
    using assms by (simp_all add: sm_max_def)
  have h: "?h < 2 ^ 32"
    using unsigned_less [of "djb2 key"] by simp
  have sum: "unat (djb2 key + of_nat i) = (?h + i) mod 2 ^ 32" if "i < ?M" for i
    using that M(3) by (simp add: unat_word_ariths unat_of_nat_small)
  define w where "w = min ?M (2 ^ 32 - ?h)"
  have low: "slot m key i = (?h + i) mod ?M" if "i < w" for i
    using that sum [of i] by (simp add: slot_def w_def less_diff_conv add.commute)
  have high: "slot m key i = i - w" if "w \<le> i" "i < ?M" for i
  proof -
    have "2 ^ 32 - ?h \<le> i" "w = 2 ^ 32 - ?h"
      using that by (auto simp: w_def)
    moreover from this have "2 ^ 32 \<le> ?h + i" "?h + i - 2 ^ 32 < 2 ^ 32"
      using h M(3) that by linarith+
    ultimately have "(?h + i) mod 2 ^ 32 = i - w"
      using h by (simp add: le_mod_geq)
    then show ?thesis
      using sum [of i] that by (simp add: slot_def)
  qed
  show ?thesis
  proof (cases "sm_size m \<le> w")
    case True
    have "inj_on (slot m key) {..<sm_size m}"
    proof (rule inj_onI)
      fix i j
      assume ij: "i \<in> {..<sm_size m}" "j \<in> {..<sm_size m}" "slot m key i = slot m key j"
      then have "(?h + i) mod ?M = (?h + j) mod ?M"
        using low True by simp
      then show "i = j"
        using ij(1,2) M
      proof (induction i j rule: linorder_wlog)
        case (le i j)
        then have "?M dvd (?h + j) - (?h + i)"
          by (subst mod_eq_dvd_iff_nat [symmetric]) simp_all
        then show ?case
          using le by (auto dest: dvd_imp_le)
      next
        case (sym i j)
        then show ?case
          by simp
      qed
    qed
    then have "card (slot m key ` {..<sm_size m}) = sm_size m"
      by (simp add: card_image)
    moreover have "slot m key ` {..<sm_size m} \<subseteq> slot m key ` {..<?M}"
      using M(1) by auto
    ultimately show ?thesis
      by (metis card_mono finite_imageI finite_lessThan)
  next
    case False
    have "inj_on (slot m key) {w..<?M}"
      by (auto simp: inj_on_def high)
    then have "card (slot m key ` {w..<?M}) = ?M - w"
      by (simp add: card_image)
    moreover have "slot m key ` {w..<?M} \<subseteq> slot m key ` {..<?M}"
      by auto
    ultimately have "?M - w \<le> card (slot m key ` {..<?M})"
      by (metis card_mono finite_imageI finite_lessThan)
    then show ?thesis
      using False M(1) by linarith
  qed
qed

lemma free_slot:
  assumes "sm_ok m" "used m < sm_size m"
  shows "\<exists>d < sm_max m. records m ! slot m key d = None"
proof (rule ccontr)
  assume "\<not> ?thesis"
  then have "slot m key ` {..<sm_max m} \<subseteq> {p. p < sm_max m \<and> records m ! p \<noteq> None}"
    using assms(1) by (auto simp: sm_ok_def)
  then have "card (slot m key ` {..<sm_max m}) \<le> used m"
    unfolding used_def by (intro card_mono) auto
  then show False
    using slots_enough [of m key] assms by (simp add: sm_ok_def)
qed

lemma insert_loop_eq:
  assumes "i \<le> d" "d < sm_max m" "records m ! slot m key d = None"
    "\<And>j. i \<le> j \<Longrightarrow> j < d \<Longrightarrow> records m ! slot m key j \<noteq> None"
  shows "insert_loop m key v i = (m\<lparr>records := (records m)[slot m key d := Some (key, v)]\<rparr>, True)"
  using assms
proof (induction "d - i" arbitrary: i)
  case 0
  then have "d = i"
    by simp
  then show ?case
    using 0 by (subst insert_loop.simps) simp
next
  case (Suc n)
  then have i: "i < d" "records m ! slot m key i \<noteq> None"
    by simp_all
  have "insert_loop m key v (Suc i) = (m\<lparr>records := (records m)[slot m key d := Some (key, v)]\<rparr>, True)"
    by (rule Suc.hyps(1)) (use Suc.hyps(2) Suc.prems i in auto)
  then show ?case
    using i Suc.prems(2) by (subst insert_loop.simps) auto
qed

text \<open>What an insertion does: it fills the first free slot of the key.\<close>

lemma sm_add_records:
  assumes "sm_ok m" "used m < sm_size m"
  obtains d where "d < sm_max m" "records m ! slot m key d = None"
    "\<forall>j < d. records m ! slot m key j \<noteq> None"
    "records (fst (sm_add key v m)) = (records m)[slot m key d := Some (key, v)]"
    "sm_size (fst (sm_add key v m)) = sm_size m"
    "reverse (fst (sm_add key v m)) = (if v < sm_size m then (reverse m)[v := Some key] else reverse m)"
    "snd (sm_add key v m) = (v < sm_size m)"
proof -
  let ?P = "\<lambda>d. d < sm_max m \<and> records m ! slot m key d = None"
  have ex: "\<exists>d. ?P d"
    using free_slot [OF assms] by blast
  define d where "d = (LEAST d. ?P d)"
  have d: "?P d" "\<And>j. j < d \<Longrightarrow> \<not> ?P j"
    unfolding d_def by (rule LeastI_ex [OF ex], rule not_less_Least)
  have "records m ! slot m key j \<noteq> None" if "j < d" for j
    using d(1) d(2) [OF that] that by auto
  then have "insert_loop m key v 0 = (m\<lparr>records := (records m)[slot m key d := Some (key, v)]\<rparr>, True)"
    using d(1) by (intro insert_loop_eq) auto
  then show ?thesis
    using d(1) \<open>\<And>j. j < d \<Longrightarrow> records m ! slot m key j \<noteq> None\<close>
    by (intro that [of d]) (auto simp: sm_add_def)
qed

lemma sm_add_contract:
  assumes ok: "sm_ok m" and room: "used m < sm_size m"
  shows "sm_ok (fst (sm_add key v m)) \<and> used (fst (sm_add key v m)) = Suc (used m) \<and>
    sm_find (fst (sm_add key v m)) k' =
      (case sm_find m k' of Some w \<Rightarrow> Some w | None \<Rightarrow> if k' = key then Some v else None)"
proof -
  let ?m = "fst (sm_add key v m)"
  obtain d where d: "d < sm_max m" "records m ! slot m key d = None" "\<forall>j < d. records m ! slot m key j \<noteq> None"
    and new: "records ?m = (records m)[slot m key d := Some (key, v)]" "sm_size ?m = sm_size m"
      "reverse ?m = (if v < sm_size m then (reverse m)[v := Some key] else reverse m)"
    using sm_add_records [OF ok room, of key v] by metis
  have max: "sm_max ?m = sm_max m" and slot: "slot ?m = slot m"
    using new(2) by (simp_all add: sm_max_def slot_def fun_eq_iff)
  let ?p = "slot m key d"
  have p: "?p < sm_max m" "length (records m) = sm_max m"
    using ok by (auto simp: sm_ok_def)
  have rec: "records ?m ! q = (if q = ?p then Some (key, v) else records m ! q)" for q
    using p new(1) by auto
  have set: "records m ! q \<noteq> None \<Longrightarrow> records ?m ! q = records m ! q" for q
    using rec d(2) by auto
  have "{q. q < sm_max m \<and> records ?m ! q \<noteq> None} = insert ?p {q. q < sm_max m \<and> records m ! q \<noteq> None}"
    using p rec by auto
  then have used: "used ?m = Suc (used m)"
    using d(2) by (simp add: used_def max)
  have "\<exists>e < sm_max m. q = slot m k e \<and> (\<forall>j < e. records ?m ! slot m k j \<noteq> None)"
    if q: "q < sm_max m" "records ?m ! q = Some (k, w)" for q k w
  proof (cases "q = ?p")
    case True
    then show ?thesis
      using q rec d set by (intro exI [of _ d]) auto
  next
    case False
    then have "records m ! q = Some (k, w)"
      using q rec by simp
    then obtain e where "e < sm_max m" "q = slot m k e" "\<forall>j < e. records m ! slot m k j \<noteq> None"
      using ok q(1) unfolding sm_ok_def reachable_def by blast
    then show ?thesis
      using set by (intro exI [of _ e]) auto
  qed
  then have reach: "reachable ?m"
    by (simp add: reachable_def max slot)
  have "sm_ok ?m"
    using ok room reach used new max by (simp add: sm_ok_def)
  moreover have "sm_find ?m k' = (case sm_find m k' of Some w \<Rightarrow> Some w | None \<Rightarrow> if k' = key then Some v else None)"
  proof (cases "sm_find m k'")
    case (Some w)
    then obtain e where "e < sm_max m" "records m ! slot m k' e = Some (k', w)"
      "\<forall>j < e. \<exists>k u. records m ! slot m k' j = Some (k, u) \<and> k \<noteq> k'"
      by (auto simp: sm_find_Some)
    then have "sm_find ?m k' = Some w"
      using set unfolding sm_find_Some max slot by (intro exI [of _ e]) (metis option.distinct(1))
    then show ?thesis
      using Some by simp
  next
    case None
    have no: "records m ! q \<noteq> Some (k', w)" if "q < sm_max m" for q w
      using find_None_no_record [OF ok None that] .
    show ?thesis
    proof (cases "k' = key")
      case True
      have "\<exists>k u. records ?m ! slot m key j = Some (k, u) \<and> k \<noteq> key" if "j < d" for j
      proof -
        have "records m ! slot m key j \<noteq> None"
          using d(3) that by simp
        then obtain k u where "records m ! slot m key j = Some (k, u)"
          by auto
        then show ?thesis
          using no [of "slot m key j"] set ok True by (auto simp: sm_ok_def)
      qed
      then have "sm_find ?m key = Some v"
        using d(1) rec unfolding sm_find_Some max slot by (intro exI [of _ d]) simp
      then show ?thesis
        using True None by simp
    next
      case False
      have "sm_find ?m k' \<noteq> Some w" for w
        using no False rec ok unfolding sm_find_Some max slot
        by (metis Pair_inject option.inject slot_less sm_ok_def)
      then show ?thesis
        using False None by (cases "sm_find ?m k'") auto
    qed
  qed
  ultimately show ?thesis
    using used by blast
qed

interpretation strings: name_table sm_find "\<lambda>k v m. fst (sm_add k v m)" sm_ok "\<lambda>m. sm_size m - used m"
proof unfold_locales
  fix m k k' v
  assume ok: "sm_ok m" and room: "0 < sm_size m - used m"
  then have "used m < sm_size m"
    by simp
  note added = sm_add_contract [OF ok this, of k v k']
  obtain d where "sm_size (fst (sm_add k v m)) = sm_size m"
    using sm_add_records [OF ok \<open>used m < sm_size m\<close>, of k v] by metis
  then show "sm_ok (fst (sm_add k v m)) \<and> Suc (sm_size (fst (sm_add k v m)) - used (fst (sm_add k v m))) = sm_size m - used m"
    using added room by simp
  show "sm_find (fst (sm_add k v m)) k' = (case sm_find m k' of Some w \<Rightarrow> Some w | None \<Rightarrow> if k' = k then Some v else None)"
    using added by blast
qed

section \<open>The tables built from their entries\<close>

lemma empty_map_ok: "0 < n \<Longrightarrow> n * 2 < 2 ^ 32 \<Longrightarrow> sm_ok (empty_map n)"
  by (simp add: sm_ok_def empty_map_def sm_max_def reachable_def used_def cong: conj_cong)

lemma empty_map_simps [simp]: "sm_size (empty_map n) = n" "used (empty_map n) = 0" "reverse (empty_map n) = replicate n None"
  by (simp_all add: empty_map_def used_def sm_max_def cong: conj_cong)

lemma empty_map_find [simp]: "0 < n \<Longrightarrow> n * 2 < 2 ^ 32 \<Longrightarrow> sm_find (empty_map n) key = None"
  by (simp add: sm_find_def find_loop.simps [of _ _ 0] empty_map_def slot_def sm_max_def)

lemma insert_loop_reverse [simp]:
  "reverse (fst (insert_loop m key v i)) = reverse m" "sm_size (fst (insert_loop m key v i)) = sm_size m"
  by (induction m key v i rule: insert_loop.induct) (subst insert_loop.simps, simp)+

lemma sm_add_reverse [simp]:
  "sm_size (fst (sm_add key v m)) = sm_size m"
  "reverse (fst (sm_add key v m)) = (if v < sm_size m then (reverse m)[v := Some key] else reverse m)"
  by (simp_all add: sm_add_def case_prod_unfold Let_def)

lemma add_all_size [simp]: "sm_size (foldl (\<lambda>m (k, v). fst (sm_add k v m)) m es) = sm_size m"
  by (induction es arbitrary: m) (auto split: prod.split)

lemma add_all_reverse:
  "length (reverse m) = sm_size m \<Longrightarrow> v < sm_size m \<Longrightarrow>
     reverse (foldl (\<lambda>m (k, v). fst (sm_add k v m)) m es) ! v =
       (case map_of (map prod.swap (rev es)) v of Some k \<Rightarrow> Some k | None \<Rightarrow> reverse m ! v)"
proof (induction es arbitrary: m)
  case (Cons e es)
  then show ?case
    by (cases e) (auto simp: map_add_def nth_list_update split: option.split)
qed simp

lemma new_map_size [simp]: "sm_size (new_map n es) = n"
  by (simp add: new_map_def)

lemma new_map_find: "0 < n \<Longrightarrow> n * 2 < 2 ^ 32 \<Longrightarrow> length es \<le> n \<Longrightarrow> sm_find (new_map n es) key = map_of es key"
  using strings.find_build [of "empty_map n" es key] empty_map_ok [of n] by (simp add: new_map_def)

lemma new_map_name: "sm_name (new_map n es) v = (if v < n then map_of (map prod.swap (rev es)) v else None)"
  using add_all_reverse [of "empty_map n" v es] new_map_size [of n es] by (simp add: sm_name_def new_map_def split: option.split)

text \<open>A table that names the values of an enumeration in their order translates both ways.\<close>

lemma enumeration_table:
  assumes "0 < n" "n * 2 < 2 ^ 32" "map snd es = [0..<n]" "distinct (map fst es)" "v < n"
  shows "sm_name (new_map n es) v = Some (fst (es ! v))" "sm_find (new_map n es) (fst (es ! v)) = Some v"
proof -
  have len: "length es = n"
    using assms(3) by (metis diff_zero length_map length_upt)
  then have entry: "es ! v = (fst (es ! v), v)" "es ! v \<in> set es"
    using assms(3,5) by (simp_all add: prod_eq_iff) (metis add.left_neutral nth_map nth_upt)
  have "distinct (map snd es)"
    using assms(3) by simp
  then have "distinct (map fst (map prod.swap (rev es)))"
    by (simp add: rev_map [symmetric] comp_def)
  moreover have "(v, fst (es ! v)) \<in> set (map prod.swap (rev es))"
    using entry by force
  ultimately show "sm_name (new_map n es) v = Some (fst (es ! v))"
    using assms(5) by (simp add: new_map_name map_of_is_SomeI)
  have "map_of es (fst (es ! v)) = Some v"
    using assms(4) entry by (metis map_of_is_SomeI)
  then show "sm_find (new_map n es) (fst (es ! v)) = Some v"
    using new_map_find assms(1,2) len by simp
qed

text \<open>Claim C36. A table with no more entries than its enumeration has values finds every name, the
  first entry of a name counting; it knows of every value in range the name of its last entry; and its
  list of names holds, in the order of the values, the names it answers.\<close>

theorem new_map_lookup:
  assumes "0 < n" "n * 2 < 2 ^ 32" "length es \<le> n"
  shows "sm_find (new_map n es) key = map_of es key \<and>
    sm_name (new_map n es) v = (if v < n then map_of (map prod.swap (rev es)) v else None) \<and>
    getNames (new_map n es) = List.map_filter (sm_name (new_map n es)) [0..<n]"
proof (intro conjI)
  show "sm_find (new_map n es) key = map_of es key"
    by (rule new_map_find [OF assms])
  show "sm_name (new_map n es) v = (if v < n then map_of (map prod.swap (rev es)) v else None)"
    by (rule new_map_name)
  have "sm_name (new_map n es) i = reverse (new_map n es) ! i" if "i \<in> set [0..<n]" for i
    using that by (simp add: sm_name_def)
  then have "concat (map (\<lambda>i. case reverse (new_map n es) ! i of None \<Rightarrow> [] | Some k \<Rightarrow> [k]) is) =
      List.map_filter (sm_name (new_map n es)) is" if "set is \<subseteq> set [0..<n]" for "is"
    using that by (induction "is") (auto simp: List.map_filter_simps split: option.split)
  then show "getNames (new_map n es) = List.map_filter (sm_name (new_map n es)) [0..<n]"
    by (simp add: getNames_def)
qed

theorem new_map_lookup_witness:
  "sm_find (new_map 2 [(''base64'', 0), (''hex'', 1)]) ''hex'' = Some 1 \<and>
   sm_name (new_map 2 [(''base64'', 0), (''hex'', 1)]) 0 = Some ''base64''"
  using new_map_lookup [of 2 "[(''base64'', 0), (''hex'', 1)]" "''hex''" 0] by simp

section \<open>EnumMap\<close>

lemma enum_entry_simps [simp]:
  "peak (enum_entry m e) = peak m"
  "values_u (enum_entry m e) = (if fst e < peak m then (values_u m)[fst e := Some (snd e)] else values_u m)"
  "values_t (enum_entry m e) = (if snd e < peak m then (values_t m)[snd e := Some (fst e)] else values_t m)"
  by (simp_all add: enum_entry_def case_prod_unfold Let_def)

lemma enum_entries:
  "length (values_u m) = peak m \<Longrightarrow> length (values_t m) = peak m \<Longrightarrow> i < peak m \<Longrightarrow>
     peak (foldl enum_entry m es) = peak m \<and>
     values_u (foldl enum_entry m es) ! i =
       (case map_of (rev es) i of Some u \<Rightarrow> Some u | None \<Rightarrow> values_u m ! i) \<and>
     values_t (foldl enum_entry m es) ! i =
       (case map_of (map prod.swap (rev es)) i of Some t \<Rightarrow> Some t | None \<Rightarrow> values_t m ! i)"
proof (induction es arbitrary: m)
  case (Cons e es)
  have "length (values_u (enum_entry m e)) = peak (enum_entry m e)" "length (values_t (enum_entry m e)) = peak (enum_entry m e)"
    "i < peak (enum_entry m e)"
    using Cons.prems by simp_all
  then show ?case
    using Cons.IH [of "enum_entry m e"] Cons.prems
    by (cases e) (auto simp: map_add_def nth_list_update split: option.split)
qed simp

lemma enum_peak: "peak (foldl enum_entry m es) = peak m"
  by (induction es arbitrary: m) simp_all

lemma new_enum_map_find:
  "enum_find_u (new_enum_map n es) t = (if t < n then map_of (rev es) t else None)"
  "enum_find_t (new_enum_map n es) u = (if u < n then map_of (map prod.swap (rev es)) u else None)"
  using enum_entries [of "\<lparr>peak = n, values_u = replicate n None, values_t = replicate n None\<rparr>" t es]
    enum_entries [of "\<lparr>peak = n, values_u = replicate n None, values_t = replicate n None\<rparr>" u es]
  by (simp_all add: enum_find_u_def enum_find_t_def new_enum_map_def enum_peak split: option.split)

lemma map_of_unique: "distinct (map fst es) \<Longrightarrow> map_of es x = Some y \<longleftrightarrow> (x, y) \<in> set es"
  using map_of_is_SomeI map_of_SomeD by metis

text \<open>A pair of arrays built from entries that name no value twice translates the two
  enumerations into each other exactly as the entries say, and the two directions are inverse.\<close>

theorem enum_map_inverse:
  assumes "distinct (map fst es)" "distinct (map snd es)" "\<forall>(t, u) \<in> set es. t < n \<and> u < n"
  shows "(enum_find_u (new_enum_map n es) t = Some u \<longleftrightarrow> (t, u) \<in> set es) \<and>
    (enum_find_t (new_enum_map n es) u = Some t \<longleftrightarrow> (t, u) \<in> set es)"
proof -
  have keys: "distinct (map fst (rev es))" "distinct (map fst (map prod.swap (rev es)))"
    using assms(1,2) by (simp_all add: rev_map [symmetric] comp_def)
  have "map_of (rev es) t = Some u \<longleftrightarrow> (t, u) \<in> set es"
    "map_of (map prod.swap (rev es)) u = Some t \<longleftrightarrow> (t, u) \<in> set es"
    unfolding map_of_unique [OF keys(1)] map_of_unique [OF keys(2)] by force+
  then show ?thesis
    using assms(3) by (auto simp: new_enum_map_find)
qed

theorem enum_map_inverse_witness:
  "enum_find_u (new_enum_map 8 [(0, 3), (1, 5)]) 1 = Some 5 \<and> enum_find_t (new_enum_map 8 [(0, 3), (1, 5)]) 5 = Some 1"
  using enum_map_inverse [of "[(0, 3), (1, 5)]" 8 1 5] by simp

end
