(* ===== verification/Parking.thy ===== *)
theory Parking
  imports Objects
begin

text \<open>
  Values of the script machine that the engine keeps across calls
  (\<^verbatim>\<open>src/src/lh/lh.cpp\<close>, section Parking): a \<^verbatim>\<open>ParkingLot\<close> hands out the slots of a
  table of one machine, a \<^verbatim>\<open>Parked\<close> object is one slot, and the engine keeps one
  lot for every machine.

  The machine's tables are a library of its own: what the lot calls of them is
  the record \<open>table_api\<close>, a parameter of the definitions.
\<close>

section \<open>The lot\<close>

record ('t, 'v) table_api =
  table_set :: "'t \<Rightarrow> int \<Rightarrow> 'v \<Rightarrow> 't \<times> bool \<times> bool"
  table_get :: "'t \<Rightarrow> int \<Rightarrow> 'v"
  empty_table :: 't
  value_nil :: 'v

text \<open>The machine and its table are set and cleared together.\<close>

record 't lot =
  lot_machine :: "(nat \<times> 't) option"
  lot_next :: uint32
  lot_free :: "uint32 list"
  lot_pending :: "uint32 list"

definition new_lot :: "'t lot" where
  "new_lot = \<lparr>lot_machine = None, lot_next = 1, lot_free = [], lot_pending = []\<rparr>"

text \<open>The machine may refuse the table or the place it is registered at.\<close>

definition attach :: "('t, 'v) table_api \<Rightarrow> nat \<Rightarrow> bool \<Rightarrow> bool \<Rightarrow> 't lot \<Rightarrow> 't lot \<times> bool" where
  "attach api m made registered l =
     (if \<not> made then (l, False)
      else if \<not> registered then (l, False)
      else (l\<lparr>lot_machine := Some (m, empty_table api)\<rparr>, True))"

definition detach :: "'t lot \<Rightarrow> 't lot" where
  "detach l = l\<lparr>lot_machine := None, lot_pending := []\<rparr>"

text \<open>The answer of the write of \<^verbatim>\<open>nil\<close> is not looked at.\<close>

definition sweep :: "('t, 'v) table_api \<Rightarrow> 't lot \<Rightarrow> 't lot" where
  "sweep api l =
     (case lot_machine l of
        None \<Rightarrow> l\<lparr>lot_pending := []\<rparr>
      | Some (m, t) \<Rightarrow>
          l\<lparr>lot_machine := Some (m, foldl (\<lambda>t slot. fst (table_set api t (uint slot) (value_nil api))) t (lot_pending l)),
            lot_free := lot_free l @ lot_pending l, lot_pending := []\<rparr>)"

definition take_slot :: "'t lot \<Rightarrow> 't lot \<times> uint32" where
  "take_slot l =
     (if lot_free l \<noteq> [] then (l\<lparr>lot_free := butlast (lot_free l)\<rparr>, last (lot_free l))
      else (l\<lparr>lot_next := lot_next l + 1\<rparr>, lot_next l))"

definition park :: "('t, 'v) table_api \<Rightarrow> 'v \<Rightarrow> 't lot \<Rightarrow> 't lot \<times> uint32" where
  "park api v l =
     (if lot_machine l = None \<or> v = value_nil api then (l, 0)
      else
        let (l, slot) = take_slot (sweep api l)
        in case lot_machine l of
             None \<Rightarrow> (l, 0)
           | Some (m, t) \<Rightarrow>
               let (t, done_ok, refused) = table_set api t (uint slot) v; l = l\<lparr>lot_machine := Some (m, t)\<rparr>
               in if \<not> done_ok \<or> refused then (l\<lparr>lot_free := lot_free l @ [slot]\<rparr>, 0)
                  else (l, slot))"

definition lot_get :: "('t, 'v) table_api \<Rightarrow> 't lot \<Rightarrow> uint32 \<Rightarrow> 'v" where
  "lot_get api l slot =
     (case lot_machine l of
        None \<Rightarrow> value_nil api
      | Some (m, t) \<Rightarrow> if slot = 0 then value_nil api else table_get api t (uint slot))"

definition releaseLater :: "uint32 \<Rightarrow> 't lot \<Rightarrow> 't lot" where
  "releaseLater slot l =
     (if lot_machine l = None \<or> slot = 0 then l else l\<lparr>lot_pending := lot_pending l @ [slot]\<rparr>)"

section \<open>Parked objects\<close>

text \<open>A \<^verbatim>\<open>Parked\<close> is its slot; the lot it was given may be null.\<close>

definition parked_new :: "('t, 'v) table_api \<Rightarrow> 'v \<Rightarrow> 't lot option \<Rightarrow> 't lot option \<times> uint32" where
  "parked_new api v lo =
     (case lo of None \<Rightarrow> (None, 0) | Some l \<Rightarrow> (case park api v l of (l, slot) \<Rightarrow> (Some l, slot)))"

definition parked_delete :: "uint32 \<Rightarrow> 't lot option \<Rightarrow> 't lot option" where
  "parked_delete slot lo = map_option (releaseLater slot) lo"

definition parked_get :: "('t, 'v) table_api \<Rightarrow> 't lot option \<Rightarrow> uint32 \<Rightarrow> 'v" where
  "parked_get api lo slot = (case lo of None \<Rightarrow> value_nil api | Some l \<Rightarrow> lot_get api l slot)"

definition parked_ok :: "uint32 \<Rightarrow> bool" where
  "parked_ok slot \<longleftrightarrow> slot \<noteq> 0"

text \<open>
  What can happen to a lot and its parked objects, in any order; \<open>Other\<close> is what
  does not concern a single object.
\<close>

datatype ('v, 'x) parked_op = Make 'v | Drop nat | Other 'x

datatype lot_op = Sweep | Attach nat bool bool | Detach

fun lot_other :: "('t, 'v) table_api \<Rightarrow> lot_op \<Rightarrow> 't lot \<Rightarrow> 't lot" where
  "lot_other api Sweep l = sweep api l"
| "lot_other api (Attach m made registered) l = fst (attach api m made registered l)"
| "lot_other api Detach l = detach l"

fun parked_step ::
  "('v \<Rightarrow> 'l \<Rightarrow> 'l \<times> uint32) \<Rightarrow> (uint32 \<Rightarrow> 'l \<Rightarrow> 'l) \<Rightarrow> ('x \<Rightarrow> 'l \<Rightarrow> 'l) \<Rightarrow>
   ('v, 'x) parked_op \<Rightarrow> 'l \<times> uint32 option list \<Rightarrow> 'l \<times> uint32 option list" where
  "parked_step put give other (Make v) (l, ps) = (case put v l of (l, slot) \<Rightarrow> (l, ps @ [Some slot]))"
| "parked_step put give other (Drop i) (l, ps) =
     (if i < length ps
      then case ps ! i of None \<Rightarrow> (l, ps) | Some slot \<Rightarrow> (give slot l, ps[i := None])
      else (l, ps))"
| "parked_step put give other (Other x) (l, ps) = (other x l, ps)"

section \<open>The contract of a lot\<close>

text \<open>
  \<open>held l S\<close>: the lot has handed out the slots \<open>S\<close>. It hands out a new one, keeps
  what the others hold, and answers the value until the slot is given back.
\<close>

locale parking =
  fixes put :: "'v \<Rightarrow> 'l \<Rightarrow> 'l \<times> uint32"
    and give :: "uint32 \<Rightarrow> 'l \<Rightarrow> 'l"
    and other :: "'x \<Rightarrow> 'l \<Rightarrow> 'l"
    and got :: "'l \<Rightarrow> uint32 \<Rightarrow> 'v"
    and keeps :: "'x \<Rightarrow> bool"
    and held :: "'l \<Rightarrow> uint32 set \<Rightarrow> bool"
    and room :: "'l \<Rightarrow> nat"
    and none :: 'v
  assumes put_new: "held l S \<Longrightarrow> 0 < room l \<Longrightarrow> put v l = (l', s) \<Longrightarrow> s \<noteq> 0 \<Longrightarrow>
      s \<notin> S \<and> held l' (insert s S) \<and> got l' s = v \<and> (\<forall>s' \<in> S. got l' s' = got l s')"
    and put_refused: "held l S \<Longrightarrow> 0 < room l \<Longrightarrow> put v l = (l', 0) \<Longrightarrow>
      held l' S \<and> (\<forall>s' \<in> S. got l' s' = got l s')"
    and put_room: "held l S \<Longrightarrow> 0 < room l \<Longrightarrow> room l \<le> Suc (room (fst (put v l)))"
    and give_back: "held l S \<Longrightarrow> s \<in> S \<Longrightarrow> held (give s l) (S - {s}) \<and> (\<forall>s' \<in> S. got (give s l) s' = got l s')"
    and back_zero: "give 0 l = l"
    and back_room: "room (give s l) = room l"
    and others: "held l S \<Longrightarrow> held (other x l) S \<and> (\<forall>s' \<in> S. got (other x l) s' = (if keeps x then got l s' else none))"
    and other_room: "room (other x l) = room l"
    and got_zero: "got l 0 = none"
begin

fun expected :: "('v, 'x) parked_op \<Rightarrow> 'l \<times> uint32 option list \<Rightarrow> 'v list \<Rightarrow> 'v list" where
  "expected (Make v) (l, ps) es = es @ [if snd (put v l) = 0 then none else v]"
| "expected (Drop i) _ es = es"
| "expected (Other x) _ es = (if keeps x then es else map (\<lambda>_. none) es)"

definition lively :: "uint32 option list \<Rightarrow> uint32 set" where
  "lively ps = {s. Some s \<in> set ps \<and> s \<noteq> 0}"

definition tidy :: "'l \<times> uint32 option list \<Rightarrow> 'v list \<Rightarrow> bool" where
  "tidy st es \<longleftrightarrow>
     (case st of (l, ps) \<Rightarrow>
        held l (lively ps) \<and> length es = length ps \<and>
        (\<forall>i < length ps. \<forall>s. ps ! i = Some s \<longrightarrow> got l s = es ! i \<and>
           (s \<noteq> 0 \<longrightarrow> (\<forall>j < length ps. ps ! j = Some s \<longrightarrow> j = i))))"

lemma lively_nth: "i < length ps \<Longrightarrow> ps ! i = Some s \<Longrightarrow> s \<noteq> 0 \<Longrightarrow> s \<in> lively ps"
  using nth_mem [of i ps] by (simp add: lively_def)

lemma lively_drop:
  assumes "i < length ps" "ps ! i = Some s" "\<And>j. s \<noteq> 0 \<Longrightarrow> j < length ps \<Longrightarrow> ps ! j = Some s \<Longrightarrow> j = i"
  shows "lively (ps[i := None]) = lively ps - {s}"
proof (rule set_eqI)
  fix s'
  have mem: "s' \<in> lively qs \<longleftrightarrow> (\<exists>j < length qs. qs ! j = Some s') \<and> s' \<noteq> 0" for qs
    by (auto simp: lively_def in_set_conv_nth)
  have "ps[i := None] ! j = Some s' \<longleftrightarrow> j \<noteq> i \<and> ps ! j = Some s'" if "j < length ps" for j
    using assms(1) that by (simp add: nth_list_update)
  then have "s' \<in> lively (ps[i := None]) \<longleftrightarrow> (\<exists>j < length ps. j \<noteq> i \<and> ps ! j = Some s') \<and> s' \<noteq> 0"
    by (auto simp: mem)
  also have "\<dots> \<longleftrightarrow> s' \<in> lively ps - {s}"
    using assms(2,3) unfolding mem Diff_iff singleton_iff by (metis option.inject)
  finally show "s' \<in> lively (ps[i := None]) \<longleftrightarrow> s' \<in> lively ps - {s}" .
qed

lemma step_tidy:
  assumes "tidy (l, ps) es" "0 < room l"
  shows "tidy (parked_step put give other op (l, ps)) (expected op (l, ps) es)"
proof (cases op)
  case (Make v)
  obtain l' s where put: "put v l = (l', s)"
    by (cases "put v l")
  have held: "held l (lively ps)"
    using assms(1) by (simp add: tidy_def)
  have same: "got l' s' = got l s'" if "s' \<in> lively ps" for s'
    using put_new [OF held assms(2) put] put_refused [OF held assms(2)] put that by (cases "s = 0") auto
  have old: "got l' s' = es ! i" if "i < length ps" "ps ! i = Some s'" for i s'
    using assms(1) that same [of s'] lively_nth [OF that] got_zero
    by (cases "s' = 0") (auto simp: tidy_def)
  have fresh: "s \<noteq> 0 \<Longrightarrow> i < length ps \<Longrightarrow> ps ! i \<noteq> Some s" for i
    using put_new [OF held assms(2) put] lively_nth [of i ps s] by blast
  have lively: "lively (ps @ [Some s]) = (if s = 0 then lively ps else insert s (lively ps))"
    by (auto simp: lively_def)
  have "held l' (lively (ps @ [Some s]))"
    using put_new [OF held assms(2) put] put_refused [OF held assms(2)] put lively by auto
  moreover have "got l' s = (if s = 0 then none else v)"
    using put_new [OF held assms(2) put] got_zero by auto
  ultimately show ?thesis
    using Make assms(1) put old fresh by (auto simp: tidy_def nth_append less_Suc_eq)
next
  case (Drop i)
  show ?thesis
  proof (cases "i < length ps \<and> ps ! i \<noteq> None")
    case True
    then obtain s where i: "i < length ps" "ps ! i = Some s"
      by auto
    have held: "held l (lively ps)" and uniq: "\<And>j. s \<noteq> 0 \<Longrightarrow> j < length ps \<Longrightarrow> ps ! j = Some s \<Longrightarrow> j = i"
      using assms(1) i by (auto simp: tidy_def)
    have lively: "lively (ps[i := None]) = lively ps - {s}"
      using i uniq by (rule lively_drop)
    have gives: "held (give s l) (lively ps - {s}) \<and> (\<forall>s' \<in> lively ps. got (give s l) s' = got l s')"
    proof (cases "s = 0")
      case True
      then show ?thesis
        using back_zero held by (simp add: lively_def)
    next
      case False
      then have "s \<in> lively ps"
        by (rule lively_nth [OF i])
      then show ?thesis
        by (rule give_back [OF held])
    qed
    have "got (give s l) s' = es ! j \<and> (s' \<noteq> 0 \<longrightarrow> (\<forall>k < length ps. ps[i := None] ! k = Some s' \<longrightarrow> k = j))"
      if "j < length ps" "ps[i := None] ! j = Some s'" for j s'
    proof -
      have j: "ps ! j = Some s'" "j \<noteq> i"
        using that i by (auto simp: nth_list_update split: if_splits)
      have "got (give s l) s' = got l s'"
        using gives lively_nth [OF that(1) j(1)] got_zero by (cases "s' = 0") auto
      moreover have "got l s' = es ! j" "s' \<noteq> 0 \<Longrightarrow> k < length ps \<Longrightarrow> ps ! k = Some s' \<Longrightarrow> k = j" for k
        using assms(1) that(1) j(1) unfolding tidy_def by auto
      moreover have "ps ! k = Some s'" if "k < length ps" "ps[i := None] ! k = Some s'" for k
        using that i(1) by (cases "k = i") auto
      ultimately show ?thesis
        by metis
    qed
    note slots = this
    have "length es = length ps"
      using assms(1) by (simp add: tidy_def)
    then have "tidy (give s l, ps[i := None]) es"
      using slots gives unfolding tidy_def prod.case lively length_list_update by blast
    then show ?thesis
      using Drop i by simp
  next
    case False
    then show ?thesis
      using Drop assms(1) by (auto split: option.split)
  qed
next
  case (Other x)
  have held: "held l (lively ps)"
    using assms(1) by (simp add: tidy_def)
  have "got (other x l) s = (if keeps x then got l s else none)" if "i < length ps" "ps ! i = Some s" for i s
    using others [OF held, of x] lively_nth [OF that] got_zero by (cases "s = 0") auto
  then show ?thesis
    using Other assms(1) others [OF held, of x] by (auto simp: tidy_def)
qed

fun steps :: "('v, 'x) parked_op list \<Rightarrow> 'l \<times> uint32 option list \<Rightarrow> 'v list \<Rightarrow> ('l \<times> uint32 option list) \<times> 'v list" where
  "steps [] st es = (st, es)"
| "steps (op # ops) st es = steps ops (parked_step put give other op st) (expected op st es)"

lemma step_room: "held l S \<Longrightarrow> 0 < room l \<Longrightarrow> room l \<le> Suc (room (fst (parked_step put give other op (l, ps))))"
  using put_room [of l S] by (cases op) (auto simp: back_room other_room split: prod.split option.split, metis fst_conv)

lemma steps_tidy:
  "tidy (l, ps) es \<Longrightarrow> length ops \<le> room l \<Longrightarrow> steps ops (l, ps) es = (st, es') \<Longrightarrow> tidy st es'"
proof (induction ops arbitrary: l ps es)
  case (Cons op ops)
  obtain l1 ps1 where st1: "parked_step put give other op (l, ps) = (l1, ps1)"
    by (cases "parked_step put give other op (l, ps)")
  have room: "0 < room l" "held l (lively ps)"
    using Cons.prems by (auto simp: tidy_def)
  then have "length ops \<le> room l1"
    using step_room [OF room(2,1), of op ps] Cons.prems(2) st1 by simp
  then show ?case
    using Cons.IH [of l1 ps1] step_tidy [OF Cons.prems(1) room(1), of op] st1 Cons.prems(3) by simp
qed simp

end

section \<open>The lot keeps the contract\<close>

text \<open>What the machine's tables document: a write is read again and touches no other key.\<close>

definition table_laws :: "('t, 'v) table_api \<Rightarrow> bool" where
  "table_laws api \<longleftrightarrow>
     (\<forall>k. table_get api (empty_table api) k = value_nil api) \<and>
     (\<forall>t k v. case table_set api t k v of (t', done_ok, refused) \<Rightarrow>
        (\<forall>k'. k' \<noteq> k \<longrightarrow> table_get api t' k' = table_get api t k') \<and>
        (done_ok \<and> \<not> refused \<longrightarrow> table_get api t' k = v))"

definition lot_keeps :: "lot_op \<Rightarrow> bool" where
  "lot_keeps x = (case x of Sweep \<Rightarrow> True | Attach m made registered \<Rightarrow> \<not> (made \<and> registered) | Detach \<Rightarrow> False)"

definition slots_ok :: "'t lot \<Rightarrow> uint32 set \<Rightarrow> bool" where
  "slots_ok l S \<longleftrightarrow>
     0 < lot_next l \<and> distinct (lot_free l @ lot_pending l) \<and> S \<inter> set (lot_free l @ lot_pending l) = {} \<and>
     (\<forall>s \<in> S \<union> set (lot_free l @ lot_pending l). 0 < s \<and> s < lot_next l)"

definition lot_held :: "('t, 'v) table_api \<Rightarrow> 't lot \<Rightarrow> uint32 set \<Rightarrow> bool" where
  "lot_held api l S \<longleftrightarrow> table_laws api \<and> slots_ok l S"

definition lot_room :: "'t lot \<Rightarrow> nat" where
  "lot_room l = 2 ^ 32 - 1 - unat (lot_next l)"

lemma table_set_law:
  assumes "table_laws api" "table_set api t k v = (t', d, r)"
  shows "k' \<noteq> k \<Longrightarrow> table_get api t' k' = table_get api t k'" "d \<Longrightarrow> \<not> r \<Longrightarrow> table_get api t' k = v"
proof -
  have "case table_set api t k v of (t', d, r) \<Rightarrow>
      (\<forall>k'. k' \<noteq> k \<longrightarrow> table_get api t' k' = table_get api t k') \<and> (d \<and> \<not> r \<longrightarrow> table_get api t' k = v)"
    using assms(1) by (simp add: table_laws_def)
  then show "k' \<noteq> k \<Longrightarrow> table_get api t' k' = table_get api t k'" "d \<Longrightarrow> \<not> r \<Longrightarrow> table_get api t' k = v"
    unfolding assms(2) by simp_all
qed

lemma table_set_other:
  "table_laws api \<Longrightarrow> k' \<noteq> k \<Longrightarrow> table_get api (fst (table_set api t k v)) k' = table_get api t k'"
  by (rule table_set_law(1) [where d = "fst (snd (table_set api t k v))" and r = "snd (snd (table_set api t k v))"]) simp_all

lemma sweep_table:
  "table_laws api \<Longrightarrow> s \<notin> set slots \<Longrightarrow>
     table_get api (foldl (\<lambda>t slot. fst (table_set api t (uint slot) v)) t slots) (uint s) = table_get api t (uint s)"
proof (induction slots arbitrary: t)
  case (Cons slot slots)
  then have "uint s \<noteq> uint slot"
    by (metis list.set_intros(1) word_uint_eqI)
  then show ?case
    using Cons by (simp add: table_set_other)
qed simp

lemma sweep_held:
  assumes "lot_held api l S"
  shows "lot_held api (sweep api l) S" "s \<in> S \<Longrightarrow> lot_get api (sweep api l) s = lot_get api l s"
    "lot_next (sweep api l) = lot_next l" "lot_machine (sweep api l) = None \<longleftrightarrow> lot_machine l = None"
  using assms sweep_table [of api s "lot_pending l" "value_nil api"]
  by (auto simp: lot_held_def slots_ok_def sweep_def lot_get_def split: option.splits)

lemma next_less: "unat (n :: uint32) < 2 ^ 32 - 1 \<Longrightarrow> n < n + 1"
  using unat_plus_one [of n] by (simp add: word_less_nat_alt)

lemma slots_less: "s < n \<Longrightarrow> unat (n :: uint32) < 2 ^ 32 - 1 \<Longrightarrow> s < n + 1"
  using next_less [of n] by (metis order_less_trans)

lemma slots_ok_mono:
  "slots_ok l S \<Longrightarrow> n = lot_next l + 1 \<Longrightarrow> unat (lot_next l) < 2 ^ 32 - 1 \<Longrightarrow>
     slots_ok (l\<lparr>lot_next := n\<rparr>) (insert (lot_next l) S)"
  using next_less [of "lot_next l"] slots_less [of _ "lot_next l"]
  by (auto simp: slots_ok_def word_neq_0_conv)

lemma take_slot_ok:
  assumes "slots_ok l S" "0 < lot_room l" "take_slot l = (l', slot)"
  shows "slots_ok l' (insert slot S)" "slot \<notin> S" "0 < slot" "lot_machine l' = lot_machine l"
    "lot_room l \<le> Suc (lot_room l')"
proof -
  have room: "unat (lot_next l) < 2 ^ 32 - 1"
    using assms(2) by (simp add: lot_room_def)
  have "slots_ok l' (insert slot S) \<and> slot \<notin> S \<and> 0 < slot \<and> lot_machine l' = lot_machine l \<and> lot_room l \<le> Suc (lot_room l')"
  proof (cases "lot_free l" rule: rev_cases)
    case Nil
    then have "l' = l\<lparr>lot_next := lot_next l + 1\<rparr>" "slot = lot_next l"
      using assms(3) unfolding take_slot_def by (auto simp del: lot.update_convs)
    moreover have "unat (lot_next l + 1) = Suc (unat (lot_next l))"
      using room unat_plus_one by simp
    ultimately show ?thesis
      using slots_ok_mono [OF assms(1) refl room] assms(1) by (auto simp: slots_ok_def lot_room_def)
  next
    case (snoc free s)
    then show ?thesis
      using assms(1,3) by (auto simp: take_slot_def slots_ok_def lot_room_def)
  qed
  then show "slots_ok l' (insert slot S)" "slot \<notin> S" "0 < slot" "lot_machine l' = lot_machine l"
    "lot_room l \<le> Suc (lot_room l')"
    by blast+
qed

lemma slots_ok_free:
  "slots_ok l (insert slot S) \<Longrightarrow> slot \<notin> S \<Longrightarrow> slots_ok (l\<lparr>lot_machine := x, lot_free := lot_free l @ [slot]\<rparr>) S"
  by (auto simp: slots_ok_def)

lemma slots_ok_machine: "slots_ok (l\<lparr>lot_machine := x\<rparr>) S = slots_ok l S"
  by (simp add: slots_ok_def)

lemma slots_ok_subset: "slots_ok l (insert slot S) \<Longrightarrow> slots_ok l S"
  by (auto simp: slots_ok_def)

lemma park_contract:
  assumes held: "lot_held api l S" and room: "0 < lot_room l" and park: "park api v l = (l', s)"
  shows "(if s = 0 then lot_held api l' S else s \<notin> S \<and> lot_held api l' (insert s S) \<and> lot_get api l' s = v) \<and>
    (\<forall>s' \<in> S. lot_get api l' s' = lot_get api l s') \<and> lot_room l \<le> Suc (lot_room l')"
proof (cases "lot_machine l = None \<or> v = value_nil api")
  case True
  then show ?thesis
    using held park by (simp add: park_def)
next
  case False
  let ?l = "sweep api l"
  note swept = sweep_held [OF held]
  obtain l1 slot where taken: "take_slot ?l = (l1, slot)"
    by (cases "take_slot ?l")
  have ok: "slots_ok ?l S" and laws: "table_laws api"
    using swept(1) by (simp_all add: lot_held_def)
  have "0 < lot_room ?l"
    using room swept(3) by (simp add: lot_room_def)
  note taken_ok = take_slot_ok [OF ok this taken]
  obtain m t where mt: "lot_machine l1 = Some (m, t)"
    using False swept(4) taken_ok(4) by (cases "lot_machine l1") auto
  obtain t' d r where set: "table_set api t (uint slot) v = (t', d, r)"
    by (cases "table_set api t (uint slot) v")
  have l': "l' = (if \<not> d \<or> r then l1\<lparr>lot_machine := Some (m, t'), lot_free := lot_free l1 @ [slot]\<rparr>
        else l1\<lparr>lot_machine := Some (m, t')\<rparr>)" "s = (if \<not> d \<or> r then 0 else slot)"
    using park False taken mt set by (auto simp: park_def)
  have same: "lot_get api l' s' = lot_get api l s'" if "s' \<in> S" for s'
  proof -
    have "uint s' \<noteq> uint slot"
      using taken_ok(2) that by (metis word_uint_eqI)
    then have "table_get api t' (uint s') = table_get api t (uint s')"
      using table_set_other [OF laws, of "uint s'" "uint slot" t v] set by simp
    then have "lot_get api l' s' = lot_get api ?l s'"
      using l' mt taken_ok(4) by (simp add: lot_get_def)
    then show ?thesis
      using swept(2) that by simp
  qed
  have "lot_room l \<le> Suc (lot_room l')"
    using taken_ok(5) swept(3) l' by (simp add: lot_room_def)
  moreover have "if s = 0 then lot_held api l' S else s \<notin> S \<and> lot_held api l' (insert s S) \<and> lot_get api l' s = v"
  proof (cases "\<not> d \<or> r")
    case True
    then show ?thesis
      using l' laws slots_ok_free [OF taken_ok(1,2)] by (simp add: lot_held_def)
  next
    case kept: False
    then have "table_get api t' (uint slot) = v"
      using table_set_law(2) [OF laws set] by simp
    then show ?thesis
      using kept l' laws taken_ok(1-3) by (auto simp: lot_held_def slots_ok_machine lot_get_def)
  qed
  ultimately show ?thesis
    using same by blast
qed

interpretation lot: parking "park api" releaseLater "lot_other api" "lot_get api" lot_keeps "lot_held api" lot_room "value_nil api"
  for api :: "('t, 'v) table_api"
proof unfold_locales
  fix l l' :: "'t lot" and S s v
  assume "lot_held api l S" "0 < lot_room l" "park api v l = (l', s)" "s \<noteq> 0"
  then show "s \<notin> S \<and> lot_held api l' (insert s S) \<and> lot_get api l' s = v \<and> (\<forall>s' \<in> S. lot_get api l' s' = lot_get api l s')"
    using park_contract [of api l S v l' s] by simp
next
  fix l l' :: "'t lot" and S v
  assume "lot_held api l S" "0 < lot_room l" "park api v l = (l', 0)"
  then show "lot_held api l' S \<and> (\<forall>s' \<in> S. lot_get api l' s' = lot_get api l s')"
    using park_contract [of api l S v l' 0] by simp
next
  fix l :: "'t lot" and S v
  assume "lot_held api l S" "0 < lot_room l"
  then show "lot_room l \<le> Suc (lot_room (fst (park api v l)))"
    using park_contract [of api l S v "fst (park api v l)" "snd (park api v l)"] by simp
next
  fix l :: "'t lot" and S s
  assume "lot_held api l S" "s \<in> S"
  then show "lot_held api (releaseLater s l) (S - {s}) \<and> (\<forall>s' \<in> S. lot_get api (releaseLater s l) s' = lot_get api l s')"
    by (auto simp: lot_held_def slots_ok_def releaseLater_def lot_get_def split: option.splits)
next
  fix l :: "'t lot" and S x
  assume held: "lot_held api l S"
  then show "lot_held api (lot_other api x l) S \<and>
      (\<forall>s' \<in> S. lot_get api (lot_other api x l) s' = (if lot_keeps x then lot_get api l s' else value_nil api))"
    using sweep_held [OF held]
    by (cases x) (auto simp: lot_keeps_def attach_def detach_def lot_held_def slots_ok_def lot_get_def table_laws_def)
next
  fix l :: "'t lot" and x
  show "lot_room (lot_other api x l) = lot_room l"
    by (cases x) (simp_all add: lot_room_def attach_def detach_def sweep_def split: option.split)
qed (auto simp: releaseLater_def lot_room_def lot_get_def split: option.split)

section \<open>Sessions\<close>

fun parked_run ::
  "('t, 'v) table_api \<Rightarrow> ('v, lot_op) parked_op list \<Rightarrow> 't lot \<times> uint32 option list \<Rightarrow> 't lot \<times> uint32 option list" where
  "parked_run api [] st = st"
| "parked_run api (op # ops) st = parked_run api ops (parked_step (park api) releaseLater (lot_other api) op st)"

text \<open>What the objects answer, refusals as the lot reported them.\<close>

fun answers ::
  "('t, 'v) table_api \<Rightarrow> ('v, lot_op) parked_op list \<Rightarrow> 't lot \<times> uint32 option list \<Rightarrow> 'v list \<Rightarrow> 'v list" where
  "answers api [] st es = es"
| "answers api (op # ops) st es =
     answers api ops (parked_step (park api) releaseLater (lot_other api) op st)
       (case op of
          Make v \<Rightarrow> es @ [if parked_ok (snd (park api v (fst st))) then v else value_nil api]
        | Drop i \<Rightarrow> es
        | Other x \<Rightarrow> if lot_keeps x then es else map (\<lambda>_. value_nil api) es)"

lemma lot_steps: "lot.steps api ops st es = (parked_run api ops st, answers api ops st es)"
proof (induction ops arbitrary: st es)
  case (Cons op ops)
  then show ?case
    by (cases st; cases op) (simp_all add: parked_ok_def)
qed simp

text \<open>
  What the engine may rely on, told without the lot: an object made while a machine is attached answers the value it was
  made with, one made without a machine answers \<^verbatim>\<open>nil\<close>, and all answer \<^verbatim>\<open>nil\<close> once the machine is detached or another is
  attached. The second component says whether that is certain: only a machine that may refuse to
  write the value leaves \<^verbatim>\<open>nil\<close> as the other answer.
\<close>

definition takes :: "('t, 'v) table_api \<Rightarrow> 'v \<Rightarrow> bool" where
  "takes api v \<longleftrightarrow> (\<forall>t k. fst (snd (table_set api t k v)) \<and> \<not> snd (snd (table_set api t k v)))"

fun promised :: "('t, 'v) table_api \<Rightarrow> ('v, lot_op) parked_op list \<Rightarrow> bool \<Rightarrow> ('v \<times> bool) list \<Rightarrow> ('v \<times> bool) list" where
  "promised api [] attached vs = vs"
| "promised api (Make v # ops) attached vs =
     promised api ops attached (vs @ [if attached then (v, takes api v) else (value_nil api, True)])"
| "promised api (Drop i # ops) attached vs = promised api ops attached vs"
| "promised api (Other Sweep # ops) attached vs = promised api ops attached vs"
| "promised api (Other (Attach m made registered) # ops) attached vs =
     (if made \<and> registered then promised api ops True (map (\<lambda>_. (value_nil api, True)) vs) else promised api ops attached vs)"
| "promised api (Other Detach # ops) attached vs = promised api ops False (map (\<lambda>_. (value_nil api, True)) vs)"

definition meets :: "('t, 'v) table_api \<Rightarrow> 'v \<Rightarrow> 'v \<times> bool \<Rightarrow> bool" where
  "meets api e w \<longleftrightarrow> e = fst w \<or> \<not> snd w \<and> e = value_nil api"

lemma park_refuses:
  assumes "lot_held api l S" "0 < lot_room l" "\<not> parked_ok (snd (park api v l))"
  shows "lot_machine l = None \<or> v = value_nil api \<or> \<not> takes api v"
proof (rule ccontr)
  assume "\<not> ?thesis"
  then have c: "lot_machine l \<noteq> None" "v \<noteq> value_nil api" "takes api v"
    by auto
  let ?l = "sweep api l"
  note swept = sweep_held [OF assms(1)]
  obtain l1 slot where taken: "take_slot ?l = (l1, slot)"
    by (cases "take_slot ?l")
  have "slots_ok ?l S" "0 < lot_room ?l"
    using swept(1,3) assms(2) by (simp_all add: lot_held_def lot_room_def)
  note taken_ok = take_slot_ok [OF this taken]
  then have "lot_machine l1 \<noteq> None"
    using c(1) swept(4) by simp
  then obtain m t where t: "lot_machine l1 = Some (m, t)"
    by auto
  obtain t' d r where set: "table_set api t (uint slot) v = (t', d, r)"
    by (cases "table_set api t (uint slot) v")
  then have "d" "\<not> r"
    using c(3) unfolding takes_def by (metis fst_conv snd_conv)+
  then have "snd (park api v l) = slot"
    using c(1,2) taken t set by (auto simp: park_def Let_def)
  then show False
    using taken_ok(3) assms(3) by (simp add: parked_ok_def)
qed

lemma park_machine: "lot_machine (fst (park api v l)) = None \<longleftrightarrow> lot_machine l = None"
  by (auto simp: park_def take_slot_def sweep_def Let_def split: option.splits prod.splits)

lemma other_machine:
  "lot_machine (sweep api l) = None \<longleftrightarrow> lot_machine l = None" "lot_machine (releaseLater slot l) = lot_machine l"
  "lot_machine (fst (attach api m made registered l)) = None \<longleftrightarrow> \<not> (made \<and> registered) \<and> lot_machine l = None"
  "lot_machine (detach l) = None"
  by (auto simp: sweep_def releaseLater_def attach_def detach_def split: option.splits)

lemma meets_nils: "list_all2 (meets api) (map (\<lambda>_. value_nil api) es) (map (\<lambda>_. (value_nil api, True)) vs) \<longleftrightarrow> length es = length vs"
  by (auto simp: list_all2_conv_all_nth meets_def)

lemma answers_promised:
  "lot.tidy api (l, ps) es \<Longrightarrow> length ops \<le> lot_room l \<Longrightarrow> list_all2 (meets api) es vs \<Longrightarrow>
     list_all2 (meets api) (answers api ops (l, ps) es) (promised api ops (lot_machine l \<noteq> None) vs)"
proof (induction ops arbitrary: l ps es vs)
  case (Cons op ops)
  obtain l1 ps1 where st1: "parked_step (park api) releaseLater (lot_other api) op (l, ps) = (l1, ps1)"
    by (cases "parked_step (park api) releaseLater (lot_other api) op (l, ps)")
  have room: "0 < lot_room l" "lot_held api l (lot.lively ps)"
    using Cons.prems by (auto simp: lot.tidy_def)
  have "length ops \<le> lot_room l1"
    using lot.step_room [OF room(2,1), of op ps] Cons.prems(2) st1 by simp
  note later = Cons.IH [OF _ this]
  have tidy: "lot.tidy api (l1, ps1) (lot.expected api op (l, ps) es)"
    using lot.step_tidy [OF Cons.prems(1) room(1), of op] st1 by simp
  have len: "length es = length vs"
    using Cons.prems(3) by (rule list_all2_lengthD)
  show ?case
  proof (cases op)
    case (Make v)
    have "l1 = fst (park api v l)"
      using st1 Make by (auto split: prod.splits)
    then have "(lot_machine l1 \<noteq> None) = (lot_machine l \<noteq> None)"
      by (simp add: park_machine)
    moreover have "meets api (if parked_ok (snd (park api v l)) then v else value_nil api)
        (if lot_machine l \<noteq> None then (v, takes api v) else (value_nil api, True))"
      using park_refuses [OF room(2,1), of v] by (auto simp: meets_def park_def parked_ok_def)
    ultimately show ?thesis
      using later [of ps1 "lot.expected api op (l, ps) es" "vs @ [if lot_machine l \<noteq> None then (v, takes api v) else (value_nil api, True)]"]
        tidy Make Cons.prems(3) st1 by (auto simp: parked_ok_def list_all2_appendI)
  next
    case (Drop i)
    have "lot_machine l1 = lot_machine l"
      using st1 Drop by (auto simp: other_machine split: if_splits option.splits)
    then show ?thesis
      using later [OF tidy, of vs] Drop Cons.prems(3) st1 by simp
  next
    case (Other x)
    have l1: "l1 = lot_other api x l"
      using st1 Other by simp
    have es: "lot.expected api op (l, ps) es = (if lot_keeps x then es else map (\<lambda>_. value_nil api) es)"
      using Other by simp
    have "list_all2 (meets api) (if lot_keeps x then es else map (\<lambda>_. value_nil api) es)
        (if lot_keeps x then vs else map (\<lambda>_. (value_nil api, True)) vs)"
      using Cons.prems(3) len by (simp add: meets_nils)
    from later [OF tidy, unfolded es, OF this] show ?thesis
      using Other l1 st1 by (cases x) (auto simp: lot_keeps_def other_machine split: if_splits)
  qed
qed simp

text \<open>Claim C10. Through any sequence of fewer than \<open>2 ^ 32 - 1\<close> makings and destructions of parked
  objects, sweeps, attachments and detachments, every parked object that is alive answers exactly the
  value it was made with while the machine it was made for stays attached, and \<open>nil\<close> if there was none, or once it is detached or another
  machine is attached; a machine that may refuse to write a value may leave \<open>nil\<close> in its place. No slot
  belongs to two of them.\<close>

theorem parked_values_kept:
  assumes "table_laws api" "length ops < 2 ^ 32 - 1" "parked_run api ops (new_lot, []) = (l, ps)"
    "i < length ps" "ps ! i = Some slot"
  shows "(case promised api ops False [] ! i of (v, certain) \<Rightarrow>
      parked_get api (Some l) slot = v \<or> \<not> certain \<and> parked_get api (Some l) slot = value_nil api) \<and>
    (parked_ok slot \<longrightarrow> (\<forall>j < length ps. ps ! j = Some slot \<longrightarrow> j = i))"
proof -
  have start: "lot.tidy api (new_lot, []) []"
    using assms(1) by (simp add: lot.tidy_def lot.lively_def lot_held_def slots_ok_def new_lot_def)
  moreover have room: "length ops \<le> lot_room (new_lot :: 'a lot)"
    using assms(2) by (simp add: lot_room_def new_lot_def)
  ultimately have "lot.tidy api (l, ps) (answers api ops (new_lot, []) [])"
    using lot.steps_tidy [of api new_lot "[]" "[]" ops] lot_steps assms(3) by metis
  moreover have "list_all2 (meets api) (answers api ops (new_lot, []) []) (promised api ops False [])"
    using answers_promised [OF start room, of "[]"] by (simp add: new_lot_def)
  ultimately show ?thesis
    using assms(4,5) by (auto simp: lot.tidy_def parked_get_def parked_ok_def meets_def list_all2_conv_all_nth split: prod.split)
qed

definition function_api :: "(int \<Rightarrow> nat, nat) table_api" where
  "function_api = \<lparr>table_set = (\<lambda>t k v. (t(k := v), True, False)), table_get = (\<lambda>t k. t k),
     empty_table = (\<lambda>_. 0), value_nil = 0\<rparr>"

lemma function_api_laws: "table_laws function_api"
  by (simp add: table_laws_def function_api_def)

theorem parked_values_kept_witness:
  "parked_get function_api (Some (fst (parked_run function_api
     [Other (Attach 0 True True), Make 7, Make 8, Drop 0, Make 9] (new_lot, [])))) 1 = 9"
proof -
  have "takes function_api v" for v
    by (simp add: takes_def function_api_def)
  then show ?thesis
    using parked_values_kept [OF function_api_laws, of "[Other (Attach 0 True True), Make 7, Make 8, Drop 0, Make 9]"
        _ _ 2 1]
    by (simp add: park_def take_slot_def sweep_def releaseLater_def attach_def new_lot_def function_api_def parked_ok_def)
qed

section \<open>Who owns the lots\<close>

text \<open>
  The engine holds one reference to the lot of every machine, in a map. The
  lots are objects on the heap of \<open>Objects\<close>; every access to a field of one
  needs it to be alive.
\<close>

record 't lots_state =
  lheap :: heap
  lots :: "nat \<Rightarrow> address option"
  lot_at :: "address \<Rightarrow> 't lot"

definition touch :: "address \<Rightarrow> heap \<Rightarrow> unit result" where
  "touch a h = (if h a = None then Inl use_after_free else Inr ())"

text \<open>\<^verbatim>\<open>StrongRef::set\<close> on the map's entry: take the new one, then drop the old one.\<close>

definition lots_set :: "nat \<Rightarrow> address \<Rightarrow> 't lots_state \<Rightarrow> 't lots_state result" where
  "lots_set m a s =
     bind_result (retain a (lheap s)) (\<lambda>h.
     bind_result (case lots s m of None \<Rightarrow> Inr h | Some b \<Rightarrow> release b h) (\<lambda>h.
       Inr (s\<lparr>lheap := h, lots := (lots s)(m \<mapsto> a)\<rparr>)))"

definition attach_lot ::
  "('t, 'v) table_api \<Rightarrow> nat \<Rightarrow> bool \<Rightarrow> bool \<Rightarrow> address \<Rightarrow> 't lots_state \<Rightarrow> ('t lots_state \<times> bool) result" where
  "attach_lot api m made registered a s =
     bind_result (touch a (lheap s)) (\<lambda>_.
       let (l, attached) = attach api m made registered (lot_at s a); s = s\<lparr>lot_at := (lot_at s)(a := l)\<rparr>
       in if \<not> attached then Inr (s, False)
          else bind_result (lots_set m a s) (\<lambda>s. Inr (s, True)))"

definition detach_lot :: "address \<Rightarrow> 't lots_state \<Rightarrow> 't lots_state result" where
  "detach_lot a s =
     bind_result (touch a (lheap s)) (\<lambda>_.
     bind_result
       (case lot_machine (lot_at s a) of
          None \<Rightarrow> Inr s
        | Some (m, t) \<Rightarrow>
            (case lots s m of
               None \<Rightarrow> Inr s
             | Some b \<Rightarrow> bind_result (release b (lheap s)) (\<lambda>h. Inr (s\<lparr>lheap := h, lots := (lots s)(m := None)\<rparr>)))) (\<lambda>s.
     bind_result (touch a (lheap s)) (\<lambda>_.
       Inr (s\<lparr>lot_at := (lot_at s)(a := detach (lot_at s a))\<rparr>))))"

text \<open>A new lot at the address \<open>a\<close>; the local reference is given up at the end of the scope.\<close>

definition new_lot_at :: "address \<Rightarrow> 't lots_state \<Rightarrow> 't lots_state" where
  "new_lot_at a s = s\<lparr>lheap := object_new a (lheap s), lot_at := (lot_at s)(a := new_lot)\<rparr>"

definition drop_ref :: "address \<Rightarrow> 't lots_state \<Rightarrow> 't lots_state result" where
  "drop_ref a s = bind_result (release a (lheap s)) (\<lambda>h. Inr (s\<lparr>lheap := h\<rparr>))"

definition lotOf ::
  "('t, 'v) table_api \<Rightarrow> nat \<Rightarrow> bool \<Rightarrow> bool \<Rightarrow> address \<Rightarrow> 't lots_state \<Rightarrow> ('t lots_state \<times> address option) result" where
  "lotOf api m made registered a s =
     (case lots s m of
        Some b \<Rightarrow> Inr (s, Some b)
      | None \<Rightarrow>
          bind_result (attach_lot api m made registered a (new_lot_at a s)) (\<lambda>(s, attached).
          bind_result (drop_ref a s) (\<lambda>s.
            Inr (s, if attached then Some a else None))))"

text \<open>Making a machine for another thread and disposing of it again.\<close>

definition spawnMachine ::
  "('t, 'v) table_api \<Rightarrow> nat option \<Rightarrow> bool \<Rightarrow> bool \<Rightarrow> bool \<Rightarrow> address \<Rightarrow> 't lots_state \<Rightarrow>
     ('t lots_state \<times> nat option) result" where
  "spawnMachine api mo installed made registered a s =
     (case mo of
        None \<Rightarrow> Inr (s, None)
      | Some m \<Rightarrow>
          bind_result
            (if \<not> installed then Inr (new_lot_at a s, False)
             else attach_lot api m made registered a (new_lot_at a s)) (\<lambda>(s, attached).
          bind_result (drop_ref a s) (\<lambda>s.
            Inr (s, if attached then Some m else None))))"

definition disposeMachine ::
  "('t, 'v) table_api \<Rightarrow> nat option \<Rightarrow> bool \<Rightarrow> bool \<Rightarrow> address \<Rightarrow> 't lots_state \<Rightarrow> 't lots_state result" where
  "disposeMachine api mo made registered a s =
     (case mo of
        None \<Rightarrow> Inr s
      | Some m \<Rightarrow>
          bind_result (lotOf api m made registered a s) (\<lambda>(s, lo).
            case lo of None \<Rightarrow> Inr s | Some b \<Rightarrow> detach_lot b s))"

lemma detach_lot_last:
  assumes "lots s m = Some a" "lot_machine (lot_at s a) = Some (m, t)" "lheap s a = Some c"
  shows "detach_lot a s =
    (if c = 1 then Inl use_after_free
     else Inr (s\<lparr>lheap := (lheap s)(a \<mapsto> c - 1), lots := (lots s)(m := None), lot_at := (lot_at s)(a := detach (lot_at s a))\<rparr>))"
  using assms by (simp add: detach_lot_def touch_def release_def)

text \<open>Claim C39. Disposing of a machine that was spawned for another thread touches its lot after
  deleting it: the map holds the only reference, \<open>detach\<close> removes the entry and then writes the
  fields of the object it runs on. A lot that has another owner, as a runtime's own has, is detached
  without harm.\<close>

theorem spawned_machine_dispose:
  assumes "lots s m = None" "lheap s a = None"
    "spawnMachine api (Some m) installed made registered a s = Inr (s', Some m')"
  shows "disposeMachine api (Some m') made' registered' b s' = Inl use_after_free \<and>
    (\<exists>s2. detach_lot a (s'\<lparr>lheap := (lheap s')(a \<mapsto> 2)\<rparr>) = Inr s2 \<and> lheap s2 a = Some 1 \<and> lots s2 m = None)"
proof -
  have "installed" "made" "registered"
    using assms by (auto simp: spawnMachine_def attach_lot_def attach_def new_lot_at_def touch_def object_new_def
        drop_ref_def bind_result_def split: if_splits sum.splits)
  then have s': "m' = m" "lots s' m = Some a" "lot_machine (lot_at s' a) = Some (m, empty_table api)" "lheap s' a = Some 1"
    using assms by (auto simp: spawnMachine_def attach_lot_def attach_def new_lot_at_def touch_def object_new_def
        drop_ref_def lots_set_def retain_def release_def)
  then show ?thesis
    using detach_lot_last [OF s'(2-4)]
      detach_lot_last [of "s'\<lparr>lheap := (lheap s')(a \<mapsto> 2)\<rparr>" m a "empty_table api" 2]
    by (simp add: disposeMachine_def lotOf_def)
qed

theorem spawned_machine_dispose_witness:
  "\<exists>s'. spawnMachine function_api (Some 0) True True True 5 \<lparr>lheap = (\<lambda>_. None), lots = (\<lambda>_. None), lot_at = (\<lambda>_. new_lot)\<rparr>
     = Inr (s', Some 0) \<and> disposeMachine function_api (Some 0) True True 6 s' = Inl use_after_free"
proof -
  let ?s = "\<lparr>lheap = (\<lambda>_. None), lots = (\<lambda>_. None), lot_at = (\<lambda>_. new_lot)\<rparr>"
  obtain s' where s': "spawnMachine function_api (Some 0) True True True 5 ?s = Inr (s', Some 0)"
    by (simp add: spawnMachine_def attach_lot_def attach_def new_lot_at_def touch_def object_new_def
        drop_ref_def lots_set_def retain_def release_def)
  then show ?thesis
    using spawned_machine_dispose [OF _ _ s', of True True 6] by auto
qed

end
