(* ===== verification/Values.thy ===== *)
theory Values
  imports Prelude Complex_Main
begin

text \<open>
  What the engine does with the values of the script machine
  (\<^verbatim>\<open>src/src/lh/lh.cpp\<close>, sections Values, Errors and Calling back): the readers of
  arguments and of table fields, the two ways an exception becomes an answer, and
  the call of a member.

  The values are a library's own: what the engine calls of it is the record
  \<open>value_api\<close>, a parameter of every definition. \<open>'m\<close> is the machine, \<open>'v\<close> its values.
\<close>

section \<open>The values\<close>

record ('m, 'v) value_api =
  v_nil :: 'v
  v_bool :: "bool \<Rightarrow> 'v"
  is_nil :: "'v \<Rightarrow> bool"
  is_bool :: "'v \<Rightarrow> bool"
  as_bool :: "'v \<Rightarrow> bool"
  is_number :: "'v \<Rightarrow> bool"
  number_as_real :: "'v \<Rightarrow> real"
  is_integer :: "'v \<Rightarrow> bool"
  as_integer :: "'v \<Rightarrow> int"
  is_table :: "'v \<Rightarrow> bool"
  is_subroutine :: "'v \<Rightarrow> bool"
  is_host :: "'v \<Rightarrow> bool"
  is_coroutine :: "'v \<Rightarrow> bool"
  string_at :: "'m \<Rightarrow> 'v \<Rightarrow> string option"
  value_text :: "'m \<Rightarrow> 'v \<Rightarrow> string"
  new_string :: "'m \<Rightarrow> string \<Rightarrow> ('m \<times> 'v) option"
  new_table :: "'m \<Rightarrow> ('m \<times> 'v) option"
  get_at :: "'m \<Rightarrow> 'v \<Rightarrow> 'v \<Rightarrow> 'v"
  put_at :: "'m \<Rightarrow> 'v \<Rightarrow> 'v \<Rightarrow> 'v \<Rightarrow> 'm \<times> bool \<times> bool"
  new_error :: "'m \<Rightarrow> nat \<Rightarrow> string \<Rightarrow> ('m \<times> 'v) option"
  panic_text :: "'m \<Rightarrow> string \<Rightarrow> 'm option"
  panic_with :: "'m \<Rightarrow> 'v \<Rightarrow> 'm"
  register_at :: "'m \<Rightarrow> string \<Rightarrow> string \<Rightarrow> 'v \<Rightarrow> 'm \<times> bool"

text \<open>What a run of the machine answers.\<close>

datatype run_status = RUN_OK | RUN_PANIC | RUN_FAULT nat

record 'v run_result =
  run_status :: run_status
  run_value :: 'v
  run_line :: nat

section \<open>Readers\<close>

definition stringOf :: "('m, 'v) value_api \<Rightarrow> 'm \<Rightarrow> 'v \<Rightarrow> string option" where
  "stringOf api m v = string_at api m v"

definition makeString :: "('m, 'v) value_api \<Rightarrow> 'm \<Rightarrow> string \<Rightarrow> ('m \<times> 'v) option" where
  "makeString api m text = new_string api m text"

definition optNumber :: "('m, 'v) value_api \<Rightarrow> 'v list \<Rightarrow> nat \<Rightarrow> real \<Rightarrow> real" where
  "optNumber api args index fallback =
     (if index \<ge> length args \<or> \<not> is_number api (args ! index) then fallback
      else number_as_real api (args ! index))"

definition optBool :: "('m, 'v) value_api \<Rightarrow> 'v list \<Rightarrow> nat \<Rightarrow> bool \<Rightarrow> bool" where
  "optBool api args index fallback =
     (if index \<ge> length args \<or> \<not> is_bool api (args ! index) then fallback
      else as_bool api (args ! index))"

definition optString :: "('m, 'v) value_api \<Rightarrow> 'm \<Rightarrow> 'v list \<Rightarrow> nat \<Rightarrow> string \<Rightarrow> string" where
  "optString api m args index fallback =
     (if index \<ge> length args then fallback
      else case stringOf api m (args ! index) of Some text \<Rightarrow> text | None \<Rightarrow> fallback)"

text \<open>Reading a field makes its key on the machine, so it answers the machine as well.\<close>

definition field :: "('m, 'v) value_api \<Rightarrow> 'm \<Rightarrow> 'v \<Rightarrow> string \<Rightarrow> 'm \<times> 'v" where
  "field api m t name =
     (if \<not> is_table api t then (m, v_nil api)
      else case makeString api m name of
             None \<Rightarrow> (m, v_nil api)
           | Some (m, key) \<Rightarrow> (m, get_at api m t key))"

definition fieldNumber :: "('m, 'v) value_api \<Rightarrow> 'm \<Rightarrow> 'v \<Rightarrow> string \<Rightarrow> real \<Rightarrow> 'm \<times> real" where
  "fieldNumber api m t name fallback =
     (let (m, v) = field api m t name in (m, if is_number api v then number_as_real api v else fallback))"

definition fieldBool :: "('m, 'v) value_api \<Rightarrow> 'm \<Rightarrow> 'v \<Rightarrow> string \<Rightarrow> bool \<Rightarrow> 'm \<times> bool" where
  "fieldBool api m t name fallback =
     (let (m, v) = field api m t name in (m, if is_bool api v then as_bool api v else fallback))"

definition fieldString :: "('m, 'v) value_api \<Rightarrow> 'm \<Rightarrow> 'v \<Rightarrow> string \<Rightarrow> string \<Rightarrow> 'm \<times> string" where
  "fieldString api m t name fallback =
     (let (m, v) = field api m t name
      in (m, case stringOf api m v of Some text \<Rightarrow> text | None \<Rightarrow> fallback))"

section \<open>Errors\<close>

definition fail :: "('m, 'v) value_api \<Rightarrow> 'm \<Rightarrow> nat \<Rightarrow> string \<Rightarrow> 'm \<times> 'v" where
  "fail api m kind message =
     (case new_error api m kind (c_string message) of None \<Rightarrow> (m, v_nil api) | Some (m, e) \<Rightarrow> (m, e))"

definition raise :: "('m, 'v) value_api \<Rightarrow> 'm \<Rightarrow> string \<Rightarrow> 'm \<times> 'v" where
  "raise api m message =
     (case panic_text api m (c_string message) of
        None \<Rightarrow> (panic_with api m (v_nil api), v_nil api)
      | Some m \<Rightarrow> (m, v_nil api))"

text \<open>
  A body runs on the machine and may write answers; it ends by itself or by an
  exception with its text.
\<close>

type_synonym ('m, 'v) body = "'m \<Rightarrow> 'm \<times> 'v list \<times> string option"

definition guard :: "('m, 'v) value_api \<Rightarrow> 'm \<Rightarrow> ('m, 'v) body \<Rightarrow> 'm \<times> 'v list" where
  "guard api m body =
     (case body m of
        (m, answers, None) \<Rightarrow> (m, answers)
      | (m, answers, Some e) \<Rightarrow> (fst (raise api m e), answers))"

definition catchexcept :: "('m, 'v) value_api \<Rightarrow> 'm \<Rightarrow> nat \<Rightarrow> ('m, 'v) body \<Rightarrow> 'm \<times> 'v list" where
  "catchexcept api m kind body =
     (case body m of
        (m, answers, None) \<Rightarrow> (m, answers)
      | (m, answers, Some e) \<Rightarrow> (let (m, v) = fail api m kind e in (m, [v])))"

section \<open>Calling back\<close>

definition callMember ::
  "('m, 'v) value_api \<Rightarrow> ('m \<Rightarrow> 'v \<Rightarrow> 'v list \<Rightarrow> 'm \<times> 'v run_result) \<Rightarrow> 'm \<Rightarrow> 'v \<Rightarrow> string \<Rightarrow> 'v list \<Rightarrow>
     'm \<times> 'v run_result option" where
  "callMember api call m t name args =
     (if \<not> is_table api t then (m, None)
      else case makeString api m name of
             None \<Rightarrow> (m, None)
           | Some (m, key) \<Rightarrow>
               let f = get_at api m t key
               in if \<not> is_subroutine api f \<and> \<not> is_host api f then (m, None)
                  else let (m, r) = call m f args in (m, Some r))"

definition park_at :: "('m, 'v) value_api \<Rightarrow> 'm \<Rightarrow> string \<Rightarrow> string \<Rightarrow> 'v \<Rightarrow> 'm \<times> bool" where
  "park_at api m mdl name v = register_at api m mdl name v"

section \<open>What the library documents\<close>

text \<open>
  \<open>look m t s\<close> is what a table answers for a text, whatever string object carries
  it. Making a string changes no table and no older string; a table written
  under a string answers that value for its text, and nothing else changes; a
  new table is empty.
\<close>

definition string_law ::
  "('m, 'v) value_api \<Rightarrow> ('m \<Rightarrow> 'v \<Rightarrow> string \<Rightarrow> 'v) \<Rightarrow> 'm \<Rightarrow> string \<Rightarrow> 'm \<Rightarrow> 'v \<Rightarrow> bool" where
  "string_law api look m s m' k \<longleftrightarrow>
     look m' = look m \<and> string_at api m' k = Some s \<and>
     (\<forall>v x. string_at api m v = Some x \<longrightarrow> string_at api m' v = Some x)"

definition key_law ::
  "('m, 'v) value_api \<Rightarrow> ('m \<Rightarrow> 'v \<Rightarrow> string \<Rightarrow> 'v) \<Rightarrow> 'm \<Rightarrow> string \<Rightarrow> 'v \<Rightarrow> bool" where
  "key_law api look m s k \<longleftrightarrow>
     (\<forall>t. get_at api m t k = look m t s) \<and>
     (\<forall>t v m3. put_at api m t k v = (m3, True, False) \<longrightarrow>
        look m3 = (look m)(t := (look m t)(s := v)) \<and> string_at api m3 = string_at api m)"

definition table_law ::
  "('m, 'v) value_api \<Rightarrow> ('m \<Rightarrow> 'v \<Rightarrow> string \<Rightarrow> 'v) \<Rightarrow> 'm \<Rightarrow> 'm \<Rightarrow> 'v \<Rightarrow> bool" where
  "table_law api look m m' t \<longleftrightarrow>
     is_table api t \<and> string_at api m' = string_at api m \<and> look m' = (look m)(t := \<lambda>_. v_nil api)"

definition value_laws :: "('m, 'v) value_api \<Rightarrow> ('m \<Rightarrow> 'v \<Rightarrow> string \<Rightarrow> 'v) \<Rightarrow> bool" where
  "value_laws api look \<longleftrightarrow>
     (\<forall>m s m' k. new_string api m s = Some (m', k) \<longrightarrow> string_law api look m s m' k) \<and>
     (\<forall>m s k. string_at api m k = Some s \<longrightarrow> key_law api look m s k) \<and>
     (\<forall>m m' t. new_table api m = Some (m', t) \<longrightarrow> table_law api look m m' t)"

lemma new_string_law:
  assumes "value_laws api look" "new_string api m s = Some (m', k)"
  shows "look m' = look m" "string_at api m' k = Some s"
    "string_at api m v = Some x \<Longrightarrow> string_at api m' v = Some x"
proof -
  have "string_law api look m s m' k"
    using assms unfolding value_laws_def by blast
  then show "look m' = look m" "string_at api m' k = Some s"
    "string_at api m v = Some x \<Longrightarrow> string_at api m' v = Some x"
    unfolding string_law_def by blast+
qed

lemma key_laws:
  assumes "value_laws api look" "string_at api m k = Some s"
  shows "get_at api m t k = look m t s"
    "put_at api m t k v = (m3, True, False) \<Longrightarrow>
       look m3 = (look m)(t := (look m t)(s := v)) \<and> string_at api m3 = string_at api m"
proof -
  have "key_law api look m s k"
    using assms unfolding value_laws_def by blast
  then show "get_at api m t k = look m t s"
    "put_at api m t k v = (m3, True, False) \<Longrightarrow>
       look m3 = (look m)(t := (look m t)(s := v)) \<and> string_at api m3 = string_at api m"
    unfolding key_law_def by blast+
qed

lemma new_table_law:
  assumes "value_laws api look" "new_table api m = Some (m', t)"
  shows "is_table api t" "look m' = (look m)(t := \<lambda>_. v_nil api)"
  using assms unfolding value_laws_def table_law_def by blast+

text \<open>What a field reads, with nothing but the machine's memory to fail it.\<close>

lemma field_look:
  assumes "value_laws api look" "is_table api t" "\<And>m. new_string api m name \<noteq> None"
  shows "\<exists>m'. field api m t name = (m', look m t name) \<and> look m' = look m"
proof -
  obtain m' k where "new_string api m name = Some (m', k)"
    using assms(3) [of m] by auto
  then show ?thesis
    using new_string_law(1,2) [OF assms(1), of m name m' k] key_laws(1) [OF assms(1), of m' k name t] assms(2)
    by (simp add: field_def makeString_def)
qed

section \<open>A small machine\<close>

text \<open>A machine that keeps its tables in a map, on which the documented laws hold.\<close>

datatype toy_value =
  TNil | TBool bool | TNumber real | TInt int | TString string | TTable nat | TSub nat | THost bool | TCoroutine nat

record toy_machine =
  toy_tables :: "toy_value \<Rightarrow> string \<Rightarrow> toy_value"
  toy_next :: nat
  toy_said :: "string list"

definition toy_api :: "(toy_machine, toy_value) value_api" where
  "toy_api = \<lparr>v_nil = TNil, v_bool = TBool, is_nil = (\<lambda>v. v = TNil),
     is_bool = (\<lambda>v. case v of TBool b \<Rightarrow> True | _ \<Rightarrow> False), as_bool = (\<lambda>v. case v of TBool b \<Rightarrow> b | _ \<Rightarrow> False),
     is_number = (\<lambda>v. case v of TNumber r \<Rightarrow> True | TInt i \<Rightarrow> True | _ \<Rightarrow> False),
     number_as_real = (\<lambda>v. case v of TNumber r \<Rightarrow> r | TInt i \<Rightarrow> of_int i | _ \<Rightarrow> 0),
     is_integer = (\<lambda>v. case v of TInt i \<Rightarrow> True | _ \<Rightarrow> False), as_integer = (\<lambda>v. case v of TInt i \<Rightarrow> i | _ \<Rightarrow> 0),
     is_table = (\<lambda>v. case v of TTable n \<Rightarrow> True | _ \<Rightarrow> False), is_subroutine = (\<lambda>v. case v of TSub n \<Rightarrow> True | _ \<Rightarrow> False),
     is_host = (\<lambda>v. case v of THost b \<Rightarrow> True | _ \<Rightarrow> False), is_coroutine = (\<lambda>v. case v of TCoroutine n \<Rightarrow> True | _ \<Rightarrow> False),
     string_at = (\<lambda>m v. case v of TString s \<Rightarrow> Some s | _ \<Rightarrow> None), value_text = (\<lambda>m v. ''value''),
     new_string = (\<lambda>m s. Some (m, TString s)),
     new_table = (\<lambda>m. Some (m\<lparr>toy_tables := (toy_tables m)(TTable (Suc (toy_next m)) := \<lambda>_. TNil),
                               toy_next := Suc (toy_next m)\<rparr>, TTable (Suc (toy_next m)))),
     get_at = (\<lambda>m t k. case k of TString s \<Rightarrow> toy_tables m t s | _ \<Rightarrow> TNil),
     put_at = (\<lambda>m t k v. (case k of TString s \<Rightarrow> m\<lparr>toy_tables := (toy_tables m)(t := (toy_tables m t)(s := v))\<rparr> | _ \<Rightarrow> m,
                          True, False)),
     new_error = (\<lambda>m kind s. Some (m, TString s)), panic_text = (\<lambda>m s. Some (m\<lparr>toy_said := s # toy_said m\<rparr>)),
     panic_with = (\<lambda>m v. m), register_at = (\<lambda>m mdl name v. (m, True))\<rparr>"

definition toy_look :: "toy_machine \<Rightarrow> toy_value \<Rightarrow> string \<Rightarrow> toy_value" where
  "toy_look m = toy_tables m"

lemma toy_value_laws: "value_laws toy_api toy_look"
  by (auto simp: value_laws_def string_law_def key_law_def table_law_def toy_api_def toy_look_def split: toy_value.splits)

definition toy_start :: "toy_machine" where
  "toy_start = \<lparr>toy_tables = (\<lambda>_ _. TNil), toy_next = 0, toy_said = []\<rparr>"

end
