(* ===== verification/CommandLine.thy ===== *)
theory CommandLine
  imports Prelude
begin

text \<open>
  The texts the boot sequence works on (\<^verbatim>\<open>src/src/lh/Boot.cpp\<close>): the command line,
  the last component of a path, and the identity a game's save directory is
  named after.
\<close>

section \<open>Paths\<close>

definition endsWith :: "string \<Rightarrow> string \<Rightarrow> bool" where
  "endsWith s suffix \<longleftrightarrow> length s \<ge> length suffix \<and> drop (length s - length suffix) s = suffix"

text \<open>\<^verbatim>\<open>std::string::find_last_of\<close>, \<^verbatim>\<open>npos\<close> being \<^verbatim>\<open>None\<close>.\<close>

definition find_last_of :: "(char \<Rightarrow> bool) \<Rightarrow> string \<Rightarrow> nat option" where
  "find_last_of P s = (case length (dropWhile (\<lambda>c. \<not> P c) (rev s)) of 0 \<Rightarrow> None | Suc n \<Rightarrow> Some n)"

definition separator :: "char \<Rightarrow> bool" where
  "separator c \<longleftrightarrow> c = CHR ''/'' \<or> c = CHR 0x5C"

definition leaf :: "string \<Rightarrow> string" where
  "leaf path =
     (let p = rev (dropWhile separator (rev path))
      in case find_last_of separator p of None \<Rightarrow> p | Some slash \<Rightarrow> drop (Suc slash) p)"

definition identityOf :: "string \<Rightarrow> string" where
  "identityOf name =
     (let i = dropWhile (\<lambda>c. c = CHR ''.'') name;
          i = (case find_last_of (\<lambda>c. c = CHR ''.'') i of None \<Rightarrow> i | Some dot \<Rightarrow> take dot i);
          i = map (\<lambda>c. if c = CHR ''.'' then CHR ''_'' else c) i
      in if i = [] then ''lovegame'' else i)"

definition withSlashes :: "string \<Rightarrow> string" where
  "withSlashes path = map (\<lambda>c. if c = CHR 0x5C then CHR ''/'' else c) path"

text \<open>Copying a text and its terminator into a block of that many bytes.\<close>

definition copyOut :: "string \<Rightarrow> nat \<Rightarrow> string option" where
  "copyOut text capacity =
     (if text = [] \<or> length text + 1 > capacity then None else Some (text @ [CHR 0x00]))"

section \<open>The command line\<close>

record arguments =
  game :: string
  fused :: bool
  console :: bool
  dumpHostApi :: bool
  dumpPath :: string
  dapPort :: int
  signaturesPath :: string
  compileTo :: string
  embedTo :: string
  debugNames :: bool

definition default_arguments :: arguments where
  "default_arguments =
     \<lparr>game = [], fused = False, console = False, dumpHostApi = False, dumpPath = ''lhat-host.json'', dapPort = 0,
      signaturesPath = [], compileTo = [], embedTo = [], debugNames = False\<rparr>"

definition space :: "char \<Rightarrow> bool" where
  "space c \<longleftrightarrow> c \<in> set [CHR '' '', CHR 0x09, CHR 0x0A, CHR 0x0B, CHR 0x0C, CHR 0x0D]"

definition digit :: "char \<Rightarrow> bool" where
  "digit c \<longleftrightarrow> 48 \<le> (of_char c :: nat) \<and> (of_char c :: nat) \<le> 57"

definition digits_value :: "string \<Rightarrow> int" where
  "digits_value ds = foldl (\<lambda>v c. 10 * v + (of_char c - 48)) 0 ds"

text \<open>\<^verbatim>\<open>strtol\<close> in base ten, which saturates.\<close>

definition strtol10 :: "string \<Rightarrow> int" where
  "strtol10 s =
     (let s = dropWhile space s;
          negative = (s \<noteq> [] \<and> hd s = CHR ''-'');
          s = (if s \<noteq> [] \<and> (hd s = CHR ''-'' \<or> hd s = CHR ''+'') then tl s else s);
          v = digits_value (takeWhile digit s)
      in max (- (2 ^ 63)) (min (2 ^ 63 - 1) (if negative then - v else v)))"

definition starts_dash :: "string \<Rightarrow> bool" where
  "starts_dash a \<longleftrightarrow> a \<noteq> [] \<and> hd a = CHR ''-''"

text \<open>The loop over the arguments after the program's name.\<close>

fun parse_loop :: "arguments \<Rightarrow> string list \<Rightarrow> arguments" where
  "parse_loop args [] = args"
| "parse_loop args (a # rest) =
     (if a = ''--fused'' then parse_loop (args\<lparr>fused := True\<rparr>) rest
      else if a = ''--console'' then parse_loop (args\<lparr>console := True\<rparr>) rest
      else if a = ''--dump-host-api'' then
        (let args = args\<lparr>dumpHostApi := True\<rparr>
         in case rest of
              b # rest' \<Rightarrow>
                if \<not> starts_dash b then parse_loop (args\<lparr>dumpPath := b\<rparr>) rest' else parse_loop args rest
            | [] \<Rightarrow> parse_loop args rest)
      else if a = ''--debug-names'' then parse_loop (args\<lparr>debugNames := True\<rparr>) rest
      else if a = ''--dump-embedded'' then
        (case rest of b # rest' \<Rightarrow> parse_loop (args\<lparr>embedTo := b\<rparr>) rest' | [] \<Rightarrow> parse_loop args rest)
      else if a = ''--compile-game'' then
        (case rest of b # rest' \<Rightarrow> parse_loop (args\<lparr>compileTo := b\<rparr>) rest' | [] \<Rightarrow> parse_loop args rest)
      else if a = ''--dump-signatures'' then
        (case rest of b # rest' \<Rightarrow> parse_loop (args\<lparr>signaturesPath := b\<rparr>) rest' | [] \<Rightarrow> parse_loop args rest)
      else if take 6 a = ''--dap='' then
        (let port = strtol10 (drop 6 a)
         in parse_loop (args\<lparr>dapPort := if port > 0 \<and> port < 65536 then port else 0\<rparr>) rest)
      else if a = ''--'' then args
      else if game args = [] \<and> (a = [] \<or> \<not> starts_dash a) then parse_loop (args\<lparr>game := a\<rparr>) rest
      else parse_loop args rest)"

definition parseArguments :: "string list \<Rightarrow> arguments" where
  "parseArguments argv = parse_loop default_arguments (tl argv)"

section \<open>Identities\<close>

lemma find_last_of_append [simp]:
  "P c \<Longrightarrow> \<forall>d \<in> set ys. \<not> P d \<Longrightarrow> find_last_of P (xs @ c # ys) = Some (length xs)"
  by (simp add: find_last_of_def dropWhile_append)

lemma find_last_of_none [simp]: "\<forall>d \<in> set s. \<not> P d \<Longrightarrow> find_last_of P s = None"
  by (simp add: find_last_of_def dropWhile_eq_Nil_conv [THEN iffD2])

lemma find_last_of_cases:
  obtains (none) "\<forall>d \<in> set s. \<not> P d" "find_last_of P s = None"
  | (some) xs c ys where "s = xs @ c # ys" "P c" "\<forall>d \<in> set ys. \<not> P d" "find_last_of P s = Some (length xs)"
  using split_list_last_prop [of s P] find_last_of_append find_last_of_none by metis

lemma leaf_no_separator: "c \<in> set (leaf path) \<Longrightarrow> \<not> separator c"
  by (cases rule: find_last_of_cases [of "rev (dropWhile separator (rev path))" separator])
    (auto simp: leaf_def Let_def)

lemma leaf_join:
  assumes "name \<noteq> []" "\<forall>c \<in> set name. \<not> separator c" "separator s" "\<forall>c \<in> set tail. separator c"
  shows "leaf (dir @ s # name @ tail) = name"
proof -
  obtain c cs where name: "rev name = c # cs"
    using assms(1) by (cases "rev name") auto
  then have "\<not> separator c"
    using assms(2) by (metis list.set_intros(1) set_rev)
  have "dropWhile separator (rev tail @ rev name @ s # rev dir) = dropWhile separator (rev name @ s # rev dir)"
    by (rule dropWhile_append2) (use assms(4) in auto)
  also have "\<dots> = rev name @ s # rev dir"
    using name \<open>\<not> separator c\<close> by simp
  finally have "rev (dropWhile separator (rev (dir @ s # name @ tail))) = dir @ s # name"
    by simp
  then show ?thesis
    using assms(2,3) by (simp add: leaf_def)
qed

definition id_stem :: "string \<Rightarrow> string" where
  "id_stem name =
     (let i = dropWhile (\<lambda>c. c = CHR ''.'') name
      in case find_last_of (\<lambda>c. c = CHR ''.'') i of None \<Rightarrow> i | Some dot \<Rightarrow> take dot i)"

lemma identityOf_stem:
  "identityOf name = (if id_stem name = [] then ''lovegame''
     else map (\<lambda>c. if c = CHR ''.'' then CHR ''_'' else c) (id_stem name))"
  by (simp add: identityOf_def id_stem_def Let_def)

lemma id_stem_chars: "set (id_stem name) \<subseteq> set name"
  by (auto simp: id_stem_def Let_def split: option.split dest!: in_set_takeD set_dropWhileD)

lemma plain_fixed:
  assumes "i \<noteq> []" "\<forall>c \<in> set i. \<not> separator c \<and> c \<noteq> CHR ''.''"
  shows "identityOf i = i \<and> leaf i = i"
proof
  have "dropWhile (\<lambda>c. c = CHR ''.'') i = i" "dropWhile separator (rev i) = rev i"
    using assms hd_in_set [OF assms(1)] last_in_set [OF assms(1)]
    by (auto simp: dropWhile_eq_self_iff hd_rev)
  moreover have "map (\<lambda>c. if c = CHR ''.'' then CHR ''_'' else c) i = i"
    using assms(2) by (intro map_idI) auto
  ultimately show "identityOf i = i" "leaf i = i"
    using assms by (simp_all add: identityOf_stem id_stem_def leaf_def)
qed

text \<open>Whatever path a game is started from, the identity its save directory is named after
  is not empty and is a single plain name: it holds no separator and no dot, so it can name neither
  a parent directory nor a place below another one.\<close>

theorem identity_plain:
  "(let i = identityOf (leaf path) in
     i \<noteq> [] \<and> (\<forall>c \<in> set i. \<not> separator c \<and> c \<noteq> CHR ''.'') \<and> identityOf i = i \<and> leaf i = i)"
proof -
  let ?i = "identityOf (leaf path)"
  have nonempty: "?i \<noteq> []"
    by (simp add: identityOf_stem)
  have chars: "\<not> separator c \<and> c \<noteq> CHR ''.''" if "c \<in> set ?i" for c
  proof (cases "id_stem (leaf path) = []")
    case True
    then show ?thesis
      using that by (auto simp: identityOf_stem separator_def)
  next
    case False
    then have "c \<in> (\<lambda>c. if c = CHR ''.'' then CHR ''_'' else c) ` set (id_stem (leaf path))"
      using that by (simp add: identityOf_stem)
    then show ?thesis
      using id_stem_chars [of "leaf path"] leaf_no_separator [of _ path] by (auto simp: separator_def)
  qed
  show ?thesis
    using nonempty chars plain_fixed [of ?i] by (simp add: Let_def)
qed

theorem identity_plain_witness:
  "identityOf (leaf ''/home/me/..my.game.love/'') = ''my_game'' \<and> list_all (\<lambda>c. \<not> separator c) ''my_game''"
proof -
  have "identityOf (leaf ''/home/me/..my.game.love/'') = ''my_game''"
    by (simp add: identityOf_def leaf_def find_last_of_def separator_def)
  then show ?thesis
    using identity_plain [of "''/home/me/..my.game.love/''"] by (simp add: Let_def list_all_iff)
qed

section \<open>Reading the command line\<close>

lemma of_char_digit: "n < 10 \<Longrightarrow> (of_char (char_of (48 + n :: nat)) :: nat) = 48 + n"
  by simp

lemma of_char_digit_int: "n < 10 \<Longrightarrow> (of_char (char_of (48 + n :: nat)) :: int) = 48 + int n"
  using of_char_digit [of n] by (metis of_nat_add of_nat_numeral of_nat_of_char)

lemma digit_decimal: "c \<in> set (decimal n) \<Longrightarrow> digit c"
proof (induction n rule: decimal.induct)
  case (1 n)
  then show ?case
    by (subst (asm) decimal.simps) (auto simp: digit_def split: if_splits)
qed

lemma digits_value_decimal: "digits_value (decimal n) = int n"
proof (induction n rule: decimal.induct)
  case (1 n)
  show ?case
  proof (cases "n < 10")
    case True
    then show ?thesis
      using of_char_digit_int [of n] by (subst decimal.simps) (simp add: digits_value_def)
  next
    case False
    then have "digits_value (decimal n) = 10 * digits_value (decimal (n div 10)) + int (n mod 10)"
      using of_char_digit_int [of "n mod 10"] by (subst decimal.simps) (simp add: digits_value_def)
    then show ?thesis
      using 1 [OF False] by presburger
  qed
qed

lemma decimal_not_nil [simp]: "decimal n \<noteq> []"
  by (subst decimal.simps) simp

lemma strtol10_decimal:
  assumes "n < 2 ^ 63"
  shows "strtol10 (decimal n) = int n"
proof -
  obtain c cs where d: "decimal n = c # cs"
    by (cases "decimal n") auto
  have "digit c"
    using digit_decimal [of c n] d by simp
  then have "\<not> space c" "c \<noteq> CHR ''-''" "c \<noteq> CHR ''+''"
    by (auto simp: digit_def space_def)
  moreover have "takeWhile digit (decimal n) = decimal n"
    using digit_decimal [of _ n] by simp
  moreover have "int n < 2 ^ 63"
    using assms by (metis of_nat_less_iff of_nat_numeral of_nat_power)
  ultimately show ?thesis
    using d digits_value_decimal [of n] by (simp add: strtol10_def)
qed

text \<open>The command line that asks for the given arguments.\<close>

definition option_with :: "string \<Rightarrow> string \<Rightarrow> string list" where
  "option_with opt v = (if v = [] then [] else [opt, v])"

definition flag :: "string \<Rightarrow> bool \<Rightarrow> string list" where
  "flag opt b = (if b then [opt] else [])"

definition render :: "arguments \<Rightarrow> string list" where
  "render a =
     flag ''--fused'' (fused a) @ flag ''--console'' (console a) @ flag ''--debug-names'' (debugNames a) @
     (if dumpHostApi a then [''--dump-host-api'', dumpPath a] else []) @
     option_with ''--dump-embedded'' (embedTo a) @ option_with ''--compile-game'' (compileTo a) @
     option_with ''--dump-signatures'' (signaturesPath a) @
     (if dapPort a = 0 then [] else [''--dap='' @ decimal (nat (dapPort a))]) @
     (if game a = [] then [] else [game a])"

definition askable :: "arguments \<Rightarrow> bool" where
  "askable a \<longleftrightarrow> \<not> starts_dash (game a) \<and> 0 \<le> dapPort a \<and> dapPort a < 65536 \<and>
     (if dumpHostApi a then \<not> starts_dash (dumpPath a) else dumpPath a = dumpPath default_arguments)"

lemma parse_keeps:
  assumes "P a"
    and "\<And>a. P a \<Longrightarrow> P (a\<lparr>fused := True\<rparr>)" "\<And>a. P a \<Longrightarrow> P (a\<lparr>console := True\<rparr>)"
      "\<And>a. P a \<Longrightarrow> P (a\<lparr>debugNames := True\<rparr>)" "\<And>a. P a \<Longrightarrow> P (a\<lparr>dumpHostApi := True\<rparr>)"
      "\<And>a b. P a \<Longrightarrow> \<not> starts_dash b \<Longrightarrow> P (a\<lparr>dumpHostApi := True, dumpPath := b\<rparr>)"
      "\<And>a b. P a \<Longrightarrow> P (a\<lparr>embedTo := b\<rparr>)" "\<And>a b. P a \<Longrightarrow> P (a\<lparr>compileTo := b\<rparr>)"
      "\<And>a b. P a \<Longrightarrow> P (a\<lparr>signaturesPath := b\<rparr>)"
      "\<And>a p. P a \<Longrightarrow> 0 \<le> p \<Longrightarrow> p < 65536 \<Longrightarrow> P (a\<lparr>dapPort := p\<rparr>)"
      "\<And>a g. P a \<Longrightarrow> \<not> starts_dash g \<Longrightarrow> P (a\<lparr>game := g\<rparr>)"
  shows "P (parse_loop a args)"
  using assms(1)
proof (induction a args rule: parse_loop.induct)
  case (2 a b rest)
  have nil: "\<not> starts_dash []"
    by (simp add: starts_dash_def)
  consider (fused) "b = ''--fused''" | (console) "b = ''--console''" | (api) "b = ''--dump-host-api''"
    | (names) "b = ''--debug-names''" | (embed) "b = ''--dump-embedded''" | (compile) "b = ''--compile-game''"
    | (sigs) "b = ''--dump-signatures''"
    | (other) "b \<noteq> ''--fused''" "b \<noteq> ''--console''" "b \<noteq> ''--dump-host-api''" "b \<noteq> ''--debug-names''"
      "b \<noteq> ''--dump-embedded''" "b \<noteq> ''--compile-game''" "b \<noteq> ''--dump-signatures''"
    by blast
  then show ?case
  proof cases
    case other
    then have "parse_loop a (b # rest) =
      (if take 6 b = ''--dap='' then
         parse_loop (a\<lparr>dapPort := if strtol10 (drop 6 b) > 0 \<and> strtol10 (drop 6 b) < 65536 then strtol10 (drop 6 b) else 0\<rparr>) rest
       else if b = ''--'' then a
       else if game a = [] \<and> (b = [] \<or> \<not> starts_dash b) then parse_loop (a\<lparr>game := b\<rparr>) rest
       else parse_loop a rest)"
      by (simp add: Let_def)
    then show ?thesis
      using 2 other nil assms(10,11) by auto
  qed (use 2 assms(2-9) in \<open>auto simp: Let_def split: list.split\<close>)
qed simp

lemma parse_flags [simp]:
  "parse_loop a (flag ''--fused'' b @ rest) = parse_loop (if b then a\<lparr>fused := True\<rparr> else a) rest"
  "parse_loop a (flag ''--console'' b @ rest) = parse_loop (if b then a\<lparr>console := True\<rparr> else a) rest"
  "parse_loop a (flag ''--debug-names'' b @ rest) = parse_loop (if b then a\<lparr>debugNames := True\<rparr> else a) rest"
  by (simp_all add: flag_def)

lemma parse_options [simp]:
  "parse_loop a (option_with ''--dump-embedded'' v @ rest) = parse_loop (if v = [] then a else a\<lparr>embedTo := v\<rparr>) rest"
  "parse_loop a (option_with ''--compile-game'' v @ rest) = parse_loop (if v = [] then a else a\<lparr>compileTo := v\<rparr>) rest"
  "parse_loop a (option_with ''--dump-signatures'' v @ rest) = parse_loop (if v = [] then a else a\<lparr>signaturesPath := v\<rparr>) rest"
  by (simp_all add: option_with_def)

lemma parse_dap:
  "0 < n \<Longrightarrow> n < 65536 \<Longrightarrow> parse_loop a ((''--dap='' @ decimal n) # rest) = parse_loop (a\<lparr>dapPort := int n\<rparr>) rest"
  using strtol10_decimal [of n] by (simp add: Let_def)

lemma parse_game:
  "g \<noteq> [] \<Longrightarrow> \<not> starts_dash g \<Longrightarrow> game a = [] \<Longrightarrow> parse_loop a [g] = a\<lparr>game := g\<rparr>"
  by (cases g) (auto simp: starts_dash_def)

lemma parse_rendered:
  assumes "askable a" "tail = [] \<or> hd tail = ''--''"
  shows "parse_loop default_arguments (render a @ tail) = a"
proof -
  define g where "g = game a"
  define d where "d = dapPort a"
  have stop: "parse_loop b tail = b" for b
    using assms(2) by (cases tail) simp_all
  have game: "parse_loop b ((if g = [] then [] else [g]) @ tail) = b\<lparr>game := g\<rparr>" if "game b = []" for b
  proof (cases "g = []")
    case False
    then have "parse_loop b (g # tail) = parse_loop (b\<lparr>game := g\<rparr>) tail"
      using that assms(1) unfolding g_def by (cases "game a") (auto simp: starts_dash_def askable_def)
    then show ?thesis
      using False stop by simp
  qed (use that stop in simp)
  have dap: "parse_loop b ((if d = 0 then [] else [''--dap='' @ decimal (nat d)]) @ rest) = parse_loop (b\<lparr>dapPort := d\<rparr>) rest"
    if "dapPort b = 0" for b rest
    using that assms(1) parse_dap [of "nat d" b rest] unfolding d_def by (cases b) (auto simp: askable_def)
  have api: "parse_loop b ((if dumpHostApi a then [''--dump-host-api'', dumpPath a] else []) @ rest) =
      parse_loop (b\<lparr>dumpHostApi := dumpHostApi a, dumpPath := dumpPath a\<rparr>) rest"
    if "dumpHostApi b = False" "dumpPath b = dumpPath default_arguments" for b rest
    using that assms(1) by (cases b) (auto simp: askable_def split: if_splits)
  have "parse_loop default_arguments (render a @ tail) =
    \<lparr>game = g, fused = fused a, console = console a, dumpHostApi = dumpHostApi a, dumpPath = dumpPath a, dapPort = d,
      signaturesPath = signaturesPath a, compileTo = compileTo a, embedTo = embedTo a, debugNames = debugNames a\<rparr>"
    unfolding render_def g_def [symmetric] d_def [symmetric] append_assoc
    by (simp add: api dap game default_arguments_def del: parse_loop.simps)
  then show ?thesis
    by (simp add: g_def d_def)
qed

lemma parsed_askable: "askable (parseArguments argv)"
proof -
  have "askable default_arguments"
    by (simp add: askable_def default_arguments_def starts_dash_def)
  then show ?thesis
    unfolding parseArguments_def
    by (rule parse_keeps) (auto simp: askable_def default_arguments_def starts_dash_def split: if_splits)
qed

text \<open>Claim C27. Every combination of options and game that can be asked for is read off its command
  line exactly, and whatever follows a separate \<open>--\<close> is not read; and what is read from any
  command line is such a combination, so the debug port is a port and the game is no option.\<close>

theorem parse_render:
  assumes "askable a"
  shows "parseArguments (program # render a) = a \<and> parseArguments (program # render a @ ''--'' # rest) = a \<and>
    askable (parseArguments argv)"
  using parse_rendered [OF assms, of "[]"] parse_rendered [OF assms, of "''--'' # rest"] parsed_askable
  by (simp add: parseArguments_def)

definition example_arguments :: arguments where
  "example_arguments = default_arguments\<lparr>game := ''game/main.lh'', fused := True, dumpHostApi := True,
     dumpPath := ''api.json'', dapPort := 4711, compileTo := ''-out''\<rparr>"

theorem parse_render_witness:
  "parseArguments (''lovec'' # render example_arguments) = example_arguments \<and> dapPort example_arguments = 4711"
proof -
  have "askable example_arguments"
    by (simp add: askable_def example_arguments_def default_arguments_def starts_dash_def)
  then show ?thesis
    using parse_render [of example_arguments "''lovec''"] by (simp add: example_arguments_def default_arguments_def)
qed

end
