(* ===== verification/BootScript.thy ===== *)
theory BootScript
  imports Values CommandLine
begin

text \<open>
  What the boot sequence reads from a game and hands to it
  (\<^verbatim>\<open>src/src/lh/Boot.cpp\<close>): the list of callbacks and the table of handlers built from
  it, the check of a game's exports, \<^verbatim>\<open>conf.lton\<close>, and the exit code of a run; and the
  loader that serves the units (\<^verbatim>\<open>src/src/lh/PhysfsLoader.cpp\<close>).
\<close>

section \<open>Callbacks\<close>

definition callbacks :: "(string \<times> string) list" where
  "callbacks =
    [(''load'', ''p^;''),
     (''update'', ''p^number^;''),
     (''draw'', ''p^;''),
     (''quit'', ''p^ -> bool^;''),
     (''keypressed'', ''p^string^, string^, bool^;''),
     (''keyreleased'', ''p^string^, string^;''),
     (''textinput'', ''p^string^;''),
     (''mousemoved'', ''p^number^, number^, number^, number^, bool^;''),
     (''mousepressed'', ''p^number^, number^, number^, bool^, number^;''),
     (''mousereleased'', ''p^number^, number^, number^, bool^, number^;''),
     (''wheelmoved'', ''p^number^, number^, number^, number^, string^;''),
     (''resize'', ''p^number^, number^;''),
     (''focus'', ''p^bool^;''),
     (''mousefocus'', ''p^bool^;''),
     (''visible'', ''p^bool^;''),
     (''joystickpressed'', ''p^love.joystick.Joystick, number^;''),
     (''joystickreleased'', ''p^love.joystick.Joystick, number^;''),
     (''joystickaxis'', ''p^love.joystick.Joystick, number^, number^;''),
     (''joystickhat'', ''p^love.joystick.Joystick, number^, string^;''),
     (''joystickadded'', ''p^love.joystick.Joystick;''),
     (''joystickremoved'', ''p^love.joystick.Joystick;''),
     (''gamepadpressed'', ''p^love.joystick.Joystick, string^;''),
     (''gamepadreleased'', ''p^love.joystick.Joystick, string^;''),
     (''gamepadaxis'', ''p^love.joystick.Joystick, string^, number^;''),
     (''touchpressed'', ''p^number^, number^, number^, number^, number^, number^, ...;''),
     (''touchreleased'', ''p^number^, number^, number^, number^, number^, number^, ...;''),
     (''touchmoved'', ''p^number^, number^, number^, number^, number^, number^, ...;''),
     (''sensorupdated'', ''p^string^, number^, number^, number^;''),
     (''threaderror'', ''p^string^;''),
     (''filedropped'', ''p^string^;''),
     (''directorydropped'', ''p^string^;'')]"

text \<open>The type of the table of handlers, spelt from the list.\<close>

fun signature_loop :: "string \<Rightarrow> bool \<Rightarrow> (string \<times> string) list \<Rightarrow> string" where
  "signature_loop acc first [] = acc"
| "signature_loop acc first ((name, sig) # rest) =
     signature_loop (acc @ (if first then [] else '', '') @ name @ '' : '' @ sig) False rest"

definition handlersSignature :: string where
  "handlersSignature = signature_loop ''f^ -> t^{ '' True callbacks @ '' };''"

text \<open>
  What a unit says of its exports: the text of a type, if the name is exported,
  and whether it conforms to a signature.
\<close>

record unit_info =
  unit_path :: string
  export_type :: "string \<Rightarrow> string option"
  export_conforms :: "string \<Rightarrow> string \<Rightarrow> bool"

fun check_loop :: "unit_info \<Rightarrow> (string \<times> string) list \<Rightarrow> string \<Rightarrow> string" where
  "check_loop u [] problems = problems"
| "check_loop u ((name, sig) # rest) problems =
     (case export_type u name of
        None \<Rightarrow> check_loop u rest problems
      | Some spelt \<Rightarrow>
          if export_conforms u name sig then check_loop u rest problems
          else check_loop u rest
            (problems @ unit_path u @ '': error: '' @ name @ '' is '' @ spelt @
             '', but a love callback of that name is '' @ sig @ [CHR 0x0A]))"

definition checkCallbacks :: "unit_info \<Rightarrow> string" where
  "checkCallbacks u = check_loop u callbacks []"

text \<open>The table of handlers. A host function is made by the machine; \<open>quit\<close> gets one of its own.\<close>

fun handlers_loop ::
  "('m, 'v) value_api \<Rightarrow> ('m \<Rightarrow> bool \<Rightarrow> ('m \<times> 'v) option) \<Rightarrow> 'v option \<Rightarrow> 'v \<Rightarrow> (string \<times> string) list \<Rightarrow> 'm \<Rightarrow> 'm \<times> bool" where
  "handlers_loop api make_host exported t [] m = (m, True)"
| "handlers_loop api make_host exported t ((name, sig) # rest) m =
     (case makeString api m name of
        None \<Rightarrow> (m, False)
      | Some (m, key) \<Rightarrow>
          let member = (case exported of None \<Rightarrow> v_nil api | Some g \<Rightarrow> get_at api m g key)
          in case (if is_subroutine api member then Some (m, member) else make_host m (name = ''quit'')) of
               None \<Rightarrow> (m, False)
             | Some (m, member) \<Rightarrow>
                 let (m, done_ok, refused) = put_at api m t key member
                 in if \<not> done_ok \<or> refused then (m, False)
                    else handlers_loop api make_host exported t rest m)"

definition buildHandlers ::
  "('m, 'v) value_api \<Rightarrow> ('m \<Rightarrow> bool \<Rightarrow> ('m \<times> 'v) option) \<Rightarrow> 'v \<Rightarrow> 'm \<Rightarrow> 'm \<times> 'v option" where
  "buildHandlers api make_host g m =
     (case new_table api m of
        None \<Rightarrow> (m, None)
      | Some (m, t) \<Rightarrow>
          let (m, built) = handlers_loop api make_host (if is_table api g then Some g else None) t callbacks m
          in if \<not> built then (m, None)
             else let (m, parked) = park_at api m ''love.boot'' ''handlers'' t
                  in (m, if parked then Some t else None))"

section \<open>The configuration\<close>

datatype boot_module =
    M_audio | M_data | M_event | M_filesystem | M_font | M_graphics | M_image | M_joystick | M_keyboard | M_math
  | M_mouse | M_sensor | M_physics | M_sound | M_system | M_thread | M_timer | M_touch | M_video | M_window

fun module_key :: "boot_module \<Rightarrow> string" where
  "module_key M_audio = ''audio''"
| "module_key M_data = ''data''"
| "module_key M_event = ''event''"
| "module_key M_filesystem = ''filesystem''"
| "module_key M_font = ''font''"
| "module_key M_graphics = ''graphics''"
| "module_key M_image = ''image''"
| "module_key M_joystick = ''joystick''"
| "module_key M_keyboard = ''keyboard''"
| "module_key M_math = ''math''"
| "module_key M_mouse = ''mouse''"
| "module_key M_sensor = ''sensor''"
| "module_key M_physics = ''physics''"
| "module_key M_sound = ''sound''"
| "module_key M_system = ''system''"
| "module_key M_thread = ''thread''"
| "module_key M_timer = ''timer''"
| "module_key M_touch = ''touch''"
| "module_key M_video = ''video''"
| "module_key M_window = ''window''"

text \<open>The switches in the order they are read.\<close>

definition module_order :: "boot_module list" where
  "module_order =
     [M_audio, M_data, M_event, M_filesystem, M_font, M_graphics, M_image, M_joystick, M_keyboard, M_math,
      M_mouse, M_physics, M_sensor, M_sound, M_system, M_thread, M_timer, M_touch, M_video, M_window]"

record 'v conf =
  identity :: string
  appendidentity :: bool
  version :: string
  conf_console :: bool
  window_title :: string
  window_width :: int
  window_height :: int
  window_settings :: 'v
  window_wanted :: bool
  modules :: "boot_module \<Rightarrow> bool"

definition default_conf :: "('m, 'v) value_api \<Rightarrow> string \<Rightarrow> 'v conf" where
  "default_conf api love_version =
     \<lparr>identity = [], appendidentity = False, version = love_version, conf_console = False, window_title = ''Untitled'',
      window_width = 800, window_height = 600, window_settings = v_nil api, window_wanted = True, modules = (\<lambda>_. True)\<rparr>"

text \<open>The conversion of a \<^verbatim>\<open>double\<close> to \<^verbatim>\<open>int\<close> drops the fraction and is only defined in range.\<close>

definition to_int :: "real \<Rightarrow> int result" where
  "to_int r =
     (let i = (if r \<ge> 0 then \<lfloor>r\<rfloor> else \<lceil>r\<rceil>)
      in if i < - (2 ^ 31) \<or> i \<ge> 2 ^ 31 then Inl (Undefined_behaviour ''double out of the range of int'') else Inr i)"

fun read_modules ::
  "('m, 'v) value_api \<Rightarrow> 'v \<Rightarrow> boot_module list \<Rightarrow> 'm \<Rightarrow> (boot_module \<Rightarrow> bool) \<Rightarrow> 'm \<times> (boot_module \<Rightarrow> bool)" where
  "read_modules api t [] m f = (m, f)"
| "read_modules api t (k # ks) m f =
     (let (m, b) = fieldBool api m t (module_key k) True in read_modules api t ks m (f(k := b)))"

definition read_window :: "('m, 'v) value_api \<Rightarrow> 'm \<Rightarrow> 'v \<Rightarrow> 'v conf \<Rightarrow> ('m \<times> 'v conf) result" where
  "read_window api m window c =
     (let (m, title) = fieldString api m window ''title'' (window_title c);
          (m, width) = fieldNumber api m window ''width'' (of_int (window_width c))
      in bind_result (to_int width) (\<lambda>width.
           let (m, height) = fieldNumber api m window ''height'' (of_int (window_height c))
           in bind_result (to_int height) (\<lambda>height.
                Inr (m, c\<lparr>window_title := title, window_width := width, window_height := height,
                           window_settings := window\<rparr>))))"

definition conf_head :: "('m, 'v) value_api \<Rightarrow> 'm \<Rightarrow> 'v \<Rightarrow> 'v conf \<Rightarrow> 'm \<times> 'v conf" where
  "conf_head api m t c =
     (let (m, i) = fieldString api m t ''identity'' (identity c);
          (m, a) = fieldBool api m t ''appendidentity'' (appendidentity c);
          (m, v) = fieldString api m t ''version'' (version c);
          (m, b) = fieldBool api m t ''console'' (conf_console c)
      in (m, c\<lparr>identity := i, appendidentity := a, version := v, conf_console := b\<rparr>))"

text \<open>A window that is \<^verbatim>\<open>nil\<close> is looked at once more, and nothing is done about it.\<close>

definition conf_window :: "('m, 'v) value_api \<Rightarrow> 'm \<Rightarrow> 'v \<Rightarrow> 'v conf \<Rightarrow> ('m \<times> 'v conf) result" where
  "conf_window api m t c =
     (let (m, window) = field api m t ''window''
      in if is_table api window then read_window api m window c
         else
           let (m, w) = field api m t ''window'';
               m = (if is_nil api w then fst (field api m t ''modules'') else m)
           in Inr (m, c))"

definition conf_modules :: "('m, 'v) value_api \<Rightarrow> 'm \<Rightarrow> 'v \<Rightarrow> 'v conf \<Rightarrow> 'm \<times> 'v conf" where
  "conf_modules api m t c =
     (let (m, ms) = field api m t ''modules''
      in if is_table api ms
         then let (m, f) = read_modules api ms module_order m (modules c) in (m, c\<lparr>modules := f\<rparr>)
         else (m, c))"

definition readConf :: "('m, 'v) value_api \<Rightarrow> 'm \<Rightarrow> 'v \<Rightarrow> 'v conf \<Rightarrow> ('m \<times> 'v conf) result" where
  "readConf api m t c =
     (if \<not> is_table api t then Inr (m, c)
      else
        let (m, c) = conf_head api m t c
        in bind_result (conf_window api m t c) (\<lambda>(m, c). Inr (conf_modules api m t c)))"

section \<open>The exit code\<close>

definition LOVE_LH_RESTART :: int where
  "LOVE_LH_RESTART = - 0x4c48"

text \<open>A 64-bit integer converted to \<^verbatim>\<open>int\<close> keeps its low 32 bits.\<close>

definition cast_int :: "int \<Rightarrow> int" where
  "cast_int i = (i + 2 ^ 31) mod 2 ^ 32 - 2 ^ 31"

definition exitCodeOf :: "('m, 'v) value_api \<Rightarrow> 'm \<Rightarrow> 'v \<Rightarrow> int" where
  "exitCodeOf api m v =
     (case stringOf api m v of
        Some text \<Rightarrow> if c_string text = ''restart'' then LOVE_LH_RESTART
                     else if is_integer api v then cast_int (as_integer api v) else 0
      | None \<Rightarrow> if is_integer api v then cast_int (as_integer api v) else 0)"

section \<open>The loader\<close>

text \<open>
  \<open>held\<close> are the units the engine embeds; the file system answers whether a path is a
  file and what it reads, if it can. \<open>binary\<close> collects the units that came compiled.
\<close>

record loader =
  held :: "string \<Rightarrow> string option"
  binary :: "string list"

record filesystem =
  is_file :: "string \<Rightarrow> bool"
  file_bytes :: "string \<Rightarrow> string option"

definition new_loader :: loader where
  "new_loader = \<lparr>held = (\<lambda>_. None), binary = []\<rparr>"

definition hold :: "string \<Rightarrow> string \<Rightarrow> loader \<Rightarrow> loader" where
  "hold path text l = l\<lparr>held := (held l)(path \<mapsto> text)\<rparr>"

definition isHeld :: "string \<Rightarrow> loader \<Rightarrow> bool" where
  "isHeld path l \<longleftrightarrow> held l path \<noteq> None"

definition exists_unit :: "filesystem option \<Rightarrow> string \<Rightarrow> loader \<Rightarrow> bool" where
  "exists_unit fs path l =
     (if isHeld path l then True
      else case fs of None \<Rightarrow> False | Some fs \<Rightarrow> is_file fs (c_string path))"

definition isBinary :: "string \<Rightarrow> loader \<Rightarrow> bool" where
  "isBinary path l \<longleftrightarrow> path \<in> set (binary l)"

definition copyOf :: "allocator \<Rightarrow> string \<Rightarrow> string option" where
  "copyOf new_ok text = (if new_ok (length text + 1) then Some text else None)"

definition note_binary :: "(string \<Rightarrow> bool) \<Rightarrow> string \<Rightarrow> string \<Rightarrow> loader \<Rightarrow> loader" where
  "note_binary is_binary path text l =
     (if is_binary text then l\<lparr>binary := List.insert path (binary l)\<rparr> else l)"

definition loadUnit ::
  "(string \<Rightarrow> bool) \<Rightarrow> allocator \<Rightarrow> filesystem option \<Rightarrow> string \<Rightarrow> loader \<Rightarrow> loader \<times> string option" where
  "loadUnit is_binary new_ok fs path l =
     (case held l path of
        Some text \<Rightarrow> (note_binary is_binary path text l, copyOf new_ok text)
      | None \<Rightarrow>
          (case fs of
             None \<Rightarrow> (l, None)
           | Some fs \<Rightarrow>
               (case file_bytes fs path of
                  None \<Rightarrow> (l, None)
                | Some text \<Rightarrow> (note_binary is_binary path text l, copyOf new_ok text))))"

section \<open>The table of handlers answers every callback\<close>

lemma callbacks_distinct: "distinct (map fst callbacks)"
  by (simp add: callbacks_def)

lemma check_loop_empty:
  "check_loop u cbs problems = [] \<longleftrightarrow>
     problems = [] \<and> (\<forall>(name, sig) \<in> set cbs. export_type u name = None \<or> export_conforms u name sig)"
  by (induction u cbs problems rule: check_loop.induct) (auto split: option.split)

lemma signature_loop_eq:
  "signature_loop acc first cbs =
     acc @ concat (map (\<lambda>(i, name, sig). (if first \<and> i = 0 then [] else '', '') @ name @ '' : '' @ sig)
                    (List.enumerate 0 cbs))"
proof -
  have "signature_loop acc False cbs = acc @ concat (map (\<lambda>(name, sig). '', '' @ name @ '' : '' @ sig) cbs)" for acc cbs
    by (induction cbs arbitrary: acc) (auto simp: split_def)
  moreover have "map (\<lambda>(i, name, sig). (if first \<and> i = 0 then [] else '', '') @ name @ '' : '' @ sig) (List.enumerate (Suc n) cbs) =
      map (\<lambda>(name, sig). '', '' @ name @ '' : '' @ sig) cbs" for n cbs
    by (induction cbs arbitrary: n) auto
  ultimately show ?thesis
    by (cases cbs) auto
qed

text \<open>The member a callback gets: the game's own, or a host function.\<close>

definition handler_of ::
  "('m, 'v) value_api \<Rightarrow> ('m \<Rightarrow> 'v \<Rightarrow> string \<Rightarrow> 'v) \<Rightarrow> (bool \<Rightarrow> 'v) \<Rightarrow> 'm \<Rightarrow> 'v \<Rightarrow> string \<Rightarrow> 'v" where
  "handler_of api look noop m g name =
     (if is_table api g \<and> is_subroutine api (look m g name) then look m g name else noop (name = ''quit''))"

lemma handlers_loop_look:
  assumes laws: "value_laws api look" and nil: "\<not> is_subroutine api (v_nil api)"
    and host: "\<And>m b. \<exists>m'. make_host m b = Some (m', noop b) \<and> look m' = look m \<and> string_at api m' = string_at api m"
    and strings: "\<And>m s. new_string api m s \<noteq> None"
    and puts: "\<And>m t k v. snd (put_at api m t k v) = (True, False)"
    and exported: "exported = (if is_table api g then Some g else None)" and other: "t \<noteq> g"
  shows "distinct (map fst cbs) \<Longrightarrow> \<exists>m'. handlers_loop api make_host exported t cbs m = (m', True) \<and>
    (\<forall>name. look m' t name = (if name \<in> fst ` set cbs then handler_of api look noop m g name else look m t name)) \<and>
    look m' g = look m g"
proof (induction cbs arbitrary: m)
  case (Cons cb cbs)
  obtain name sig where cb: "cb = (name, sig)"
    by (cases cb)
  obtain m1 key where m1: "new_string api m name = Some (m1, key)"
    using strings [of m name] by auto
  note made = new_string_law(1,2) [OF laws m1]
  define member where "member = (case exported of None \<Rightarrow> v_nil api | Some g \<Rightarrow> get_at api m1 g key)"
  have member: "is_table api g \<Longrightarrow> member = look m g name" "\<not> is_table api g \<Longrightarrow> member = v_nil api"
    using key_laws(1) [OF laws made(2)] made(1) exported by (simp_all add: member_def)
  define h where "h = handler_of api look noop m g name"
  have "\<exists>m2. (if is_subroutine api member then Some (m1, member) else make_host m1 (name = ''quit'')) = Some (m2, h) \<and>
      look m2 = look m \<and> string_at api m2 = string_at api m1"
    using host [of m1 "name = ''quit''"] made(1) member nil by (auto simp: h_def handler_of_def)
  then obtain m2 where m2:
    "(if is_subroutine api member then Some (m1, member) else make_host m1 (name = ''quit'')) = Some (m2, h)"
    "look m2 = look m" "string_at api m2 = string_at api m1"
    by blast
  obtain m3 where m3: "put_at api m2 t key h = (m3, True, False)"
    using puts [of m2 t key h] by (metis prod.collapse)
  have look3: "look m3 = (look m)(t := (look m t)(name := h))"
    using key_laws(2) [OF laws _ m3] m2(2,3) made(2) by simp
  have same: "handler_of api look noop m3 g n = handler_of api look noop m g n" for n
    using look3 other by (simp add: handler_of_def)
  obtain m' where m': "handlers_loop api make_host exported t cbs m3 = (m', True)"
    "\<And>n. look m' t n = (if n \<in> fst ` set cbs then handler_of api look noop m3 g n else look m3 t n)"
    "look m' g = look m3 g"
    using Cons.IH [of m3] Cons.prems by auto
  have "handlers_loop api make_host exported t (cb # cbs) m = (m', True)"
    using cb m1 m2(1) [unfolded member_def] m3 m'(1) by (simp add: makeString_def Let_def split del: if_split)
  moreover have "look m' t n = (if n \<in> fst ` set (cb # cbs) then handler_of api look noop m g n else look m t n)" for n
    using m'(2) [of n] look3 cb Cons.prems same by (auto simp: h_def)
  ultimately show ?case
    using m'(3) look3 other by auto
qed simp

text \<open>What the machine documents of its host functions and of its tables while memory lasts.\<close>

definition room_laws ::
  "('m, 'v) value_api \<Rightarrow> ('m \<Rightarrow> 'v \<Rightarrow> string \<Rightarrow> 'v) \<Rightarrow> ('m \<Rightarrow> bool \<Rightarrow> ('m \<times> 'v) option) \<Rightarrow> (bool \<Rightarrow> 'v) \<Rightarrow> bool" where
  "room_laws api look make_host noop \<longleftrightarrow>
     \<not> is_subroutine api (v_nil api) \<and>
     (\<forall>m b. \<exists>m'. make_host m b = Some (m', noop b) \<and> look m' = look m \<and> string_at api m' = string_at api m) \<and>
     (\<forall>m s. new_string api m s \<noteq> None) \<and> (\<forall>m. new_table api m \<noteq> None) \<and>
     (\<forall>m t k v. snd (put_at api m t k v) = (True, False)) \<and>
     (\<forall>m name which v. \<exists>m'. register_at api m name which v = (m', True) \<and> look m' = look m)"

text \<open>The table of handlers has a member for every callback and for nothing else: the game's
  own subroutine where its module exports one under that name, and otherwise a host function that does
  nothing, the one of \<open>quit\<close> answering that the quit is not vetoed. The game's table is not changed.\<close>

theorem handlers_complete:
  assumes "value_laws api look" "room_laws api look make_host noop"
    "\<And>m m' t. new_table api m = Some (m', t) \<Longrightarrow> t \<noteq> g"
  shows "\<exists>m' t. buildHandlers api make_host g m = (m', Some t) \<and> look m' g = look m g \<and>
    look m' t = (\<lambda>name. if name \<in> fst ` set callbacks then handler_of api look noop m g name else v_nil api)"
proof -
  obtain m1 t where m1: "new_table api m = Some (m1, t)"
    using assms(2) unfolding room_laws_def by (metis not_None_eq surj_pair)
  then have t: "t \<noteq> g" and look1: "look m1 = (look m)(t := \<lambda>_. v_nil api)"
    using assms(3) new_table_law [OF assms(1)] by blast+
  obtain m2 where m2: "handlers_loop api make_host (if is_table api g then Some g else None) t callbacks m1 = (m2, True)"
    "\<And>name. look m2 t name = (if name \<in> fst ` set callbacks then handler_of api look noop m1 g name else look m1 t name)"
    "look m2 g = look m1 g"
    using handlers_loop_look [OF assms(1), of make_host noop "if is_table api g then Some g else None" g t callbacks m1]
      assms(2) t callbacks_distinct unfolding room_laws_def by metis
  have same: "handler_of api look noop m1 g name = handler_of api look noop m g name" for name
    using look1 t by (simp add: handler_of_def)
  obtain m3 where m3: "register_at api m2 ''love.boot'' ''handlers'' t = (m3, True)" "look m3 = look m2"
    using assms(2) unfolding room_laws_def by blast
  have "buildHandlers api make_host g m = (m3, Some t)"
    using m1 m2(1) m3(1) by (simp add: buildHandlers_def park_at_def)
  moreover have "look m3 t = (\<lambda>name. if name \<in> fst ` set callbacks then handler_of api look noop m g name else v_nil api)"
    using m2(2) m3(2) look1 same by auto
  moreover have "look m3 g = look m g"
    using m2(3) m3(2) look1 t by simp
  ultimately show ?thesis
    by blast
qed

definition toy_game :: toy_machine where
  "toy_game = toy_start\<lparr>toy_tables := (\<lambda>_ _. TNil)(TTable 0 := (\<lambda>_. TNil)(''update'' := TSub 7))\<rparr>"

lemma toy_room_laws: "room_laws toy_api toy_look (\<lambda>m b. Some (m, THost b)) THost"
  by (simp add: room_laws_def toy_api_def toy_look_def)

theorem handlers_complete_witness:
  "\<exists>m' t. buildHandlers toy_api (\<lambda>m b. Some (m, THost b)) (TTable 0) toy_game = (m', Some t) \<and>
     toy_look m' t ''update'' = TSub 7 \<and> toy_look m' t ''quit'' = THost True \<and> toy_look m' t ''draw'' = THost False \<and>
     toy_look m' t ''start'' = TNil"
proof -
  have "t \<noteq> TTable 0" if "new_table toy_api m = Some (m', t)" for m m' t
    using that by (auto simp: toy_api_def)
  then obtain m' t where m': "buildHandlers toy_api (\<lambda>m b. Some (m, THost b)) (TTable 0) toy_game = (m', Some t)"
    "toy_look m' t = (\<lambda>name. if name \<in> fst ` set callbacks
       then handler_of toy_api toy_look THost toy_game (TTable 0) name else v_nil toy_api)"
    using handlers_complete [OF toy_value_laws toy_room_laws, of "TTable 0" toy_game] by blast
  then have "toy_look m' t ''update'' = TSub 7 \<and> toy_look m' t ''quit'' = THost True \<and> toy_look m' t ''draw'' = THost False \<and>
     toy_look m' t ''start'' = TNil"
    by (simp add: callbacks_def handler_of_def toy_api_def toy_look_def toy_game_def toy_start_def)
  then show ?thesis
    using m'(1) by blast
qed

section \<open>What \<open>conf.lton\<close> can say\<close>

lemma fieldBool_look:
  assumes "value_laws api look" "is_table api t" "\<And>m s. new_string api m s \<noteq> None"
  shows "\<exists>m'. fieldBool api m t name d = (m', if is_bool api (look m t name) then as_bool api (look m t name) else d) \<and>
    look m' = look m"
  using field_look [OF assms(1,2), of name m] assms(3) by (auto simp: fieldBool_def)

definition switch :: "('m, 'v) value_api \<Rightarrow> ('m \<Rightarrow> 'v \<Rightarrow> string \<Rightarrow> 'v) \<Rightarrow> 'm \<Rightarrow> 'v \<Rightarrow> boot_module \<Rightarrow> bool" where
  "switch api look m t k = (if is_bool api (look m t (module_key k)) then as_bool api (look m t (module_key k)) else True)"

lemma read_modules_look:
  assumes "value_laws api look" "is_table api t" "\<And>m s. new_string api m s \<noteq> None"
  shows "\<exists>m'. read_modules api t ks m f = (m', \<lambda>k. if k \<in> set ks then switch api look m t k else f k) \<and> look m' = look m"
proof (induction ks arbitrary: m f)
  case (Cons k ks)
  obtain m1 where m1: "fieldBool api m t (module_key k) True = (m1, switch api look m t k)" "look m1 = look m"
    using fieldBool_look [OF assms(1,2), of m "module_key k" True] assms(3) by (auto simp: switch_def)
  obtain m' where "read_modules api t ks m1 (f(k := switch api look m t k)) =
      (m', \<lambda>j. if j \<in> set ks then switch api look m1 t j else (f(k := switch api look m t k)) j)" "look m' = look m1"
    using Cons.IH [of m1 "f(k := switch api look m t k)"] by blast
  moreover have "switch api look m1 t j = switch api look m t j" for j
    using m1(2) by (simp add: switch_def)
  ultimately show ?case
    using m1 by (intro exI [of _ m']) (auto simp: fun_eq_iff)
qed simp

lemma module_order_all: "k \<in> set module_order"
  by (cases k) (simp_all add: module_order_def)

lemma read_window_wanted:
  "read_window api m w c = Inr (m', c') \<Longrightarrow> window_wanted c' = window_wanted c \<and> modules c' = modules c"
  by (auto simp: read_window_def split_def Let_def bind_result_def split: sum.splits)

lemma field_keeps_look:
  assumes "value_laws api look" "\<And>m s. new_string api m s \<noteq> None"
  shows "look (fst (field api m t name)) = look m" "is_table api t \<Longrightarrow> snd (field api m t name) = look m t name"
  using field_look [OF assms(1), of t name m] assms(2) by (cases "is_table api t"; auto simp: field_def)+

lemma readers_keep_look:
  assumes "value_laws api look" "\<And>m s. new_string api m s \<noteq> None"
  shows "look (fst (fieldString api m t name d)) = look m" "look (fst (fieldBool api m t name b)) = look m"
    "look (fst (fieldNumber api m t name r)) = look m"
  using field_keeps_look(1) [OF assms, of m t name]
  by (simp_all add: fieldString_def fieldBool_def fieldNumber_def split_def Let_def)

lemma read_window_look:
  assumes "value_laws api look" "\<And>m s. new_string api m s \<noteq> None" "read_window api m w c = Inr (m', c')"
  shows "look m' = look m"
  using assms(3) readers_keep_look [OF assms(1,2)]
  by (auto simp: read_window_def split_def Let_def bind_result_def split: sum.splits)

definition same_window :: "'v conf \<Rightarrow> 'v conf \<Rightarrow> bool" where
  "same_window c c' \<longleftrightarrow> window_title c' = window_title c \<and> window_width c' = window_width c \<and>
     window_height c' = window_height c \<and> window_settings c' = window_settings c"

lemma conf_head_keeps:
  assumes laws: "value_laws api look" and strings: "\<And>m s. new_string api m s \<noteq> None"
    and head: "conf_head api m t c = (m', c')"
  shows "look m' = look m" "window_wanted c' = window_wanted c" "modules c' = modules c" "same_window c c'"
  using head readers_keep_look [OF laws strings]
  by (auto simp: conf_head_def split_def Let_def same_window_def)

lemma conf_window_keeps:
  assumes laws: "value_laws api look" and strings: "\<And>m s. new_string api m s \<noteq> None"
    and step: "conf_window api m t c = Inr (m', c')" and t: "is_table api t"
  shows "look m' = look m" "window_wanted c' = window_wanted c" "modules c' = modules c"
    "\<not> is_table api (look m t ''window'') \<Longrightarrow> same_window c c'"
proof -
  obtain m1 w where m1: "field api m t ''window'' = (m1, w)"
    by (cases "field api m t ''window''")
  have w: "w = look m t ''window''" "look m1 = look m"
    using field_keeps_look [OF laws strings, where m = m and t = t and name = "''window''"] t m1 by simp_all
  have "look m' = look m \<and> window_wanted c' = window_wanted c \<and> modules c' = modules c \<and>
      (\<not> is_table api w \<longrightarrow> same_window c c')"
  proof (cases "is_table api w")
    case True
    then have read: "read_window api m1 w c = Inr (m', c')"
      using step m1 by (simp add: conf_window_def)
    show ?thesis
      using read_window_look [OF laws strings read] read_window_wanted [OF read] w(2) True by simp
  next
    case False
    then show ?thesis
      using step m1 w(2) field_keeps_look(1) [OF laws strings]
      by (auto simp: conf_window_def split_def Let_def same_window_def)
  qed
  then show "look m' = look m" "window_wanted c' = window_wanted c" "modules c' = modules c"
    "\<not> is_table api (look m t ''window'') \<Longrightarrow> same_window c c'"
    using w(1) by auto
qed

lemma conf_modules_switches:
  assumes laws: "value_laws api look" and strings: "\<And>m s. new_string api m s \<noteq> None"
    and step: "conf_modules api m t c = (m', c')" and t: "is_table api t"
  shows "modules c' = (if is_table api (look m t ''modules'') then switch api look m (look m t ''modules'') else modules c)"
    "window_wanted c' = window_wanted c" "same_window c c'"
proof -
  obtain m1 ms where m1: "field api m t ''modules'' = (m1, ms)"
    by (cases "field api m t ''modules''")
  have ms: "ms = look m t ''modules''" "look m1 = look m"
    using field_keeps_look [OF laws strings, where m = m and t = t and name = "''modules''"] t m1 by simp_all
  have "modules c' = (if is_table api ms then switch api look m1 ms else modules c) \<and>
      window_wanted c' = window_wanted c \<and> same_window c c'"
  proof (cases "is_table api ms")
    case True
    then obtain m2 where "read_modules api ms module_order m1 (modules c) = (m2, switch api look m1 ms)"
      using read_modules_look [OF laws True strings, of module_order m1 "modules c"] module_order_all by auto
    then show ?thesis
      using step m1 True by (auto simp: conf_modules_def same_window_def)
  next
    case False
    then show ?thesis
      using step m1 by (auto simp: conf_modules_def same_window_def)
  qed
  moreover have "switch api look m1 = switch api look m"
    using ms(2) by (simp add: switch_def fun_eq_iff)
  ultimately show "modules c' = (if is_table api (look m t ''modules'') then switch api look m (look m t ''modules'') else modules c)"
    "window_wanted c' = window_wanted c" "same_window c c'"
    using ms(1) by auto
qed

text \<open>Reading the configuration takes every module's switch from the table of modules, an
  absent one being on, and leaves the switches alone if there is no such table. Nothing a
  configuration says, a window of \<open>nil\<close> included, turns the wish for a window off; without a window
  table the title, the size and the settings stay as they were.\<close>

theorem readConf_switches:
  assumes "value_laws api look" "\<And>m s. new_string api m s \<noteq> None" "is_table api t" "readConf api m t c = Inr (m', c')"
  shows "window_wanted c' = window_wanted c \<and>
    modules c' = (if is_table api (look m t ''modules'') then switch api look m (look m t ''modules'') else modules c) \<and>
    (\<not> is_table api (look m t ''window'') \<longrightarrow> same_window c c')"
proof -
  obtain m1 c1 where c1: "conf_head api m t c = (m1, c1)"
    by (cases "conf_head api m t c")
  obtain m2 c2 where c2: "conf_window api m1 t c1 = Inr (m2, c2)"
    using assms(3,4) c1 by (cases "conf_window api m1 t c1") (auto simp: readConf_def)
  have c3: "conf_modules api m2 t c2 = (m', c')"
    using assms(3,4) c1 c2 by (simp add: readConf_def)
  have "switch api look m2 = switch api look m"
    using conf_head_keeps(1) [OF assms(1,2) c1] conf_window_keeps(1) [OF assms(1,2) c2 assms(3)]
    by (simp add: switch_def fun_eq_iff)
  then show ?thesis
    using conf_head_keeps [OF assms(1,2) c1] conf_window_keeps [OF assms(1,2) c2 assms(3)]
      conf_modules_switches [OF assms(1,2) c3 assms(3)] by (auto simp: same_window_def)
qed

definition toy_conf :: toy_machine where
  "toy_conf = toy_start\<lparr>toy_tables := (\<lambda>_ _. TNil)
     (TTable 0 := (\<lambda>_. TNil)(''modules'' := TTable 1), TTable 1 := (\<lambda>_. TNil)(''audio'' := TBool False))\<rparr>"

theorem readConf_switches_witness:
  "\<exists>m' c'. readConf toy_api toy_conf (TTable 0) (default_conf toy_api ''12.0'') = Inr (m', c') \<and> window_wanted c' \<and>
     \<not> modules c' M_audio \<and> modules c' M_window"
proof -
  have strings: "new_string toy_api m s \<noteq> None" for m s
    by (simp add: toy_api_def)
  obtain m' c' where read: "readConf toy_api toy_conf (TTable 0) (default_conf toy_api ''12.0'') = Inr (m', c')"
    by (cases "readConf toy_api toy_conf (TTable 0) (default_conf toy_api ''12.0'')")
      (auto simp: readConf_def conf_head_def conf_window_def field_def fieldString_def fieldBool_def makeString_def
        toy_api_def toy_conf_def toy_start_def split_def Let_def)
  have "is_table toy_api (TTable 0)"
    by (simp add: toy_api_def)
  then show ?thesis
    using readConf_switches [OF toy_value_laws strings _ read] read
    by (simp add: switch_def default_conf_def toy_api_def toy_look_def toy_conf_def toy_start_def)
qed

section \<open>Which answers ask for a restart\<close>

lemma cast_int_restart: "cast_int i = LOVE_LH_RESTART \<longleftrightarrow> i mod 2 ^ 32 = LOVE_LH_RESTART mod 2 ^ 32"
proof -
  let ?r = "LOVE_LH_RESTART"
  have "cast_int i = ?r \<longleftrightarrow> (i + 2 ^ 31) mod 2 ^ 32 = (?r + 2 ^ 31) mod 2 ^ 32"
    by (auto simp: cast_int_def LOVE_LH_RESTART_def)
  also have "\<dots> \<longleftrightarrow> i mod 2 ^ 32 = ?r mod 2 ^ 32"
    unfolding mod_eq_dvd_iff by simp
  finally show ?thesis .
qed

lemma exitCodeOf_restart:
  assumes "\<And>v. is_integer api v \<Longrightarrow> string_at api m v = None"
  shows "exitCodeOf api m v = LOVE_LH_RESTART \<longleftrightarrow>
    (\<exists>text. string_at api m v = Some text \<and> c_string text = ''restart'') \<or>
    is_integer api v \<and> as_integer api v mod 2 ^ 32 = LOVE_LH_RESTART mod 2 ^ 32"
  using assms [of v] cast_int_restart [of "as_integer api v"]
  by (auto simp: exitCodeOf_def stringOf_def LOVE_LH_RESTART_def split: option.split)

end
