(* ===== verification/BootFiles.thy ===== *)
theory BootFiles
  imports BootScript
begin

text \<open>
  Compiling a game ahead (\<^verbatim>\<open>src/src/lh/Boot.cpp\<close>, \<^verbatim>\<open>--compile-game\<close> and
  \<^verbatim>\<open>--dump-embedded\<close>): the walks over the directories of the game, the files written
  and the text that reports a failure.

  The files of the game and the language's program are the record \<open>game_api\<close>, a
  parameter; the disk written to is a map from paths to what they hold.
\<close>

section \<open>The disk\<close>

record disk =
  files :: "string \<Rightarrow> string option"
  dirs :: "string list"

record 'm game_api =
  dir_items :: "string \<Rightarrow> string list"
  path_info :: "string \<Rightarrow> bool option"    \<comment> \<open>whether it is a directory\<close>
  game_read :: "string \<Rightarrow> string option"
  unit_check :: "'m \<Rightarrow> string \<Rightarrow> 'm \<times> bool option"
  compile_all :: "'m \<Rightarrow> 'm \<times> bool"
  unit_paths :: "'m \<Rightarrow> string option list"
  unit_binary :: "'m \<Rightarrow> bool \<Rightarrow> string \<Rightarrow> string option"
  lton_binary :: "'m \<Rightarrow> string \<Rightarrow> bool \<Rightarrow> string + string"
  can_open :: "string \<Rightarrow> bool"
  can_write :: "string \<Rightarrow> nat \<Rightarrow> nat"

definition writeBytes :: "'m game_api \<Rightarrow> string \<Rightarrow> string \<Rightarrow> disk \<Rightarrow> disk \<times> bool" where
  "writeBytes api path bytes d =
     (if \<not> can_open api path then (d, False)
      else
        let n = (if bytes = [] then 0 else can_write api path (length bytes))
        in (d\<lparr>files := (files d)(path \<mapsto> take n bytes)\<rparr>, bytes = [] \<or> n = length bytes))"

text \<open>The first position at or after \<open>pos\<close> that holds the character.\<close>

definition find_char :: "char \<Rightarrow> string \<Rightarrow> nat \<Rightarrow> nat option" where
  "find_char c s pos = (let n = length (takeWhile (\<lambda>x. x \<noteq> c) (drop pos s)) in if pos + n < length s then Some (pos + n) else None)"

lemma find_char_bounds: "find_char c s pos = Some i \<Longrightarrow> pos \<le> i \<and> i < length s"
  by (auto simp: find_char_def Let_def split: if_splits)

function parents_loop :: "string \<Rightarrow> string \<Rightarrow> nat \<Rightarrow> disk \<Rightarrow> disk" where
  "parents_loop base path pos d =
     (case find_char CHR ''/'' path pos of
        None \<Rightarrow> d
      | Some slash \<Rightarrow> parents_loop base path (Suc slash) (d\<lparr>dirs := dirs d @ [base @ ''/'' @ take slash path]\<rparr>))"
  by pat_completeness auto
termination
  by (relation "measure (\<lambda>(base, path, pos, d). length path - pos)") (auto dest: find_char_bounds)

declare parents_loop.simps [simp del]

definition makeParents :: "string \<Rightarrow> string \<Rightarrow> disk \<Rightarrow> disk" where
  "makeParents base path d = parents_loop base path 0 d"

section \<open>Walking over the game\<close>

definition children :: "'m game_api \<Rightarrow> string \<Rightarrow> string list" where
  "children api dir = map (\<lambda>item. if dir = [] then item else dir @ ''/'' @ item) (dir_items api dir)"

text \<open>
  The recursion into a directory comes before the rest of its siblings, and a
  failure ends all of them: the paths still to be looked at are a list.
\<close>

partial_function (option) walk_units :: "'m game_api \<Rightarrow> string list \<Rightarrow> 'm \<Rightarrow> ('m \<times> string) option" where
  "walk_units api paths m =
     (case paths of
        [] \<Rightarrow> Some (m, [])
      | path # rest \<Rightarrow>
          (case path_info api path of
             None \<Rightarrow> walk_units api rest m
           | Some directory \<Rightarrow>
               if directory then walk_units api (children api path @ rest) m
               else if \<not> endsWith path ''.lh'' then walk_units api rest m
               else (case unit_check api m path of
                       (m, None) \<Rightarrow> Some (m, ''Could not read '' @ path)
                     | (m, Some ok) \<Rightarrow>
                         if \<not> ok then Some (m, path @ '' did not check; a compiled game carries no unit that does not'')
                         else walk_units api rest m)))"

definition checkAllUnits :: "'m game_api \<Rightarrow> string \<Rightarrow> 'm \<Rightarrow> ('m \<times> string) option" where
  "checkAllUnits api dir m = walk_units api (children api dir) m"

text \<open>A file that cannot be read throws, and nothing here catches it.\<close>

definition unreadable :: "string \<Rightarrow> love_error" where
  "unreadable path = Exception (''Could not open file '' @ path)"

partial_function (option) walk_copy ::
  "'m game_api \<Rightarrow> string \<Rightarrow> string list \<Rightarrow> string list \<Rightarrow> disk \<Rightarrow> nat \<Rightarrow> (disk \<times> nat \<times> bool) result option" where
  "walk_copy api to written paths d copied =
     (case paths of
        [] \<Rightarrow> Some (Inr (d, copied, True))
      | path # rest \<Rightarrow>
          (case path_info api path of
             None \<Rightarrow> walk_copy api to written rest d copied
           | Some directory \<Rightarrow>
               if directory
               then walk_copy api to written (children api path @ rest) (makeParents to (path @ ''/x'') d) copied
               else if path \<in> set written then walk_copy api to written rest d copied
               else (case game_read api path of
                       None \<Rightarrow> Some (Inl (unreadable path))
                     | Some bytes \<Rightarrow>
                         (case writeBytes api (to @ ''/'' @ path) bytes (makeParents to path d) of
                            (d, wrote) \<Rightarrow>
                              if \<not> wrote then Some (Inr (d, copied, False))
                              else walk_copy api to written rest d (Suc copied)))))"

definition copyRest ::
  "'m game_api \<Rightarrow> string \<Rightarrow> string \<Rightarrow> string list \<Rightarrow> disk \<Rightarrow> nat \<Rightarrow> (disk \<times> nat \<times> bool) result option" where
  "copyRest api to dir written d copied = walk_copy api to written (children api dir) d copied"

section \<open>Writing the game\<close>

fun write_units ::
  "'m game_api \<Rightarrow> loader \<Rightarrow> 'm \<Rightarrow> string \<Rightarrow> bool \<Rightarrow> string option list \<Rightarrow> string list \<Rightarrow> disk \<Rightarrow> disk \<times> (string + string list)" where
  "write_units api l m to names [] written d = (d, Inr written)"
| "write_units api l m to names (None # rest) written d = write_units api l m to names rest written d"
| "write_units api l m to names (Some path # rest) written d =
     (if isHeld path l then write_units api l m to names rest written d
      else case unit_binary api m names path of
             None \<Rightarrow> (d, Inl (''Could not compile '' @ path))
           | Some bytes \<Rightarrow>
               (case writeBytes api (to @ ''/'' @ path) bytes (makeParents to path d) of
                  (d, wrote) \<Rightarrow>
                    if \<not> wrote then (d, Inl (''Could not write '' @ to @ ''/'' @ path))
                    else write_units api l m to names rest (List.insert path written) d))"

text \<open>An empty answer means that everything went out.\<close>

definition write_conf ::
  "'m game_api \<Rightarrow> filesystem option \<Rightarrow> loader \<Rightarrow> 'm \<Rightarrow> string \<Rightarrow> bool \<Rightarrow> string list \<Rightarrow> disk \<Rightarrow> (disk \<times> (string + string list)) result" where
  "write_conf api fs l m to names written d =
     (if \<not> exists_unit fs ''conf.lton'' l then Inr (d, Inr written)
      else case game_read api ''conf.lton'' of
             None \<Rightarrow> Inl (unreadable ''conf.lton'')
           | Some text \<Rightarrow>
               (case lton_binary api m text names of
                  Inl why \<Rightarrow> Inr (d, Inl (''conf.lton: '' @ why))
                | Inr bytes \<Rightarrow>
                    (case writeBytes api (to @ ''/conf.lton'') bytes d of
                       (d, wrote) \<Rightarrow>
                         Inr (d, if \<not> wrote then Inl (''Could not write '' @ to @ ''/conf.lton'')
                                 else Inr (List.insert ''conf.lton'' written)))))"

definition compileGame ::
  "'m game_api \<Rightarrow> filesystem option \<Rightarrow> loader \<Rightarrow> string \<Rightarrow> bool \<Rightarrow> 'm \<Rightarrow> disk \<Rightarrow> ('m \<times> disk \<times> string) result option" where
  "compileGame api fs l to names m d =
     (case checkAllUnits api [] m of
        None \<Rightarrow> None
      | Some (m, trouble) \<Rightarrow>
          let d = d\<lparr>dirs := dirs d @ [to]\<rparr>
          in if trouble \<noteq> [] then Some (Inr (m, d, trouble))
             else case compile_all api m of
                    (m, ok) \<Rightarrow>
                      if \<not> ok then Some (Inr (m, d, ''The game did not compile''))
                      else case write_units api l m to names (unit_paths api m) [] d of
                             (d, Inl why) \<Rightarrow> Some (Inr (m, d, why))
                           | (d, Inr written) \<Rightarrow>
                               (case write_conf api fs l m to names written d of
                                  Inl e \<Rightarrow> Some (Inl e)
                                | Inr (d, Inl why) \<Rightarrow> Some (Inr (m, d, why))
                                | Inr (d, Inr written) \<Rightarrow>
                                    (case copyRest api to [] written d 0 of
                                       None \<Rightarrow> None
                                     | Some (Inl e) \<Rightarrow> Some (Inl e)
                                     | Some (Inr (d, copied, done_ok)) \<Rightarrow>
                                         Some (Inr (m, d, if \<not> done_ok
                                           then ''Could not copy the game'' @ [CHR 0x27] @ ''s other files into '' @ to else [])))))"

text \<open>The units the engine embeds, compiled.\<close>

fun dump_loop ::
  "'m game_api \<Rightarrow> loader \<Rightarrow> 'm \<Rightarrow> string \<Rightarrow> bool \<Rightarrow> string option list \<Rightarrow> nat \<Rightarrow> disk \<Rightarrow> disk \<times> (string + nat)" where
  "dump_loop api l m to names [] written d = (d, Inr written)"
| "dump_loop api l m to names (None # rest) written d = dump_loop api l m to names rest written d"
| "dump_loop api l m to names (Some path # rest) written d =
     (if \<not> isHeld path l then dump_loop api l m to names rest written d
      else case unit_binary api m names path of
             None \<Rightarrow> (d, Inl (''Could not compile '' @ path))
           | Some bytes \<Rightarrow>
               (case writeBytes api (to @ ''/'' @ path @ ''.bin'') bytes d of
                  (d, wrote) \<Rightarrow>
                    if \<not> wrote then (d, Inl (''Could not write '' @ to @ ''/'' @ path @ ''.bin''))
                    else dump_loop api l m to names rest (Suc written) d))"

definition dumpEmbedded :: "'m game_api \<Rightarrow> loader \<Rightarrow> string \<Rightarrow> bool \<Rightarrow> 'm \<Rightarrow> disk \<Rightarrow> disk \<times> string" where
  "dumpEmbedded api l to names m d =
     (case dump_loop api l m to names (unit_paths api m) 0 (d\<lparr>dirs := dirs d @ [to]\<rparr>) of
        (d, Inl why) \<Rightarrow> (d, why)
      | (d, Inr written) \<Rightarrow>
          (d, if written = 0 then ''No embedded unit was reached; run with a game that boots.'' else []))"

section \<open>A finite game is walked to its end\<close>

definition finite_game :: "'m game_api \<Rightarrow> bool" where
  "finite_game api \<longleftrightarrow>
     (\<exists>rank :: string \<Rightarrow> nat. \<forall>d. path_info api d = Some True \<longrightarrow> (\<forall>p \<in> set (children api d). rank p < rank d))"

inductive below :: "'m game_api \<Rightarrow> string \<Rightarrow> string \<Rightarrow> bool" for api where
  here: "below api p p"
| deeper: "path_info api p = Some True \<Longrightarrow> c \<in> set (children api p) \<Longrightarrow> below api c f \<Longrightarrow> below api p f"

text \<open>The files of the game, all of them and those under some paths.\<close>

definition files_under :: "'m game_api \<Rightarrow> string set \<Rightarrow> string set" where
  "files_under api ps = {f. path_info api f = Some False \<and> (\<exists>p \<in> ps. below api p f)}"

definition game_files :: "'m game_api \<Rightarrow> string set" where
  "game_files api = files_under api (set (children api []))"

lemma below_iff:
  "below api p f \<longleftrightarrow> f = p \<or> path_info api p = Some True \<and> (\<exists>c \<in> set (children api p). below api c f)"
  by (metis below.cases below.here below.deeper)

lemma files_under_simps:
  "files_under api {} = {}"
  "files_under api (insert p ps) = files_under api {p} \<union> files_under api ps"
  "path_info api p = Some True \<Longrightarrow> files_under api {p} = files_under api (set (children api p))"
  "path_info api p = Some False \<Longrightarrow> files_under api {p} = {p}"
  "path_info api p = None \<Longrightarrow> files_under api {p} = {}"
proof -
  show "files_under api {} = {}" "files_under api (insert p ps) = files_under api {p} \<union> files_under api ps"
    unfolding files_under_def by blast+
  show "path_info api p = Some True \<Longrightarrow> files_under api {p} = files_under api (set (children api p))"
    unfolding files_under_def by (subst below_iff) auto
  show "path_info api p = Some False \<Longrightarrow> files_under api {p} = {p}" "path_info api p = None \<Longrightarrow> files_under api {p} = {}"
    unfolding files_under_def by (subst below_iff; auto)+
qed

text \<open>The walks go over a list of paths one after the other, each with everything below it.\<close>

lemma finite_game_induct [consumes 1, case_names path]:
  assumes "finite_game api"
    and "\<And>p. (path_info api p = Some True \<Longrightarrow> \<forall>c \<in> set (children api p). P c) \<Longrightarrow> P p"
  shows "P p"
proof -
  obtain rank :: "string \<Rightarrow> nat" where rank:
    "\<And>d p. path_info api d = Some True \<Longrightarrow> p \<in> set (children api d) \<Longrightarrow> rank p < rank d"
    using assms(1) unfolding finite_game_def by blast
  show ?thesis
  proof (induction "rank p" arbitrary: p rule: less_induct)
    case less
    show ?case
      using less rank by (intro assms(2)) blast
  qed
qed

lemma walk_units_returns:
  assumes "finite_game api"
  shows "\<exists>r. walk_units api (ps @ rest) m = Some r \<and> snd r \<noteq> [] \<or> (\<exists>m'. walk_units api (ps @ rest) m = walk_units api rest m')"
proof -
  have each: "\<exists>r. walk_units api (p # rest) m = Some r \<and> snd r \<noteq> [] \<or> (\<exists>m'. walk_units api (p # rest) m = walk_units api rest m')"
    for p rest m
    using assms
  proof (induction p arbitrary: rest m rule: finite_game_induct)
    case (path p)
    show ?case
    proof (cases "path_info api p = Some True")
      case True
      have "\<exists>r. walk_units api (cs @ rest) m = Some r \<and> snd r \<noteq> [] \<or> (\<exists>m'. walk_units api (cs @ rest) m = walk_units api rest m')"
        if "set cs \<subseteq> set (children api p)" for cs m
        using that
      proof (induction cs arbitrary: m)
        case (Cons c cs)
        then show ?case
          using path [OF True] by (metis append_Cons insert_subset list.simps(15))
      qed auto
      moreover have "walk_units api (p # rest) m = walk_units api (children api p @ rest) m"
        using True by (subst walk_units.simps) simp
      ultimately show ?thesis
        by simp
    next
      case False
      show ?thesis
        using False by (subst (1 2) walk_units.simps) (auto split: option.split prod.split)
    qed
  qed
  show ?thesis
  proof (induction ps arbitrary: m)
    case (Cons p ps)
    then show ?case
      using each [of p "ps @ rest" m] by (metis append_Cons)
  qed auto
qed

lemma checkAllUnits_returns:
  assumes "finite_game api"
  shows "checkAllUnits api dir m \<noteq> None"
  using walk_units_returns [OF assms, of "children api dir" "[]" m]
  by (auto simp: checkAllUnits_def walk_units.simps [of _ "[]"])

section \<open>Copying\<close>

definition disk_works :: "'m game_api \<Rightarrow> bool" where
  "disk_works api \<longleftrightarrow> (\<forall>p. can_open api p) \<and> (\<forall>p n. can_write api p n = n)"

definition readable :: "'m game_api \<Rightarrow> bool" where
  "readable api \<longleftrightarrow> (\<forall>p. path_info api p = Some False \<longrightarrow> game_read api p \<noteq> None)"

lemma writeBytes_works: "disk_works api \<Longrightarrow> writeBytes api p bytes d = (d\<lparr>files := (files d)(p \<mapsto> bytes)\<rparr>, True)"
  by (simp add: disk_works_def writeBytes_def)

lemma files_parents_loop [simp]: "files (parents_loop base path pos d) = files d"
  by (induction base path pos d rule: parents_loop.induct) (subst parents_loop.simps, simp split: option.split)

lemma files_makeParents [simp]: "files (makeParents base path d) = files d"
  by (simp add: makeParents_def)

text \<open>The files of a set have been copied, and no other place of the disk was touched.\<close>

definition copied_ok :: "'m game_api \<Rightarrow> string \<Rightarrow> string set \<Rightarrow> disk \<Rightarrow> disk \<Rightarrow> bool" where
  "copied_ok api to L d d' \<longleftrightarrow>
     (\<forall>f \<in> L. files d' (to @ ''/'' @ f) = game_read api f) \<and>
     (\<forall>q. (\<forall>f \<in> L. q \<noteq> to @ ''/'' @ f) \<longrightarrow> files d' q = files d q)"

lemma copied_ok_refl: "files d' = files d \<Longrightarrow> copied_ok api to {} d d'"
  by (simp add: copied_ok_def)

lemma copied_ok_trans:
  assumes "copied_ok api to L1 d d1" "copied_ok api to L2 d1 d2"
  shows "copied_ok api to (L1 \<union> L2) d d2"
  unfolding copied_ok_def
proof (intro conjI ballI allI impI)
  fix f assume f: "f \<in> L1 \<union> L2"
  show "files d2 (to @ ''/'' @ f) = game_read api f"
  proof (cases "f \<in> L2")
    case False
    then have "\<forall>g \<in> L2. to @ ''/'' @ f \<noteq> to @ ''/'' @ g"
      by auto
    then have "files d2 (to @ ''/'' @ f) = files d1 (to @ ''/'' @ f)"
      using assms(2) unfolding copied_ok_def by blast
    then show ?thesis
      using assms(1) f False by (simp add: copied_ok_def)
  qed (use assms(2) in \<open>simp add: copied_ok_def\<close>)
next
  fix q assume "\<forall>f \<in> L1 \<union> L2. q \<noteq> to @ ''/'' @ f"
  then show "files d2 q = files d q"
    using assms unfolding copied_ok_def by (metis Un_iff)
qed

definition walks_over :: "'m game_api \<Rightarrow> string \<Rightarrow> string list \<Rightarrow> string list \<Rightarrow> bool" where
  "walks_over api to written ps \<longleftrightarrow>
     (\<forall>rest d n. \<exists>d' n'. walk_copy api to written (ps @ rest) d n = walk_copy api to written rest d' n' \<and>
        copied_ok api to (files_under api (set ps) - set written) d d')"

lemma walks_overE:
  assumes "walks_over api to written ps"
  obtains d' n' where "walk_copy api to written (ps @ rest) d n = walk_copy api to written rest d' n'"
    "copied_ok api to (files_under api (set ps) - set written) d d'"
  using assms unfolding walks_over_def by blast

lemma walks_over_list: "(\<And>p. p \<in> set ps \<Longrightarrow> walks_over api to written [p]) \<Longrightarrow> walks_over api to written ps"
proof (induction ps)
  case Nil
  then show ?case
    using copied_ok_refl by (force simp: walks_over_def files_under_simps(1))
next
  case (Cons p ps)
  show ?case
    unfolding walks_over_def
  proof (intro allI)
    fix rest d n
    have p: "walks_over api to written [p]" and ps: "walks_over api to written ps"
      using Cons.prems Cons.IH by simp_all
    obtain d1 n1 where d1: "walk_copy api to written ([p] @ ps @ rest) d n = walk_copy api to written (ps @ rest) d1 n1"
      "copied_ok api to (files_under api (set [p]) - set written) d d1"
      by (rule walks_overE [OF p])
    obtain d2 n2 where d2: "walk_copy api to written (ps @ rest) d1 n1 = walk_copy api to written rest d2 n2"
      "copied_ok api to (files_under api (set ps) - set written) d1 d2"
      by (rule walks_overE [OF ps])
    have "copied_ok api to (files_under api (set (p # ps)) - set written) d d2"
      using copied_ok_trans [OF d1(2) d2(2)] files_under_simps(2) [of api p "set ps"] by (simp add: Un_Diff)
    moreover have "walk_copy api to written ((p # ps) @ rest) d n = walk_copy api to written rest d2 n2"
      using d1(1) d2(1) by simp
    ultimately show "\<exists>d' n'. walk_copy api to written ((p # ps) @ rest) d n = walk_copy api to written rest d' n' \<and>
        copied_ok api to (files_under api (set (p # ps)) - set written) d d'"
      by blast
  qed
qed

lemma walks_overI:
  assumes "\<And>rest d n. \<exists>d' n'. walk_copy api to written (p # rest) d n = walk_copy api to written rest d' n' \<and>
    copied_ok api to (files_under api {p} - set written) d d'"
  shows "walks_over api to written [p]"
  using assms by (simp add: walks_over_def)

lemma walk_copy_all:
  assumes "finite_game api" "disk_works api" "readable api"
  shows "walks_over api to written [p]"
  using assms(1)
proof (induction p rule: finite_game_induct)
  case (path p)
  show ?case
  proof (rule walks_overI)
    fix rest d n
    consider (dir) "path_info api p = Some True" | (skip) "path_info api p = Some False" "p \<in> set written"
      | (copy) "path_info api p = Some False" "p \<notin> set written" | (none) "path_info api p = None"
      by (cases "path_info api p") auto
    then show "\<exists>d' n'. walk_copy api to written (p # rest) d n = walk_copy api to written rest d' n' \<and>
      copied_ok api to (files_under api {p} - set written) d d'"
    proof cases
      case dir
      let ?d = "makeParents to (p @ ''/x'') d"
      have "walks_over api to written (children api p)"
        by (rule walks_over_list) (use path [OF dir] in blast)
      then obtain d' n' where d': "walk_copy api to written (children api p @ rest) ?d n = walk_copy api to written rest d' n'"
        "copied_ok api to (files_under api (set (children api p)) - set written) ?d d'"
        by (rule walks_overE)
      have "walk_copy api to written (p # rest) d n = walk_copy api to written (children api p @ rest) ?d n"
        using dir by (subst walk_copy.simps) simp
      moreover have "copied_ok api to (files_under api {p} - set written) d d'"
        using d'(2) files_under_simps(3) [OF dir] by (simp add: copied_ok_def)
      ultimately show ?thesis
        using d'(1) by metis
    next
      case skip
      then have "walk_copy api to written (p # rest) d n = walk_copy api to written rest d n"
        by (subst walk_copy.simps) simp
      then show ?thesis
        using skip copied_ok_refl [of d d api to] files_under_simps(4) [OF skip(1)] by auto
    next
      case copy
      obtain bytes where bytes: "game_read api p = Some bytes"
        using assms(3) copy by (auto simp: readable_def)
      let ?d = "(makeParents to p d)\<lparr>files := (files d)(to @ ''/'' @ p \<mapsto> bytes)\<rparr>"
      have "walk_copy api to written (p # rest) d n = walk_copy api to written rest ?d (Suc n)"
        using copy bytes writeBytes_works [OF assms(2)] by (subst walk_copy.simps) simp
      moreover have "copied_ok api to {p} d ?d"
        using bytes by (simp add: copied_ok_def)
      moreover have "files_under api {p} - set written = {p}"
        using copy files_under_simps(4) [OF copy(1)] by auto
      ultimately show ?thesis
        by metis
    next
      case none
      then have "walk_copy api to written (p # rest) d n = walk_copy api to written rest d n"
        by (subst walk_copy.simps) simp
      then show ?thesis
        using copied_ok_refl [of d d api to] files_under_simps(5) [OF none] by auto
    qed
  qed
qed

lemma copyRest_all:
  assumes "finite_game api" "disk_works api" "readable api"
  shows "\<exists>d' n'. copyRest api to [] written d n = Some (Inr (d', n', True)) \<and>
    copied_ok api to (game_files api - set written) d d'"
proof -
  have "walks_over api to written (children api [])"
    using walk_copy_all [OF assms] by (rule walks_over_list)
  then obtain d' n' where "walk_copy api to written (children api [] @ []) d n = walk_copy api to written [] d' n'"
    "copied_ok api to (game_files api - set written) d d'"
    unfolding walks_over_def game_files_def by blast
  then show ?thesis
    by (simp add: copyRest_def walk_copy.simps [of _ _ _ "[]"])
qed

section \<open>A compiled game is complete\<close>

definition compiled_paths :: "'m game_api \<Rightarrow> loader \<Rightarrow> 'm \<Rightarrow> string set" where
  "compiled_paths api l m = {p. Some p \<in> set (unit_paths api m) \<and> \<not> isHeld p l}"

lemma write_units_written:
  assumes "disk_works api"
  shows "write_units api l m to names units written d = (d', Inr written') \<Longrightarrow>
    \<forall>p \<in> set written. files d (to @ ''/'' @ p) = unit_binary api m names p \<and> unit_binary api m names p \<noteq> None \<Longrightarrow>
    set written' = set written \<union> {p. Some p \<in> set units \<and> \<not> isHeld p l} \<and>
    (\<forall>p \<in> set written'. files d' (to @ ''/'' @ p) = unit_binary api m names p \<and> unit_binary api m names p \<noteq> None)"
proof (induction units arbitrary: written d)
  case (Cons u units)
  show ?case
  proof (cases u)
    case None
    then show ?thesis
      using Cons.IH [OF _ Cons.prems(2)] Cons.prems(1) by simp
  next
    case (Some path)
    show ?thesis
    proof (cases "isHeld path l")
      case True
      then show ?thesis
        using Cons.IH [OF _ Cons.prems(2)] Cons.prems(1) Some by auto
    next
      case False
      then obtain bytes where bytes: "unit_binary api m names path = Some bytes"
        using Cons.prems(1) Some by (cases "unit_binary api m names path") auto
      let ?d = "(makeParents to path d)\<lparr>files := (files d)(to @ ''/'' @ path \<mapsto> bytes)\<rparr>"
      have "write_units api l m to names units (List.insert path written) ?d = (d', Inr written')"
        using Cons.prems(1) Some False bytes writeBytes_works [OF assms] by simp
      moreover have "\<forall>p \<in> set (List.insert path written).
          files ?d (to @ ''/'' @ p) = unit_binary api m names p \<and> unit_binary api m names p \<noteq> None"
        using Cons.prems(2) bytes by auto
      ultimately have "set written' = set (List.insert path written) \<union> {p. Some p \<in> set units \<and> \<not> isHeld p l} \<and>
          (\<forall>p \<in> set written'. files d' (to @ ''/'' @ p) = unit_binary api m names p \<and> unit_binary api m names p \<noteq> None)"
        by (rule Cons.IH)
      moreover have "{p. Some p \<in> set (u # units) \<and> \<not> isHeld p l} = insert path {p. Some p \<in> set units \<and> \<not> isHeld p l}"
        using False Some by auto
      ultimately show ?thesis
        by simp
    qed
  qed
qed simp

lemma write_units_error: "write_units api l m to names units written d = (d', Inl why) \<Longrightarrow> why \<noteq> []"
  by (induction api l m to names units written d rule: write_units.induct)
    (auto split: if_splits option.splits prod.splits)

lemma write_conf_error: "write_conf api fs l m to names written d = Inr (d', Inl why) \<Longrightarrow> why \<noteq> []"
  by (auto simp: write_conf_def split: if_splits option.splits sum.splits prod.splits)

lemma write_conf_written:
  assumes "disk_works api" "write_conf api fs l m to names written d = Inr (d', Inr written')"
  shows "set written' = set written \<union> (if exists_unit fs ''conf.lton'' l then {''conf.lton''} else {})"
    "q \<noteq> to @ ''/conf.lton'' \<or> \<not> exists_unit fs ''conf.lton'' l \<Longrightarrow> files d' q = files d q"
    "exists_unit fs ''conf.lton'' l \<Longrightarrow> \<exists>text bytes. game_read api ''conf.lton'' = Some text \<and>
       lton_binary api m text names = Inr bytes \<and> files d' (to @ ''/conf.lton'') = Some bytes"
  using assms writeBytes_works [OF assms(1)]
  by (auto simp: write_conf_def split: if_splits option.splits sum.splits)

text \<open>
  What the compiled game holds for a file of the game: a configuration and a
  unit are compiled, everything else is as it was.
\<close>

definition shipped ::
  "'m game_api \<Rightarrow> filesystem option \<Rightarrow> loader \<Rightarrow> 'm \<Rightarrow> bool \<Rightarrow> string \<Rightarrow> string option \<Rightarrow> bool" where
  "shipped api fs l m names p bytes \<longleftrightarrow>
     (if p = ''conf.lton'' \<and> exists_unit fs p l
      then \<exists>text b. game_read api p = Some text \<and> lton_binary api m text names = Inr b \<and> bytes = Some b
      else if p \<in> compiled_paths api l m then bytes = unit_binary api m names p \<and> bytes \<noteq> None
      else bytes = game_read api p)"

text \<open>Claim C12. On a game whose directories are finitely many, with files that can be read and a disk that
  takes what is written, compiling always comes to an end; and when it reports no trouble, every file
  of the game is in the compiled one under its own path: \<open>conf.lton\<close> and the units the program reached
  in compiled form, every other file byte for byte.\<close>

theorem compiled_game_complete:
  assumes "finite_game api" "disk_works api" "readable api" "exists_unit fs ''conf.lton'' l \<Longrightarrow> game_read api ''conf.lton'' \<noteq> None"
  shows "\<exists>m' d' trouble. compileGame api fs l to names m d = Some (Inr (m', d', trouble)) \<and>
    (trouble = [] \<longrightarrow> (\<forall>p \<in> game_files api. shipped api fs l m' names p (files d' (to @ ''/'' @ p))))"
proof -
  obtain m1 t1 where m1: "checkAllUnits api [] m = Some (m1, t1)"
    using checkAllUnits_returns [OF assms(1), of "[]" m] by auto
  obtain m2 ok where m2: "compile_all api m1 = (m2, ok)"
    by (cases "compile_all api m1")
  let ?d = "d\<lparr>dirs := dirs d @ [to]\<rparr>"
  obtain d1 r1 where w1: "write_units api l m2 to names (unit_paths api m2) [] ?d = (d1, r1)"
    by (cases "write_units api l m2 to names (unit_paths api m2) [] ?d")
  show ?thesis
  proof (cases "t1 \<noteq> [] \<or> \<not> ok \<or> isl r1")
    case True
    then obtain m' d' trouble where "compileGame api fs l to names m d = Some (Inr (m', d', trouble))" "trouble \<noteq> []"
      using m1 m2 w1 write_units_error [of api l m2 to names "unit_paths api m2" "[]" ?d d1]
      by (cases "t1 = []"; cases ok; cases r1) (simp_all add: compileGame_def)
    then show ?thesis
      by blast
  next
    case False
    then obtain written where written: "r1 = Inr written"
      by (cases r1) auto
    obtain d2 r2 where w2: "write_conf api fs l m2 to names written d1 = Inr (d2, r2)"
      using assms(4) by (cases "write_conf api fs l m2 to names written d1")
        (auto simp: write_conf_def split: if_splits option.splits sum.splits prod.splits)
    show ?thesis
    proof (cases r2)
      case (Inl why)
      then have "compileGame api fs l to names m d = Some (Inr (m2, d2, why))" "why \<noteq> []"
        using m1 m2 w1 w2 False written write_conf_error by (simp_all add: compileGame_def)
      then show ?thesis
        by blast
    next
      case (Inr written2)
      obtain d3 n3 where w3: "copyRest api to [] written2 d2 0 = Some (Inr (d3, n3, True))"
        "copied_ok api to (game_files api - set written2) d2 d3"
        using copyRest_all [OF assms(1-3)] by blast
      have result: "compileGame api fs l to names m d = Some (Inr (m2, d3, []))"
        using m1 m2 w1 w2 w3(1) False written Inr by (simp add: compileGame_def)
      note units = write_units_written [OF assms(2) w1 [unfolded written]]
      note conf = write_conf_written [OF assms(2) w2 [unfolded Inr]]
      have "shipped api fs l m2 names p (files d3 (to @ ''/'' @ p))" if p: "p \<in> game_files api" for p
      proof (cases "p \<in> set written2")
        case False
        then have "files d3 (to @ ''/'' @ p) = game_read api p" "p \<notin> compiled_paths api l m2"
          "\<not> (p = ''conf.lton'' \<and> exists_unit fs p l)"
          using w3(2) p units conf(1) by (auto simp: copied_ok_def compiled_paths_def)
        then show ?thesis
          by (auto simp: shipped_def)
      next
        case True
        then have "\<forall>f \<in> game_files api - set written2. to @ ''/'' @ p \<noteq> to @ ''/'' @ f"
          by auto
        then have same: "files d3 (to @ ''/'' @ p) = files d2 (to @ ''/'' @ p)"
          using w3(2) unfolding copied_ok_def by blast
        show ?thesis
        proof (cases "p = ''conf.lton'' \<and> exists_unit fs p l")
          case True
          then show ?thesis
            using conf(3) same by (auto simp: shipped_def)
        next
          case False
          then have "p \<in> set written" "files d2 (to @ ''/'' @ p) = files d1 (to @ ''/'' @ p)"
            using True conf(1) conf(2) [of "to @ ''/'' @ p"] by (auto split: if_splits)
          moreover have "p \<in> compiled_paths api l m2" if "p \<in> set written"
            using that units by (auto simp: compiled_paths_def)
          ultimately show ?thesis
            using False units same by (auto simp: shipped_def)
        qed
      qed
      then show ?thesis
        using result by blast
    qed
  qed
qed

definition small_game :: "unit game_api" where
  "small_game = \<lparr>dir_items = (\<lambda>d. if d = [] then [''main.lh'', ''img''] else if d = ''img'' then [''a.png''] else []),
     path_info = (\<lambda>p. if p = ''img'' then Some True else if p = ''main.lh'' \<or> p = ''img/a.png'' then Some False else None),
     game_read = (\<lambda>p. if p = ''main.lh'' then Some ''text'' else if p = ''img/a.png'' then Some ''pixels'' else None),
     unit_check = (\<lambda>m p. (m, Some True)), compile_all = (\<lambda>m. (m, True)),
     unit_paths = (\<lambda>m. [Some ''Boot.lh'', Some ''main.lh'']), unit_binary = (\<lambda>m names p. Some (''BIN'')),
     lton_binary = (\<lambda>m text names. Inr text), can_open = (\<lambda>p. True), can_write = (\<lambda>p n. n)\<rparr>"

lemma small_game_finite: "finite_game small_game"
  unfolding finite_game_def
  by (rule exI [of _ "\<lambda>p. if p = [] then 2 else if p = ''img'' then 1 else 0"])
    (auto simp: small_game_def children_def split: if_splits)

lemma small_game_works: "disk_works small_game" "readable small_game"
  by (simp_all add: disk_works_def readable_def small_game_def)

lemma small_game_files: "''main.lh'' \<in> game_files small_game" "''img/a.png'' \<in> game_files small_game"
proof -
  have "below small_game ''main.lh'' ''main.lh''" "below small_game ''img'' ''img/a.png''"
    using deeper [of small_game "''img''" "''img/a.png''" "''img/a.png''"] here
    by (auto simp: small_game_def children_def)
  moreover have "set (children small_game []) = {''main.lh'', ''img''}"
    by (auto simp: children_def small_game_def)
  moreover have "path_info small_game ''main.lh'' = Some False" "path_info small_game ''img/a.png'' = Some False"
    by (simp_all add: small_game_def)
  ultimately show "''main.lh'' \<in> game_files small_game" "''img/a.png'' \<in> game_files small_game"
    by (simp_all add: game_files_def files_under_def)
qed

definition boot_loader :: loader where
  "boot_loader = hold ''Boot.lh'' ''boot text'' new_loader"

theorem compiled_game_complete_witness:
  "\<exists>m' d' trouble. compileGame small_game None boot_loader ''out'' False () \<lparr>files = (\<lambda>_. None), dirs = []\<rparr> =
      Some (Inr (m', d', trouble)) \<and>
    (trouble = [] \<longrightarrow> files d' ''out/main.lh'' = Some ''BIN'' \<and> files d' ''out/img/a.png'' = Some ''pixels'')"
proof -
  let ?d = "\<lparr>files = (\<lambda>_. None), dirs = []\<rparr>"
  have "\<not> exists_unit None ''conf.lton'' boot_loader"
    by (simp add: exists_unit_def isHeld_def boot_loader_def hold_def new_loader_def)
  then obtain m' d' trouble where r: "compileGame small_game None boot_loader ''out'' False () ?d = Some (Inr (m', d', trouble))"
    and ok: "trouble = [] \<Longrightarrow> \<forall>p \<in> game_files small_game. shipped small_game None boot_loader m' False p (files d' (''out'' @ ''/'' @ p))"
    using compiled_game_complete [OF small_game_finite small_game_works, of None boot_loader "''out''" False "()" ?d] by blast
  have "files d' ''out/main.lh'' = Some ''BIN'' \<and> files d' ''out/img/a.png'' = Some ''pixels''" if "trouble = []"
    using ok [OF that] small_game_files
    by (fastforce simp: shipped_def compiled_paths_def small_game_def boot_loader_def isHeld_def hold_def new_loader_def)
  then show ?thesis
    using r by blast
qed

end
