(* ===== verification/Boot.thy ===== *)
theory Boot
  imports BootFiles Parking
begin

text \<open>
  The boot sequence (\<^verbatim>\<open>src/src/lh/Boot.cpp\<close>, \<open>boot\<close>) and the loop around it
  (\<^verbatim>\<open>src/src/love.cpp\<close>, \<open>main\<close>), stage by stage: finding the game, registering and
  checking the program, the options that write and quit, the configuration, the
  modules, the start of the run and one resume a frame.

  A stage works on the record \<open>boot_world\<close> and either ends the boot with an exit code
  (\<open>Inl\<close>) or hands its result to the next one (\<open>Inr\<close>). The physical file system, the
  language's program and machine, the window and the debugger are the record
  \<open>boot_env\<close>, a parameter.
\<close>

section \<open>The state\<close>

datatype module_instance = Instance boot_module | NullAudio

datatype boot_event =
    Report string string
  | ReportRuntime string
  | Said string
  | DebuggerEnd int
  | RuntimeGone
  | Made module_instance
  | Released module_instance

record ('f, 'm, 't) boot_world =
  bw_fs :: 'f
  bw_loader :: loader
  bw_machine :: 'm
  bw_lot :: "'t lot"
  bw_modules :: "module_instance list"
  bw_disk :: disk
  bw_debug :: bool
  bw_log :: "boot_event list"

datatype window_answer = Thrown string | Refused string | Shown bool

datatype lton_status = LTON_CANNOT_READ | LTON_REJECTED | LTON_FAULTED | LTON_OUT_OF_MEMORY | LTON_OTHER

record ('f, 'm, 'v, 't) boot_env =
  env_value :: "('m, 'v) value_api"
  env_table :: "('t, 'v) table_api"
  env_game :: "'f \<Rightarrow> 'm game_api"
  env_files :: "'f \<Rightarrow> filesystem"
  fs_init :: "'f \<Rightarrow> string \<Rightarrow> 'f \<times> string option"
  fs_executable :: "'f \<Rightarrow> string"
  fs_setSource :: "'f \<Rightarrow> string \<Rightarrow> 'f \<times> bool"
  fs_setFused :: "'f \<Rightarrow> bool \<Rightarrow> 'f"
  fs_realdir :: "'f \<Rightarrow> string \<Rightarrow> string option"
  fs_setIdentity :: "'f \<Rightarrow> string \<Rightarrow> bool \<Rightarrow> 'f"
  embedded_boot :: string
  embedded_nogame :: string
  program_made :: bool
  register_all :: "'m \<Rightarrow> 'm \<times> string option"
  register_stdlib :: "'m \<Rightarrow> 'm \<times> bool"
  signature_bytes :: "'m \<Rightarrow> string option"
  host_api_text :: "'m \<Rightarrow> string"
  check_unit :: "'m \<Rightarrow> (string \<Rightarrow> string option) \<Rightarrow> string \<Rightarrow> 'm \<times> bool \<times> string list"
  program_ok :: "'m \<Rightarrow> bool"
  diagnostics :: "'m \<Rightarrow> string"
  unit_of :: "'m \<Rightarrow> string \<Rightarrow> unit_info"
  compile_program :: "'m \<Rightarrow> 'm \<times> bool"
  is_binary_unit :: "string \<Rightarrow> bool"
  lton_load :: "'m \<Rightarrow> string \<Rightarrow> 'm \<times> (lton_status + 'v)"
  load_failure :: "'m \<Rightarrow> string option"
  traceback :: "'m \<Rightarrow> string"
  fault_depth :: "'m \<Rightarrow> nat"
  status_message :: "run_status \<Rightarrow> string"
  run_unit :: "'m \<Rightarrow> string \<Rightarrow> 'm \<times> 'v run_result"
  call_value :: "'m \<Rightarrow> 'v \<Rightarrow> 'v list \<Rightarrow> 'm \<times> 'v run_result"
  resume :: "'m \<Rightarrow> 't lot \<Rightarrow> 'v \<Rightarrow> 'm \<times> 't lot \<times> 'v run_result"
  coroutine_done :: "'m \<Rightarrow> 'v \<Rightarrow> bool"
  host_function :: "'m \<Rightarrow> bool \<Rightarrow> ('m \<times> 'v) option"
  new_module :: "module_instance \<Rightarrow> string option"
  set_window :: "'v conf \<Rightarrow> 'm \<Rightarrow> window_answer"
  debugger_begins :: "int \<Rightarrow> string option"
  debugger_ended :: "'m \<Rightarrow> bool"

text \<open>What happens is written down in the order it happens: what the user reads, the end of a debugging session and of the runtime, and
  that a module was made or released. The code keeps the modules it made, \<open>bw_modules\<close>, and nothing reads the log.\<close>

definition log_event :: "boot_event \<Rightarrow> ('f, 'm, 't) boot_world \<Rightarrow> ('f, 'm, 't) boot_world" where
  "log_event e w = w\<lparr>bw_log := bw_log w @ [e]\<rparr>"

text \<open>A problem the user has to see, and the exit code that follows it.\<close>

definition refuse ::
  "string \<Rightarrow> string \<Rightarrow> ('f, 'm, 't) boot_world \<Rightarrow> ('f, 'm, 't) boot_world \<times> int" where
  "refuse title text w = (log_event (Report title text) w, 1)"

type_synonym ('w, 'a) stage = "'w \<times> int + 'w \<times> 'a"

definition bind_stage :: "('w, 'a) stage \<Rightarrow> ('w \<Rightarrow> 'a \<Rightarrow> ('w, 'b) stage) \<Rightarrow> ('w, 'b) stage" where
  "bind_stage s k = (case s of Inl r \<Rightarrow> Inl r | Inr (w, a) \<Rightarrow> k w a)"

lemma bind_stage_simps [simp]:
  "bind_stage (Inl r) k = Inl r" "bind_stage (Inr (w, a)) k = k w a"
  by (simp_all add: bind_stage_def)

section \<open>Texts\<close>

definition describeLton :: "('f, 'm, 'v, 't) boot_env \<Rightarrow> 'm \<Rightarrow> lton_status \<Rightarrow> string" where
  "describeLton env m status =
     (case status of
        LTON_CANNOT_READ \<Rightarrow> ''could not be read''
      | LTON_REJECTED \<Rightarrow> (case load_failure env m of Some said \<Rightarrow> said | None \<Rightarrow> ''refused'')
      | LTON_FAULTED \<Rightarrow>
          ''stopped while being read'' @ (if traceback env m = [] then [] else [CHR 0x0A] @ traceback env m)
      | LTON_OUT_OF_MEMORY \<Rightarrow> ''out of memory''
      | LTON_OTHER \<Rightarrow> ''refused'')"

definition describeRun :: "('f, 'm, 'v, 't) boot_env \<Rightarrow> 'm \<Rightarrow> 'v run_result \<Rightarrow> string" where
  "describeRun env m r =
     (let text = status_message env (run_status r);
          text = (if run_status r = RUN_PANIC then text @ '': '' @ value_text (env_value env) m (run_value r) else text);
          text = (if run_line r > 0 then ''line '' @ decimal (run_line r) @ '': '' @ text else text)
      in if fault_depth env m \<ge> 2 then text @ [CHR 0x0A] @ traceback env m else text)"

section \<open>Finding the game\<close>

text \<open>
  The source is the executable itself, or what the command line names: a
  directory, an archive, or a unit in a directory.
\<close>

definition game_source ::
  "('f, 'm, 'v, 't) boot_env \<Rightarrow> string \<Rightarrow> string \<Rightarrow> bool \<Rightarrow> 'f \<Rightarrow> 'f \<times> bool \<times> string \<times> string \<times> string" where
  "game_source env named exepath canHasGame f =
     (if \<not> canHasGame \<and> named \<noteq> []
      then
        let (mainUnit, source) =
              (if endsWith named ''.lh''
               then (leaf named, case find_last_of separator named of None \<Rightarrow> ''.'' | Some slash \<Rightarrow> take slash named)
               else (''main.lh'', named));
            (f, canHasGame) = fs_setSource env f source
        in (f, canHasGame, mainUnit, leaf source, if \<not> canHasGame then source else [])
      else (f, canHasGame, ''main.lh'', leaf exepath, []))"

text \<open>A game without code, or no game, has the no-game screen in its place.\<close>

definition boot_nogame ::
  "('f, 'm, 'v, 't) boot_env \<Rightarrow> bool \<Rightarrow> string \<Rightarrow> string \<Rightarrow> ('f, 'm, 't) boot_world \<Rightarrow> ('f, 'm, 't) boot_world" where
  "boot_nogame env canHasGame mainUnit invalid w =
     (let fs = Some (env_files env (bw_fs w));
          noGameCode = (canHasGame \<and> \<not> exists_unit fs mainUnit (bw_loader w) \<and> \<not> exists_unit fs ''conf.lton'' (bw_loader w))
      in if \<not> canHasGame \<or> noGameCode
         then
           let w = (if invalid \<noteq> []
                    then log_event (Said (''Cannot load game at path '' @ [CHR 0x27] @ invalid @ [CHR 0x27] @ ''.'')) w else w)
           in w\<lparr>bw_loader := hold mainUnit (embedded_nogame env) (bw_loader w)\<rparr>
         else w)"

text \<open>\<^verbatim>\<open>Modules::add\<close> of a module that was just made.\<close>

definition add_instance :: "module_instance \<Rightarrow> ('f, 'm, 't) boot_world \<Rightarrow> ('f, 'm, 't) boot_world" where
  "add_instance k w = log_event (Made k) (w\<lparr>bw_modules := bw_modules w @ [k]\<rparr>)"

definition boot_source ::
  "('f, 'm, 'v, 't) boot_env \<Rightarrow> string \<Rightarrow> arguments \<Rightarrow> ('f, 'm, 't) boot_world \<Rightarrow>
     (('f, 'm, 't) boot_world, arguments \<times> string) stage" where
  "boot_source env argv0 args w =
     (let w = add_instance (Instance M_filesystem) (w\<lparr>bw_loader := hold ''Boot.lh'' (embedded_boot env) new_loader\<rparr>)
      in case fs_init env (bw_fs w) argv0 of
           (f, Some e) \<Rightarrow> Inl (refuse ''lhatove'' (''Could not initialize the filesystem: '' @ e) (w\<lparr>bw_fs := f\<rparr>))
         | (f, None) \<Rightarrow>
             let exepath = (if fs_executable env f = [] then argv0 else fs_executable env f);
                 (f, canHasGame) = fs_setSource env f exepath;
                 is_fused = (canHasGame \<or> fused args);
                 f = fs_setFused env f is_fused;
                 w = (if is_fused \<and> dapPort args \<noteq> 0 then log_event (Said ''lhatove: --dap is ignored for a fused game.'') w else w);
                 args = (if is_fused \<and> dapPort args \<noteq> 0 then args\<lparr>dapPort := 0\<rparr> else args);
                 (f, canHasGame, mainUnit, i, invalid) = game_source env (game args) exepath canHasGame f;
                 i = (case fs_realdir env f mainUnit of Some d \<Rightarrow> if d \<noteq> [] then leaf d else i | None \<Rightarrow> i);
                 f = fs_setIdentity env f (identityOf i) True
             in Inr (boot_nogame env canHasGame mainUnit invalid (w\<lparr>bw_fs := f\<rparr>), args, mainUnit))"

section \<open>Registering, checking and compiling\<close>

definition boot_register ::
  "('f, 'm, 'v, 't) boot_env \<Rightarrow> ('f, 'm, 't) boot_world \<Rightarrow> (('f, 'm, 't) boot_world, unit) stage" where
  "boot_register env w =
     (if \<not> program_made env then Inl (refuse ''lhatove'' ''Could not create the L^ program.'' w)
      else case register_all env (bw_machine w) of
             (m, Some failed) \<Rightarrow>
               Inl (refuse ''lhatove'' (''A love module refused to register its API: '' @ failed) (w\<lparr>bw_machine := m\<rparr>))
           | (m, None) \<Rightarrow>
               (case register_stdlib env m of
                  (m, ok) \<Rightarrow>
                    let w = w\<lparr>bw_machine := m\<rparr>
                    in if \<not> ok then Inl (refuse ''lhatove'' ''The L^ standard library refused to register.'' w)
                       else Inr (w, ())))"

text \<open>The options that write what was registered and quit; the file may be short, which is not looked at.\<close>

definition boot_dump ::
  "('f, 'm, 'v, 't) boot_env \<Rightarrow> arguments \<Rightarrow> ('f, 'm, 't) boot_world \<Rightarrow> (('f, 'm, 't) boot_world, unit) stage" where
  "boot_dump env args w =
     (let api = env_game env (bw_fs w)
      in if signaturesPath args \<noteq> []
         then case signature_bytes env (bw_machine w) of
                None \<Rightarrow> Inl (refuse ''lhatove'' ''Could not build the signature table.'' w)
              | Some bytes \<Rightarrow>
                  if \<not> can_open api (signaturesPath args)
                  then Inl (refuse ''lhatove'' (''Could not write '' @ signaturesPath args) w)
                  else Inl (w\<lparr>bw_disk := fst (writeBytes api (signaturesPath args) bytes (bw_disk w))\<rparr>, 0)
         else if dumpHostApi args
         then if \<not> can_open api (dumpPath args) then Inl (refuse ''lhatove'' (''Could not write '' @ dumpPath args) w)
              else Inl (w\<lparr>bw_disk := fst (writeBytes api (dumpPath args) (host_api_text env (bw_machine w)) (bw_disk w))\<rparr>, 0)
         else Inr (w, ()))"

text \<open>Checking a unit reads units through the loader, which notes those that came compiled.\<close>

definition check_through ::
  "('f, 'm, 'v, 't) boot_env \<Rightarrow> string \<Rightarrow> ('f, 'm, 't) boot_world \<Rightarrow> ('f, 'm, 't) boot_world \<times> bool" where
  "check_through env path w =
     (let fs = Some (env_files env (bw_fs w));
          load = (\<lambda>p. snd (loadUnit (is_binary_unit env) (\<lambda>_. True) fs p (bw_loader w)))
      in case check_unit env (bw_machine w) load path of
           (m, read, asked) \<Rightarrow>
             (w\<lparr>bw_machine := m,
                bw_loader := foldl (\<lambda>l p. fst (loadUnit (is_binary_unit env) (\<lambda>_. True) fs p l)) (bw_loader w) asked\<rparr>, read))"

definition boot_check ::
  "('f, 'm, 'v, 't) boot_env \<Rightarrow> string \<Rightarrow> ('f, 'm, 't) boot_world \<Rightarrow> (('f, 'm, 't) boot_world, unit) stage" where
  "boot_check env mainUnit w =
     (let (w, boot_read) = check_through env ''Boot.lh'' w;
          (w, main_read) = check_through env mainUnit w;
          m = bw_machine w
      in if \<not> boot_read \<or> \<not> main_read \<or> \<not> program_ok env m
         then Inl (refuse ''lhatove: check failed''
                (if diagnostics env m = [] then ''Could not read '' @ mainUnit else diagnostics env m) w)
         else
           let problems = (if isBinary mainUnit (bw_loader w) then [] else checkCallbacks (unit_of env m mainUnit))
           in if problems \<noteq> [] then Inl (refuse ''lhatove: check failed'' problems w)
              else case compile_program env m of
                     (m, ok) \<Rightarrow>
                       let w = w\<lparr>bw_machine := m\<rparr>
                       in if \<not> ok then Inl (refuse ''lhatove'' ''Could not compile the program.'' w) else Inr (w, ()))"

definition boot_write ::
  "('f, 'm, 'v, 't) boot_env \<Rightarrow> arguments \<Rightarrow> ('f, 'm, 't) boot_world \<Rightarrow> (('f, 'm, 't) boot_world, unit) stage result option" where
  "boot_write env args w =
     (let api = env_game env (bw_fs w)
      in if embedTo args \<noteq> []
         then case dumpEmbedded api (bw_loader w) (embedTo args) (debugNames args) (bw_machine w) (bw_disk w) of
                (d, trouble) \<Rightarrow>
                  let w = w\<lparr>bw_disk := d\<rparr>
                  in Some (Inr (Inl (if trouble \<noteq> [] then refuse ''lhatove'' trouble w else (w, 0))))
         else if compileTo args \<noteq> []
         then case compileGame api (Some (env_files env (bw_fs w))) (bw_loader w) (compileTo args) (debugNames args)
                     (bw_machine w) (bw_disk w) of
                None \<Rightarrow> None
              | Some (Inl e) \<Rightarrow> Some (Inl e)
              | Some (Inr (m, d, trouble)) \<Rightarrow>
                  let w = w\<lparr>bw_machine := m, bw_disk := d\<rparr>
                  in Some (Inr (Inl (if trouble \<noteq> [] then refuse ''lhatove'' trouble w else (w, 0))))
         else Some (Inr (Inr (w, ()))))"

section \<open>The configuration and the modules\<close>

definition boot_conf ::
  "('f, 'm, 'v, 't) boot_env \<Rightarrow> string \<Rightarrow> ('f, 'm, 't) boot_world \<Rightarrow> (('f, 'm, 't) boot_world, 'v conf) stage result" where
  "boot_conf env ver w =
     (let api = env_value env; c = default_conf api ver; fs = Some (env_files env (bw_fs w))
      in if \<not> exists_unit fs ''conf.lton'' (bw_loader w) then Inr (Inr (w, c))
         else case lton_load env (bw_machine w) ''conf.lton'' of
                (m, Inl status) \<Rightarrow>
                  Inr (Inl (refuse ''lhatove: error'' (''conf.lton: '' @ describeLton env m status) (w\<lparr>bw_machine := m\<rparr>)))
              | (m, Inr t) \<Rightarrow>
                  (case park_at api m ''love.boot'' ''conf'' t of
                     (m, parked) \<Rightarrow>
                       if \<not> parked then Inr (Inl (w\<lparr>bw_machine := m\<rparr>, 1))
                       else bind_result (readConf api m t c) (\<lambda>(m, c).
                         let w = w\<lparr>bw_machine := m\<rparr>;
                             w = (if identity c \<noteq> [] then w\<lparr>bw_fs := fs_setIdentity env (bw_fs w) (identity c) (appendidentity c)\<rparr> else w)
                         in Inr (Inr (w, c)))))"

text \<open>The modules the configuration admits, in the order they are made.\<close>

definition creation_order :: "boot_module list" where
  "creation_order =
     [M_timer, M_event, M_keyboard, M_joystick, M_mouse, M_touch, M_sound, M_system, M_sensor, M_audio, M_image,
      M_data, M_video, M_font, M_window, M_graphics, M_math, M_physics]"

text \<open>
  A module that throws ends the boot, but for the sound system, which has a
  silent one to take its place.
\<close>

definition add_module ::
  "('f, 'm, 'v, 't) boot_env \<Rightarrow> module_instance \<Rightarrow> ('f, 'm, 't) boot_world \<Rightarrow> (('f, 'm, 't) boot_world, unit) stage" where
  "add_module env k w =
     (case new_module env k of
        Some e \<Rightarrow> Inl (refuse ''lhatove'' (''Could not start a module: '' @ e) w)
      | None \<Rightarrow> Inr (add_instance k w, ()))"

definition choose_module ::
  "('f, 'm, 'v, 't) boot_env \<Rightarrow> boot_module \<Rightarrow> ('f, 'm, 't) boot_world \<Rightarrow> module_instance \<times> ('f, 'm, 't) boot_world" where
  "choose_module env k w =
     (if k = M_audio
      then case new_module env (Instance k) of
             Some e \<Rightarrow> (NullAudio, log_event (Said e) w)
           | None \<Rightarrow> (Instance k, w)
      else (Instance k, w))"

fun add_modules ::
  "('f, 'm, 'v, 't) boot_env \<Rightarrow> 'v conf \<Rightarrow> boot_module list \<Rightarrow> ('f, 'm, 't) boot_world \<Rightarrow> (('f, 'm, 't) boot_world, unit) stage" where
  "add_modules env c [] w = Inr (w, ())"
| "add_modules env c (k # ks) w =
     (if \<not> modules c k then add_modules env c ks w
      else
        let (k', w) = choose_module env k w
        in bind_stage (add_module env k' w) (\<lambda>w _. add_modules env c ks w))"

definition boot_window ::
  "('f, 'm, 'v, 't) boot_env \<Rightarrow> 'v conf \<Rightarrow> ('f, 'm, 't) boot_world \<Rightarrow> (('f, 'm, 't) boot_world, unit) stage" where
  "boot_window env c w =
     (if modules c M_window \<and> window_wanted c
      then case set_window env c (bw_machine w) of
             Thrown e \<Rightarrow> Inl (refuse ''lhatove'' (''Could not start a module: '' @ e) w)
           | Refused problem \<Rightarrow> Inl (refuse ''lhatove: conf.lh'' problem w)
           | Shown shown \<Rightarrow> if \<not> shown then Inl (refuse ''lhatove'' ''Could not set window mode.'' w) else Inr (w, ())
      else Inr (w, ()))"

definition boot_modules ::
  "('f, 'm, 'v, 't) boot_env \<Rightarrow> 'v conf \<Rightarrow> ('f, 'm, 't) boot_world \<Rightarrow> (('f, 'm, 't) boot_world, unit) stage" where
  "boot_modules env c w =
     bind_stage (add_modules env c creation_order w) (\<lambda>w _. boot_window env c w)"

section \<open>Running\<close>

definition report_runtime :: "string \<Rightarrow> ('f, 'm, 't) boot_world \<Rightarrow> ('f, 'm, 't) boot_world" where
  "report_runtime text w = log_event (ReportRuntime text) w"

text \<open>Ending the debugger's session, if there is one; its destructor does it too.\<close>

definition debugger_end :: "int \<Rightarrow> ('f, 'm, 't) boot_world \<Rightarrow> ('f, 'm, 't) boot_world" where
  "debugger_end code w = (if bw_debug w then log_event (DebuggerEnd code) (w\<lparr>bw_debug := False\<rparr>) else w)"

definition boot_debugger ::
  "('f, 'm, 'v, 't) boot_env \<Rightarrow> arguments \<Rightarrow> ('f, 'm, 't) boot_world \<Rightarrow> ('f, 'm, 't) boot_world" where
  "boot_debugger env args w =
     (if dapPort args = 0 then w
      else case debugger_begins env (dapPort args) of
             None \<Rightarrow> w\<lparr>bw_debug := True\<rparr>
           | Some why \<Rightarrow> log_event (Said (''lhatove: '' @ why @ ''; running without one.'')) w)"

definition failed_run ::
  "('f, 'm, 'v, 't) boot_env \<Rightarrow> 'v run_result \<Rightarrow> ('f, 'm, 't) boot_world \<Rightarrow> ('f, 'm, 't) boot_world \<times> int" where
  "failed_run env r w =
     (let w = (if bw_debug w \<and> debugger_ended env (bw_machine w) then w
               else report_runtime (describeRun env (bw_machine w) r) w)
      in (debugger_end 1 w, 1))"

definition boot_main ::
  "('f, 'm, 'v, 't) boot_env \<Rightarrow> string \<Rightarrow> ('f, 'm, 't) boot_world \<Rightarrow> (('f, 'm, 't) boot_world, 'v) stage" where
  "boot_main env mainUnit w =
     (let api = env_value env; (m, r) = run_unit env (bw_machine w) mainUnit; w = w\<lparr>bw_machine := m\<rparr>
      in if run_status r \<noteq> RUN_OK then Inl (report_runtime (describeRun env m r) w, 1)
         else if \<not> is_table api (run_value r) then Inl (w, exitCodeOf api m (run_value r))
         else
           let (m, parked) = park_at api m ''love.boot'' ''game'' (run_value r); w = w\<lparr>bw_machine := m\<rparr>
           in if \<not> parked then Inl (refuse ''lhatove'' (''Could not keep the game'' @ [CHR 0x27] @ ''s module table.'') w)
              else case buildHandlers api (host_function env) (run_value r) m of
                     (m, None) \<Rightarrow> Inl (refuse ''lhatove'' ''Could not build the callback table.'' (w\<lparr>bw_machine := m\<rparr>))
                   | (m, Some handlers) \<Rightarrow> Inr (w\<lparr>bw_machine := m\<rparr>, run_value r))"

text \<open>The procedure to run: the game's own, or that of \<^verbatim>\<open>Boot.lh\<close>.\<close>

definition boot_run_value ::
  "('f, 'm, 'v, 't) boot_env \<Rightarrow> 'v \<Rightarrow> ('f, 'm, 't) boot_world \<Rightarrow> (('f, 'm, 't) boot_world, 'v) stage" where
  "boot_run_value env gameTable w =
     (let api = env_value env; (m, run) = field api (bw_machine w) gameTable ''run''; w = w\<lparr>bw_machine := m\<rparr>
      in if is_subroutine api run then Inr (w, run)
         else
           let (m, r) = run_unit env m ''Boot.lh''; w = w\<lparr>bw_machine := m\<rparr>
           in if run_status r \<noteq> RUN_OK \<or> \<not> is_subroutine api (run_value r)
              then Inl (refuse ''lhatove: error'' (''Boot.lh did not answer a run procedure: '' @ describeRun env m r) w)
              else Inr (w, run_value r))"

definition boot_start ::
  "('f, 'm, 'v, 't) boot_env \<Rightarrow> 'v \<Rightarrow> ('f, 'm, 't) boot_world \<Rightarrow> (('f, 'm, 't) boot_world, 'v) stage" where
  "boot_start env run w =
     (let api = env_value env; (m, parked) = park_at api (bw_machine w) ''love.boot'' ''run'' run; w = w\<lparr>bw_machine := m\<rparr>
      in if \<not> parked then Inl (debugger_end 1 w, 1)
         else
           let (m, started) = call_value env m run []; w = w\<lparr>bw_machine := m\<rparr>
           in if run_status started \<noteq> RUN_OK then Inl (failed_run env started w)
              else if \<not> is_coroutine api (run_value started)
              then let code = exitCodeOf api m (run_value started) in Inl (debugger_end code w, code)
              else
                let (m, parked) = park_at api m ''love.boot'' ''coroutine'' (run_value started); w = w\<lparr>bw_machine := m\<rparr>
                in if \<not> parked then Inl (debugger_end 1 w, 1) else Inr (w, run_value started))"

text \<open>One resume a frame, after the slots that were given back have been swept.\<close>

definition frame_step ::
  "('f, 'm, 'v, 't) boot_env \<Rightarrow> 'v \<Rightarrow> ('f, 'm, 't) boot_world \<Rightarrow> ('f, 'm, 't) boot_world \<times> 'v run_result" where
  "frame_step env co w =
     (let (m, l, r) = resume env (bw_machine w) (sweep (env_table env) (bw_lot w)) co
      in (w\<lparr>bw_machine := m, bw_lot := l\<rparr>, r))"

partial_function (option) frames ::
  "('f, 'm, 'v, 't) boot_env \<Rightarrow> 'v \<Rightarrow> ('f, 'm, 't) boot_world \<Rightarrow> (('f, 'm, 't) boot_world \<times> int) option" where
  "frames env co w =
     (case frame_step env co w of
        (w, r) \<Rightarrow>
          if run_status r \<noteq> RUN_OK then Some (failed_run env r w)
          else if coroutine_done env (bw_machine w) co
          then (let code = exitCodeOf (env_value env) (bw_machine w) (run_value r) in Some (debugger_end code w, code))
          else frames env co w)"

section \<open>The whole boot\<close>

text \<open>
  What every way out does: the runtime goes first, then the modules in the
  reverse of the order they were made.
\<close>

definition boot_end :: "bool \<Rightarrow> ('f, 'm, 't) boot_world \<times> int \<Rightarrow> ('f, 'm, 't) boot_world \<times> int" where
  "boot_end runtime r =
     (case r of
        (w, code) \<Rightarrow>
          let w = debugger_end 1 w; w = (if runtime then log_event RuntimeGone w else w)
          in (w\<lparr>bw_log := bw_log w @ map Released (rev (bw_modules w)), bw_modules := []\<rparr>, code))"

definition ended :: "bool \<Rightarrow> ('f, 'm, 't) boot_world \<times> int \<Rightarrow> (('f, 'm, 't) boot_world \<times> int) result option" where
  "ended runtime r = Some (Inr (boot_end runtime r))"

definition boot_program ::
  "('f, 'm, 'v, 't) boot_env \<Rightarrow> arguments \<Rightarrow> string \<Rightarrow> ('f, 'm, 't) boot_world \<Rightarrow> (('f, 'm, 't) boot_world, unit) stage" where
  "boot_program env args mainUnit w =
     bind_stage (boot_register env w) (\<lambda>w _.
     bind_stage (boot_dump env args w) (\<lambda>w _.
       boot_check env mainUnit w))"

definition boot_game ::
  "('f, 'm, 'v, 't) boot_env \<Rightarrow> 'v conf \<Rightarrow> string \<Rightarrow> ('f, 'm, 't) boot_world \<Rightarrow> (('f, 'm, 't) boot_world, 'v) stage" where
  "boot_game env c mainUnit w =
     bind_stage (boot_modules env c w) (\<lambda>w _.
     bind_stage (boot_main env mainUnit w) (\<lambda>w gameTable.
     bind_stage (boot_run_value env gameTable w) (\<lambda>w run.
       boot_start env run w)))"

definition boot_arguments :: "string list \<Rightarrow> string \<Rightarrow> arguments" where
  "boot_arguments argv gamepath =
     (let args = parseArguments argv in if gamepath \<noteq> [] then args\<lparr>game := gamepath\<rparr> else args)"

text \<open>Everything the runtime's life spans.\<close>

definition boot_running ::
  "('f, 'm, 'v, 't) boot_env \<Rightarrow> string \<Rightarrow> arguments \<Rightarrow> string \<Rightarrow> ('f, 'm, 't) boot_world \<Rightarrow>
     (('f, 'm, 't) boot_world \<times> int) result option" where
  "boot_running env ver args mainUnit w =
     (case boot_program env args mainUnit w of
        Inl r \<Rightarrow> Some (Inr r)
      | Inr (w, _) \<Rightarrow>
          (case boot_write env args w of
             None \<Rightarrow> None
           | Some (Inl e) \<Rightarrow> Some (Inl e)
           | Some (Inr (Inl r)) \<Rightarrow> Some (Inr r)
           | Some (Inr (Inr (w, _))) \<Rightarrow>
               (case boot_conf env ver (boot_debugger env args w) of
                  Inl e \<Rightarrow> Some (Inl e)
                | Inr (Inl r) \<Rightarrow> Some (Inr r)
                | Inr (Inr (w, c)) \<Rightarrow>
                    (case boot_game env c mainUnit w of
                       Inl r \<Rightarrow> Some (Inr r)
                     | Inr (w, co) \<Rightarrow> (case frames env co w of None \<Rightarrow> None | Some r \<Rightarrow> Some (Inr r))))))"

definition boot ::
  "('f, 'm, 'v, 't) boot_env \<Rightarrow> string \<Rightarrow> string list \<Rightarrow> string \<Rightarrow> ('f, 'm, 't) boot_world \<Rightarrow>
     (('f, 'm, 't) boot_world \<times> int) result option" where
  "boot env ver argv gamepath w =
     (case boot_source env (hd argv) (boot_arguments argv gamepath) w of
        Inl r \<Rightarrow> ended False r
      | Inr (w, args, mainUnit) \<Rightarrow>
          (case boot_running env ver args mainUnit w of
             None \<Rightarrow> None
           | Some (Inl e) \<Rightarrow> Some (Inl e)
           | Some (Inr r) \<Rightarrow> ended True r))"

section \<open>The loop around it\<close>

text \<open>
  \<open>one_boot\<close> is a boot from the state the one before left: the game path dropped on
  the no-game screen and whatever else persists.
\<close>

partial_function (option) restart_loop :: "('s \<Rightarrow> ('s \<times> int) result option) \<Rightarrow> 's \<Rightarrow> ('s \<times> int) result option" where
  "restart_loop one_boot s =
     (case one_boot s of
        None \<Rightarrow> None
      | Some (Inl e) \<Rightarrow> Some (Inl e)
      | Some (Inr (s, code)) \<Rightarrow> if code = LOVE_LH_RESTART then restart_loop one_boot s else Some (Inr (s, code)))"

definition love_main ::
  "string \<Rightarrow> string \<Rightarrow> string list \<Rightarrow> ('s \<Rightarrow> ('s \<times> int) result option) \<Rightarrow> 's \<Rightarrow> ('s \<times> int) result option" where
  "love_main own linked argv one_boot s =
     (if c_string own \<noteq> c_string linked then Some (Inr (s, 1))
      else if length argv > 1 \<and> c_string (argv ! 1) = ''--version'' then Some (Inr (s, 0))
      else if length argv > 1 \<and> c_string (argv ! 1) = ''--help'' then Some (Inr (s, 0))
      else restart_loop one_boot s)"

section \<open>What is found can be run\<close>

text \<open>A log in which no module is released.\<close>

definition quiet :: "boot_event list \<Rightarrow> bool" where
  "quiet es \<longleftrightarrow> (\<forall>k. Released k \<notin> set es)"

text \<open>The modules that a log tells were made, in their order.\<close>

definition created :: "boot_event list \<Rightarrow> module_instance list" where
  "created es = concat (map (\<lambda>e. case e of Made k \<Rightarrow> [k] | _ \<Rightarrow> []) es)"

lemma created_append [simp]:
  "created [] = []" "created (es @ es') = created es @ created es'" "created (Made k # es) = k # created es"
  by (simp_all add: created_def)

lemma created_other: "(\<forall>k. e \<noteq> Made k) \<Longrightarrow> created (e # es) = created es"
  by (cases e) (simp_all add: created_def)

lemma boot_nogame_runnable:
  "(let w' = boot_nogame env can mainUnit invalid w; fs = Some (env_files env (bw_fs w'))
     in exists_unit fs mainUnit (bw_loader w') \<or> exists_unit fs ''conf.lton'' (bw_loader w'))"
  "isHeld p (bw_loader w) \<Longrightarrow> isHeld p (bw_loader (boot_nogame env can mainUnit invalid w))"
  by (auto simp: boot_nogame_def Let_def exists_unit_def isHeld_def hold_def log_event_def)

lemma add_instance_fs [simp]: "bw_fs (add_instance k w) = bw_fs w"
  by (simp add: add_instance_def log_event_def)

text \<open>Whether the executable itself carries the game.\<close>

definition own_archive :: "('f, 'm, 'v, 't) boot_env \<Rightarrow> string \<Rightarrow> 'f \<Rightarrow> bool" where
  "own_archive env argv0 f = snd (fs_setSource env f (if fs_executable env f = [] then argv0 else fs_executable env f))"

lemma boot_source_found:
  assumes "fs_init env (bw_fs w) argv0 = (f, None)"
  obtains can mainUnit bad w1 f1 where
    "boot_source env argv0 args w = Inr (boot_nogame env can mainUnit bad (w1\<lparr>bw_fs := f1\<rparr>),
       if own_archive env argv0 f \<or> fused args then args\<lparr>dapPort := 0\<rparr> else args, mainUnit)"
    "isHeld ''Boot.lh'' (bw_loader w1)"
    "bw_modules w1 = bw_modules w @ [Instance M_filesystem]" "quiet (bw_log w) \<longrightarrow> quiet (bw_log w1)"
    "created (bw_log w1) = created (bw_log w) @ [Instance M_filesystem]"
proof -
  let ?exe = "if fs_executable env f = [] then argv0 else fs_executable env f"
  obtain f1 can where f1: "fs_setSource env f ?exe = (f1, can)"
    by (cases "fs_setSource env f ?exe")
  let ?shut = "(can \<or> fused args) \<and> dapPort args \<noteq> 0"
  define args1 where "args1 = (if ?shut then args\<lparr>dapPort := 0\<rparr> else args)"
  obtain f2 can2 main i bad where
    src: "game_source env (game args1) ?exe can (fs_setFused env f1 (can \<or> fused args)) = (f2, can2, main, i, bad)"
    by (cases "game_source env (game args1) ?exe can (fs_setFused env f1 (can \<or> fused args))") blast
  define w1 where "w1 = add_instance (Instance M_filesystem) (w\<lparr>bw_loader := hold ''Boot.lh'' (embedded_boot env) new_loader\<rparr>)"
  define w2 where "w2 = (if ?shut then log_event (Said ''lhatove: --dap is ignored for a fused game.'') w1 else w1)"
  define f3 where "f3 = fs_setIdentity env f2
    (identityOf (case fs_realdir env f2 main of Some d \<Rightarrow> if d \<noteq> [] then leaf d else i | None \<Rightarrow> i)) True"
  have port: "args1 = (if own_archive env argv0 f \<or> fused args then args\<lparr>dapPort := 0\<rparr> else args)"
    using f1 by (simp add: args1_def own_archive_def)
  have "boot_source env argv0 args w = Inr (boot_nogame env can2 main bad (w2\<lparr>bw_fs := f3\<rparr>), args1, main)"
    using assms f1 src by (simp add: boot_source_def Let_def args1_def w1_def w2_def f3_def split del: if_split cong: if_cong)
  moreover have "isHeld ''Boot.lh'' (bw_loader w2)"
    by (simp add: w2_def w1_def add_instance_def log_event_def isHeld_def hold_def)
  moreover have "bw_modules w2 = bw_modules w @ [Instance M_filesystem]" "quiet (bw_log w) \<longrightarrow> quiet (bw_log w2)"
    "created (bw_log w2) = created (bw_log w) @ [Instance M_filesystem]"
    by (auto simp: w2_def w1_def add_instance_def log_event_def quiet_def created_other)
  ultimately show ?thesis
    unfolding port by (rule that)
qed

text \<open>Claim C32. When the boot has found what to run, the engine's own \<^verbatim>\<open>Boot.lh\<close> is held, and the main
  unit or a configuration exists, as a held text or as a file: a game without either, and no game at all, has the no-game
  screen in its place. The debug port is closed exactly for a game that is fused, by the option or because the executable
  carries it, and no other option changes.\<close>

theorem boot_source_runnable:
  assumes "boot_source env argv0 args w = Inr (w', args', mainUnit)"
  shows "isHeld ''Boot.lh'' (bw_loader w') \<and>
    (let fs = Some (env_files env (bw_fs w'))
     in exists_unit fs mainUnit (bw_loader w') \<or> exists_unit fs ''conf.lton'' (bw_loader w')) \<and>
    (let f = fst (fs_init env (bw_fs w) argv0);
         exe = (if fs_executable env f = [] then argv0 else fs_executable env f)
     in args' = (if snd (fs_setSource env f exe) \<or> fused args then args\<lparr>dapPort := 0\<rparr> else args))"
proof -
  obtain f where f: "fs_init env (bw_fs w) argv0 = (f, None)"
    using assms by (cases "fs_init env (bw_fs w) argv0"; cases "snd (fs_init env (bw_fs w) argv0)")
      (auto simp: boot_source_def add_instance_def log_event_def)
  obtain can main bad w1 f1 where
    "boot_source env argv0 args w = Inr (boot_nogame env can main bad (w1\<lparr>bw_fs := f1\<rparr>),
       if own_archive env argv0 f \<or> fused args then args\<lparr>dapPort := 0\<rparr> else args, main)"
    "isHeld ''Boot.lh'' (bw_loader w1)"
    by (rule boot_source_found [OF f])
  then show ?thesis
    using boot_nogame_runnable(1) [of env can main bad "w1\<lparr>bw_fs := f1\<rparr>"]
      boot_nogame_runnable(2) [of "''Boot.lh''" "w1\<lparr>bw_fs := f1\<rparr>" env can main bad] assms f
    by (auto simp: Let_def own_archive_def)
qed

section \<open>The frame loop\<close>

fun frame_world :: "('f, 'm, 'v, 't) boot_env \<Rightarrow> 'v \<Rightarrow> nat \<Rightarrow> ('f, 'm, 't) boot_world \<Rightarrow> ('f, 'm, 't) boot_world" where
  "frame_world env co 0 w = w"
| "frame_world env co (Suc n) w = frame_world env co n (fst (frame_step env co w))"

definition frame_ends :: "('f, 'm, 'v, 't) boot_env \<Rightarrow> 'v \<Rightarrow> nat \<Rightarrow> ('f, 'm, 't) boot_world \<Rightarrow> bool" where
  "frame_ends env co n w =
     (case frame_step env co (frame_world env co n w) of
        (w, r) \<Rightarrow> run_status r \<noteq> RUN_OK \<or> coroutine_done env (bw_machine w) co)"

definition frame_result ::
  "('f, 'm, 'v, 't) boot_env \<Rightarrow> 'v \<Rightarrow> nat \<Rightarrow> ('f, 'm, 't) boot_world \<Rightarrow> ('f, 'm, 't) boot_world \<times> int" where
  "frame_result env co n w =
     (case frame_step env co (frame_world env co n w) of
        (w, r) \<Rightarrow>
          if run_status r \<noteq> RUN_OK then failed_run env r w
          else (debugger_end (exitCodeOf (env_value env) (bw_machine w) (run_value r)) w,
                exitCodeOf (env_value env) (bw_machine w) (run_value r)))"

lemma frames_unfold:
  "frames env co w =
     (if frame_ends env co 0 w then Some (frame_result env co 0 w) else frames env co (fst (frame_step env co w)))"
  by (cases "frame_step env co w", subst frames.simps) (simp add: frame_ends_def frame_result_def Let_def)

lemma frame_later:
  "frame_ends env co (Suc n) w = frame_ends env co n (fst (frame_step env co w))"
  "frame_result env co (Suc n) w = frame_result env co n (fst (frame_step env co w))"
  by (simp_all add: frame_ends_def frame_result_def)

lemma frames_at:
  "frame_ends env co n w \<Longrightarrow> \<forall>k < n. \<not> frame_ends env co k w \<Longrightarrow> frames env co w = Some (frame_result env co n w)"
proof (induction n arbitrary: w)
  case 0
  then show ?case
    by (simp add: frames_unfold [of env co w])
next
  case (Suc n)
  then have "\<forall>k < n. \<not> frame_ends env co k (fst (frame_step env co w))" "\<not> frame_ends env co 0 w"
    using frame_later(1) [of env co _ w] by (metis Suc_less_eq, blast)
  then show ?case
    using Suc frame_later [of env co n w] by (simp add: frames_unfold [of env co w])
qed

lemma frames_ends:
  assumes "frames env co w = Some r"
  shows "\<exists>n. frame_ends env co n w"
  using assms
proof (rule frames.raw_induct [rotated, where P = "\<lambda>env co w r. \<exists>n. frame_ends env co n w"])
  fix loop and env :: "('f, 'm, 'v, 't) boot_env" and co w r
  assume IH: "\<And>env co w r. loop env co w = Some r \<Longrightarrow> \<exists>n. frame_ends env co n w"
    and step: "(case frame_step env co w of
        (w, r) \<Rightarrow>
          if run_status r \<noteq> RUN_OK then Some (failed_run env r w)
          else if coroutine_done env (bw_machine w) co
          then (let code = exitCodeOf (env_value env) (bw_machine w) (run_value r) in Some (debugger_end code w, code))
          else loop env co w) = Some r"
  show "\<exists>n. frame_ends env co n w"
  proof (cases "frame_ends env co 0 w")
    case False
    then have "loop env co (fst (frame_step env co w)) = Some r"
      using step by (auto simp: frame_ends_def split: prod.splits if_splits)
    then show ?thesis
      using IH frame_later(1) [of env co _ w] by blast
  qed blast
qed

text \<open>The frame loop returns exactly if some frame ends the run, by a fault or by the coroutine
  having come to its end, and then answers what the first such frame says; a game that never ends
  keeps it running. Every frame sweeps the slots given back before it resumes.\<close>

theorem frames_return_iff:
  "frames env co w =
     (if \<exists>n. frame_ends env co n w then Some (frame_result env co (LEAST n. frame_ends env co n w) w) else None)"
proof (cases "\<exists>n. frame_ends env co n w")
  case True
  define N where "N = (LEAST n. frame_ends env co n w)"
  have "frame_ends env co N w"
    unfolding N_def by (rule LeastI_ex [OF True])
  moreover have "\<forall>k < N. \<not> frame_ends env co k w"
    unfolding N_def using not_less_Least by blast
  ultimately have "frames env co w = Some (frame_result env co N w)"
    by (rule frames_at)
  then show ?thesis
    unfolding N_def by (simp only: True if_True)
next
  case False
  then have "frames env co w = None"
    using frames_ends [of env co w] by (cases "frames env co w") auto
  then show ?thesis
    by (simp only: False if_False)
qed

section \<open>Restarting\<close>

lemma restart_loop_forever:
  assumes "\<And>s. \<exists>s'. one_boot s = Some (Inr (s', LOVE_LH_RESTART))"
  shows "restart_loop one_boot s = None"
proof -
  let ?restarts = "\<lambda>b. \<forall>s. \<exists>s'. b s = Some (Inr (s', LOVE_LH_RESTART))"
  have "\<not> ?restarts one_boot" if "restart_loop one_boot s = Some r" for r
    using that
  proof (rule restart_loop.raw_induct [rotated, where P = "\<lambda>b s r. \<not> ?restarts b"])
    fix loop and b :: "'a \<Rightarrow> ('a \<times> int) result option" and s r
    assume IH: "\<And>b s r. loop b s = Some r \<Longrightarrow> \<not> ?restarts b"
      and step: "(case b s of None \<Rightarrow> None | Some (Inl e) \<Rightarrow> Some (Inl e)
        | Some (Inr (s, code)) \<Rightarrow> if code = LOVE_LH_RESTART then loop b s else Some (Inr (s, code))) = Some r"
    show "\<not> ?restarts b"
    proof
      assume all: "?restarts b"
      then obtain s' where "b s = Some (Inr (s', LOVE_LH_RESTART))"
        by blast
      then show False
        using IH [of b s' r] step all by simp
    qed
  qed
  then show ?thesis
    using assms by (cases "restart_loop one_boot s") auto
qed

section \<open>What every way out gives back\<close>

text \<open>A step that makes no module and releases none.\<close>

definition steady :: "('f, 'm, 't) boot_world \<Rightarrow> ('f, 'm, 't) boot_world \<Rightarrow> bool" where
  "steady w w' \<longleftrightarrow>
     bw_modules w' = bw_modules w \<and> created (bw_log w') = created (bw_log w) \<and> (quiet (bw_log w) \<longrightarrow> quiet (bw_log w'))"

definition stage_world :: "('w, 'a) stage \<Rightarrow> 'w" where
  "stage_world s = (case s of Inl (w, _) \<Rightarrow> w | Inr (w, _) \<Rightarrow> w)"

lemma stage_world_simps [simp]: "stage_world (Inl r) = fst r" "stage_world (Inr q) = fst q"
  by (simp_all add: stage_world_def split_def)

lemma steady_refl [simp]: "steady w w"
  by (simp add: steady_def)

lemma steady_trans: "steady w w1 \<Longrightarrow> steady w1 w2 \<Longrightarrow> steady w w2"
  by (auto simp: steady_def)

lemma steady_log [simp]: "(\<forall>k. e \<noteq> Released k \<and> e \<noteq> Made k) \<Longrightarrow> steady w (log_event e w') = steady w w'"
  by (auto simp: steady_def log_event_def quiet_def created_other)

lemma steady_fields [simp]:
  "steady w (w'\<lparr>bw_fs := f\<rparr>) = steady w w'" "steady w (w'\<lparr>bw_loader := l\<rparr>) = steady w w'"
  "steady w (w'\<lparr>bw_machine := m\<rparr>) = steady w w'" "steady w (w'\<lparr>bw_lot := p\<rparr>) = steady w w'"
  "steady w (w'\<lparr>bw_disk := d\<rparr>) = steady w w'" "steady w (w'\<lparr>bw_debug := b\<rparr>) = steady w w'"
  by (simp_all add: steady_def)

lemma steady_refuse [simp]: "steady w (fst (refuse title text w')) = steady w w'"
  by (simp add: refuse_def)

lemma steady_debugger_end [simp]: "steady w (debugger_end code w') = steady w w'"
  by (simp add: debugger_end_def)

lemma steady_failed_run [simp]: "steady w (fst (failed_run env r w')) = steady w w'"
  by (simp add: failed_run_def report_runtime_def Let_def)

lemma steady_bind:
  assumes "steady w (stage_world s)" "\<And>w' a. s = Inr (w', a) \<Longrightarrow> steady w' (stage_world (k w' a))"
  shows "steady w (stage_world (bind_stage s k))"
  using assms by (cases s) (auto intro: steady_trans split: prod.split)

lemma steady_nogame: "steady w (boot_nogame env can mainUnit invalid w') = steady w w'"
  by (simp add: boot_nogame_def Let_def)

lemma steady_register: "steady w (stage_world (boot_register env w))"
  by (auto simp: boot_register_def Let_def split: prod.split option.split)

lemma steady_dump: "steady w (stage_world (boot_dump env args w))"
  by (auto simp: boot_dump_def Let_def split: option.split)

lemma steady_check_through: "check_through env path w = (w', ok) \<Longrightarrow> steady w w'"
  by (auto simp: check_through_def Let_def split: prod.splits)

lemma steady_check: "steady w (stage_world (boot_check env mainUnit w))"
proof -
  obtain w1 ok1 w2 ok2 where w: "check_through env ''Boot.lh'' w = (w1, ok1)" "check_through env mainUnit w1 = (w2, ok2)"
    by (metis surj_pair)
  then have "steady w w2"
    using steady_check_through steady_trans by metis
  then show ?thesis
    using w by (auto simp: boot_check_def Let_def split: prod.split)
qed

lemma steady_program: "steady w (stage_world (boot_program env args mainUnit w))"
  unfolding boot_program_def by (intro steady_bind steady_register steady_dump steady_check)

lemma steady_write: "boot_write env args w = Some (Inr s) \<Longrightarrow> steady w (stage_world s)"
  by (auto simp: boot_write_def Let_def split: if_splits prod.splits option.splits sum.splits)

lemma steady_conf: "boot_conf env ver w = Inr s \<Longrightarrow> steady w (stage_world s)"
  by (auto simp: boot_conf_def Let_def bind_result_def split: if_splits prod.splits sum.splits)

lemma steady_debugger: "steady w (boot_debugger env args w)"
  by (simp add: boot_debugger_def split: option.split)

lemma steady_main: "steady w (stage_world (boot_main env mainUnit w))"
  by (auto simp: boot_main_def Let_def report_runtime_def split: prod.split option.split)

lemma steady_run_value: "steady w (stage_world (boot_run_value env g w))"
  by (auto simp: boot_run_value_def Let_def split: prod.split)

lemma steady_start: "steady w (stage_world (boot_start env run w))"
  by (auto simp: boot_start_def Let_def split: prod.split)

lemma steady_frame_world: "steady w (frame_world env co n w)"
proof (induction n arbitrary: w)
  case (Suc n)
  have "steady w (fst (frame_step env co w))"
    by (simp add: frame_step_def split_def Let_def)
  then show ?case
    using Suc steady_trans by auto
qed simp

lemma steady_frame_result: "steady w (fst (frame_result env co n w))"
proof -
  have "steady (frame_world env co n w) (fst (frame_step env co (frame_world env co n w)))"
    by (simp add: frame_step_def split_def Let_def)
  then have "steady w (fst (frame_step env co (frame_world env co n w)))"
    using steady_frame_world steady_trans by metis
  then show ?thesis
    by (auto simp: frame_result_def split: prod.split)
qed

lemma steady_frames:
  assumes "frames env co w = Some r"
  shows "steady w (fst r)"
proof -
  define n where "n = (LEAST n. frame_ends env co n w)"
  have "frame_ends env co n w"
    unfolding n_def by (rule LeastI_ex [OF frames_ends [OF assms]])
  moreover have "\<forall>k < n. \<not> frame_ends env co k w"
    unfolding n_def using not_less_Least by blast
  ultimately have "r = frame_result env co n w"
    using assms frames_at by fastforce
  then show ?thesis
    by (simp add: steady_frame_result)
qed

text \<open>What the stages that make modules do: \<open>ms\<close> are the ones they made, in their order.\<close>

definition made ::
  "('f, 'm, 't) boot_world \<Rightarrow> ('f, 'm, 't) boot_world \<Rightarrow> module_instance list \<Rightarrow> bool" where
  "made w w' ms \<longleftrightarrow> bw_modules w' = bw_modules w @ ms \<and> created (bw_log w') = created (bw_log w) @ ms \<and> (quiet (bw_log w) \<longrightarrow> quiet (bw_log w'))"

lemma made_steady: "made w w1 ms \<Longrightarrow> steady w1 w2 \<Longrightarrow> made w w2 ms"
  by (auto simp: made_def steady_def)

lemma made_made: "made w w1 ms \<Longrightarrow> made w1 w2 ms' \<Longrightarrow> made w w2 (ms @ ms')"
  by (auto simp: made_def)

lemma steady_made: "steady w w' \<Longrightarrow> made w w' []"
  by (auto simp: made_def steady_def)

definition kinds :: "boot_module list \<Rightarrow> module_instance set" where
  "kinds ks = Instance ` set ks \<union> (if M_audio \<in> set ks then {NullAudio} else {})"

lemma boot_source_made: "made w (stage_world (boot_source env argv0 args w)) [Instance M_filesystem]"
proof (cases "fs_init env (bw_fs w) argv0")
  case (Pair f e)
  show ?thesis
  proof (cases e)
    case None
    obtain can main bad w1 args1 f1 where
      "boot_source env argv0 args w = Inr (boot_nogame env can main bad (w1\<lparr>bw_fs := f1\<rparr>), args1, main)"
      "created (bw_log w1) = created (bw_log w) @ [Instance M_filesystem]"
      "bw_modules w1 = bw_modules w @ [Instance M_filesystem]" "quiet (bw_log w) \<longrightarrow> quiet (bw_log w1)"
      by (rule boot_source_found [of env w argv0 f]) (simp_all add: Pair None)
    then show ?thesis
      using made_steady [of w w1 "[Instance M_filesystem]"] by (simp add: made_def steady_nogame)
  next
    case (Some x)
    then show ?thesis
      using Pair by (simp add: boot_source_def Let_def refuse_def add_instance_def log_event_def made_def quiet_def created_other)
  qed
qed

lemma add_module_made:
  "\<exists>ms. made w (stage_world (add_module env k w)) ms \<and> ms \<in> {[], [k]}"
  by (auto simp: add_module_def made_def refuse_def add_instance_def log_event_def quiet_def created_other split: option.split)

lemma choose_module_kinds:
  "steady w (snd (choose_module env k w)) \<and> fst (choose_module env k w) \<in> kinds (k # ks) \<and>
   (fst (choose_module env k w) = Instance k \<or> k = M_audio \<and> fst (choose_module env k w) = NullAudio)"
  by (simp add: choose_module_def kinds_def split: option.split)

lemma add_modules_made:
  "distinct ks \<Longrightarrow> \<exists>ms. made w (stage_world (add_modules env c ks w)) ms \<and> distinct ms \<and> set ms \<subseteq> kinds ks"
proof (induction ks arbitrary: w)
  case Nil
  have "made w w []"
    by (simp add: steady_made)
  then show ?case
    by (intro exI [of _ "[]"]) simp
next
  case (Cons k ks)
  have later: "kinds ks \<subseteq> kinds (k # ks)" "Instance k \<notin> kinds ks" "k = M_audio \<longrightarrow> NullAudio \<notin> kinds ks"
    using Cons.prems by (auto simp: kinds_def)
  show ?case
  proof (cases "modules c k")
    case True
    obtain k' w1 where k': "choose_module env k w = (k', w1)"
      by (metis surj_pair)
    then have one: "steady w w1" "k' \<in> kinds (k # ks)" "k' \<notin> kinds ks"
      using choose_module_kinds [of w env k ks] later(2,3) by auto
    have step: "add_modules env c (k # ks) w = bind_stage (add_module env k' w1) (\<lambda>w _. add_modules env c ks w)"
      using True k' by simp
    show ?thesis
    proof (cases "add_module env k' w1")
      case (Inl r)
      then have "steady w1 (fst r)"
        by (auto simp: add_module_def split: option.splits)
      then have "made w (stage_world (add_modules env c (k # ks) w)) []"
        using one(1) step Inl steady_trans steady_made by fastforce
      then show ?thesis
        by (intro exI [of _ "[]"]) simp
    next
      case (Inr q)
      then have "made w1 (fst q) [k']"
        by (auto simp: add_module_def add_instance_def log_event_def made_def quiet_def split: option.splits)
      then have here: "made w (fst q) [k']"
        using one(1) made_made steady_made by fastforce
      obtain ms where ms: "made (fst q) (stage_world (add_modules env c ks (fst q))) ms" "distinct ms" "set ms \<subseteq> kinds ks"
        using Cons.IH [of "fst q"] Cons.prems by auto
      have "made w (stage_world (add_modules env c (k # ks) w)) (k' # ms)"
        using made_made [OF here ms(1)] step Inr by (cases q) simp
      then show ?thesis
        using ms one later(1) by (intro exI [of _ "k' # ms"]) auto
    qed
  next
    case False
    then show ?thesis
      using Cons.IH [of w] Cons.prems later(1) by fastforce
  qed
qed

lemma creation_order_distinct: "distinct creation_order" "M_filesystem \<notin> set creation_order"
  by (simp_all add: creation_order_def)

lemma steady_window: "steady w (stage_world (boot_window env c w))"
  by (simp add: boot_window_def split: window_answer.split)

lemma boot_modules_made:
  "\<exists>ms. made w (stage_world (boot_modules env c w)) ms \<and> distinct (Instance M_filesystem # ms)"
proof -
  obtain ms where ms: "made w (stage_world (add_modules env c creation_order w)) ms" "distinct ms" "set ms \<subseteq> kinds creation_order"
    using add_modules_made [OF creation_order_distinct(1), of w env c] by blast
  have "Instance M_filesystem \<notin> set ms"
    using ms(3) creation_order_distinct(2) by (auto simp: kinds_def split: if_splits)
  moreover have "made w (stage_world (boot_modules env c w)) ms"
  proof (cases "add_modules env c creation_order w")
    case (Inl r)
    then show ?thesis
      using ms(1) by (simp add: boot_modules_def)
  next
    case (Inr q)
    then show ?thesis
      using made_steady [OF _ steady_window] ms(1) by (cases q) (simp add: boot_modules_def)
  qed
  ultimately show ?thesis
    using ms(2) by auto
qed

lemma made_bind:
  assumes "made w (stage_world s) ms" "\<And>w' a. steady w' (stage_world (k w' a))"
  shows "made w (stage_world (bind_stage s k)) ms"
proof (cases s)
  case (Inr q)
  then show ?thesis
    using made_steady [OF _ assms(2)] assms(1) by (cases q) simp
qed (use assms(1) in simp)

lemma boot_game_made:
  "\<exists>ms. made w (stage_world (boot_game env c mainUnit w)) ms \<and> distinct (Instance M_filesystem # ms)"
proof -
  obtain ms where "made w (stage_world (boot_modules env c w)) ms" "distinct (Instance M_filesystem # ms)"
    using boot_modules_made by blast
  then have "made w (stage_world (boot_game env c mainUnit w)) ms"
    unfolding boot_game_def by (intro made_bind steady_bind steady_main steady_run_value steady_start)
  then show ?thesis
    using \<open>distinct (Instance M_filesystem # ms)\<close> by blast
qed

text \<open>How a boot has given everything back: the modules released are the ones the log tells were made, backwards.\<close>

definition gave_back :: "bool \<Rightarrow> ('f, 'm, 't) boot_world \<Rightarrow> bool" where
  "gave_back runtime w \<longleftrightarrow>
     (\<exists>before.
        bw_log w = before @ (if runtime then [RuntimeGone] else []) @ map Released (rev (created before)) \<and>
        quiet before \<and> distinct (created before) \<and> take 1 (created before) = [Instance M_filesystem]) \<and>
     bw_modules w = [] \<and> \<not> bw_debug w"

lemma boot_end_gives_back:
  assumes "made w0 (fst r) (Instance M_filesystem # ms)" "distinct (Instance M_filesystem # ms)"
    and "bw_modules w0 = []" "quiet (bw_log w0)" "created (bw_log w0) = []"
  shows "gave_back runtime (fst (boot_end runtime r))"
proof -
  have w: "bw_modules (fst r) = Instance M_filesystem # ms" "quiet (bw_log (fst r))" "created (bw_log (fst r)) = Instance M_filesystem # ms"
    using assms by (auto simp: made_def)
  define d where "d = debugger_end 1 (fst r)"
  have "bw_modules d = Instance M_filesystem # ms" "quiet (bw_log d)" "\<not> bw_debug d" "created (bw_log d) = Instance M_filesystem # ms"
    using w by (auto simp: d_def debugger_end_def log_event_def quiet_def created_other)
  then show ?thesis
    using assms(2) unfolding gave_back_def
    by (cases r) (auto simp: boot_end_def Let_def log_event_def d_def intro!: exI [of _ "bw_log d"])
qed

lemma boot_running_made:
  assumes "boot_running env ver args mainUnit w = Some (Inr r)"
  shows "\<exists>ms. made w (fst r) ms \<and> distinct (Instance M_filesystem # ms)"
proof -
  have steady: ?thesis if "steady w (fst r)"
    using steady_made [OF that] by (intro exI [of _ "[]"]) simp
  show ?thesis
  proof (cases "boot_program env args mainUnit w")
    case (Inl a)
    then show ?thesis
      using assms steady steady_program [of w env args mainUnit] by (simp add: boot_running_def)
  next
    case p: (Inr a)
    have 1: "steady w (fst a)"
      using p steady_program [of w env args mainUnit] by simp
    obtain s where s: "boot_write env args (fst a) = Some (Inr s)"
      using assms p by (cases a) (auto simp: boot_running_def split: option.splits sum.splits)
    have 2: "steady w (stage_world s)"
      using 1 steady_write [OF s] steady_trans by blast
    show ?thesis
    proof (cases s)
      case (Inl b)
      then show ?thesis
        using assms p s 2 steady by (cases a) (simp add: boot_running_def)
    next
      case w: (Inr b)
      define wd where "wd = boot_debugger env args (fst b)"
      have 3: "steady w wd"
        using 2 w steady_debugger [of "fst b" env args] steady_trans by (fastforce simp: wd_def)
      obtain d where d: "boot_conf env ver wd = Inr d"
        using assms p s w by (cases a; cases b) (auto simp: boot_running_def wd_def split: sum.splits)
      have 4: "steady w (stage_world d)"
        using 3 steady_conf [OF d] steady_trans by blast
      show ?thesis
      proof (cases d)
        case (Inl e)
        then show ?thesis
          using assms p s w d 4 steady by (cases a; cases b) (simp add: boot_running_def wd_def)
      next
        case c: (Inr e)
        obtain wc cf where e: "e = (wc, cf)"
          by (cases e)
        obtain ms where ms: "made wc (stage_world (boot_game env cf mainUnit wc)) ms" "distinct (Instance M_filesystem # ms)"
          using boot_game_made by blast
        have all: "(case boot_game env cf mainUnit wc of Inl r \<Rightarrow> Some (Inr r)
            | Inr (w, co) \<Rightarrow> (case frames env co w of None \<Rightarrow> None | Some r \<Rightarrow> Some (Inr r))) = (Some (Inr r) :: _ result option)"
          using assms p s w d c e by (cases a; cases b) (simp add: boot_running_def wd_def)
        have "made wc (fst r) ms"
        proof (cases "boot_game env cf mainUnit wc")
          case (Inl g)
          then show ?thesis
            using all ms by simp
        next
          case (Inr g)
          then show ?thesis
            using all ms made_steady [OF _ steady_frames] by (cases g) (auto split: option.splits)
        qed
        then show ?thesis
          using ms(2) made_made [OF steady_made [OF 4], of "fst r" ms] c e by auto
      qed
    qed
  qed
qed

text \<open>Claim C9. Every boot that returns, with whatever code, has released exactly the modules it made, each once and in the reverse of
  the order it made them in, the file system first made and last released, after the runtime is gone and after a debugging
  session has ended; nothing is released earlier. An exception that nobody catches is no way out of this kind.\<close>

theorem boot_releases:
  assumes boot: "boot env ver argv gamepath w = Some (Inr (w', code))"
    and fresh: "bw_modules w = []" "quiet (bw_log w)" "created (bw_log w) = []"
  shows "gave_back (\<not> isl (boot_source env (hd argv) (boot_arguments argv gamepath) w)) w'"
proof -
  let ?source = "boot_source env (hd argv) (boot_arguments argv gamepath) w"
  have source: "made w (stage_world ?source) [Instance M_filesystem]"
    by (rule boot_source_made)
  have gives: "gave_back rt (fst (boot_end rt r))"
    if "made w (fst r) (Instance M_filesystem # ms)" "distinct (Instance M_filesystem # ms)" for rt r ms
    using that fresh by (rule boot_end_gives_back)
  have plain: "gave_back rt (fst (boot_end rt r))" if "made w (fst r) [Instance M_filesystem]" for rt r
    using gives [of r "[]"] that by simp
  show ?thesis
  proof (cases ?source)
    case (Inl r)
    then have "boot_end False r = (w', code)"
      using boot by (simp add: boot_def ended_def)
    then show ?thesis
      using plain [of r False] source Inl by simp
  next
    case (Inr q)
    obtain w1 args mainUnit where q: "q = (w1, args, mainUnit)"
      by (metis surj_pair)
    have m1: "made w w1 [Instance M_filesystem]"
      using source Inr q by simp
    obtain r where r: "boot_running env ver args mainUnit w1 = Some (Inr r)" "boot_end True r = (w', code)"
      using boot Inr q by (auto simp: boot_def ended_def split: option.splits sum.splits)
    obtain ms where "made w1 (fst r) ms" "distinct (Instance M_filesystem # ms)"
      using boot_running_made [OF r(1)] by blast
    then have "gave_back True (fst (boot_end True r))"
      using gives [of r ms True] made_made [OF m1, of "fst r" ms] by simp
    then show ?thesis
      using r(2) Inr by simp
  qed
qed

section \<open>A small engine\<close>

text \<open>No game, a main unit that answers seven, no configuration, every module starts but the sound system.\<close>

definition toy_files :: "toy_machine game_api" where
  "toy_files = \<lparr>dir_items = (\<lambda>_. []), path_info = (\<lambda>_. None), game_read = (\<lambda>_. None), unit_check = (\<lambda>m _. (m, None)),
     compile_all = (\<lambda>m. (m, True)), unit_paths = (\<lambda>_. []), unit_binary = (\<lambda>_ _ _. None), lton_binary = (\<lambda>_ text _. Inr text),
     can_open = (\<lambda>_. True), can_write = (\<lambda>_ n. n)\<rparr>"

definition toy_lots :: "(unit, toy_value) table_api" where
  "toy_lots = \<lparr>table_set = (\<lambda>t _ _. (t, True, False)), table_get = (\<lambda>_ _. TNil), empty_table = (), value_nil = TNil\<rparr>"

definition toy_env :: "(unit, toy_machine, toy_value, unit) boot_env" where
  "toy_env = \<lparr>env_value = toy_api, env_table = toy_lots, env_game = (\<lambda>_. toy_files),
     env_files = (\<lambda>_. \<lparr>is_file = (\<lambda>_. False), file_bytes = (\<lambda>_. None)\<rparr>),
     fs_init = (\<lambda>f _. (f, None)), fs_executable = (\<lambda>_. ''/bin/love''), fs_setSource = (\<lambda>f _. (f, False)), fs_setFused = (\<lambda>f _. f),
     fs_realdir = (\<lambda>_ _. None), fs_setIdentity = (\<lambda>f _ _. f), embedded_boot = ''run'', embedded_nogame = ''nogame'',
     program_made = True, register_all = (\<lambda>m. (m, None)), register_stdlib = (\<lambda>m. (m, True)),
     signature_bytes = (\<lambda>_. None), host_api_text = (\<lambda>_. []), check_unit = (\<lambda>m load p. (m, load p \<noteq> None, [p])),
     program_ok = (\<lambda>_. True), diagnostics = (\<lambda>_. []),
     unit_of = (\<lambda>_ p. \<lparr>unit_path = p, export_type = (\<lambda>_. None), export_conforms = (\<lambda>_ _. True)\<rparr>),
     compile_program = (\<lambda>m. (m, True)), is_binary_unit = (\<lambda>_. False), lton_load = (\<lambda>m _. (m, Inl LTON_REJECTED)),
     load_failure = (\<lambda>_. None), traceback = (\<lambda>_. []), fault_depth = (\<lambda>_. 0), status_message = (\<lambda>_. []),
     run_unit = (\<lambda>m p. (m, \<lparr>run_status = RUN_OK, run_value = TInt 7, run_line = 0\<rparr>)),
     call_value = (\<lambda>m _ _. (m, \<lparr>run_status = RUN_OK, run_value = TNil, run_line = 0\<rparr>)),
     resume = (\<lambda>m l _. (m, l, \<lparr>run_status = RUN_OK, run_value = TNil, run_line = 0\<rparr>)), coroutine_done = (\<lambda>_ _. True),
     host_function = (\<lambda>m b. Some (m, THost b)), new_module = (\<lambda>k. if k = Instance M_audio then Some ''no device'' else None),
     set_window = (\<lambda>_ _. Shown True), debugger_begins = (\<lambda>_. None), debugger_ended = (\<lambda>_. False)\<rparr>"

definition toy_world :: "(unit, toy_machine, unit) boot_world" where
  "toy_world = \<lparr>bw_fs = (), bw_loader = new_loader, bw_machine = toy_start, bw_lot = new_lot, bw_modules = [],
     bw_disk = \<lparr>files = (\<lambda>_. None), dirs = []\<rparr>, bw_debug = False, bw_log = []\<rparr>"

lemma toy_arguments: "boot_arguments [''love''] [] = default_arguments"
  by (simp add: boot_arguments_def parseArguments_def)

definition toy_found :: "(unit, toy_machine, unit) boot_world" where
  "toy_found = toy_world\<lparr>bw_loader := hold ''main.lh'' ''nogame'' (hold ''Boot.lh'' ''run'' new_loader),
     bw_modules := [Instance M_filesystem], bw_log := [Made (Instance M_filesystem)]\<rparr>"

lemma toy_source: "boot_source toy_env ''love'' default_arguments toy_world = Inr (toy_found, default_arguments, ''main.lh'')"
  by (simp add: boot_source_def toy_env_def toy_world_def toy_found_def default_arguments_def game_source_def boot_nogame_def add_instance_def log_event_def
      exists_unit_def isHeld_def hold_def new_loader_def Let_def)

theorem boot_source_runnable_witness:
  "boot_source toy_env ''love'' default_arguments toy_world = Inr (toy_found, default_arguments, ''main.lh'') \<and>
   isHeld ''Boot.lh'' (bw_loader toy_found)"
  using boot_source_runnable [OF toy_source] toy_source by blast

lemma toy_program: "boot_program toy_env default_arguments ''main.lh'' toy_found = Inr (toy_found, ())"
proof -
  have register: "boot_register toy_env toy_found = Inr (toy_found, ())"
    by (simp add: boot_register_def toy_env_def toy_found_def toy_world_def)
  have dump: "boot_dump toy_env default_arguments toy_found = Inr (toy_found, ())"
    by (simp add: boot_dump_def toy_env_def default_arguments_def Let_def)
  have through: "check_through toy_env p toy_found = (toy_found, True)" if "p \<in> {''Boot.lh'', ''main.lh''}" for p
    using that by (auto simp: check_through_def toy_env_def toy_found_def toy_world_def loadUnit_def hold_def new_loader_def
        copyOf_def note_binary_def Let_def)
  have "boot_check toy_env ''main.lh'' toy_found = Inr (toy_found, ())"
    by (simp add: boot_check_def through)
      (simp add: toy_env_def toy_found_def toy_world_def isBinary_def hold_def new_loader_def checkCallbacks_def callbacks_def)
  then show ?thesis
    using register dump by (simp add: boot_program_def)
qed

lemma toy_running:
  "\<exists>w. boot_running toy_env ''12.0'' default_arguments ''main.lh'' toy_found = Some (Inr (w, 7))"
proof -
  have written: "boot_write toy_env default_arguments toy_found = Some (Inr (Inr (toy_found, ())))"
    by (simp add: boot_write_def default_arguments_def Let_def)
  have debugger: "boot_debugger toy_env default_arguments toy_found = toy_found"
    by (simp add: boot_debugger_def default_arguments_def)
  have conf: "boot_conf toy_env ''12.0'' toy_found = Inr (Inr (toy_found, default_conf toy_api ''12.0''))"
    by (simp add: boot_conf_def toy_env_def toy_found_def toy_world_def exists_unit_def isHeld_def hold_def new_loader_def Let_def)
  obtain wm where made: "boot_modules toy_env (default_conf toy_api ''12.0'') toy_found = Inr (wm, ())"
    by (simp add: boot_modules_def creation_order_def default_conf_def boot_window_def add_module_def choose_module_def
        toy_env_def Let_def)
  have "boot_main toy_env ''main.lh'' wm = Inl (wm, 7)"
    by (simp add: boot_main_def toy_env_def toy_api_def exitCodeOf_def stringOf_def cast_int_def)
  then have "boot_game toy_env (default_conf toy_api ''12.0'') ''main.lh'' toy_found = Inl (wm, 7)"
    by (simp add: boot_game_def made)
  then have "boot_running toy_env ''12.0'' default_arguments ''main.lh'' toy_found = Some (Inr (wm, 7))"
    by (simp add: boot_running_def toy_program written debugger conf)
  then show ?thesis ..
qed

theorem boot_releases_witness:
  "\<exists>w. boot toy_env ''12.0'' [''love''] [] toy_world = Some (Inr (w, 7)) \<and> gave_back True w"
proof -
  obtain w where w: "boot toy_env ''12.0'' [''love''] [] toy_world = Some (Inr (w, 7))"
    using toy_running by (auto simp: boot_def toy_arguments toy_source ended_def boot_end_def Let_def)
  have "gave_back (\<not> isl (boot_source toy_env (hd [''love'']) (boot_arguments [''love''] []) toy_world)) w"
    by (rule boot_releases [OF w]) (simp_all add: toy_world_def quiet_def)
  then show ?thesis
    using w by (auto simp: toy_arguments toy_source)
qed

end
