(* ===== verification/FloatTypes.thy ===== *)
theory FloatTypes
  imports Prelude Complex_Main
begin

text \<open>
  Small floating-point numbers (\<^verbatim>\<open>src/src/common/floattypes.cpp\<close>): the 16-bit ones go through
  tables the code fills once, a function of the index here; the 11-bit and 10-bit
  ones have no sign and are computed. A 32-bit \<^verbatim>\<open>float\<close> is its bits where the code looks at
  them, and what it stands for (\<open>float_value\<close>) where the code computes with it.
\<close>

section \<open>From 16 to 32 bits\<close>

function normalize :: "nat \<Rightarrow> uint32 \<Rightarrow> uint32 \<Rightarrow> uint32 \<times> uint32" where
  "normalize 0 m e = (m, e)"
| "normalize (Suc fuel) m e =
     (if m AND 0x00800000 = 0 then normalize fuel (push_bit 1 m) (e - 0x00800000) else (m, e))"
  by pat_completeness auto
termination
  by (relation "measure fst") auto

text \<open>
  The loop shifts at most until the lowest bit of a non-zero \<open>i << 13\<close> is bit 23, so eleven
  steps are enough for every index below 1024.
\<close>

definition convertMantissa :: "uint32 \<Rightarrow> uint32" where
  "convertMantissa i =
     (case normalize 11 (push_bit 13 i) 0 of
        (m, e) \<Rightarrow> (m AND NOT 0x00800000) OR (e + 0x38800000))"

definition mantissatable :: "nat \<Rightarrow> uint32" where
  "mantissatable i =
     (if i = 0 then 0
      else if i < 1024 then convertMantissa (of_nat i)
      else 0x38000000 + push_bit 13 (of_nat i - 1024))"

definition exponenttable :: "nat \<Rightarrow> uint32" where
  "exponenttable i =
     (if i < 31 then push_bit 23 (of_nat i)
      else if i = 31 then 0x47800000
      else if i = 32 then 0x80000000
      else if i < 63 then 0x80000000 + push_bit 23 (of_nat i - 32)
      else 0xC7800000)"

definition offsettable :: "nat \<Rightarrow> nat" where
  "offsettable i = (if i = 0 \<or> i = 32 then 0 else 1024)"

definition float16to32 :: "uint16 \<Rightarrow> uint32" where
  "float16to32 f =
     mantissatable (offsettable (unat (drop_bit 10 f)) + unat (f AND 0x3FF)) + exponenttable (unat (drop_bit 10 f))"

section \<open>From 32 to 16 bits\<close>

text \<open>The index is the sign and the exponent; the values are 16 and 8 bits wide.\<close>

definition basetable :: "nat \<Rightarrow> uint16" where
  "basetable j =
     (let e = int (j mod 256) - 127; sign = (if j \<ge> 256 then 0x8000 else 0)
      in if e < -24 then sign
         else if e < -14 then drop_bit (nat (- e - 14)) 0x0400 OR sign
         else if e \<le> 15 then push_bit 10 (of_int (e + 15)) OR sign
         else 0x7C00 OR sign)"

definition shifttable :: "nat \<Rightarrow> nat" where
  "shifttable j =
     (let e = int (j mod 256) - 127
      in if e < -24 then 24
         else if e < -14 then nat (- e - 1)
         else if e \<le> 15 then 13
         else if e < 128 then 24
         else 13)"

definition float32to16 :: "uint32 \<Rightarrow> uint16" where
  "float32to16 u =
     (let j = unat (drop_bit 23 u AND 0x1FF)
      in basetable j + ucast (drop_bit (shifttable j) (u AND 0x007FFFFF)))"

section \<open>The numbers without a sign\<close>

datatype fvalue = Finite real | Infinity bool | NaN

text \<open>What 32 bits stand for.\<close>

definition float_value :: "uint32 \<Rightarrow> fvalue" where
  "float_value u =
     (let s = (if bit u 31 then - 1 else 1); E = unat (drop_bit 23 u AND 0xFF); M = unat (u AND 0x7FFFFF)
      in if E = 255 then (if M = 0 then Infinity (bit u 31) else NaN)
         else if E = 0 then Finite (s * (M / 2 ^ 23) * 2 powr (- 126))
         else Finite (s * (1 + M / 2 ^ 23) * 2 powr (real E - 127)))"

text \<open>The two widths differ in the bits of their fraction only: six and five.\<close>

definition small_to_float :: "nat \<Rightarrow> uint16 \<Rightarrow> fvalue" where
  "small_to_float n f =
     (let exponent = unat (drop_bit n f); mantissa = unat (take_bit n f)
      in if exponent = 0 then (if mantissa = 0 then Finite 0 else Finite (2 powr (- 14) * (mantissa / 2 ^ n)))
         else if exponent < 31 then Finite (2 powr (real exponent - 15) * (1 + mantissa / 2 ^ n))
         else if mantissa = 0 then Infinity False else NaN)"

definition float_to_small :: "nat \<Rightarrow> uint32 \<Rightarrow> uint16" where
  "float_to_small n u =
     (if u AND 0x80000000 \<noteq> 0 then 0
      else
        let exponent = int (unat (drop_bit 23 u AND 0xFF)) - 127; mantissa = u AND 0x007FFFFF
        in if exponent > 15
           then push_bit n 0x1F OR (if exponent = 128 then ucast (take_bit n mantissa) else 0)
           else if exponent \<le> -15 then 0
           else push_bit n (of_int (exponent + 15)) OR ucast (drop_bit (23 - n) mantissa))"

definition float11to32 :: "uint16 \<Rightarrow> fvalue" where
  "float11to32 f = small_to_float 6 f"

definition float10to32 :: "uint16 \<Rightarrow> fvalue" where
  "float10to32 f = small_to_float 5 f"

definition float32to11 :: "uint32 \<Rightarrow> uint16" where
  "float32to11 u = float_to_small 6 u"

definition float32to10 :: "uint32 \<Rightarrow> uint16" where
  "float32to10 u = float_to_small 5 u"

section \<open>Fields of words\<close>

lemma or_disjoint: "(a :: 'a::len word) AND b = 0 \<Longrightarrow> a OR b = a + b"
  using word_plus_and_or [of a b] by simp

lemma fields_disjoint:
  assumes "a < 2 ^ n" "n \<le> LENGTH('a)"
  shows "(of_nat (b * 2 ^ n) :: 'a::len word) AND of_nat a = 0"
proof -
  have b: "(of_nat (b * 2 ^ n) :: 'a word) = push_bit n (of_nat b)"
    by (simp add: push_bit_eq_mult mult.commute)
  have "a < 2 ^ LENGTH('a)"
    using assms by (meson less_le_trans one_le_numeral power_increasing)
  then have "take_bit n (of_nat a :: 'a word) = of_nat a"
    using assms(1) by (metis take_bit_nat_eq_self take_bit_of_nat)
  then have "\<not> bit (of_nat a :: 'a word) i" if "n \<le> i" for i
    using that by (metis bit_take_bit_iff not_less)
  then show ?thesis
    unfolding b by (intro bit_word_eqI) (auto simp: bit_and_iff bit_push_bit_iff)
qed

lemma or_fields:
  assumes "a < 2 ^ n" "n \<le> LENGTH('a)"
  shows "(of_nat (b * 2 ^ n) :: 'a::len word) OR of_nat a = of_nat (b * 2 ^ n + a)"
    "(of_nat a :: 'a word) OR of_nat (b * 2 ^ n) = of_nat (b * 2 ^ n + a)"
proof -
  show "(of_nat (b * 2 ^ n) :: 'a word) OR of_nat a = of_nat (b * 2 ^ n + a)"
    using or_disjoint [OF fields_disjoint [OF assms]] by (metis of_nat_add)
  then show "(of_nat a :: 'a word) OR of_nat (b * 2 ^ n) = of_nat (b * 2 ^ n + a)"
    by (simp only: or.commute)
qed

lemma or_and_not:
  fixes a b :: "'a::len word"
  assumes "a AND b = 0"
  shows "(a OR b) AND NOT a = b"
proof (rule bit_word_eqI)
  fix n
  assume "n < LENGTH('a)"
  moreover have "\<not> (bit a n \<and> bit b n)"
    using assms by (metis bit_and_iff bit_0_eq bot_apply bot_bool_def)
  ultimately show "bit ((a OR b) AND NOT a) n = bit b n"
    by (auto simp: bit_and_iff bit_or_iff bit_not_iff)
qed

lemma split_unat:
  fixes w :: "'a::len word"
  assumes "unat w = X * 2 ^ n + M" "M < 2 ^ n"
  shows "unat (drop_bit n w) = X" "unat (w AND mask n) = M"
proof -
  show "unat (drop_bit n w) = X"
    using assms by (metis unat_drop_bit_eq drop_bit_eq_div add.commute add_0 div_less div_mult_self1 power_not_zero zero_neq_numeral)
  show "unat (w AND mask n) = M"
    using assms by (metis take_bit_eq_mask take_bit_eq_mod unsigned_take_bit_eq add.commute mod_less mod_mult_self1)
qed

lemma fields32:
  fixes u :: uint32
  assumes "unat u = s * 2 ^ 31 + E * 2 ^ 23 + M" "s < 2" "E < 256" "M < 2 ^ 23"
  shows "unat (drop_bit 23 u AND 0x1FF) = 256 * s + E" "unat (u AND 0x007FFFFF) = M"
proof -
  have masks: "(0x1FF :: uint32) = mask 9" "(0x007FFFFF :: uint32) = mask 23"
    by (simp_all add: mask_eq_exp_minus_1)
  have u: "unat u = (256 * s + E) * 2 ^ 23 + M"
    using assms(1) by simp
  show "unat (u AND 0x007FFFFF) = M"
    unfolding masks by (rule split_unat(2) [OF u assms(4)])
  have "unat (drop_bit 23 u) = 0 * 2 ^ 9 + (256 * s + E)" "256 * s + E < 2 ^ 9"
    using split_unat(1) [OF u assms(4)] assms(2,3) by simp_all
  then show "unat (drop_bit 23 u AND 0x1FF) = 256 * s + E"
    unfolding masks by (rule split_unat(2))
qed

lemma fields16:
  fixes f :: uint16
  assumes "unat f = s * 2 ^ 15 + E * 2 ^ 10 + M" "M < 2 ^ 10"
  shows "unat (drop_bit 10 f) = 32 * s + E" "unat (f AND 0x3FF) = M"
proof -
  have masks: "(0x3FF :: uint16) = mask 10"
    by (simp add: mask_eq_exp_minus_1)
  have f: "unat f = (32 * s + E) * 2 ^ 10 + M"
    using assms(1) by simp
  show "unat (drop_bit 10 f) = 32 * s + E" "unat (f AND 0x3FF) = M"
    unfolding masks by (rule split_unat [OF f assms(2)])+
qed

section \<open>Normalising a small number\<close>

lemma normalize_steps:
  assumes "2 ^ 23 \<le> x * 2 ^ d" "x * 2 ^ d < 2 ^ 24" "d < fuel"
  shows "normalize fuel (of_nat x) e = (of_nat (x * 2 ^ d), e - of_nat (d * 2 ^ 23))"
  using assms
proof (induction fuel arbitrary: x d e)
  case (Suc fuel)
  have x: "x < 2 ^ 24"
    using Suc.prems(2) by (metis le_less_trans le_square mult.right_neutral mult_le_cancel1 one_le_numeral one_le_power)
  have "(of_nat x :: uint32) AND 0x00800000 = 0 \<longleftrightarrow> \<not> bit (of_nat x :: uint32) 23"
    using and_exp_eq_0_iff_not_bit [of "of_nat x :: uint32" 23] by simp
  also have "\<dots> \<longleftrightarrow> x < 2 ^ 23"
  proof -
    have "bit (of_nat x :: uint32) 23 \<longleftrightarrow> odd (x div 2 ^ 23)"
      unfolding bit_of_nat_iff bit_iff_odd [of x] by simp
    moreover have "x div 2 ^ 23 = (if x < 2 ^ 23 then 0 else 1)"
      using x by (auto simp: div_nat_eqI)
    ultimately show ?thesis
      by simp
  qed
  finally have set: "(of_nat x :: uint32) AND 0x00800000 = 0 \<longleftrightarrow> x < 2 ^ 23" .
  show ?case
  proof (cases d)
    case 0
    then show ?thesis
      using Suc.prems(1) set by simp
  next
    case (Suc d')
    have "x * 2 < 2 ^ 24"
      using Suc.prems(2) Suc by (simp add: mult.assoc [symmetric]) (metis le_less_trans le_square mult.right_neutral mult_le_cancel1 one_le_numeral one_le_power)
    then show ?thesis
      using Suc.IH [of "x * 2" d' "e - 0x00800000"] Suc.prems Suc set by (simp add: mult.assoc push_bit_eq_mult algebra_simps)
  qed
qed simp

lemma of_nat_and_not_bit23:
  assumes "2 ^ 23 \<le> y" "y < 2 ^ 24"
  shows "(of_nat y :: uint32) AND NOT 0x00800000 = of_nat (y - 2 ^ 23)"
proof -
  have y: "y = 1 * 2 ^ 23 + (y - 2 ^ 23)" "y - 2 ^ 23 < 2 ^ 23"
    using assms by simp_all
  have "(of_nat y :: uint32) = of_nat (1 * 2 ^ 23) OR of_nat (y - 2 ^ 23)"
    using or_fields(1) [OF y(2), of 1, where 'a = 32] y(1) by simp
  moreover have "(of_nat (1 * 2 ^ 23) OR of_nat (y - 2 ^ 23)) AND NOT (of_nat (1 * 2 ^ 23)) = (of_nat (y - 2 ^ 23) :: uint32)"
    by (rule or_and_not) (rule fields_disjoint [OF y(2)], simp)
  moreover have "(of_nat (1 * 2 ^ 23) :: uint32) = 0x00800000"
    by simp
  ultimately show ?thesis
    by metis
qed

lemma convertMantissa_value:
  assumes "k \<le> 9" "r < 2 ^ k"
  shows "convertMantissa (of_nat (2 ^ k + r)) = of_nat ((103 + k) * 2 ^ 23 + r * 2 ^ (23 - k))"
proof -
  define x where "x = (2 ^ k + r) * 2 ^ 13"
  define d where "d = 10 - k"
  have pow: "2 ^ k * 2 ^ 13 * 2 ^ d = (2 ^ 23 :: nat)" "(2 ^ 13 :: nat) * 2 ^ d = 2 ^ (23 - k)"
    using assms(1) unfolding d_def power_add [symmetric] by (auto intro!: arg_cong [where f = "(^) 2"])
  have y: "x * 2 ^ d = 2 ^ 23 + r * 2 ^ (23 - k)"
    using pow unfolding x_def by (simp only: distrib_right mult.assoc)
  have "r * 2 ^ (23 - k) < 2 ^ k * 2 ^ (23 - k)"
    using assms(2) by simp
  also have "\<dots> = (2 ^ 23 :: nat)"
    using assms(1) by (simp flip: power_add)
  finally have low: "r * 2 ^ (23 - k) < (2 ^ 23 :: nat)" .
  have "push_bit 13 (of_nat (2 ^ k + r)) = (of_nat x :: uint32)"
    by (simp only: push_bit_eq_mult x_def of_nat_mult of_nat_power of_nat_numeral)
  moreover have "normalize 11 (of_nat x) 0 = (of_nat (x * 2 ^ d), 0 - of_nat (d * 2 ^ 23))"
    using y low by (intro normalize_steps) (simp_all add: d_def)
  ultimately have "convertMantissa (of_nat (2 ^ k + r)) =
      (of_nat (x * 2 ^ d) AND NOT 0x00800000) OR (- of_nat (d * 2 ^ 23) + 0x38800000)"
    by (simp add: convertMantissa_def)
  moreover have "of_nat (x * 2 ^ d) AND NOT 0x00800000 = (of_nat (r * 2 ^ (23 - k)) :: uint32)"
    using of_nat_and_not_bit23 [of "x * 2 ^ d"] y low by simp
  moreover have "- of_nat (d * 2 ^ 23) + 0x38800000 = (of_nat ((103 + k) * 2 ^ 23) :: uint32)"
  proof -
    have "(103 + k) * 2 ^ 23 + d * 2 ^ 23 = (0x38800000 :: nat)"
      using assms(1) by (simp add: d_def)
    then have "(of_nat ((103 + k) * 2 ^ 23) :: uint32) + of_nat (d * 2 ^ 23) = of_nat 0x38800000"
      by (metis of_nat_add)
    then show ?thesis
      by (simp add: eq_neg_iff_add_eq_0 algebra_simps)
  qed
  ultimately have "convertMantissa (of_nat (2 ^ k + r)) = of_nat (r * 2 ^ (23 - k)) OR of_nat ((103 + k) * 2 ^ 23)"
    by (simp only:)
  also have "\<dots> = of_nat ((103 + k) * 2 ^ 23 + r * 2 ^ (23 - k))"
    by (rule or_fields(2) [OF low]) simp
  finally show ?thesis .
qed

section \<open>The round trip\<close>

text \<open>The fields of a 16-bit number and those of its 32-bit image.\<close>

lemma float16_fields:
  fixes f :: uint16
  obtains s E M where "unat f = s * 2 ^ 15 + E * 2 ^ 10 + M" "s < 2" "E < 32" "M < 2 ^ 10"
proof -
  have "unat f < 2 ^ 16"
    using unsigned_less [of f] by simp
  then have "unat f div 2 ^ 15 < 2"
    by simp
  moreover have "n = (n div 2 ^ 15) * 2 ^ 15 + (n div 2 ^ 10 mod 32) * 2 ^ 10 + n mod 2 ^ 10" for n :: nat
  proof -
    define q m a b where "q = n div 2 ^ 10" and "m = n mod 2 ^ 10" and "a = q div 32" and "b = q mod 32"
    have "n = q * 2 ^ 10 + m" "q = a * 32 + b"
      unfolding q_def m_def a_def b_def by (simp_all only: div_mult_mod_eq)
    then have "n = a * 2 ^ 15 + b * 2 ^ 10 + m"
      by (simp add: algebra_simps)
    moreover have "n div 2 ^ 15 = a"
      using div_mult2_eq [of n "2 ^ 10" 32] by (simp add: q_def a_def)
    ultimately show ?thesis
      by (simp only: q_def m_def b_def)
  qed
  ultimately show thesis
    by (intro that [of "unat f div 2 ^ 15" "unat f div 2 ^ 10 mod 32" "unat f mod 2 ^ 10"]) simp_all
qed

lemma exponenttable_value:
  assumes "s < 2" "E < 32"
  shows "exponenttable (32 * s + E) = of_nat (s * 2 ^ 31 + (if E = 31 then 143 else E) * 2 ^ 23)"
proof -
  consider "s = 0" | "s = 1"
    using assms(1) by linarith
  then show ?thesis
    using assms(2) by cases (auto simp: exponenttable_def push_bit_eq_mult)
qed

text \<open>Small numbers are normalised, all others keep their exponent and fraction.\<close>

definition wide_exponent :: "nat \<Rightarrow> nat \<Rightarrow> nat" where
  "wide_exponent E k = (if E = 0 then 103 + k else if E = 31 then 255 else 112 + E)"

lemma float16to32_zero: "unat f = s * 2 ^ 15 \<Longrightarrow> s < 2 \<Longrightarrow> float16to32 f = of_nat (s * 2 ^ 31)"
  using fields16 [of f s 0 0] exponenttable_value [of s 0]
  by (auto simp: float16to32_def offsettable_def mantissatable_def)

lemma float16to32_small:
  assumes "unat f = s * 2 ^ 15 + (2 ^ k + r)" "s < 2" "k \<le> 9" "r < 2 ^ k"
  shows "float16to32 f = of_nat (s * 2 ^ 31 + (103 + k) * 2 ^ 23 + r * 2 ^ (23 - k))"
proof -
  have "2 ^ k + r < 2 * 2 ^ k" "(2 :: nat) ^ k \<le> 2 ^ 9"
    using assms(3,4) by (simp, intro power_increasing) simp_all
  then have M: "2 ^ k + r < 2 ^ 10"
    by simp
  have "unat (drop_bit 10 f) = 32 * s + 0" "unat (f AND 0x3FF) = 2 ^ k + r"
    using fields16 [of f s 0 "2 ^ k + r"] assms(1) M by simp_all
  then have "float16to32 f = mantissatable (2 ^ k + r) + of_nat (s * 2 ^ 31)"
    using exponenttable_value [of s 0] assms(2) by (auto simp: float16to32_def offsettable_def)
  moreover have "mantissatable (2 ^ k + r) = of_nat ((103 + k) * 2 ^ 23 + r * 2 ^ (23 - k))"
    using convertMantissa_value [OF assms(3,4)] M by (simp only: mantissatable_def) simp
  ultimately show ?thesis
    by (simp only: of_nat_add [symmetric]) (simp only: add_ac)
qed

lemma float16to32_normal:
  assumes "unat f = s * 2 ^ 15 + E * 2 ^ 10 + M" "s < 2" "0 < E" "E < 32" "M < 2 ^ 10"
  shows "float16to32 f = of_nat (s * 2 ^ 31 + wide_exponent E 0 * 2 ^ 23 + M * 2 ^ 13)"
proof -
  have index: "unat (drop_bit 10 f) = 32 * s + E" "unat (f AND 0x3FF) = M"
    using fields16 [OF assms(1,5)] by simp_all
  have "32 * s + E \<noteq> 0" "32 * s + E \<noteq> 32"
    using assms(3,4) by presburger+
  then have offset: "offsettable (32 * s + E) = 1024"
    by (simp add: offsettable_def)
  have "mantissatable (1024 + M) = of_nat (112 * 2 ^ 23 + M * 2 ^ 13)"
    by (simp add: mantissatable_def push_bit_eq_mult)
  moreover have "112 + (if E = 31 then 143 else E) = wide_exponent E 0"
    using assms(3) by (simp add: wide_exponent_def)
  ultimately show ?thesis
    unfolding float16to32_def index offset exponenttable_value [OF assms(2,4)]
    by (simp only: of_nat_add [symmetric] flip: \<open>112 + (if E = 31 then 143 else E) = wide_exponent E 0\<close>) (simp only: algebra_simps)
qed

lemma float32to16_value:
  assumes "u = of_nat (s * 2 ^ 31 + E * 2 ^ 23 + M)" "s < 2" "E < 256" "M < 2 ^ 23"
  shows "float32to16 u = basetable (256 * s + E) + of_nat (M div 2 ^ shifttable (256 * s + E))"
proof -
  have "s * 2 ^ 31 + E * 2 ^ 23 + M < 2 ^ 32"
    using assms(2-4) by simp
  then have u: "unat u = s * 2 ^ 31 + E * 2 ^ 23 + M"
    unfolding assms(1) by (intro unat_of_nat_small) simp
  have index: "unat (drop_bit 23 u AND 0x1FF) = 256 * s + E" "unat (u AND 0x007FFFFF) = M"
    by (rule fields32 [OF u assms(2-4)])+
  have "ucast (drop_bit n (u AND 0x007FFFFF)) = (of_nat (M div 2 ^ n) :: uint16)" for n
    using index(2) by (metis unsigned_drop_bit_eq drop_bit_eq_div of_nat_unat unat_drop_bit_eq)
  then show ?thesis
    using index(1) by (simp add: float32to16_def Let_def)
qed

lemma basetable_value:
  assumes "s < 2"
  shows "basetable (256 * s) = of_nat (s * 2 ^ 15)"
    "0 < E \<Longrightarrow> E < 32 \<Longrightarrow> basetable (256 * s + wide_exponent E 0) = of_nat (s * 2 ^ 15 + E * 2 ^ 10)"
    "k \<le> 9 \<Longrightarrow> basetable (256 * s + (103 + k)) = of_nat (s * 2 ^ 15 + 2 ^ k)"
proof -
  have sign: "(if 256 * s + e \<ge> 256 then 0x8000 else 0) = (of_nat (s * 2 ^ 15) :: uint16)" if "e < 256" for e
  proof -
    consider "s = 0" | "s = 1"
      using assms by linarith
    then show ?thesis
      using that by cases auto
  qed
  show "basetable (256 * s) = of_nat (s * 2 ^ 15)"
    using sign [of 0] by (simp add: basetable_def Let_def)
  show "basetable (256 * s + wide_exponent E 0) = of_nat (s * 2 ^ 15 + E * 2 ^ 10)" if "0 < E" "E < 32"
  proof -
    have low: "E * 2 ^ 10 < (2 :: nat) ^ 15"
      using that(2) by simp
    have "basetable (256 * s + wide_exponent E 0) = of_nat (E * 2 ^ 10) OR of_nat (s * 2 ^ 15)"
      using that sign [of "wide_exponent E 0"] by (auto simp: basetable_def wide_exponent_def Let_def push_bit_eq_mult)
    then show ?thesis
      using or_fields(2) [OF low, of s, where 'a = 16] by simp
  qed
  show "basetable (256 * s + (103 + k)) = of_nat (s * 2 ^ 15 + 2 ^ k)" if "k \<le> 9"
  proof -
    have "(2 :: nat) ^ k \<le> 2 ^ 9"
      using that by (intro power_increasing) simp_all
    then have low: "(2 :: nat) ^ k < 2 ^ 15"
      by simp
    have "list_all (\<lambda>k. drop_bit (10 - k) (0x400 :: uint16) = of_nat (2 ^ k)) [0, 1, 2, 3, 4, 5, 6, 7, 8, 9]"
      by code_simp
    then have "drop_bit (10 - k) (0x400 :: uint16) = of_nat (2 ^ k)"
      using that by (auto simp: le_Suc_eq numeral_eq_Suc)
    then have "basetable (256 * s + (103 + k)) = of_nat (2 ^ k) OR of_nat (s * 2 ^ 15)"
      using that sign [of "103 + k"] by (simp add: basetable_def Let_def nat_diff_distrib)
    then show ?thesis
      using or_fields(2) [OF low, of s, where 'a = 16] by simp
  qed
qed

lemma shifttable_value:
  assumes "s < 2"
  shows "0 < E \<Longrightarrow> E < 32 \<Longrightarrow> shifttable (256 * s + wide_exponent E 0) = 13"
    "k \<le> 9 \<Longrightarrow> shifttable (256 * s + (103 + k)) = 23 - k"
  by (auto simp: shifttable_def wide_exponent_def Let_def)

text \<open>Claim C25. Every 16-bit number, zero, subnormal, normal, infinite or not a number, survives the
  way through 32 bits unchanged.\<close>

theorem float16_round_trip: "float32to16 (float16to32 f) = f"
proof -
  obtain s E M where f: "unat f = s * 2 ^ 15 + E * 2 ^ 10 + M" and s: "s < 2" and E: "E < 32" and M: "M < 2 ^ 10"
    by (rule float16_fields)
  have whole: "f = of_nat (s * 2 ^ 15 + E * 2 ^ 10 + M)"
    unfolding f [symmetric] by simp
  consider "E = 0" "M = 0" | "E = 0" "M > 0" | "E > 0"
    by linarith
  then show ?thesis
  proof cases
    case 1
    then have "float16to32 f = of_nat (s * 2 ^ 31 + 0 * 2 ^ 23 + 0)"
      using float16to32_zero [OF _ s] f by simp
    from float32to16_value [OF this s] show ?thesis
      using basetable_value(1) [OF s] whole 1 by simp
  next
    case 2
    obtain k where low: "2 ^ k \<le> M" and high: "M < 2 * 2 ^ k"
      using ex_power_ivl1 [of 2 M] 2(2) by auto
    define r where "r = M - 2 ^ k"
    have r: "M = 2 ^ k + r" "r < 2 ^ k"
      using low high by (simp_all add: r_def)
    have "(2 :: nat) ^ k < 2 ^ 10"
      using low M by (rule le_less_trans)
    then have k: "k \<le> 9"
      using power_less_imp_less_exp [of "2 :: nat" k 10] by simp
    have "r * 2 ^ (23 - k) < 2 ^ k * 2 ^ (23 - k)"
      using r(2) by simp
    also have "\<dots> = (2 ^ 23 :: nat)"
      using k by (simp flip: power_add)
    finally have fraction: "r * 2 ^ (23 - k) < (2 ^ 23 :: nat)" .
    have "unat f = s * 2 ^ 15 + (2 ^ k + r)"
      using f 2 r(1) by simp
    note float32to16_value [OF float16to32_small [OF this s k r(2)] s _ fraction]
    then have "float32to16 (float16to32 f) = of_nat (s * 2 ^ 15 + 2 ^ k) + of_nat r"
      using k basetable_value(3) [OF s k] shifttable_value(2) [OF s k] by simp
    then show ?thesis
      using whole 2 r(1) by simp
  next
    case 3
    have "M * 2 ^ 13 < 2 ^ 23" "wide_exponent E 0 < 256"
      using M E by (simp_all add: wide_exponent_def)
    note float32to16_value [OF float16to32_normal [OF f s 3 E M] s this(2,1)]
    then show ?thesis
      using basetable_value(2) [OF s 3 E] shifttable_value(1) [OF s 3 E] whole by simp
  qed
qed

section \<open>What the numbers without a sign lose\<close>

text \<open>
  A NaN whose payload is in the upper bits, which is how a quiet NaN looks, becomes infinity:
  the six lowest bits of the fraction are kept and not the six highest.
\<close>

lemma float11_nan:
  "float_value 0x7FC00000 = NaN" "float11to32 (float32to11 0x7FC00000) = Infinity False"
proof -
  have "drop_bit 23 (0x7FC00000 :: uint32) AND 0xFF = 0xFF" "(0x7FC00000 :: uint32) AND 0x7FFFFF = 0x400000"
    by code_simp+
  then show "float_value 0x7FC00000 = NaN"
    by (simp only: float_value_def Let_def) simp
  have "drop_bit 23 (0x7FC00000 :: uint32) AND 0xFF = 0xFF" "(0x7FC00000 :: uint32) AND 0x80000000 = 0"
    "take_bit 6 ((0x7FC00000 :: uint32) AND 0x7FFFFF) = 0"
    by code_simp+
  then have "float32to11 0x7FC00000 = 0x7C0"
    by (simp only: float32to11_def float_to_small_def Let_def) (simp add: push_bit_eq_mult)
  moreover have "drop_bit 6 (0x7C0 :: uint16) = 31" "take_bit 6 (0x7C0 :: uint16) = 0"
    by code_simp+
  ultimately show "float11to32 (float32to11 0x7FC00000) = Infinity False"
    by (simp add: float11to32_def small_to_float_def)
qed

text \<open>A number that is subnormal in 11 bits is read as what it stands for and written as zero.\<close>

lemma float11_subnormal:
  "float11to32 1 = Finite (2 powr (- 14) * (1 / 64))" "float_value 0x35800000 = Finite (2 powr (- 20))"
  "float32to11 0x35800000 = 0"
proof -
  have "drop_bit 6 (1 :: uint16) = 0" "take_bit 6 (1 :: uint16) = 1"
    by code_simp+
  then show "float11to32 1 = Finite (2 powr (- 14) * (1 / 64))"
    by (simp add: float11to32_def small_to_float_def Let_def)
  have fields: "drop_bit 23 (0x35800000 :: uint32) AND 0xFF = 107" "(0x35800000 :: uint32) AND 0x7FFFFF = 0"
    "\<not> bit (0x35800000 :: uint32) 31" "(0x35800000 :: uint32) AND 0x80000000 = 0"
    by code_simp+
  then show "float_value 0x35800000 = Finite (2 powr (- 20))"
    by (simp only: float_value_def Let_def) simp
  show "float32to11 0x35800000 = 0"
    using fields by (simp only: float32to11_def float_to_small_def Let_def) simp
qed

end
