(* ===== verification/PixelFormats.thy ===== *)
theory PixelFormats
  imports StringMap
begin

text \<open>
  Pixel formats (\<^verbatim>\<open>src/src/common/pixelformat.h\<close> and \<^verbatim>\<open>.cpp\<close>): the table of what a format's blocks
  look like, the table of names over the hash table of \<^verbatim>\<open>StringMap.h\<close>, the pairing of linear and
  sRGB formats, and the sizes of rows and slices. An enumerator is its number; sizes
  are 64-bit as \<^verbatim>\<open>size_t\<close> is, and a width or height is a 32-bit \<^verbatim>\<open>int\<close> converted to it.
\<close>

section \<open>The enumeration\<close>

type_synonym pixel_format = nat

abbreviation (input) PIXELFORMAT_UNKNOWN :: pixel_format where "PIXELFORMAT_UNKNOWN \<equiv> 0"
abbreviation (input) PIXELFORMAT_NORMAL :: pixel_format where "PIXELFORMAT_NORMAL \<equiv> 1"
abbreviation (input) PIXELFORMAT_HDR :: pixel_format where "PIXELFORMAT_HDR \<equiv> 2"
abbreviation (input) PIXELFORMAT_R8_UNORM :: pixel_format where "PIXELFORMAT_R8_UNORM \<equiv> 3"
abbreviation (input) PIXELFORMAT_R8_INT :: pixel_format where "PIXELFORMAT_R8_INT \<equiv> 4"
abbreviation (input) PIXELFORMAT_R8_UINT :: pixel_format where "PIXELFORMAT_R8_UINT \<equiv> 5"
abbreviation (input) PIXELFORMAT_R16_UNORM :: pixel_format where "PIXELFORMAT_R16_UNORM \<equiv> 6"
abbreviation (input) PIXELFORMAT_R16_FLOAT :: pixel_format where "PIXELFORMAT_R16_FLOAT \<equiv> 7"
abbreviation (input) PIXELFORMAT_R16_INT :: pixel_format where "PIXELFORMAT_R16_INT \<equiv> 8"
abbreviation (input) PIXELFORMAT_R16_UINT :: pixel_format where "PIXELFORMAT_R16_UINT \<equiv> 9"
abbreviation (input) PIXELFORMAT_R32_FLOAT :: pixel_format where "PIXELFORMAT_R32_FLOAT \<equiv> 10"
abbreviation (input) PIXELFORMAT_R32_INT :: pixel_format where "PIXELFORMAT_R32_INT \<equiv> 11"
abbreviation (input) PIXELFORMAT_R32_UINT :: pixel_format where "PIXELFORMAT_R32_UINT \<equiv> 12"
abbreviation (input) PIXELFORMAT_RG8_UNORM :: pixel_format where "PIXELFORMAT_RG8_UNORM \<equiv> 13"
abbreviation (input) PIXELFORMAT_RG8_INT :: pixel_format where "PIXELFORMAT_RG8_INT \<equiv> 14"
abbreviation (input) PIXELFORMAT_RG8_UINT :: pixel_format where "PIXELFORMAT_RG8_UINT \<equiv> 15"
abbreviation (input) PIXELFORMAT_LA8_UNORM :: pixel_format where "PIXELFORMAT_LA8_UNORM \<equiv> 16"
abbreviation (input) PIXELFORMAT_RG16_UNORM :: pixel_format where "PIXELFORMAT_RG16_UNORM \<equiv> 17"
abbreviation (input) PIXELFORMAT_RG16_FLOAT :: pixel_format where "PIXELFORMAT_RG16_FLOAT \<equiv> 18"
abbreviation (input) PIXELFORMAT_RG16_INT :: pixel_format where "PIXELFORMAT_RG16_INT \<equiv> 19"
abbreviation (input) PIXELFORMAT_RG16_UINT :: pixel_format where "PIXELFORMAT_RG16_UINT \<equiv> 20"
abbreviation (input) PIXELFORMAT_RG32_FLOAT :: pixel_format where "PIXELFORMAT_RG32_FLOAT \<equiv> 21"
abbreviation (input) PIXELFORMAT_RG32_INT :: pixel_format where "PIXELFORMAT_RG32_INT \<equiv> 22"
abbreviation (input) PIXELFORMAT_RG32_UINT :: pixel_format where "PIXELFORMAT_RG32_UINT \<equiv> 23"
abbreviation (input) PIXELFORMAT_RGBA8_UNORM :: pixel_format where "PIXELFORMAT_RGBA8_UNORM \<equiv> 24"
abbreviation (input) PIXELFORMAT_RGBA8_sRGB :: pixel_format where "PIXELFORMAT_RGBA8_sRGB \<equiv> 25"
abbreviation (input) PIXELFORMAT_BGRA8_UNORM :: pixel_format where "PIXELFORMAT_BGRA8_UNORM \<equiv> 26"
abbreviation (input) PIXELFORMAT_BGRA8_sRGB :: pixel_format where "PIXELFORMAT_BGRA8_sRGB \<equiv> 27"
abbreviation (input) PIXELFORMAT_RGBA8_INT :: pixel_format where "PIXELFORMAT_RGBA8_INT \<equiv> 28"
abbreviation (input) PIXELFORMAT_RGBA8_UINT :: pixel_format where "PIXELFORMAT_RGBA8_UINT \<equiv> 29"
abbreviation (input) PIXELFORMAT_RGBA16_UNORM :: pixel_format where "PIXELFORMAT_RGBA16_UNORM \<equiv> 30"
abbreviation (input) PIXELFORMAT_RGBA16_FLOAT :: pixel_format where "PIXELFORMAT_RGBA16_FLOAT \<equiv> 31"
abbreviation (input) PIXELFORMAT_RGBA16_INT :: pixel_format where "PIXELFORMAT_RGBA16_INT \<equiv> 32"
abbreviation (input) PIXELFORMAT_RGBA16_UINT :: pixel_format where "PIXELFORMAT_RGBA16_UINT \<equiv> 33"
abbreviation (input) PIXELFORMAT_RGBA32_FLOAT :: pixel_format where "PIXELFORMAT_RGBA32_FLOAT \<equiv> 34"
abbreviation (input) PIXELFORMAT_RGBA32_INT :: pixel_format where "PIXELFORMAT_RGBA32_INT \<equiv> 35"
abbreviation (input) PIXELFORMAT_RGBA32_UINT :: pixel_format where "PIXELFORMAT_RGBA32_UINT \<equiv> 36"
abbreviation (input) PIXELFORMAT_RGBA4_UNORM :: pixel_format where "PIXELFORMAT_RGBA4_UNORM \<equiv> 37"
abbreviation (input) PIXELFORMAT_RGB5A1_UNORM :: pixel_format where "PIXELFORMAT_RGB5A1_UNORM \<equiv> 38"
abbreviation (input) PIXELFORMAT_RGB565_UNORM :: pixel_format where "PIXELFORMAT_RGB565_UNORM \<equiv> 39"
abbreviation (input) PIXELFORMAT_RGB10A2_UNORM :: pixel_format where "PIXELFORMAT_RGB10A2_UNORM \<equiv> 40"
abbreviation (input) PIXELFORMAT_RGB10A2_UINT :: pixel_format where "PIXELFORMAT_RGB10A2_UINT \<equiv> 41"
abbreviation (input) PIXELFORMAT_RG11B10_FLOAT :: pixel_format where "PIXELFORMAT_RG11B10_FLOAT \<equiv> 42"
abbreviation (input) PIXELFORMAT_STENCIL8 :: pixel_format where "PIXELFORMAT_STENCIL8 \<equiv> 43"
abbreviation (input) PIXELFORMAT_DEPTH16_UNORM :: pixel_format where "PIXELFORMAT_DEPTH16_UNORM \<equiv> 44"
abbreviation (input) PIXELFORMAT_DEPTH24_UNORM :: pixel_format where "PIXELFORMAT_DEPTH24_UNORM \<equiv> 45"
abbreviation (input) PIXELFORMAT_DEPTH32_FLOAT :: pixel_format where "PIXELFORMAT_DEPTH32_FLOAT \<equiv> 46"
abbreviation (input) PIXELFORMAT_DEPTH24_UNORM_STENCIL8 :: pixel_format where "PIXELFORMAT_DEPTH24_UNORM_STENCIL8 \<equiv> 47"
abbreviation (input) PIXELFORMAT_DEPTH32_FLOAT_STENCIL8 :: pixel_format where "PIXELFORMAT_DEPTH32_FLOAT_STENCIL8 \<equiv> 48"
abbreviation (input) PIXELFORMAT_DXT1_UNORM :: pixel_format where "PIXELFORMAT_DXT1_UNORM \<equiv> 49"
abbreviation (input) PIXELFORMAT_DXT1_sRGB :: pixel_format where "PIXELFORMAT_DXT1_sRGB \<equiv> 50"
abbreviation (input) PIXELFORMAT_DXT3_UNORM :: pixel_format where "PIXELFORMAT_DXT3_UNORM \<equiv> 51"
abbreviation (input) PIXELFORMAT_DXT3_sRGB :: pixel_format where "PIXELFORMAT_DXT3_sRGB \<equiv> 52"
abbreviation (input) PIXELFORMAT_DXT5_UNORM :: pixel_format where "PIXELFORMAT_DXT5_UNORM \<equiv> 53"
abbreviation (input) PIXELFORMAT_DXT5_sRGB :: pixel_format where "PIXELFORMAT_DXT5_sRGB \<equiv> 54"
abbreviation (input) PIXELFORMAT_BC4_UNORM :: pixel_format where "PIXELFORMAT_BC4_UNORM \<equiv> 55"
abbreviation (input) PIXELFORMAT_BC4_SNORM :: pixel_format where "PIXELFORMAT_BC4_SNORM \<equiv> 56"
abbreviation (input) PIXELFORMAT_BC5_UNORM :: pixel_format where "PIXELFORMAT_BC5_UNORM \<equiv> 57"
abbreviation (input) PIXELFORMAT_BC5_SNORM :: pixel_format where "PIXELFORMAT_BC5_SNORM \<equiv> 58"
abbreviation (input) PIXELFORMAT_BC6H_UFLOAT :: pixel_format where "PIXELFORMAT_BC6H_UFLOAT \<equiv> 59"
abbreviation (input) PIXELFORMAT_BC6H_FLOAT :: pixel_format where "PIXELFORMAT_BC6H_FLOAT \<equiv> 60"
abbreviation (input) PIXELFORMAT_BC7_UNORM :: pixel_format where "PIXELFORMAT_BC7_UNORM \<equiv> 61"
abbreviation (input) PIXELFORMAT_BC7_sRGB :: pixel_format where "PIXELFORMAT_BC7_sRGB \<equiv> 62"
abbreviation (input) PIXELFORMAT_PVR1_RGB2_UNORM :: pixel_format where "PIXELFORMAT_PVR1_RGB2_UNORM \<equiv> 63"
abbreviation (input) PIXELFORMAT_PVR1_RGB2_sRGB :: pixel_format where "PIXELFORMAT_PVR1_RGB2_sRGB \<equiv> 64"
abbreviation (input) PIXELFORMAT_PVR1_RGB4_UNORM :: pixel_format where "PIXELFORMAT_PVR1_RGB4_UNORM \<equiv> 65"
abbreviation (input) PIXELFORMAT_PVR1_RGB4_sRGB :: pixel_format where "PIXELFORMAT_PVR1_RGB4_sRGB \<equiv> 66"
abbreviation (input) PIXELFORMAT_PVR1_RGBA2_UNORM :: pixel_format where "PIXELFORMAT_PVR1_RGBA2_UNORM \<equiv> 67"
abbreviation (input) PIXELFORMAT_PVR1_RGBA2_sRGB :: pixel_format where "PIXELFORMAT_PVR1_RGBA2_sRGB \<equiv> 68"
abbreviation (input) PIXELFORMAT_PVR1_RGBA4_UNORM :: pixel_format where "PIXELFORMAT_PVR1_RGBA4_UNORM \<equiv> 69"
abbreviation (input) PIXELFORMAT_PVR1_RGBA4_sRGB :: pixel_format where "PIXELFORMAT_PVR1_RGBA4_sRGB \<equiv> 70"
abbreviation (input) PIXELFORMAT_ETC1_UNORM :: pixel_format where "PIXELFORMAT_ETC1_UNORM \<equiv> 71"
abbreviation (input) PIXELFORMAT_ETC2_RGB_UNORM :: pixel_format where "PIXELFORMAT_ETC2_RGB_UNORM \<equiv> 72"
abbreviation (input) PIXELFORMAT_ETC2_RGB_sRGB :: pixel_format where "PIXELFORMAT_ETC2_RGB_sRGB \<equiv> 73"
abbreviation (input) PIXELFORMAT_ETC2_RGBA_UNORM :: pixel_format where "PIXELFORMAT_ETC2_RGBA_UNORM \<equiv> 74"
abbreviation (input) PIXELFORMAT_ETC2_RGBA_sRGB :: pixel_format where "PIXELFORMAT_ETC2_RGBA_sRGB \<equiv> 75"
abbreviation (input) PIXELFORMAT_ETC2_RGBA1_UNORM :: pixel_format where "PIXELFORMAT_ETC2_RGBA1_UNORM \<equiv> 76"
abbreviation (input) PIXELFORMAT_ETC2_RGBA1_sRGB :: pixel_format where "PIXELFORMAT_ETC2_RGBA1_sRGB \<equiv> 77"
abbreviation (input) PIXELFORMAT_EAC_R_UNORM :: pixel_format where "PIXELFORMAT_EAC_R_UNORM \<equiv> 78"
abbreviation (input) PIXELFORMAT_EAC_R_SNORM :: pixel_format where "PIXELFORMAT_EAC_R_SNORM \<equiv> 79"
abbreviation (input) PIXELFORMAT_EAC_RG_UNORM :: pixel_format where "PIXELFORMAT_EAC_RG_UNORM \<equiv> 80"
abbreviation (input) PIXELFORMAT_EAC_RG_SNORM :: pixel_format where "PIXELFORMAT_EAC_RG_SNORM \<equiv> 81"
abbreviation (input) PIXELFORMAT_ASTC_4x4_UNORM :: pixel_format where "PIXELFORMAT_ASTC_4x4_UNORM \<equiv> 82"
abbreviation (input) PIXELFORMAT_ASTC_5x4_UNORM :: pixel_format where "PIXELFORMAT_ASTC_5x4_UNORM \<equiv> 83"
abbreviation (input) PIXELFORMAT_ASTC_5x5_UNORM :: pixel_format where "PIXELFORMAT_ASTC_5x5_UNORM \<equiv> 84"
abbreviation (input) PIXELFORMAT_ASTC_6x5_UNORM :: pixel_format where "PIXELFORMAT_ASTC_6x5_UNORM \<equiv> 85"
abbreviation (input) PIXELFORMAT_ASTC_6x6_UNORM :: pixel_format where "PIXELFORMAT_ASTC_6x6_UNORM \<equiv> 86"
abbreviation (input) PIXELFORMAT_ASTC_8x5_UNORM :: pixel_format where "PIXELFORMAT_ASTC_8x5_UNORM \<equiv> 87"
abbreviation (input) PIXELFORMAT_ASTC_8x6_UNORM :: pixel_format where "PIXELFORMAT_ASTC_8x6_UNORM \<equiv> 88"
abbreviation (input) PIXELFORMAT_ASTC_8x8_UNORM :: pixel_format where "PIXELFORMAT_ASTC_8x8_UNORM \<equiv> 89"
abbreviation (input) PIXELFORMAT_ASTC_10x5_UNORM :: pixel_format where "PIXELFORMAT_ASTC_10x5_UNORM \<equiv> 90"
abbreviation (input) PIXELFORMAT_ASTC_10x6_UNORM :: pixel_format where "PIXELFORMAT_ASTC_10x6_UNORM \<equiv> 91"
abbreviation (input) PIXELFORMAT_ASTC_10x8_UNORM :: pixel_format where "PIXELFORMAT_ASTC_10x8_UNORM \<equiv> 92"
abbreviation (input) PIXELFORMAT_ASTC_10x10_UNORM :: pixel_format where "PIXELFORMAT_ASTC_10x10_UNORM \<equiv> 93"
abbreviation (input) PIXELFORMAT_ASTC_12x10_UNORM :: pixel_format where "PIXELFORMAT_ASTC_12x10_UNORM \<equiv> 94"
abbreviation (input) PIXELFORMAT_ASTC_12x12_UNORM :: pixel_format where "PIXELFORMAT_ASTC_12x12_UNORM \<equiv> 95"
abbreviation (input) PIXELFORMAT_ASTC_4x4_sRGB :: pixel_format where "PIXELFORMAT_ASTC_4x4_sRGB \<equiv> 96"
abbreviation (input) PIXELFORMAT_ASTC_5x4_sRGB :: pixel_format where "PIXELFORMAT_ASTC_5x4_sRGB \<equiv> 97"
abbreviation (input) PIXELFORMAT_ASTC_5x5_sRGB :: pixel_format where "PIXELFORMAT_ASTC_5x5_sRGB \<equiv> 98"
abbreviation (input) PIXELFORMAT_ASTC_6x5_sRGB :: pixel_format where "PIXELFORMAT_ASTC_6x5_sRGB \<equiv> 99"
abbreviation (input) PIXELFORMAT_ASTC_6x6_sRGB :: pixel_format where "PIXELFORMAT_ASTC_6x6_sRGB \<equiv> 100"
abbreviation (input) PIXELFORMAT_ASTC_8x5_sRGB :: pixel_format where "PIXELFORMAT_ASTC_8x5_sRGB \<equiv> 101"
abbreviation (input) PIXELFORMAT_ASTC_8x6_sRGB :: pixel_format where "PIXELFORMAT_ASTC_8x6_sRGB \<equiv> 102"
abbreviation (input) PIXELFORMAT_ASTC_8x8_sRGB :: pixel_format where "PIXELFORMAT_ASTC_8x8_sRGB \<equiv> 103"
abbreviation (input) PIXELFORMAT_ASTC_10x5_sRGB :: pixel_format where "PIXELFORMAT_ASTC_10x5_sRGB \<equiv> 104"
abbreviation (input) PIXELFORMAT_ASTC_10x6_sRGB :: pixel_format where "PIXELFORMAT_ASTC_10x6_sRGB \<equiv> 105"
abbreviation (input) PIXELFORMAT_ASTC_10x8_sRGB :: pixel_format where "PIXELFORMAT_ASTC_10x8_sRGB \<equiv> 106"
abbreviation (input) PIXELFORMAT_ASTC_10x10_sRGB :: pixel_format where "PIXELFORMAT_ASTC_10x10_sRGB \<equiv> 107"
abbreviation (input) PIXELFORMAT_ASTC_12x10_sRGB :: pixel_format where "PIXELFORMAT_ASTC_12x10_sRGB \<equiv> 108"
abbreviation (input) PIXELFORMAT_ASTC_12x12_sRGB :: pixel_format where "PIXELFORMAT_ASTC_12x12_sRGB \<equiv> 109"
abbreviation (input) PIXELFORMAT_MAX_ENUM :: pixel_format where "PIXELFORMAT_MAX_ENUM \<equiv> 110"

datatype pixel_format_type =
    PIXELFORMATTYPE_UNORM
  | PIXELFORMATTYPE_SNORM
  | PIXELFORMATTYPE_UFLOAT
  | PIXELFORMATTYPE_SFLOAT
  | PIXELFORMATTYPE_UINT
  | PIXELFORMATTYPE_SINT

record pixel_format_info =
  components :: nat
  blockWidth :: nat
  blockHeight :: nat
  blockSize :: nat
  is_color :: bool
  is_depth :: bool
  is_stencil :: bool
  compressed :: bool
  is_sRGB :: bool
  dataType :: pixel_format_type

section \<open>The tables\<close>

definition mk_info ::
  "nat \<Rightarrow> nat \<Rightarrow> nat \<Rightarrow> nat \<Rightarrow> bool \<Rightarrow> bool \<Rightarrow> bool \<Rightarrow> bool \<Rightarrow> bool \<Rightarrow> pixel_format_type \<Rightarrow> pixel_format_info" where
  "mk_info n w h sz col dep ste com srgb ty =
     \<lparr>components = n, blockWidth = w, blockHeight = h, blockSize = sz, is_color = col, is_depth = dep, is_stencil = ste,
      compressed = com, is_sRGB = srgb, dataType = ty\<rparr>"

definition formatInfo :: "pixel_format_info list" where
  "formatInfo =
    [mk_info 0 1 1 0 False False False False False PIXELFORMATTYPE_UNORM,
     mk_info 0 1 1 0 True False False False False PIXELFORMATTYPE_UNORM,
     mk_info 0 1 1 0 True False False False False PIXELFORMATTYPE_SFLOAT,
     mk_info 1 1 1 1 True False False False False PIXELFORMATTYPE_UNORM,
     mk_info 1 1 1 1 True False False False False PIXELFORMATTYPE_SINT,
     mk_info 1 1 1 1 True False False False False PIXELFORMATTYPE_UINT,
     mk_info 1 1 1 2 True False False False False PIXELFORMATTYPE_UNORM,
     mk_info 1 1 1 2 True False False False False PIXELFORMATTYPE_SFLOAT,
     mk_info 1 1 1 2 True False False False False PIXELFORMATTYPE_SINT,
     mk_info 1 1 1 2 True False False False False PIXELFORMATTYPE_UINT,
     mk_info 1 1 1 4 True False False False False PIXELFORMATTYPE_SFLOAT,
     mk_info 1 1 1 4 True False False False False PIXELFORMATTYPE_SINT,
     mk_info 1 1 1 4 True False False False False PIXELFORMATTYPE_UINT,
     mk_info 2 1 1 2 True False False False False PIXELFORMATTYPE_UNORM,
     mk_info 2 1 1 2 True False False False False PIXELFORMATTYPE_SINT,
     mk_info 2 1 1 2 True False False False False PIXELFORMATTYPE_UINT,
     mk_info 2 1 1 2 True False False False False PIXELFORMATTYPE_UNORM,
     mk_info 2 1 1 4 True False False False False PIXELFORMATTYPE_UNORM,
     mk_info 2 1 1 4 True False False False False PIXELFORMATTYPE_SFLOAT,
     mk_info 2 1 1 4 True False False False False PIXELFORMATTYPE_SINT,
     mk_info 2 1 1 4 True False False False False PIXELFORMATTYPE_UINT,
     mk_info 2 1 1 8 True False False False False PIXELFORMATTYPE_SFLOAT,
     mk_info 2 1 1 8 True False False False False PIXELFORMATTYPE_SINT,
     mk_info 2 1 1 8 True False False False False PIXELFORMATTYPE_UINT,
     mk_info 4 1 1 4 True False False False False PIXELFORMATTYPE_UNORM,
     mk_info 4 1 1 4 True False False False True PIXELFORMATTYPE_UNORM,
     mk_info 4 1 1 4 True False False False False PIXELFORMATTYPE_UNORM,
     mk_info 4 1 1 4 True False False False True PIXELFORMATTYPE_UNORM,
     mk_info 4 1 1 4 True False False False False PIXELFORMATTYPE_SINT,
     mk_info 4 1 1 4 True False False False False PIXELFORMATTYPE_UINT,
     mk_info 4 1 1 8 True False False False False PIXELFORMATTYPE_UNORM,
     mk_info 4 1 1 8 True False False False False PIXELFORMATTYPE_SFLOAT,
     mk_info 4 1 1 8 True False False False False PIXELFORMATTYPE_SINT,
     mk_info 4 1 1 8 True False False False False PIXELFORMATTYPE_UINT,
     mk_info 4 1 1 16 True False False False False PIXELFORMATTYPE_SFLOAT,
     mk_info 4 1 1 16 True False False False False PIXELFORMATTYPE_SINT,
     mk_info 4 1 1 16 True False False False False PIXELFORMATTYPE_UINT,
     mk_info 4 1 1 2 True False False False False PIXELFORMATTYPE_UNORM,
     mk_info 4 1 1 2 True False False False False PIXELFORMATTYPE_UNORM,
     mk_info 3 1 1 2 True False False False False PIXELFORMATTYPE_UNORM,
     mk_info 4 1 1 4 True False False False False PIXELFORMATTYPE_UNORM,
     mk_info 4 1 1 4 True False False False False PIXELFORMATTYPE_UINT,
     mk_info 3 1 1 4 True False False False False PIXELFORMATTYPE_UFLOAT,
     mk_info 1 1 1 1 False False True False False PIXELFORMATTYPE_UINT,
     mk_info 1 1 1 2 False True False False False PIXELFORMATTYPE_UNORM,
     mk_info 1 1 1 3 False True False False False PIXELFORMATTYPE_UNORM,
     mk_info 1 1 1 4 False True False False False PIXELFORMATTYPE_SFLOAT,
     mk_info 2 1 1 4 False True True False False PIXELFORMATTYPE_UNORM,
     mk_info 2 1 1 5 False True True False False PIXELFORMATTYPE_SFLOAT,
     mk_info 3 4 4 8 True False False True False PIXELFORMATTYPE_UNORM,
     mk_info 3 4 4 8 True False False True True PIXELFORMATTYPE_UNORM,
     mk_info 4 4 4 16 True False False True False PIXELFORMATTYPE_UNORM,
     mk_info 4 4 4 16 True False False True True PIXELFORMATTYPE_UNORM,
     mk_info 4 4 4 16 True False False True False PIXELFORMATTYPE_UNORM,
     mk_info 4 4 4 16 True False False True True PIXELFORMATTYPE_UNORM,
     mk_info 1 4 4 8 True False False True False PIXELFORMATTYPE_UNORM,
     mk_info 1 4 4 8 True False False True False PIXELFORMATTYPE_SNORM,
     mk_info 2 4 4 16 True False False True False PIXELFORMATTYPE_UNORM,
     mk_info 2 4 4 16 True False False True False PIXELFORMATTYPE_SNORM,
     mk_info 3 4 4 16 True False False True False PIXELFORMATTYPE_UFLOAT,
     mk_info 3 4 4 16 True False False True False PIXELFORMATTYPE_SFLOAT,
     mk_info 4 4 4 16 True False False True False PIXELFORMATTYPE_UNORM,
     mk_info 4 4 4 16 True False False True True PIXELFORMATTYPE_UNORM,
     mk_info 3 16 8 32 True False False True False PIXELFORMATTYPE_UNORM,
     mk_info 3 16 8 32 True False False True True PIXELFORMATTYPE_UNORM,
     mk_info 3 8 8 32 True False False True False PIXELFORMATTYPE_UNORM,
     mk_info 3 8 8 32 True False False True True PIXELFORMATTYPE_UNORM,
     mk_info 4 16 8 32 True False False True False PIXELFORMATTYPE_UNORM,
     mk_info 4 16 8 32 True False False True True PIXELFORMATTYPE_UNORM,
     mk_info 4 8 8 32 True False False True False PIXELFORMATTYPE_UNORM,
     mk_info 4 8 8 32 True False False True True PIXELFORMATTYPE_UNORM,
     mk_info 3 4 4 8 True False False True False PIXELFORMATTYPE_UNORM,
     mk_info 3 4 4 8 True False False True False PIXELFORMATTYPE_UNORM,
     mk_info 3 4 4 8 True False False True True PIXELFORMATTYPE_UNORM,
     mk_info 4 4 4 16 True False False True False PIXELFORMATTYPE_UNORM,
     mk_info 4 4 4 16 True False False True True PIXELFORMATTYPE_UNORM,
     mk_info 4 4 4 8 True False False True False PIXELFORMATTYPE_UNORM,
     mk_info 4 4 4 8 True False False True True PIXELFORMATTYPE_UNORM,
     mk_info 1 4 4 8 True False False True False PIXELFORMATTYPE_UNORM,
     mk_info 1 4 4 8 True False False True False PIXELFORMATTYPE_SNORM,
     mk_info 2 4 4 16 True False False True False PIXELFORMATTYPE_UNORM,
     mk_info 2 4 4 16 True False False True False PIXELFORMATTYPE_SNORM,
     mk_info 4 4 4 1 True False False True False PIXELFORMATTYPE_UNORM,
     mk_info 4 5 4 1 True False False True False PIXELFORMATTYPE_UNORM,
     mk_info 4 5 5 1 True False False True False PIXELFORMATTYPE_UNORM,
     mk_info 4 6 5 1 True False False True False PIXELFORMATTYPE_UNORM,
     mk_info 4 6 6 1 True False False True False PIXELFORMATTYPE_UNORM,
     mk_info 4 8 5 1 True False False True False PIXELFORMATTYPE_UNORM,
     mk_info 4 8 6 1 True False False True False PIXELFORMATTYPE_UNORM,
     mk_info 4 8 8 1 True False False True False PIXELFORMATTYPE_UNORM,
     mk_info 4 8 5 1 True False False True False PIXELFORMATTYPE_UNORM,
     mk_info 4 10 6 1 True False False True False PIXELFORMATTYPE_UNORM,
     mk_info 4 10 8 1 True False False True False PIXELFORMATTYPE_UNORM,
     mk_info 4 10 10 1 True False False True False PIXELFORMATTYPE_UNORM,
     mk_info 4 12 10 1 True False False True False PIXELFORMATTYPE_UNORM,
     mk_info 4 12 12 1 True False False True False PIXELFORMATTYPE_UNORM,
     mk_info 4 4 4 1 True False False True True PIXELFORMATTYPE_UNORM,
     mk_info 4 5 4 1 True False False True True PIXELFORMATTYPE_UNORM,
     mk_info 4 5 5 1 True False False True True PIXELFORMATTYPE_UNORM,
     mk_info 4 6 5 1 True False False True True PIXELFORMATTYPE_UNORM,
     mk_info 4 6 6 1 True False False True True PIXELFORMATTYPE_UNORM,
     mk_info 4 8 5 1 True False False True True PIXELFORMATTYPE_UNORM,
     mk_info 4 8 6 1 True False False True True PIXELFORMATTYPE_UNORM,
     mk_info 4 8 8 1 True False False True True PIXELFORMATTYPE_UNORM,
     mk_info 4 8 5 1 True False False True True PIXELFORMATTYPE_UNORM,
     mk_info 4 10 6 1 True False False True True PIXELFORMATTYPE_UNORM,
     mk_info 4 10 8 1 True False False True True PIXELFORMATTYPE_UNORM,
     mk_info 4 10 10 1 True False False True True PIXELFORMATTYPE_UNORM,
     mk_info 4 12 10 1 True False False True True PIXELFORMATTYPE_UNORM,
     mk_info 4 12 12 1 True False False True True PIXELFORMATTYPE_UNORM]"

definition formatEntries :: "(string \<times> pixel_format) list" where
  "formatEntries =
    [(''unknown'', PIXELFORMAT_UNKNOWN),
     (''normal'', PIXELFORMAT_NORMAL),
     (''hdr'', PIXELFORMAT_HDR),
     (''r8'', PIXELFORMAT_R8_UNORM),
     (''r8i'', PIXELFORMAT_R8_INT),
     (''r8ui'', PIXELFORMAT_R8_UINT),
     (''r16'', PIXELFORMAT_R16_UNORM),
     (''r16f'', PIXELFORMAT_R16_FLOAT),
     (''r16i'', PIXELFORMAT_R16_INT),
     (''r16ui'', PIXELFORMAT_R16_UINT),
     (''r32f'', PIXELFORMAT_R32_FLOAT),
     (''r32i'', PIXELFORMAT_R32_INT),
     (''r32ui'', PIXELFORMAT_R32_UINT),
     (''rg8'', PIXELFORMAT_RG8_UNORM),
     (''rg8i'', PIXELFORMAT_RG8_INT),
     (''rg8ui'', PIXELFORMAT_RG8_UINT),
     (''la8'', PIXELFORMAT_LA8_UNORM),
     (''rg16'', PIXELFORMAT_RG16_UNORM),
     (''rg16f'', PIXELFORMAT_RG16_FLOAT),
     (''rg16i'', PIXELFORMAT_RG16_INT),
     (''rg16ui'', PIXELFORMAT_RG16_UINT),
     (''rg32f'', PIXELFORMAT_RG32_FLOAT),
     (''rg32i'', PIXELFORMAT_RG32_INT),
     (''rg32ui'', PIXELFORMAT_RG32_UINT),
     (''rgba8'', PIXELFORMAT_RGBA8_UNORM),
     (''srgba8'', PIXELFORMAT_RGBA8_sRGB),
     (''bgra8'', PIXELFORMAT_BGRA8_UNORM),
     (''bgra8srgb'', PIXELFORMAT_BGRA8_sRGB),
     (''rgba8i'', PIXELFORMAT_RGBA8_INT),
     (''rgba8ui'', PIXELFORMAT_RGBA8_UINT),
     (''rgba16'', PIXELFORMAT_RGBA16_UNORM),
     (''rgba16f'', PIXELFORMAT_RGBA16_FLOAT),
     (''rgba16i'', PIXELFORMAT_RGBA16_INT),
     (''rgba16ui'', PIXELFORMAT_RGBA16_UINT),
     (''rgba32f'', PIXELFORMAT_RGBA32_FLOAT),
     (''rgba32i'', PIXELFORMAT_RGBA32_INT),
     (''rgba32ui'', PIXELFORMAT_RGBA32_UINT),
     (''rgba4'', PIXELFORMAT_RGBA4_UNORM),
     (''rgb5a1'', PIXELFORMAT_RGB5A1_UNORM),
     (''rgb565'', PIXELFORMAT_RGB565_UNORM),
     (''rgb10a2'', PIXELFORMAT_RGB10A2_UNORM),
     (''rgb10a2ui'', PIXELFORMAT_RGB10A2_UINT),
     (''rg11b10f'', PIXELFORMAT_RG11B10_FLOAT),
     (''stencil8'', PIXELFORMAT_STENCIL8),
     (''depth16'', PIXELFORMAT_DEPTH16_UNORM),
     (''depth24'', PIXELFORMAT_DEPTH24_UNORM),
     (''depth32f'', PIXELFORMAT_DEPTH32_FLOAT),
     (''depth24stencil8'', PIXELFORMAT_DEPTH24_UNORM_STENCIL8),
     (''depth32fstencil8'', PIXELFORMAT_DEPTH32_FLOAT_STENCIL8),
     (''DXT1'', PIXELFORMAT_DXT1_UNORM),
     (''DXT1srgb'', PIXELFORMAT_DXT1_sRGB),
     (''DXT3'', PIXELFORMAT_DXT3_UNORM),
     (''DXT3srgb'', PIXELFORMAT_DXT3_sRGB),
     (''DXT5'', PIXELFORMAT_DXT5_UNORM),
     (''DXT5srgb'', PIXELFORMAT_DXT5_sRGB),
     (''BC4'', PIXELFORMAT_BC4_UNORM),
     (''BC4s'', PIXELFORMAT_BC4_SNORM),
     (''BC5'', PIXELFORMAT_BC5_UNORM),
     (''BC5s'', PIXELFORMAT_BC5_SNORM),
     (''BC6h'', PIXELFORMAT_BC6H_UFLOAT),
     (''BC6hs'', PIXELFORMAT_BC6H_FLOAT),
     (''BC7'', PIXELFORMAT_BC7_UNORM),
     (''BC7srgb'', PIXELFORMAT_BC7_sRGB),
     (''PVR1rgb2'', PIXELFORMAT_PVR1_RGB2_UNORM),
     (''PVR1rgb2srgb'', PIXELFORMAT_PVR1_RGB2_sRGB),
     (''PVR1rgb4'', PIXELFORMAT_PVR1_RGB4_UNORM),
     (''PVR1rgb4srgb'', PIXELFORMAT_PVR1_RGB4_sRGB),
     (''PVR1rgba2'', PIXELFORMAT_PVR1_RGBA2_UNORM),
     (''PVR1rgba2srgb'', PIXELFORMAT_PVR1_RGBA2_sRGB),
     (''PVR1rgba4'', PIXELFORMAT_PVR1_RGBA4_UNORM),
     (''PVR1rgba4srgb'', PIXELFORMAT_PVR1_RGBA4_sRGB),
     (''ETC1'', PIXELFORMAT_ETC1_UNORM),
     (''ETC2rgb'', PIXELFORMAT_ETC2_RGB_UNORM),
     (''ETC2srgb'', PIXELFORMAT_ETC2_RGB_sRGB),
     (''ETC2rgba'', PIXELFORMAT_ETC2_RGBA_UNORM),
     (''ETC2srgba'', PIXELFORMAT_ETC2_RGBA_sRGB),
     (''ETC2rgba1'', PIXELFORMAT_ETC2_RGBA1_UNORM),
     (''ETC2srgba1'', PIXELFORMAT_ETC2_RGBA1_sRGB),
     (''EACr'', PIXELFORMAT_EAC_R_UNORM),
     (''EACrs'', PIXELFORMAT_EAC_R_SNORM),
     (''EACrg'', PIXELFORMAT_EAC_RG_UNORM),
     (''EACrgs'', PIXELFORMAT_EAC_RG_SNORM),
     (''ASTC4x4'', PIXELFORMAT_ASTC_4x4_UNORM),
     (''ASTC5x4'', PIXELFORMAT_ASTC_5x4_UNORM),
     (''ASTC5x5'', PIXELFORMAT_ASTC_5x5_UNORM),
     (''ASTC6x5'', PIXELFORMAT_ASTC_6x5_UNORM),
     (''ASTC6x6'', PIXELFORMAT_ASTC_6x6_UNORM),
     (''ASTC8x5'', PIXELFORMAT_ASTC_8x5_UNORM),
     (''ASTC8x6'', PIXELFORMAT_ASTC_8x6_UNORM),
     (''ASTC8x8'', PIXELFORMAT_ASTC_8x8_UNORM),
     (''ASTC10x5'', PIXELFORMAT_ASTC_10x5_UNORM),
     (''ASTC10x6'', PIXELFORMAT_ASTC_10x6_UNORM),
     (''ASTC10x8'', PIXELFORMAT_ASTC_10x8_UNORM),
     (''ASTC10x10'', PIXELFORMAT_ASTC_10x10_UNORM),
     (''ASTC12x10'', PIXELFORMAT_ASTC_12x10_UNORM),
     (''ASTC12x12'', PIXELFORMAT_ASTC_12x12_UNORM),
     (''ASTC4x4srgb'', PIXELFORMAT_ASTC_4x4_sRGB),
     (''ASTC5x4srgb'', PIXELFORMAT_ASTC_5x4_sRGB),
     (''ASTC5x5srgb'', PIXELFORMAT_ASTC_5x5_sRGB),
     (''ASTC6x5srgb'', PIXELFORMAT_ASTC_6x5_sRGB),
     (''ASTC6x6srgb'', PIXELFORMAT_ASTC_6x6_sRGB),
     (''ASTC8x5srgb'', PIXELFORMAT_ASTC_8x5_sRGB),
     (''ASTC8x6srgb'', PIXELFORMAT_ASTC_8x6_sRGB),
     (''ASTC8x8srgb'', PIXELFORMAT_ASTC_8x8_sRGB),
     (''ASTC10x5srgb'', PIXELFORMAT_ASTC_10x5_sRGB),
     (''ASTC10x6srgb'', PIXELFORMAT_ASTC_10x6_sRGB),
     (''ASTC10x8srgb'', PIXELFORMAT_ASTC_10x8_sRGB),
     (''ASTC10x10srgb'', PIXELFORMAT_ASTC_10x10_sRGB),
     (''ASTC12x10srgb'', PIXELFORMAT_ASTC_12x10_sRGB),
     (''ASTC12x12srgb'', PIXELFORMAT_ASTC_12x12_sRGB)]"

text \<open>The \<^verbatim>\<open>switch\<close> of each direction, as the pairs of its cases.\<close>

definition srgb_cases :: "(pixel_format \<times> pixel_format) list" where
  "srgb_cases =
    [(PIXELFORMAT_RGBA8_UNORM, PIXELFORMAT_RGBA8_sRGB),
     (PIXELFORMAT_BGRA8_UNORM, PIXELFORMAT_BGRA8_sRGB),
     (PIXELFORMAT_DXT1_UNORM, PIXELFORMAT_DXT1_sRGB),
     (PIXELFORMAT_DXT3_UNORM, PIXELFORMAT_DXT3_sRGB),
     (PIXELFORMAT_DXT5_UNORM, PIXELFORMAT_DXT5_sRGB),
     (PIXELFORMAT_BC7_UNORM, PIXELFORMAT_BC7_sRGB),
     (PIXELFORMAT_PVR1_RGB2_UNORM, PIXELFORMAT_PVR1_RGB2_sRGB),
     (PIXELFORMAT_PVR1_RGB4_UNORM, PIXELFORMAT_PVR1_RGB4_sRGB),
     (PIXELFORMAT_PVR1_RGBA2_UNORM, PIXELFORMAT_PVR1_RGBA2_sRGB),
     (PIXELFORMAT_PVR1_RGBA4_UNORM, PIXELFORMAT_PVR1_RGBA4_sRGB),
     (PIXELFORMAT_ETC1_UNORM, PIXELFORMAT_ETC2_RGB_sRGB),
     (PIXELFORMAT_ETC2_RGB_UNORM, PIXELFORMAT_ETC2_RGB_sRGB),
     (PIXELFORMAT_ETC2_RGBA_UNORM, PIXELFORMAT_ETC2_RGBA_sRGB),
     (PIXELFORMAT_ETC2_RGBA1_UNORM, PIXELFORMAT_ETC2_RGBA1_sRGB),
     (PIXELFORMAT_ASTC_4x4_UNORM, PIXELFORMAT_ASTC_4x4_sRGB),
     (PIXELFORMAT_ASTC_5x4_UNORM, PIXELFORMAT_ASTC_5x4_sRGB),
     (PIXELFORMAT_ASTC_5x5_UNORM, PIXELFORMAT_ASTC_5x5_sRGB),
     (PIXELFORMAT_ASTC_6x5_UNORM, PIXELFORMAT_ASTC_6x5_sRGB),
     (PIXELFORMAT_ASTC_6x6_UNORM, PIXELFORMAT_ASTC_6x6_sRGB),
     (PIXELFORMAT_ASTC_8x5_UNORM, PIXELFORMAT_ASTC_8x5_sRGB),
     (PIXELFORMAT_ASTC_8x6_UNORM, PIXELFORMAT_ASTC_8x6_sRGB),
     (PIXELFORMAT_ASTC_8x8_UNORM, PIXELFORMAT_ASTC_8x8_sRGB),
     (PIXELFORMAT_ASTC_10x5_UNORM, PIXELFORMAT_ASTC_10x5_sRGB),
     (PIXELFORMAT_ASTC_10x6_UNORM, PIXELFORMAT_ASTC_10x6_sRGB),
     (PIXELFORMAT_ASTC_10x8_UNORM, PIXELFORMAT_ASTC_10x8_sRGB),
     (PIXELFORMAT_ASTC_10x10_UNORM, PIXELFORMAT_ASTC_10x10_sRGB),
     (PIXELFORMAT_ASTC_12x10_UNORM, PIXELFORMAT_ASTC_12x10_sRGB),
     (PIXELFORMAT_ASTC_12x12_UNORM, PIXELFORMAT_ASTC_12x12_sRGB)]"

definition linear_cases :: "(pixel_format \<times> pixel_format) list" where
  "linear_cases =
    [(PIXELFORMAT_RGBA8_sRGB, PIXELFORMAT_RGBA8_UNORM),
     (PIXELFORMAT_BGRA8_sRGB, PIXELFORMAT_BGRA8_UNORM),
     (PIXELFORMAT_DXT1_sRGB, PIXELFORMAT_DXT1_UNORM),
     (PIXELFORMAT_DXT3_sRGB, PIXELFORMAT_DXT3_UNORM),
     (PIXELFORMAT_DXT5_sRGB, PIXELFORMAT_DXT5_UNORM),
     (PIXELFORMAT_BC7_sRGB, PIXELFORMAT_BC7_UNORM),
     (PIXELFORMAT_PVR1_RGB2_sRGB, PIXELFORMAT_PVR1_RGB2_UNORM),
     (PIXELFORMAT_PVR1_RGB4_sRGB, PIXELFORMAT_PVR1_RGB4_UNORM),
     (PIXELFORMAT_PVR1_RGBA2_sRGB, PIXELFORMAT_PVR1_RGBA2_UNORM),
     (PIXELFORMAT_PVR1_RGBA4_sRGB, PIXELFORMAT_PVR1_RGBA4_UNORM),
     (PIXELFORMAT_ETC2_RGB_sRGB, PIXELFORMAT_ETC2_RGB_UNORM),
     (PIXELFORMAT_ETC2_RGBA_sRGB, PIXELFORMAT_ETC2_RGBA_UNORM),
     (PIXELFORMAT_ETC2_RGBA1_sRGB, PIXELFORMAT_ETC2_RGBA1_UNORM),
     (PIXELFORMAT_ASTC_4x4_sRGB, PIXELFORMAT_ASTC_4x4_UNORM),
     (PIXELFORMAT_ASTC_5x4_sRGB, PIXELFORMAT_ASTC_5x4_UNORM),
     (PIXELFORMAT_ASTC_5x5_sRGB, PIXELFORMAT_ASTC_5x5_UNORM),
     (PIXELFORMAT_ASTC_6x5_sRGB, PIXELFORMAT_ASTC_6x5_UNORM),
     (PIXELFORMAT_ASTC_6x6_sRGB, PIXELFORMAT_ASTC_6x6_UNORM),
     (PIXELFORMAT_ASTC_8x5_sRGB, PIXELFORMAT_ASTC_8x5_UNORM),
     (PIXELFORMAT_ASTC_8x6_sRGB, PIXELFORMAT_ASTC_8x6_UNORM),
     (PIXELFORMAT_ASTC_8x8_sRGB, PIXELFORMAT_ASTC_8x8_UNORM),
     (PIXELFORMAT_ASTC_10x5_sRGB, PIXELFORMAT_ASTC_10x5_UNORM),
     (PIXELFORMAT_ASTC_10x6_sRGB, PIXELFORMAT_ASTC_10x6_UNORM),
     (PIXELFORMAT_ASTC_10x8_sRGB, PIXELFORMAT_ASTC_10x8_UNORM),
     (PIXELFORMAT_ASTC_10x10_sRGB, PIXELFORMAT_ASTC_10x10_UNORM),
     (PIXELFORMAT_ASTC_12x10_sRGB, PIXELFORMAT_ASTC_12x10_UNORM),
     (PIXELFORMAT_ASTC_12x12_sRGB, PIXELFORMAT_ASTC_12x12_UNORM)]"

section \<open>Queries\<close>

definition formats :: string_map where
  "formats = new_map PIXELFORMAT_MAX_ENUM formatEntries"

definition format_of_name :: "string \<Rightarrow> pixel_format option" where
  "format_of_name name = sm_find formats name"

definition getPixelFormatName :: "pixel_format \<Rightarrow> string" where
  "getPixelFormatName format = (case sm_name formats format of Some name \<Rightarrow> name | None \<Rightarrow> ''unknown'')"

definition getPixelFormatInfo :: "pixel_format \<Rightarrow> pixel_format_info" where
  "getPixelFormatInfo format = formatInfo ! format"

definition isPixelFormatCompressed :: "pixel_format \<Rightarrow> bool" where
  "isPixelFormatCompressed format = compressed (formatInfo ! format)"

definition isPixelFormatColor :: "pixel_format \<Rightarrow> bool" where
  "isPixelFormatColor format = is_color (formatInfo ! format)"

definition isPixelFormatDepthStencil :: "pixel_format \<Rightarrow> bool" where
  "isPixelFormatDepthStencil format = (is_depth (formatInfo ! format) \<or> is_stencil (formatInfo ! format))"

definition isPixelFormatDepth :: "pixel_format \<Rightarrow> bool" where
  "isPixelFormatDepth format = is_depth (formatInfo ! format)"

definition isPixelFormatStencil :: "pixel_format \<Rightarrow> bool" where
  "isPixelFormatStencil format = is_stencil (formatInfo ! format)"

definition isPixelFormatSRGB :: "pixel_format \<Rightarrow> bool" where
  "isPixelFormatSRGB format = is_sRGB (formatInfo ! format)"

definition isPixelFormatInteger :: "pixel_format \<Rightarrow> bool" where
  "isPixelFormatInteger format =
     (dataType (formatInfo ! format) = PIXELFORMATTYPE_SINT \<or> dataType (formatInfo ! format) = PIXELFORMATTYPE_UINT)"

definition getSRGBPixelFormat :: "pixel_format \<Rightarrow> pixel_format" where
  "getSRGBPixelFormat format = (case map_of srgb_cases format of Some f \<Rightarrow> f | None \<Rightarrow> format)"

definition getLinearPixelFormat :: "pixel_format \<Rightarrow> pixel_format" where
  "getLinearPixelFormat format = (case map_of linear_cases format of Some f \<Rightarrow> f | None \<Rightarrow> format)"

definition getPixelFormatColorComponents :: "pixel_format \<Rightarrow> nat" where
  "getPixelFormatColorComponents format = components (formatInfo ! format)"

section \<open>Sizes\<close>

text \<open>An \<^verbatim>\<open>int\<close> added to a \<^verbatim>\<open>size_t\<close> is converted to it.\<close>

definition to_size :: "32 word \<Rightarrow> uint64" where
  "to_size i = scast i"

definition getPixelFormatBlockSize :: "pixel_format \<Rightarrow> uint64" where
  "getPixelFormatBlockSize format = of_nat (blockSize (formatInfo ! format))"

definition blocks_along :: "32 word \<Rightarrow> nat \<Rightarrow> uint64" where
  "blocks_along extent block_extent = (to_size extent + of_nat block_extent - 1) div of_nat block_extent"

definition getPixelFormatUncompressedRowSize :: "pixel_format \<Rightarrow> 32 word \<Rightarrow> uint64" where
  "getPixelFormatUncompressedRowSize format width =
     (let info = formatInfo ! format
      in if compressed info then 0
         else of_nat (blockSize info) * to_size width div of_nat (blockWidth info))"

definition getPixelFormatCompressedBlockRowSize :: "pixel_format \<Rightarrow> 32 word \<Rightarrow> uint64" where
  "getPixelFormatCompressedBlockRowSize format width =
     (let info = formatInfo ! format
      in if \<not> compressed info then 0 else of_nat (blockSize info) * blocks_along width (blockWidth info))"

definition getPixelFormatCompressedBlockRowCount :: "pixel_format \<Rightarrow> 32 word \<Rightarrow> uint64" where
  "getPixelFormatCompressedBlockRowCount format height =
     (let info = formatInfo ! format
      in if \<not> compressed info then 0 else blocks_along height (blockHeight info))"

definition getPixelFormatSliceSize :: "pixel_format \<Rightarrow> 32 word \<Rightarrow> 32 word \<Rightarrow> uint64" where
  "getPixelFormatSliceSize format width height =
     (let info = formatInfo ! format
      in of_nat (blockSize info) * blocks_along width (blockWidth info) * blocks_along height (blockHeight info))"

section \<open>The tables agree\<close>

lemma formatInfo_length: "length formatInfo = PIXELFORMAT_MAX_ENUM"
  by (simp add: formatInfo_def)

lemma formatEntries_complete: "map snd formatEntries = [0..<PIXELFORMAT_MAX_ENUM]"
  by code_simp

lemma formatEntries_distinct: "distinct (map fst formatEntries)"
  by (simp add: formatEntries_def)

lemma format_name:
  assumes "f < PIXELFORMAT_MAX_ENUM"
  shows "getPixelFormatName f = fst (formatEntries ! f)" "format_of_name (fst (formatEntries ! f)) = Some f"
  using enumeration_table [OF _ _ formatEntries_complete formatEntries_distinct assms]
  by (simp_all add: getPixelFormatName_def format_of_name_def formats_def)

text \<open>
  The linear and sRGB formats pair up: the cases of both switches are between a linear format and
  an sRGB one with the same blocks, and the second leads back.
\<close>

definition same_layout :: "pixel_format \<Rightarrow> pixel_format \<Rightarrow> bool" where
  "same_layout f g \<longleftrightarrow> formatInfo ! g = (formatInfo ! f)\<lparr>is_sRGB := True\<rparr> \<and> \<not> is_sRGB (formatInfo ! f)"

lemma srgb_layouts: "list_all (\<lambda>(f, g). same_layout f g) srgb_cases"
  by code_simp

lemma srgb_back:
  "list_all (\<lambda>(f, g). getLinearPixelFormat g = (if f = PIXELFORMAT_ETC1_UNORM then PIXELFORMAT_ETC2_RGB_UNORM else f)) srgb_cases"
  by code_simp

lemma linear_back: "map (\<lambda>(g, f). getSRGBPixelFormat f) linear_cases = map fst linear_cases"
  by code_simp

lemma srgb_formats: "map is_sRGB formatInfo = map (\<lambda>f. f \<in> set (map fst linear_cases)) [0..<PIXELFORMAT_MAX_ENUM]"
  by code_simp

section \<open>Sizes without wrap-around\<close>

text \<open>No block is larger than sixteen by sixteen pixels or 32 bytes.\<close>

lemma block_bounds: "list_all (\<lambda>i. 1 \<le> blockWidth i \<and> blockWidth i \<le> 16 \<and> 1 \<le> blockHeight i \<and> blockHeight i \<le> 16 \<and>
    blockSize i \<le> 32 \<and> (compressed i \<or> blockWidth i = 1 \<and> blockHeight i = 1 \<and> blockSize i \<le> 16)) formatInfo"
  by (simp add: formatInfo_def mk_info_def)

lemma to_size_int:
  assumes "0 \<le> w" "w < 2 ^ 31"
  shows "to_size (word_of_int w) = of_nat (nat w)"
proof -
  have "sint (word_of_int w :: 32 word) = w"
    using assms by (simp add: sint_sbintrunc' signed_take_bit_int_eq_self)
  then show ?thesis
    using assms(1) by (simp add: to_size_def scast_eq)
qed

lemma blocks_along_int:
  assumes "0 \<le> w" "w < 2 ^ 31" "1 \<le> b" "b \<le> 16"
  shows "blocks_along (word_of_int w) b = of_nat ((nat w + b - 1) div b)"
proof -
  have "to_size (word_of_int w) + of_nat b - 1 = of_nat (nat w + b - 1)"
    using assms by (simp add: to_size_int of_nat_diff)
  moreover have "nat w + b - 1 < 2 ^ LENGTH(64)" "b < 2 ^ LENGTH(64)"
    using assms by simp_all
  ultimately show ?thesis
    unfolding blocks_along_def by (simp add: word_arith_nat_div unat_of_nat_small)
qed

text \<open>Of an uncompressed format a slice holds its pixels and nothing else.\<close>

lemma slice_size_uncompressed:
  assumes "f < PIXELFORMAT_MAX_ENUM" "\<not> isPixelFormatCompressed f" "0 \<le> w" "w < 2 ^ 29" "0 \<le> h" "h < 2 ^ 29"
  shows "unat (getPixelFormatSliceSize f (word_of_int w) (word_of_int h)) = blockSize (formatInfo ! f) * nat w * nat h"
proof -
  let ?i = "formatInfo ! f"
  have "?i \<in> set formatInfo"
    using assms(1) by (simp add: formatInfo_length)
  then have i: "blockWidth ?i = 1" "blockHeight ?i = 1" "blockSize ?i \<le> 16"
    using block_bounds assms(2) by (auto simp: list_all_iff isPixelFormatCompressed_def)
  have "getPixelFormatSliceSize f (word_of_int w) (word_of_int h) = of_nat (blockSize ?i * nat w * nat h)"
    using assms(3-6) blocks_along_int [of w 1] blocks_along_int [of h 1] i(1,2) by (simp add: getPixelFormatSliceSize_def)
  moreover have "blockSize ?i * nat w * nat h \<le> 16 * 2 ^ 29 * 2 ^ 29"
    using i(3) assms(4,6) by (intro mult_mono) auto
  then have "blockSize ?i * nat w * nat h < 2 ^ LENGTH(64)"
    by simp
  ultimately show ?thesis
    by (metis unat_of_nat_small)
qed

text \<open>
  The blocks of ASTC are 16 bytes whatever they span, and those of 10x5 are ten wide: the table says
  one byte, and eight.
\<close>

lemma astc_blocks:
  "blockSize (formatInfo ! PIXELFORMAT_ASTC_4x4_UNORM) = 1" "blockWidth (formatInfo ! PIXELFORMAT_ASTC_10x5_UNORM) = 8"
  "getPixelFormatSliceSize PIXELFORMAT_ASTC_10x5_UNORM 10 5 = 2"
  by code_simp+

section \<open>Sizes count blocks\<close>

lemma formatInfo_block:
  assumes "f < PIXELFORMAT_MAX_ENUM"
  shows "1 \<le> blockWidth (formatInfo ! f)" "blockWidth (formatInfo ! f) \<le> 16" "1 \<le> blockHeight (formatInfo ! f)" "blockHeight (formatInfo ! f) \<le> 16"
    "blockSize (formatInfo ! f) \<le> 32" "\<not> compressed (formatInfo ! f) \<Longrightarrow> blockWidth (formatInfo ! f) = 1 \<and> blockHeight (formatInfo ! f) = 1"
  using block_bounds assms by (auto simp: list_all_length formatInfo_length)

text \<open>The number of blocks that cover an extent.\<close>

definition covering :: "nat \<Rightarrow> nat \<Rightarrow> nat" where
  "covering extent block = (extent + block - 1) div block"

lemma blocks_along_nat:
  assumes "n < 2 ^ 29" "1 \<le> b" "b \<le> 16"
  shows "blocks_along (of_nat n) b = of_nat (covering n b)" "covering n b \<le> n"
  using assms blocks_along_int [of "int n" b]
  by (simp_all add: covering_def) (cases n; simp add: div_add_self2 div_le_dividend)

lemma slice_size:
  assumes "f < PIXELFORMAT_MAX_ENUM" "w < 2 ^ 29" "h < 2 ^ 29"
  defines "i \<equiv> formatInfo ! f"
  shows "unat (getPixelFormatSliceSize f (of_nat w) (of_nat h)) = blockSize i * covering w (blockWidth i) * covering h (blockHeight i)"
    "getPixelFormatSliceSize f (of_nat w) (of_nat h) =
       (if compressed i then getPixelFormatCompressedBlockRowSize f (of_nat w) * getPixelFormatCompressedBlockRowCount f (of_nat h)
        else getPixelFormatUncompressedRowSize f (of_nat w) * of_nat h)"
proof -
  note block = formatInfo_block [OF assms(1), folded i_def]
  note along = blocks_along_nat [OF assms(2) block(1,2)] blocks_along_nat [OF assms(3) block(3,4)]
  have slice: "getPixelFormatSliceSize f (of_nat w) (of_nat h) = of_nat (blockSize i * covering w (blockWidth i) * covering h (blockHeight i))"
    by (simp add: getPixelFormatSliceSize_def Let_def along(1,3) flip: i_def)
  have "blockSize i * covering w (blockWidth i) * covering h (blockHeight i) \<le> 32 * 2 ^ 29 * 2 ^ 29"
    using block(5) along(2,4) assms(2,3) by (intro mult_le_mono) simp_all
  then have "blockSize i * covering w (blockWidth i) * covering h (blockHeight i) < 2 ^ LENGTH(64)"
    by (rule le_less_trans) simp
  then show "unat (getPixelFormatSliceSize f (of_nat w) (of_nat h)) = blockSize i * covering w (blockWidth i) * covering h (blockHeight i)"
    unfolding slice by (rule unat_of_nat_small)
  show "getPixelFormatSliceSize f (of_nat w) (of_nat h) =
       (if compressed i then getPixelFormatCompressedBlockRowSize f (of_nat w) * getPixelFormatCompressedBlockRowCount f (of_nat h)
        else getPixelFormatUncompressedRowSize f (of_nat w) * of_nat h)"
    using block(6) assms(2) unfolding slice
    by (auto simp: getPixelFormatCompressedBlockRowSize_def getPixelFormatCompressedBlockRowCount_def getPixelFormatUncompressedRowSize_def
        Let_def along(1,3) covering_def to_size_int [of "int w", simplified] simp flip: i_def)
qed



end
