(* ===== verification/ImageData.thy ===== *)
theory ImageData
  imports FloatTypes PixelFormats
begin

text \<open>
  Images in memory (\<^verbatim>\<open>src/src/modules/image/ImageData.cpp\<close>): what a pixel of each format is
  made of, reading and writing one, and pasting a rectangle of one image into another.

  The memory of an image is a list of bytes, and a word of it has its lowest byte first, as
  on every processor the engine is built for. A component of a colour is what its
  \<^verbatim>\<open>float\<close> stands for; arithmetic on it is exact. The bits of a \<^verbatim>\<open>float\<close> that is stored as it
  is are asked of the parameter \<open>bits_of\<close>. The two images of a paste have memory of
  their own.
\<close>

section \<open>Words in memory\<close>

definition bytes32 :: "uint32 \<Rightarrow> byte list" where
  "bytes32 w = [ucast w, ucast (drop_bit 8 w), ucast (drop_bit 16 w), ucast (drop_bit 24 w)]"

definition word32 :: "byte list \<Rightarrow> uint32" where
  "word32 bs =
     ucast (bs ! 0) OR push_bit 8 (ucast (bs ! 1)) OR push_bit 16 (ucast (bs ! 2)) OR push_bit 24 (ucast (bs ! 3))"

text \<open>The members \<^verbatim>\<open>rgba16[k]\<close> and \<^verbatim>\<open>rgba32f[k]\<close> of the union.\<close>

definition half_at :: "nat \<Rightarrow> byte list \<Rightarrow> uint16" where
  "half_at k p = word16 (drop (2 * k) p)"

definition full_at :: "nat \<Rightarrow> byte list \<Rightarrow> uint32" where
  "full_at k p = word32 (drop (4 * k) p)"

section \<open>Colours\<close>

record colour =
  col_r :: fvalue
  col_g :: fvalue
  col_b :: fvalue
  col_a :: fvalue

definition rgba :: "fvalue \<Rightarrow> fvalue \<Rightarrow> fvalue \<Rightarrow> fvalue \<Rightarrow> colour" where
  "rgba r g b a = \<lparr>col_r = r, col_g = g, col_b = b, col_a = a\<rparr>"

fun clamp01 :: "fvalue \<Rightarrow> fvalue" where
  "clamp01 (Finite r) = Finite (min (max r 0) 1)"
| "clamp01 (Infinity negative) = Finite (if negative then 0 else 1)"
| "clamp01 NaN = NaN"

text \<open>\<^verbatim>\<open>(uint) (clamp01(x) * n + 0.5)\<close>; what is not a number has no integer.\<close>

definition quantize :: "nat \<Rightarrow> fvalue \<Rightarrow> nat result" where
  "quantize n v =
     (case clamp01 v of
        Finite r \<Rightarrow> Inr (nat \<lfloor>r * n + 1 / 2\<rfloor>)
      | _ \<Rightarrow> Inl (Undefined_behaviour ''conversion of NaN to an integer''))"

definition unorm :: "nat \<Rightarrow> nat \<Rightarrow> fvalue" where
  "unorm n k = Finite (real k / real n)"

fun quantize_all :: "(nat \<times> fvalue) list \<Rightarrow> nat list result" where
  "quantize_all [] = Inr []"
| "quantize_all ((n, v) # rest) = bind_result (quantize n v) (\<lambda>k. bind_result (quantize_all rest) (\<lambda>ks. Inr (k # ks)))"

section \<open>Writing a pixel\<close>

type_synonym setter = "(fvalue \<Rightarrow> uint32) \<Rightarrow> colour \<Rightarrow> byte list \<Rightarrow> byte list result"
type_synonym getter = "byte list \<Rightarrow> colour"

text \<open>The channels of eight or sixteen bits each that are stored, then what the pixel had behind them.\<close>

definition set_unorm8 :: "fvalue list \<Rightarrow> byte list \<Rightarrow> byte list result" where
  "set_unorm8 vs p =
     bind_result (quantize_all (map (Pair 255) vs)) (\<lambda>ks. Inr (map of_nat ks @ drop (length vs) p))"

definition set_unorm16 :: "fvalue list \<Rightarrow> byte list \<Rightarrow> byte list result" where
  "set_unorm16 vs p =
     bind_result (quantize_all (map (Pair 65535) vs))
       (\<lambda>ks. Inr (concat (map (\<lambda>k. bytes16 (of_nat k)) ks) @ drop (2 * length vs) p))"

definition set_float16 :: "(fvalue \<Rightarrow> uint32) \<Rightarrow> fvalue list \<Rightarrow> byte list \<Rightarrow> byte list result" where
  "set_float16 bits vs p = Inr (concat (map (\<lambda>v. bytes16 (float32to16 (bits v))) vs) @ drop (2 * length vs) p)"

definition set_float32 :: "(fvalue \<Rightarrow> uint32) \<Rightarrow> fvalue list \<Rightarrow> byte list \<Rightarrow> byte list result" where
  "set_float32 bits vs p = Inr (concat (map (\<lambda>v. bytes32 (bits v)) vs) @ drop (4 * length vs) p)"

definition setPixelR8 :: setter where
  "setPixelR8 bits c p = set_unorm8 [col_r c] p"

definition setPixelRG8 :: setter where
  "setPixelRG8 bits c p = set_unorm8 [col_r c, col_g c] p"

definition setPixelRGBA8 :: setter where
  "setPixelRGBA8 bits c p = set_unorm8 [col_r c, col_g c, col_b c, col_a c] p"

definition setPixelR16 :: setter where
  "setPixelR16 bits c p = set_unorm16 [col_r c] p"

definition setPixelRG16 :: setter where
  "setPixelRG16 bits c p = set_unorm16 [col_r c, col_g c] p"

text \<open>The second channel takes the blue component and the third the green one.\<close>

definition setPixelRGBA16 :: setter where
  "setPixelRGBA16 bits c p = set_unorm16 [col_r c, col_b c, col_g c, col_a c] p"

definition setPixelR16F :: setter where
  "setPixelR16F bits c p = set_float16 bits [col_r c] p"

definition setPixelRG16F :: setter where
  "setPixelRG16F bits c p = set_float16 bits [col_r c, col_g c] p"

definition setPixelRGBA16F :: setter where
  "setPixelRGBA16F bits c p = set_float16 bits [col_r c, col_g c, col_b c, col_a c] p"

definition setPixelR32F :: setter where
  "setPixelR32F bits c p = set_float32 bits [col_r c] p"

definition setPixelRG32F :: setter where
  "setPixelRG32F bits c p = set_float32 bits [col_r c, col_g c] p"

definition setPixelRGBA32F :: setter where
  "setPixelRGBA32F bits c p = set_float32 bits [col_r c, col_g c, col_b c, col_a c] p"

definition setPixelRGBA4 :: setter where
  "setPixelRGBA4 bits c p =
     bind_result (quantize_all [(0xF, col_r c), (0xF, col_g c), (0xF, col_b c), (0xF, col_a c)]) (\<lambda>ks.
       let r = of_nat (ks ! 0); g = of_nat (ks ! 1); b = of_nat (ks ! 2); a = of_nat (ks ! 3)
       in Inr (bytes16 (push_bit 12 r OR push_bit 8 g OR push_bit 4 b OR push_bit 0 a) @ drop 2 p))"

definition setPixelRGB5A1 :: setter where
  "setPixelRGB5A1 bits c p =
     bind_result (quantize_all [(0x1F, col_r c), (0x1F, col_g c), (0x1F, col_b c), (0x1, col_a c)]) (\<lambda>ks.
       let r = of_nat (ks ! 0); g = of_nat (ks ! 1); b = of_nat (ks ! 2); a = of_nat (ks ! 3)
       in Inr (bytes16 (push_bit 11 r OR push_bit 6 g OR push_bit 1 b OR push_bit 0 a) @ drop 2 p))"

definition setPixelRGB565 :: setter where
  "setPixelRGB565 bits c p =
     bind_result (quantize_all [(0x1F, col_r c), (0x3F, col_g c), (0x1F, col_b c)]) (\<lambda>ks.
       let r = of_nat (ks ! 0); g = of_nat (ks ! 1); b = of_nat (ks ! 2)
       in Inr (bytes16 (push_bit 11 r OR push_bit 5 g OR push_bit 0 b) @ drop 2 p))"

definition setPixelRGB10A2 :: setter where
  "setPixelRGB10A2 bits c p =
     bind_result (quantize_all [(0x3FF, col_r c), (0x3FF, col_g c), (0x3FF, col_b c), (0x3, col_a c)]) (\<lambda>ks.
       let r = of_nat (ks ! 0); g = of_nat (ks ! 1); b = of_nat (ks ! 2); a = of_nat (ks ! 3)
       in Inr (bytes32 (push_bit 0 r OR push_bit 10 g OR push_bit 20 b OR push_bit 30 a) @ drop 4 p))"

definition setPixelRG11B10F :: setter where
  "setPixelRG11B10F bits c p =
     (let r = ucast (float32to11 (bits (col_r c))); g = ucast (float32to11 (bits (col_g c)));
          b = ucast (float32to10 (bits (col_b c)))
      in Inr (bytes32 (push_bit 0 r OR push_bit 11 g OR push_bit 22 b) @ drop 4 p))"

section \<open>Reading a pixel\<close>

definition getPixelR8 :: getter where
  "getPixelR8 p = rgba (unorm 255 (unat (p ! 0))) (Finite 0) (Finite 0) (Finite 1)"

definition getPixelRG8 :: getter where
  "getPixelRG8 p = rgba (unorm 255 (unat (p ! 0))) (unorm 255 (unat (p ! 1))) (Finite 0) (Finite 1)"

definition getPixelRGBA8 :: getter where
  "getPixelRGBA8 p =
     rgba (unorm 255 (unat (p ! 0))) (unorm 255 (unat (p ! 1))) (unorm 255 (unat (p ! 2))) (unorm 255 (unat (p ! 3)))"

definition getPixelR16 :: getter where
  "getPixelR16 p = rgba (unorm 65535 (unat (half_at 0 p))) (Finite 0) (Finite 0) (Finite 1)"

definition getPixelRG16 :: getter where
  "getPixelRG16 p = rgba (unorm 65535 (unat (half_at 0 p))) (unorm 65535 (unat (half_at 1 p))) (Finite 0) (Finite 1)"

definition getPixelRGBA16 :: getter where
  "getPixelRGBA16 p =
     rgba (unorm 65535 (unat (half_at 0 p))) (unorm 65535 (unat (half_at 1 p)))
       (unorm 65535 (unat (half_at 2 p))) (unorm 65535 (unat (half_at 3 p)))"

definition read16F :: "nat \<Rightarrow> byte list \<Rightarrow> fvalue" where
  "read16F k p = float_value (float16to32 (half_at k p))"

definition getPixelR16F :: getter where
  "getPixelR16F p = rgba (read16F 0 p) (Finite 0) (Finite 0) (Finite 1)"

definition getPixelRG16F :: getter where
  "getPixelRG16F p = rgba (read16F 0 p) (read16F 1 p) (Finite 0) (Finite 1)"

definition getPixelRGBA16F :: getter where
  "getPixelRGBA16F p = rgba (read16F 0 p) (read16F 1 p) (read16F 2 p) (read16F 3 p)"

definition getPixelR32F :: getter where
  "getPixelR32F p = rgba (float_value (full_at 0 p)) (Finite 0) (Finite 0) (Finite 1)"

definition getPixelRG32F :: getter where
  "getPixelRG32F p = rgba (float_value (full_at 0 p)) (float_value (full_at 1 p)) (Finite 0) (Finite 1)"

definition getPixelRGBA32F :: getter where
  "getPixelRGBA32F p =
     rgba (float_value (full_at 0 p)) (float_value (full_at 1 p)) (float_value (full_at 2 p)) (float_value (full_at 3 p))"

text \<open>\<^verbatim>\<open>((packed >> shift) & mask) / (float) mask\<close>\<close>

definition packed_channel :: "'a::len word \<Rightarrow> nat \<Rightarrow> 'a word \<Rightarrow> fvalue" where
  "packed_channel w shift m = unorm (unat m) (unat (drop_bit shift w AND m))"

definition getPixelRGBA4 :: getter where
  "getPixelRGBA4 p =
     (let w = word16 p in rgba (packed_channel w 12 0xF) (packed_channel w 8 0xF) (packed_channel w 4 0xF) (packed_channel w 0 0xF))"

definition getPixelRGB5A1 :: getter where
  "getPixelRGB5A1 p =
     (let w = word16 p in rgba (packed_channel w 11 0x1F) (packed_channel w 6 0x1F) (packed_channel w 1 0x1F) (packed_channel w 0 0x1))"

definition getPixelRGB565 :: getter where
  "getPixelRGB565 p =
     (let w = word16 p in rgba (packed_channel w 11 0x1F) (packed_channel w 5 0x3F) (packed_channel w 0 0x1F) (Finite 1))"

definition getPixelRGB10A2 :: getter where
  "getPixelRGB10A2 p =
     (let w = word32 p
      in rgba (packed_channel w 0 0x3FF) (packed_channel w 10 0x3FF) (packed_channel w 20 0x3FF) (packed_channel w 30 0x3))"

definition getPixelRG11B10F :: getter where
  "getPixelRG11B10F p =
     (let w = word32 p
      in rgba (float11to32 (ucast (drop_bit 0 w AND 0x7FF))) (float11to32 (ucast (drop_bit 11 w AND 0x7FF)))
           (float10to32 (ucast (drop_bit 22 w AND 0x3FF))) (Finite 1))"

definition getPixelSetFunction :: "pixel_format \<Rightarrow> setter option" where
  "getPixelSetFunction format =
     map_of [(PIXELFORMAT_R8_UNORM, setPixelR8), (PIXELFORMAT_RG8_UNORM, setPixelRG8), (PIXELFORMAT_RGBA8_UNORM, setPixelRGBA8),
       (PIXELFORMAT_R16_UNORM, setPixelR16), (PIXELFORMAT_RG16_UNORM, setPixelRG16), (PIXELFORMAT_RGBA16_UNORM, setPixelRGBA16),
       (PIXELFORMAT_R16_FLOAT, setPixelR16F), (PIXELFORMAT_RG16_FLOAT, setPixelRG16F), (PIXELFORMAT_RGBA16_FLOAT, setPixelRGBA16F),
       (PIXELFORMAT_R32_FLOAT, setPixelR32F), (PIXELFORMAT_RG32_FLOAT, setPixelRG32F), (PIXELFORMAT_RGBA32_FLOAT, setPixelRGBA32F),
       (PIXELFORMAT_RGBA4_UNORM, setPixelRGBA4), (PIXELFORMAT_RGB5A1_UNORM, setPixelRGB5A1), (PIXELFORMAT_RGB565_UNORM, setPixelRGB565),
       (PIXELFORMAT_RGB10A2_UNORM, setPixelRGB10A2), (PIXELFORMAT_RG11B10_FLOAT, setPixelRG11B10F)] format"

definition getPixelGetFunction :: "pixel_format \<Rightarrow> getter option" where
  "getPixelGetFunction format =
     map_of [(PIXELFORMAT_R8_UNORM, getPixelR8), (PIXELFORMAT_RG8_UNORM, getPixelRG8), (PIXELFORMAT_RGBA8_UNORM, getPixelRGBA8),
       (PIXELFORMAT_R16_UNORM, getPixelR16), (PIXELFORMAT_RG16_UNORM, getPixelRG16), (PIXELFORMAT_RGBA16_UNORM, getPixelRGBA16),
       (PIXELFORMAT_R16_FLOAT, getPixelR16F), (PIXELFORMAT_RG16_FLOAT, getPixelRG16F), (PIXELFORMAT_RGBA16_FLOAT, getPixelRGBA16F),
       (PIXELFORMAT_R32_FLOAT, getPixelR32F), (PIXELFORMAT_RG32_FLOAT, getPixelRG32F), (PIXELFORMAT_RGBA32_FLOAT, getPixelRGBA32F),
       (PIXELFORMAT_RGBA4_UNORM, getPixelRGBA4), (PIXELFORMAT_RGB5A1_UNORM, getPixelRGB5A1), (PIXELFORMAT_RGB565_UNORM, getPixelRGB565),
       (PIXELFORMAT_RGB10A2_UNORM, getPixelRGB10A2), (PIXELFORMAT_RG11B10_FLOAT, getPixelRG11B10F)] format"

section \<open>Images\<close>

record image =
  img_w :: int
  img_h :: int
  img_format :: pixel_format
  img_data :: "byte list"

definition validPixelFormat :: "pixel_format \<Rightarrow> bool" where
  "validPixelFormat format = (isPixelFormatColor format \<and> \<not> isPixelFormatCompressed format)"

text \<open>
  A new image. The memory is as large as the slice of the format (in 64 bits); what is cleared of it is
  \<^verbatim>\<open>getSize\<close>, whose product of width and height is a 32-bit \<^verbatim>\<open>int\<close> and may not overflow.
\<close>

definition getPixelSize :: "image \<Rightarrow> nat" where
  "getPixelSize img = unat (getPixelFormatBlockSize (img_format img))"

definition image_getSize :: "image \<Rightarrow> nat result" where
  "image_getSize img =
     bind_result (int_op (img_w img * img_h img)) (\<lambda>n.
       Inr (unat (to_size (word_of_int n) * getPixelFormatBlockSize (img_format img))))"

definition image_create :: "allocator \<Rightarrow> int \<Rightarrow> int \<Rightarrow> pixel_format \<Rightarrow> byte list \<Rightarrow> image result" where
  "image_create new_ok w h format content =
     (let datasize = unat (getPixelFormatSliceSize format (word_of_int w) (word_of_int h))
      in if \<not> new_ok datasize then Inl (Exception ''Out of memory'')
         else Inr \<lparr>img_w = w, img_h = h, img_format = format, img_data = take datasize content\<rparr>)"

definition unsupported :: "string \<Rightarrow> pixel_format \<Rightarrow> love_error" where
  "unsupported text format = Exception (text @ '' the '' @ getPixelFormatName format @ '' pixel format.'')"

definition newImageData :: "allocator \<Rightarrow> int \<Rightarrow> int \<Rightarrow> pixel_format \<Rightarrow> byte list \<Rightarrow> image result" where
  "newImageData new_ok w h format garbage =
     (if \<not> validPixelFormat format then Inl (unsupported ''ImageData does not support'' format)
      else
        bind_result (image_create new_ok w h format garbage) (\<lambda>img.
        bind_result (image_getSize img) (\<lambda>size.
          if size > length (img_data img) then Inl (Undefined_behaviour ''clearing past the end'')
          else Inr (img\<lparr>img_data := replicate size 0 @ drop size (img_data img)\<rparr>))))"

definition inside :: "int \<Rightarrow> int \<Rightarrow> image \<Rightarrow> bool" where
  "inside x y img \<longleftrightarrow> x \<ge> 0 \<and> x < img_w img \<and> y \<ge> 0 \<and> y < img_h img"

section \<open>Single pixels\<close>

text \<open>An access of \<open>n\<close> bytes at an address relative to the start of the memory.\<close>

definition read_at :: "byte list \<Rightarrow> int \<Rightarrow> nat \<Rightarrow> byte list result" where
  "read_at d p n =
     (if p < 0 \<or> p + int n > int (length d) then Inl (Undefined_behaviour ''read outside an image'')
      else Inr (take n (drop (nat p) d)))"

definition write_at :: "byte list \<Rightarrow> int \<Rightarrow> byte list \<Rightarrow> byte list result" where
  "write_at d p bs =
     (if p < 0 \<or> p + int (length bs) > int (length d) then Inl (Undefined_behaviour ''write outside an image'')
      else Inr (take (nat p) d @ bs @ drop (nat p + length bs) d))"

text \<open>\<^verbatim>\<open>y * width + x\<close>, in \<^verbatim>\<open>int\<close>.\<close>

definition pixel_index :: "int \<Rightarrow> int \<Rightarrow> int \<Rightarrow> int result" where
  "pixel_index x y w = bind_result (int_op (y * w)) (\<lambda>row. int_op (row + x))"

definition setPixel :: "(fvalue \<Rightarrow> uint32) \<Rightarrow> int \<Rightarrow> int \<Rightarrow> colour \<Rightarrow> image \<Rightarrow> image result" where
  "setPixel bits x y c img =
     (if \<not> inside x y img then Inl (Exception ''Attempt to set out-of-range pixel!'')
      else
        bind_result (pixel_index x y (img_w img)) (\<lambda>i.
          let p = i * int (getPixelSize img)
          in case getPixelSetFunction (img_format img) of
               None \<Rightarrow> Inl (unsupported ''ImageData:setPixel does not currently support'' (img_format img))
             | Some set_pixel \<Rightarrow>
                 bind_result (read_at (img_data img) p (getPixelSize img)) (\<lambda>old.
                 bind_result (set_pixel bits c old) (\<lambda>new.
                 bind_result (write_at (img_data img) p new) (\<lambda>d. Inr (img\<lparr>img_data := d\<rparr>))))))"

definition getPixel :: "int \<Rightarrow> int \<Rightarrow> image \<Rightarrow> colour result" where
  "getPixel x y img =
     (if \<not> inside x y img then Inl (Exception ''Attempt to get out-of-range pixel!'')
      else
        bind_result (pixel_index x y (img_w img)) (\<lambda>i.
          case getPixelGetFunction (img_format img) of
            None \<Rightarrow> Inl (unsupported ''ImageData:getPixel does not currently support'' (img_format img))
          | Some get_pixel \<Rightarrow>
              bind_result (read_at (img_data img) (i * int (getPixelSize img)) (getPixelSize img)) (\<lambda>p. Inr (get_pixel p))))"

section \<open>Rows of a paste\<close>

text \<open>
  The twelve conversions between the four formats of four channels: the bytes of one channel
  in the source, and what it becomes.
\<close>

definition channel_size :: "pixel_format \<Rightarrow> nat" where
  "channel_size format =
     (if format = PIXELFORMAT_RGBA8_UNORM then 1
      else if format = PIXELFORMAT_RGBA16_UNORM \<or> format = PIXELFORMAT_RGBA16_FLOAT then 2
      else 4)"

definition channel_value :: "pixel_format \<Rightarrow> byte list \<Rightarrow> fvalue" where
  "channel_value format e =
     (if format = PIXELFORMAT_RGBA8_UNORM then unorm 255 (unat (e ! 0))
      else if format = PIXELFORMAT_RGBA16_UNORM then unorm 65535 (unat (word16 e))
      else if format = PIXELFORMAT_RGBA16_FLOAT then float_value (float16to32 (word16 e))
      else float_value (word32 e))"

definition fast_formats :: "pixel_format list" where
  "fast_formats = [PIXELFORMAT_RGBA8_UNORM, PIXELFORMAT_RGBA16_UNORM, PIXELFORMAT_RGBA16_FLOAT, PIXELFORMAT_RGBA32_FLOAT]"

definition channel_paste :: "(fvalue \<Rightarrow> uint32) \<Rightarrow> pixel_format \<Rightarrow> pixel_format \<Rightarrow> byte list \<Rightarrow> byte list result" where
  "channel_paste bits src dst e =
     (if src = PIXELFORMAT_RGBA8_UNORM \<and> dst = PIXELFORMAT_RGBA16_UNORM then Inr (bytes16 (push_bit 8 (ucast (e ! 0))))
      else if src = PIXELFORMAT_RGBA16_UNORM \<and> dst = PIXELFORMAT_RGBA8_UNORM then Inr [ucast (drop_bit 8 (word16 e))]
      else if src = PIXELFORMAT_RGBA16_FLOAT \<and> dst = PIXELFORMAT_RGBA32_FLOAT then Inr (bytes32 (float16to32 (word16 e)))
      else if src = PIXELFORMAT_RGBA32_FLOAT \<and> dst = PIXELFORMAT_RGBA16_FLOAT then Inr (bytes16 (float32to16 (word32 e)))
      else if dst = PIXELFORMAT_RGBA8_UNORM
           then bind_result (quantize 255 (channel_value src e)) (\<lambda>k. Inr [of_nat k])
      else if dst = PIXELFORMAT_RGBA16_UNORM
           then bind_result (quantize 65535 (channel_value src e)) (\<lambda>k. Inr (bytes16 (of_nat k)))
      else if dst = PIXELFORMAT_RGBA16_FLOAT then Inr (bytes16 (float32to16 (bits (channel_value src e))))
      else Inr (bytes32 (bits (channel_value src e))))"

fun paste_channels :: "(fvalue \<Rightarrow> uint32) \<Rightarrow> pixel_format \<Rightarrow> pixel_format \<Rightarrow> nat \<Rightarrow> byte list \<Rightarrow> byte list result" where
  "paste_channels bits src dst 0 row = Inr []"
| "paste_channels bits src dst (Suc n) row =
     bind_result (channel_paste bits src dst (take (channel_size src) row)) (\<lambda>e.
     bind_result (paste_channels bits src dst n (drop (channel_size src) row)) (\<lambda>es. Inr (e @ es)))"

text \<open>The slow way: over a colour.\<close>

fun paste_pixels ::
  "(fvalue \<Rightarrow> uint32) \<Rightarrow> getter \<Rightarrow> setter \<Rightarrow> nat \<Rightarrow> nat \<Rightarrow> nat \<Rightarrow> byte list \<Rightarrow> byte list \<Rightarrow> byte list result" where
  "paste_pixels bits get_pixel set_pixel ssize dsize 0 srow drow = Inr []"
| "paste_pixels bits get_pixel set_pixel ssize dsize (Suc n) srow drow =
     bind_result (set_pixel bits (get_pixel (take ssize srow)) (take dsize drow)) (\<lambda>p.
     bind_result (paste_pixels bits get_pixel set_pixel ssize dsize n (drop ssize srow) (drop dsize drow)) (\<lambda>ps. Inr (p @ ps)))"

definition paste_row ::
  "(fvalue \<Rightarrow> uint32) \<Rightarrow> pixel_format \<Rightarrow> pixel_format \<Rightarrow> nat \<Rightarrow> nat \<Rightarrow> nat \<Rightarrow> byte list \<Rightarrow> byte list \<Rightarrow> byte list result" where
  "paste_row bits src dst ssize dsize w srow drow =
     (if src = dst then Inr srow
      else if src \<in> set fast_formats \<and> dst \<in> set fast_formats then paste_channels bits src dst (w * 4) srow
      else case (getPixelGetFunction src, getPixelSetFunction dst) of
             (Some get_pixel, Some set_pixel) \<Rightarrow> paste_pixels bits get_pixel set_pixel ssize dsize w srow drow
           | (None, _) \<Rightarrow> Inl (unsupported ''ImageData:paste does not currently support converting from'' src)
           | (_, None) \<Rightarrow> Inl (unsupported ''ImageData:paste does not currently support converting to'' dst))"

section \<open>Paste\<close>

text \<open>
  The two axes go through the same steps, one between the other: \<open>d\<close> and \<open>s\<close> are the places in the
  destination and the source, \<open>n\<close> the extent, \<open>dstN\<close> and \<open>srcN\<close> those of the images.
\<close>

definition outside_axis :: "int \<Rightarrow> int \<Rightarrow> int \<Rightarrow> bool result" where
  "outside_axis p n extent =
     (if p \<ge> extent then Inr True else bind_result (int_op (p + n)) (\<lambda>e. Inr (e < 0)))"

definition or_result :: "bool result \<Rightarrow> bool result \<Rightarrow> bool result" where
  "or_result a b = bind_result a (\<lambda>x. if x then Inr True else b)"

definition normalize_axis :: "int \<Rightarrow> int \<Rightarrow> int \<Rightarrow> (int \<times> int \<times> int) result" where
  "normalize_axis d s n =
     (if d < 0 then bind_result (int_op (n + d)) (\<lambda>n. bind_result (int_op (s - d)) (\<lambda>s. Inr (0, s, n)))
      else Inr (d, s, n))"

definition clamp_axis :: "int \<Rightarrow> int \<Rightarrow> int \<Rightarrow> int result" where
  "clamp_axis p n extent =
     bind_result (int_op (p + n)) (\<lambda>e. if e > extent then int_op (extent - p) else Inr n)"

definition clip_axis :: "int \<Rightarrow> int \<Rightarrow> int \<Rightarrow> int \<Rightarrow> int \<Rightarrow> (int \<times> int \<times> int) result" where
  "clip_axis d s n dstN srcN =
     bind_result (normalize_axis d s n) (\<lambda>(d, s, n).
     bind_result (normalize_axis s d n) (\<lambda>(s, d, n).
     bind_result (clamp_axis d n dstN) (\<lambda>n.
     bind_result (clamp_axis s n srcN) (\<lambda>n. Inr (d, s, n)))))"

fun paste_rows ::
  "(fvalue \<Rightarrow> uint32) \<Rightarrow> image \<Rightarrow> pixel_format \<Rightarrow> int \<Rightarrow> int \<Rightarrow> int \<Rightarrow> int \<Rightarrow> int \<Rightarrow> int \<Rightarrow> int list \<Rightarrow> byte list \<Rightarrow> byte list result" where
  "paste_rows bits src fmt dstW dx dy sx sy sw [] d = Inr d"
| "paste_rows bits src fmt dstW dx dy sx sy sw (i # rows) d =
     (let spx = getPixelSize src; dpx = unat (getPixelFormatBlockSize fmt)
      in bind_result (pixel_index sx (i + sy) (img_w src)) (\<lambda>si.
         bind_result (pixel_index dx (i + dy) dstW) (\<lambda>di.
         bind_result (read_at (img_data src) (si * int spx) (spx * nat sw)) (\<lambda>srow.
         bind_result (read_at d (di * int dpx) (dpx * nat sw)) (\<lambda>drow.
         bind_result (paste_row bits (img_format src) fmt spx dpx (nat sw) srow drow) (\<lambda>row.
         bind_result (write_at d (di * int dpx) row) (\<lambda>d.
           paste_rows bits src fmt dstW dx dy sx sy sw rows d)))))))"

definition paste ::
  "(fvalue \<Rightarrow> uint32) \<Rightarrow> image \<Rightarrow> int \<Rightarrow> int \<Rightarrow> int \<Rightarrow> int \<Rightarrow> int \<Rightarrow> int \<Rightarrow> image \<Rightarrow> image result" where
  "paste bits src dx dy sx sy sw sh img =
     (let srcW = img_w src; srcH = img_h src; dstW = img_w img; dstH = img_h img
      in bind_result
           (or_result (outside_axis sx sw srcW) (or_result (outside_axis sy sh srcH)
             (or_result (outside_axis dx sw dstW) (outside_axis dy sh dstH))))
           (\<lambda>out.
             if out then Inr img
             else
               bind_result (clip_axis dx sx sw dstW srcW) (\<lambda>(dx, sx, sw).
               bind_result (clip_axis dy sy sh dstH srcH) (\<lambda>(dy, sy, sh).
                 if img_format src = img_format img \<and> sw = dstW \<and> dstW = srcW \<and> sh = dstH \<and> dstH = srcH
                 then
                   let n = getPixelSize src * nat sw * nat sh
                   in bind_result (read_at (img_data src) 0 n) (\<lambda>bs.
                      bind_result (write_at (img_data img) 0 bs) (\<lambda>d. Inr (img\<lparr>img_data := d\<rparr>)))
                 else if sw > 0
                 then
                   bind_result (paste_rows bits src (img_format img) dstW dx dy sx sy sw (map int [0..<nat sh]) (img_data img))
                     (\<lambda>d. Inr (img\<lparr>img_data := d\<rparr>))
                 else Inr img))))"

section \<open>Words and their bytes\<close>

lemma bytes32_word32: "bytes32 (word32 [a, b, c, d]) = [a, b, c, d]"
proof -
  have bits: "bit (word32 [a, b, c, d]) n \<longleftrightarrow>
      n < 32 \<and> (bit a n \<or> 8 \<le> n \<and> bit b (n - 8) \<or> 16 \<le> n \<and> bit c (n - 16) \<or> 24 \<le> n \<and> bit d (n - 24))" for n
    by (auto simp: word32_def bit_simps dest: bit_imp_le_length)
  have "ucast (word32 [a, b, c, d]) = a"
    by (rule bit_word_eqI) (auto simp: bits bit_ucast_iff)
  moreover have "ucast (drop_bit 8 (word32 [a, b, c, d])) = b"
    by (rule bit_word_eqI) (auto simp: bits bit_ucast_iff bit_drop_bit_eq)
  moreover have "ucast (drop_bit 16 (word32 [a, b, c, d])) = c"
    by (rule bit_word_eqI) (auto simp: bits bit_ucast_iff bit_drop_bit_eq)
  moreover have "ucast (drop_bit 24 (word32 [a, b, c, d])) = d"
    by (rule bit_word_eqI) (auto simp: bits bit_ucast_iff bit_drop_bit_eq)
  ultimately show ?thesis
    by (simp add: bytes32_def)
qed

lemma quantize_unorm: "0 < n \<Longrightarrow> k \<le> n \<Longrightarrow> quantize n (unorm n k) = Inr k"
proof -
  assume n: "0 < n" "k \<le> n"
  then have "max (real k / n) 0 = real k / n" "min (real k / n) 1 = real k / n"
    by (simp_all add: divide_le_eq)
  moreover have "real k / n * n + 1 / 2 = real k + 1 / 2"
    using n by simp
  moreover have "\<lfloor>real k + 1 / 2\<rfloor> = int k"
    by (simp add: floor_unique)
  ultimately show ?thesis
    by (simp add: quantize_def unorm_def)
qed

lemma quantize_unorm_word:
  fixes w :: "'a::len word"
  shows "quantize 255 (unorm 255 (unat (b :: byte))) = Inr (unat b)"
    "quantize 65535 (unorm 65535 (unat (h :: uint16))) = Inr (unat h)"
    "m \<noteq> 0 \<Longrightarrow> quantize (unat m) (packed_channel w s m) = Inr (unat (drop_bit s w AND m))"
proof -
  have "unat b < 2 ^ LENGTH(8)" "unat h < 2 ^ LENGTH(16)"
    by (rule unsigned_less)+
  then have "unat b \<le> 255" "unat h \<le> 65535"
    by simp_all
  then show "quantize 255 (unorm 255 (unat b)) = Inr (unat b)" "quantize 65535 (unorm 65535 (unat h)) = Inr (unat h)"
    by (simp_all add: quantize_unorm)
  show "quantize (unat m) (packed_channel w s m) = Inr (unat (drop_bit s w AND m))" if "m \<noteq> 0"
    using that word_and_le1 [of "drop_bit s w" m] unfolding packed_channel_def
    by (intro quantize_unorm) (simp_all add: word_le_nat_alt unat_gt_0)
qed

lemma masks:
  "(0x1 :: 'a::len word) = mask 1" "(0x3 :: 'a word) = mask 2" "(0xF :: 'a word) = mask 4" "(0x1F :: 'a word) = mask 5"
  "(0x3F :: 'a word) = mask 6" "(0x3FF :: 'a word) = mask 10"
  by (simp_all add: mask_eq_exp_minus_1)

lemma bit_field: "bit (push_bit s (drop_bit s w AND mask m)) n \<longleftrightarrow> s \<le> n \<and> n < s + m \<and> bit (w :: 'a::len word) n"
  by (auto simp: bit_push_bit_iff bit_and_iff bit_drop_bit_eq bit_mask_iff dest: bit_imp_le_length)

lemma packed_fields:
  fixes w :: uint16 and v :: uint32
  shows "push_bit 12 (drop_bit 12 w AND 0xF) OR push_bit 8 (drop_bit 8 w AND 0xF) OR push_bit 4 (drop_bit 4 w AND 0xF) OR
      push_bit 0 (drop_bit 0 w AND 0xF) = w"
    and "push_bit 11 (drop_bit 11 w AND 0x1F) OR push_bit 6 (drop_bit 6 w AND 0x1F) OR push_bit 1 (drop_bit 1 w AND 0x1F) OR
      push_bit 0 (drop_bit 0 w AND 0x1) = w"
    and "push_bit 11 (drop_bit 11 w AND 0x1F) OR push_bit 5 (drop_bit 5 w AND 0x3F) OR push_bit 0 (drop_bit 0 w AND 0x1F) = w"
    and "push_bit 0 (drop_bit 0 v AND 0x3FF) OR push_bit 10 (drop_bit 10 v AND 0x3FF) OR push_bit 20 (drop_bit 20 v AND 0x3FF) OR
      push_bit 30 (drop_bit 30 v AND 0x3) = v"
proof -
  have high: "n < 16" if "bit w n" for n
    using bit_imp_le_length [OF that] by simp
  have high': "n < 32" if "bit v n" for n
    using bit_imp_le_length [OF that] by simp
  show "push_bit 12 (drop_bit 12 w AND 0xF) OR push_bit 8 (drop_bit 8 w AND 0xF) OR push_bit 4 (drop_bit 4 w AND 0xF) OR
      push_bit 0 (drop_bit 0 w AND 0xF) = w"
    unfolding masks by (rule bit_word_eqI) (simp only: bit_or_iff bit_field, use high in fastforce)
  show "push_bit 11 (drop_bit 11 w AND 0x1F) OR push_bit 6 (drop_bit 6 w AND 0x1F) OR push_bit 1 (drop_bit 1 w AND 0x1F) OR
      push_bit 0 (drop_bit 0 w AND 0x1) = w"
    unfolding masks by (rule bit_word_eqI) (simp only: bit_or_iff bit_field, use high in fastforce)
  show "push_bit 11 (drop_bit 11 w AND 0x1F) OR push_bit 5 (drop_bit 5 w AND 0x3F) OR push_bit 0 (drop_bit 0 w AND 0x1F) = w"
    unfolding masks by (rule bit_word_eqI) (simp only: bit_or_iff bit_field, use high in fastforce)
  show "push_bit 0 (drop_bit 0 v AND 0x3FF) OR push_bit 10 (drop_bit 10 v AND 0x3FF) OR push_bit 20 (drop_bit 20 v AND 0x3FF) OR
      push_bit 30 (drop_bit 30 v AND 0x3) = v"
    unfolding masks by (rule bit_word_eqI) (simp only: bit_or_iff bit_field, use high' in fastforce)
qed

section \<open>Writing what was read\<close>

definition unorm_formats :: "pixel_format list" where
  "unorm_formats =
     [PIXELFORMAT_R8_UNORM, PIXELFORMAT_RG8_UNORM, PIXELFORMAT_RGBA8_UNORM, PIXELFORMAT_R16_UNORM, PIXELFORMAT_RG16_UNORM,
      PIXELFORMAT_RGBA16_UNORM, PIXELFORMAT_RGBA4_UNORM, PIXELFORMAT_RGB5A1_UNORM, PIXELFORMAT_RGB565_UNORM,
      PIXELFORMAT_RGB10A2_UNORM]"

lemma unorm_sizes: "map (\<lambda>f. blockSize (formatInfo ! f)) unorm_formats = [1, 2, 4, 2, 4, 8, 2, 2, 2, 4]"
  by code_simp

text \<open>The two middle channels of a pixel of 16-bit channels exchanged.\<close>

definition middle_swapped :: "byte list \<Rightarrow> byte list" where
  "middle_swapped p = [p ! 0, p ! 1, p ! 4, p ! 5, p ! 2, p ! 3, p ! 6, p ! 7]"

lemma half_at_simps [simp]:
  "half_at 0 (a # b # p) = word16 [a, b]" "half_at (Suc 0) (a # b # c # d # p) = word16 [c, d]"
  "half_at 2 (a # b # c # d # e # f # p) = word16 [e, f]" "half_at 3 (a # b # c # d # e # f # g # h # p) = word16 [g, h]"
  by (simp_all add: half_at_def word16_def)

lemma rgba_sel [simp]:
  "col_r (rgba r g b a) = r" "col_g (rgba r g b a) = g" "col_b (rgba r g b a) = b" "col_a (rgba r g b a) = a"
  by (simp_all add: rgba_def)

lemmas set_get_defs =
  set_unorm8_def set_unorm16_def setPixelR8_def setPixelRG8_def setPixelRGBA8_def setPixelR16_def setPixelRG16_def setPixelRGBA16_def
  getPixelR8_def getPixelRG8_def getPixelRGBA8_def getPixelR16_def getPixelRG16_def getPixelRGBA16_def

lemma length_cases:
  "length p = Suc 0 \<Longrightarrow> \<exists>a. p = [a]" "length p = 2 \<Longrightarrow> \<exists>a b. p = [a, b]" "length p = 4 \<Longrightarrow> \<exists>a b c d. p = [a, b, c, d]"
  "length p = 8 \<Longrightarrow> \<exists>a b c d e f g h. p = [a, b, c, d, e, f, g, h]"
  by (auto simp: length_Suc_conv numeral_eq_Suc)

lemma set_get_bytes:
  "length p = Suc 0 \<Longrightarrow> setPixelR8 bits (getPixelR8 p) p = Inr p"
  "length p = 2 \<Longrightarrow> setPixelRG8 bits (getPixelRG8 p) p = Inr p"
  "length p = 4 \<Longrightarrow> setPixelRGBA8 bits (getPixelRGBA8 p) p = Inr p"
  "length p = 2 \<Longrightarrow> setPixelR16 bits (getPixelR16 p) p = Inr p"
  "length p = 4 \<Longrightarrow> setPixelRG16 bits (getPixelRG16 p) p = Inr p"
  "length p = 8 \<Longrightarrow> setPixelRGBA16 bits (getPixelRGBA16 p) p = Inr (middle_swapped p)"
  by (auto dest!: length_cases simp: set_get_defs quantize_unorm_word bytes16_word16 middle_swapped_def)

lemma quantize_packed:
  "quantize 15 (packed_channel w s 0xF) = Inr (unat (drop_bit s w AND 0xF))"
  "quantize 31 (packed_channel w s 0x1F) = Inr (unat (drop_bit s w AND 0x1F))"
  "quantize 63 (packed_channel w s 0x3F) = Inr (unat (drop_bit s w AND 0x3F))"
  "quantize (Suc 0) (packed_channel w s 0x1) = Inr (unat (drop_bit s w AND 0x1))"
  "quantize 1023 (packed_channel v s 0x3FF) = Inr (unat (drop_bit s v AND 0x3FF))"
  "quantize 3 (packed_channel v s 0x3) = Inr (unat (drop_bit s v AND 0x3))"
  for w :: uint16 and v :: uint32
  using quantize_unorm_word(3) [of "0xF :: uint16" w s] quantize_unorm_word(3) [of "0x1F :: uint16" w s]
    quantize_unorm_word(3) [of "0x3F :: uint16" w s] quantize_unorm_word(3) [of "0x1 :: uint16" w s]
    quantize_unorm_word(3) [of "0x3FF :: uint32" v s] quantize_unorm_word(3) [of "0x3 :: uint32" v s]
  by simp_all

lemma nth_drop_few:
  "[x, y, z, u] ! 1 = y" "[x, y, z, u] ! 2 = z" "[x, y, z, u] ! 3 = u" "[x, y, z] ! 1 = y" "[x, y, z] ! 2 = z"
  "drop 2 [a, b] = []" "drop 4 [a, b, c, d] = []"
  by simp_all

lemma quantize_fields:
  fixes w :: uint16 and v :: uint32
  shows "quantize_all [(0xF, packed_channel w 12 0xF), (0xF, packed_channel w 8 0xF), (0xF, packed_channel w 4 0xF),
      (0xF, packed_channel w 0 0xF)] =
      Inr [unat (drop_bit 12 w AND 0xF), unat (drop_bit 8 w AND 0xF), unat (drop_bit 4 w AND 0xF), unat (drop_bit 0 w AND 0xF)]"
    and "quantize_all [(0x1F, packed_channel w 11 0x1F), (0x1F, packed_channel w 6 0x1F), (0x1F, packed_channel w 1 0x1F),
      (0x1, packed_channel w 0 0x1)] =
      Inr [unat (drop_bit 11 w AND 0x1F), unat (drop_bit 6 w AND 0x1F), unat (drop_bit 1 w AND 0x1F), unat (drop_bit 0 w AND 0x1)]"
    and "quantize_all [(0x1F, packed_channel w 11 0x1F), (0x3F, packed_channel w 5 0x3F), (0x1F, packed_channel w 0 0x1F)] =
      Inr [unat (drop_bit 11 w AND 0x1F), unat (drop_bit 5 w AND 0x3F), unat (drop_bit 0 w AND 0x1F)]"
    and "quantize_all [(0x3FF, packed_channel v 0 0x3FF), (0x3FF, packed_channel v 10 0x3FF), (0x3FF, packed_channel v 20 0x3FF),
      (0x3, packed_channel v 30 0x3)] =
      Inr [unat (drop_bit 0 v AND 0x3FF), unat (drop_bit 10 v AND 0x3FF), unat (drop_bit 20 v AND 0x3FF), unat (drop_bit 30 v AND 0x3)]"
  by (simp_all add: quantize_packed)

lemmas set_packed_defs =
  setPixelRGBA4_def setPixelRGB5A1_def setPixelRGB565_def setPixelRGB10A2_def
  getPixelRGBA4_def getPixelRGB5A1_def getPixelRGB565_def getPixelRGB10A2_def

lemma set_get_packed:
  "length p = 2 \<Longrightarrow> setPixelRGBA4 bits (getPixelRGBA4 p) p = Inr p"
  "length p = 2 \<Longrightarrow> setPixelRGB5A1 bits (getPixelRGB5A1 p) p = Inr p"
  "length p = 2 \<Longrightarrow> setPixelRGB565 bits (getPixelRGB565 p) p = Inr p"
  "length p = 4 \<Longrightarrow> setPixelRGB10A2 bits (getPixelRGB10A2 p) p = Inr p"
  by (auto dest!: length_cases simp only: set_packed_defs Let_def rgba_sel quantize_fields bind_result_simps
      nth_Cons_0 nth_drop_few of_nat_unat ucast_id packed_fields bytes16_word16 bytes32_word32 append_Nil2)

section \<open>Pixels in an image\<close>

text \<open>An image as the constructors leave it; its number of pixels is an \<^verbatim>\<open>int\<close>.\<close>

definition image_ok :: "image \<Rightarrow> bool" where
  "image_ok img \<longleftrightarrow> 0 \<le> img_w img \<and> 0 \<le> img_h img \<and> img_w img * img_h img < 2 ^ 31 \<and>
     img_format img < PIXELFORMAT_MAX_ENUM \<and> \<not> isPixelFormatCompressed (img_format img) \<and>
     length (img_data img) = getPixelSize img * nat (img_w img * img_h img)"

lemma pixel_in_rows:
  fixes x :: int
  assumes "0 \<le> x" "x < w" "0 \<le> y" "y < h"
  shows "0 \<le> y * w + x" "y * w + x < w * h" "0 \<le> y * w" "y * w \<le> w * h"
proof -
  have "(y + 1) * w \<le> h * w"
    using assms by (intro mult_right_mono) simp_all
  then show "y * w + x < w * h" "y * w \<le> w * h"
    using assms by (simp_all add: algebra_simps)
  show "0 \<le> y * w + x" "0 \<le> y * w"
    using assms by simp_all
qed

lemma in_int_nonneg: "0 \<le> i \<Longrightarrow> i < 2 ^ 31 \<Longrightarrow> in_int i"
  by (simp add: in_int_def)

lemma pixel_index_inside:
  assumes "inside x y img" "image_ok img"
  shows "pixel_index x y (img_w img) = Inr (y * img_w img + x)"
    "0 \<le> y * img_w img + x" "y * img_w img + x < img_w img * img_h img"
proof -
  note rows = pixel_in_rows [of x "img_w img" y "img_h img"]
  show "0 \<le> y * img_w img + x" "y * img_w img + x < img_w img * img_h img"
    using rows assms(1) by (simp_all add: inside_def)
  moreover have "0 \<le> y * img_w img" "y * img_w img \<le> img_w img * img_h img" "img_w img * img_h img < 2 ^ 31"
    using rows assms by (simp_all add: inside_def image_ok_def)
  ultimately have "in_int (y * img_w img)" "in_int (y * img_w img + x)"
    by (auto intro!: in_int_nonneg)
  then show "pixel_index x y (img_w img) = Inr (y * img_w img + x)"
    by (simp add: pixel_index_def int_op_def)
qed

lemma access_pixel:
  assumes "0 \<le> i" "i < n" "length d = px * nat n"
  shows "0 \<le> i * int px" "i * int px + int px \<le> int (length d)" "nat (i * int px) = nat i * px"
proof -
  have "(i + 1) * int px \<le> n * int px"
    using assms(2) by (intro mult_right_mono) simp_all
  then show "i * int px + int px \<le> int (length d)"
    using assms by (simp add: algebra_simps)
  show "0 \<le> i * int px" "nat (i * int px) = nat i * px"
    using assms(1) by (simp_all add: nat_mult_distrib)
qed

lemma read_write:
  assumes "0 \<le> p" "p + int n \<le> int (length d)"
  shows "read_at d p n = Inr (take n (drop (nat p) d))" "length (take n (drop (nat p) d)) = n"
    "write_at d p (take n (drop (nat p) d)) = Inr d"
    "length bs = n \<Longrightarrow> write_at d p bs = Inr (take (nat p) d @ bs @ drop (nat p + n) d)"
    "length bs = n \<Longrightarrow> read_at (take (nat p) d @ bs @ drop (nat p + n) d) p n = Inr bs"
proof -
  have n: "nat p + n \<le> length d"
    using assms by linarith
  show "read_at d p n = Inr (take n (drop (nat p) d))"
    using assms by (simp add: read_at_def)
  show len: "length (take n (drop (nat p) d)) = n"
    using n by simp
  show "write_at d p bs = Inr (take (nat p) d @ bs @ drop (nat p + n) d)" if "length bs = n" for bs
    using assms that by (simp add: write_at_def)
  from this [OF len] show "write_at d p (take n (drop (nat p) d)) = Inr d"
    by (simp add: add.commute drop_drop [symmetric] del: drop_drop)
  show "read_at (take (nat p) d @ bs @ drop (nat p + n) d) p n = Inr bs" if "length bs = n" for bs
    using assms that n by (simp add: read_at_def)
qed

lemma swapped_colour:
  "length p = 8 \<Longrightarrow> getPixelRGBA16 (middle_swapped p) =
     rgba (col_r (getPixelRGBA16 p)) (col_b (getPixelRGBA16 p)) (col_g (getPixelRGBA16 p)) (col_a (getPixelRGBA16 p))"
  by (auto dest!: length_cases simp: getPixelRGBA16_def middle_swapped_def)

lemma set_get_functions:
  assumes "f \<in> set unorm_formats" "length p = blockSize (formatInfo ! f)"
  obtains g s where "getPixelGetFunction f = Some g" "getPixelSetFunction f = Some s"
    "s bits (g p) p = Inr (if f = PIXELFORMAT_RGBA16_UNORM then middle_swapped p else p)"
proof -
  show thesis
    using assms unorm_sizes set_get_bytes [of p bits] set_get_packed [of p bits] that
    by (auto simp: unorm_formats_def getPixelGetFunction_def getPixelSetFunction_def)
qed

lemma pixel_size_format: "image_ok img \<Longrightarrow> getPixelSize img = blockSize (formatInfo ! img_format img)"
proof -
  assume "image_ok img"
  then have "formatInfo ! img_format img \<in> set formatInfo"
    by (simp add: image_ok_def formatInfo_length)
  then have "blockSize (formatInfo ! img_format img) < 2 ^ LENGTH(64)"
    using block_bounds by (fastforce simp: list_all_iff)
  then show ?thesis
    by (simp add: getPixelSize_def getPixelFormatBlockSize_def unat_of_nat_small)
qed

text \<open>Claim C28. Writing to a pixel of a normalised-integer format the colour that was read from it leaves the
  image as it was, bit for bit; but of a pixel of four 16-bit channels it exchanges green and blue.\<close>

theorem set_get_pixel:
  assumes "image_ok img" "img_format img \<in> set unorm_formats" "getPixel x y img = Inr c"
  shows "if img_format img \<noteq> PIXELFORMAT_RGBA16_UNORM then setPixel bits x y c img = Inr img
    else \<exists>img'. setPixel bits x y c img = Inr img' \<and>
      getPixel x y img' = Inr (rgba (col_r c) (col_b c) (col_g c) (col_a c))"
proof -
  have ins: "inside x y img"
    using assms(3) by (auto simp: getPixel_def split: if_splits)
  define px where "px = getPixelSize img"
  define a where "a = (y * img_w img + x) * int px"
  note index = pixel_index_inside [OF ins assms(1)]
  have "length (img_data img) = px * nat (img_w img * img_h img)"
    using assms(1) by (simp add: image_ok_def px_def)
  note access = access_pixel [OF index(2,3) this, folded a_def]
  note mem = read_write [OF access(1,2)]
  define old where "old = take px (drop (nat a) (img_data img))"
  have "length old = blockSize (formatInfo ! img_format img)"
    using mem(2) pixel_size_format [OF assms(1)] by (simp add: old_def px_def)
  then obtain g s where gs: "getPixelGetFunction (img_format img) = Some g" "getPixelSetFunction (img_format img) = Some s"
    "s bits (g old) old = Inr (if img_format img = PIXELFORMAT_RGBA16_UNORM then middle_swapped old else old)"
    by (rule set_get_functions [OF assms(2)])
  have c: "c = g old"
    using assms(3) ins index(1) gs(1) mem(1) by (simp add: getPixel_def old_def px_def a_def)
  have set: "setPixel bits x y c img = bind_result (s bits (g old) old) (\<lambda>new.
      bind_result (write_at (img_data img) a new) (\<lambda>d. Inr (img\<lparr>img_data := d\<rparr>)))"
    using ins index(1) gs(2) mem(1) c by (simp add: setPixel_def old_def px_def a_def Let_def)
  show ?thesis
  proof (cases "img_format img = PIXELFORMAT_RGBA16_UNORM")
    case True
    then have eight: "px = 8" "length old = 8" "g = getPixelRGBA16"
      using unorm_sizes gs(1) \<open>length old = _\<close> pixel_size_format [OF assms(1)]
      by (simp_all add: unorm_formats_def getPixelGetFunction_def px_def)
    then have new: "length (middle_swapped old) = px"
      by (simp add: middle_swapped_def)
    define img' where "img' = img\<lparr>img_data := take (nat a) (img_data img) @ middle_swapped old @ drop (nat a + px) (img_data img)\<rparr>"
    have "setPixel bits x y c img = Inr img'"
      using set gs(3) True mem(4) [OF new] by (simp add: img'_def)
    moreover have "getPixel x y img' = Inr (getPixelRGBA16 (middle_swapped old))"
      using ins index(1) gs(1) eight(3) mem(5) [OF new]
      by (simp add: getPixel_def img'_def inside_def getPixelSize_def flip: px_def a_def)
        (simp add: px_def a_def getPixelSize_def)
    ultimately show ?thesis
      using True swapped_colour [OF eight(2)] c eight(3) by simp
  next
    case False
    then have "setPixel bits x y c img = Inr img"
      using set gs(3) mem(3) by (simp add: old_def)
    then show ?thesis
      using False by simp
  qed
qed

definition tiny :: image where
  "tiny = \<lparr>img_w = 1, img_h = 1, img_format = PIXELFORMAT_RGBA16_UNORM, img_data = [1, 0, 2, 0, 3, 0, 4, 0]\<rparr>"

lemma tiny_format: "getPixelSize tiny = 8" "\<not> isPixelFormatCompressed PIXELFORMAT_RGBA16_UNORM"
proof -
  show "\<not> isPixelFormatCompressed PIXELFORMAT_RGBA16_UNORM"
    by code_simp
  have "blockSize (formatInfo ! PIXELFORMAT_RGBA16_UNORM) = 8"
    using unorm_sizes by (simp add: unorm_formats_def)
  then show "getPixelSize tiny = 8"
    by (simp add: getPixelSize_def getPixelFormatBlockSize_def tiny_def)
qed

theorem set_get_pixel_witness:
  "\<exists>c img'. getPixel 0 0 tiny = Inr c \<and> setPixel (\<lambda>_. 0) 0 0 c tiny = Inr img' \<and>
     getPixel 0 0 img' = Inr (rgba (col_r c) (col_b c) (col_g c) (col_a c)) \<and> col_g c \<noteq> col_b c"
proof -
  have ok: "image_ok tiny"
    using tiny_format by (simp add: image_ok_def) (simp add: tiny_def)
  have format: "img_format tiny \<in> set unorm_formats" "img_format tiny = PIXELFORMAT_RGBA16_UNORM"
    by (simp_all add: tiny_def unorm_formats_def)
  define c where "c = getPixelRGBA16 [1, 0, 2, 0, 3, 0, 4, 0]"
  have get: "getPixel 0 0 tiny = Inr c"
    using tiny_format(1) by (simp add: getPixel_def c_def)
      (simp add: tiny_def inside_def pixel_index_def int_op_def in_int_def read_at_def getPixelGetFunction_def)
  have "word16 [2, 0] = 2" "word16 [3, 0] = 3"
    by (simp_all add: word16_def)
  then have "col_g c \<noteq> col_b c"
    by (simp add: c_def getPixelRGBA16_def unorm_def)
  then show ?thesis
    using set_get_pixel [OF ok format(1) get, of "\<lambda>_. 0"] format(2) get by auto
qed

section \<open>What a paste covers\<close>

definition small :: "int \<Rightarrow> bool" where
  "small i \<longleftrightarrow> - (2 ^ 28) < i \<and> i < 2 ^ 28"

text \<open>The clipped axis holds exactly the places of the uncut one that exist in both images.\<close>

lemma clip_axis_small:
  assumes "small d" "small s" "small n" "0 \<le> D" "small D" "0 \<le> S" "small S"
  obtains d' s' n' where "clip_axis d s n D S = Inr (d', s', n')" "0 \<le> d'" "0 \<le> s'" "d' - s' = d - s"
    "d' + n' \<le> D" "s' + n' \<le> S" "\<And>k. d' \<le> k \<and> k < d' + n' \<longleftrightarrow> d \<le> k \<and> k < d + n \<and> 0 \<le> k \<and> k < D \<and> 0 \<le> k - d + s \<and> k - d + s < S"
proof -
  define d1 s1 n1 where "d1 = max d 0" and "s1 = s + (d1 - d)" and "n1 = n - (d1 - d)"
  have first: "normalize_axis d s n = Inr (d1, s1, n1)"
    using assms by (auto simp: normalize_axis_def d1_def s1_def n1_def small_def in_int_def)
  define s2 d2 n2 where "s2 = max s1 0" and "d2 = d1 + (s2 - s1)" and "n2 = n1 - (s2 - s1)"
  have second: "normalize_axis s1 d1 n1 = Inr (s2, d2, n2)"
    using assms by (auto simp: normalize_axis_def d1_def s1_def n1_def d2_def s2_def n2_def small_def in_int_def)
  have bounds: "0 \<le> d2" "d2 < 2 ^ 30" "0 \<le> s2" "s2 < 2 ^ 30" "- (2 ^ 30) < n2" "n2 < 2 ^ 28" "D < 2 ^ 28" "S < 2 ^ 28"
    using assms by (auto simp: d1_def s1_def n1_def d2_def s2_def n2_def small_def)
  define n3 where "n3 = min n2 (D - d2)"
  have third: "clamp_axis d2 n2 D = Inr n3"
    using bounds assms(4,6) by (simp add: clamp_axis_def int_op_def in_int_def n3_def)
  define n4 where "n4 = min n3 (S - s2)"
  have "- (2 ^ 30) < n3" "n3 < 2 ^ 28"
    using bounds assms(4) by (simp_all add: n3_def)
  then have "clamp_axis s2 n3 S = Inr n4"
    using bounds assms(6) by (simp add: clamp_axis_def int_op_def in_int_def n4_def)
  then have clip: "clip_axis d s n D S = Inr (d2, s2, n4)"
    using first second third by (simp add: clip_axis_def)
  have low: "d \<le> d1" "0 \<le> d1" "s1 \<le> s2" "0 \<le> s2"
    and ends: "n4 \<le> n2" "n4 \<le> D - d2" "n4 \<le> S - s2"
    and start: "d1 = d \<or> d1 = 0" "s2 = s1 \<or> s2 = 0"
    and reach: "n4 = n2 \<or> n4 = D - d2 \<or> n4 = S - s2"
    by (simp_all add: d1_def s2_def n4_def n3_def min_def max_def)
  have moved: "d2 - s2 = d - s" "d2 + n2 = d + n" "d2 = d1 + (s2 - s1)" "s1 - d1 = s - d"
    by (simp_all add: d2_def s1_def n2_def n1_def)
  have places: "d2 \<le> k \<and> k < d2 + n4 \<longleftrightarrow> d \<le> k \<and> k < d + n \<and> 0 \<le> k \<and> k < D \<and> 0 \<le> k - d + s \<and> k - d + s < S" for k
  proof
    assume "d2 \<le> k \<and> k < d2 + n4"
    then show "d \<le> k \<and> k < d + n \<and> 0 \<le> k \<and> k < D \<and> 0 \<le> k - d + s \<and> k - d + s < S"
      using low ends moved by linarith
  next
    assume k: "d \<le> k \<and> k < d + n \<and> 0 \<le> k \<and> k < D \<and> 0 \<le> k - d + s \<and> k - d + s < S"
    then have "d2 \<le> k"
      using start moved by (elim disjE) linarith+
    moreover have "k < d2 + n4"
      using k reach moved by (elim disjE) linarith+
    ultimately show "d2 \<le> k \<and> k < d2 + n4" ..
  qed
  show thesis
    by (rule that [OF clip _ _ _ _ _ places]) (use low ends moved in linarith)+
qed

section \<open>Pixels as slices of the memory\<close>

definition pixel_slice :: "nat \<Rightarrow> byte list \<Rightarrow> nat \<Rightarrow> byte list" where
  "pixel_slice px d j = take px (drop (px * j) d)"

lemma slice_of_row: "k < n \<Longrightarrow> pixel_slice px (take (px * n) (drop (px * s) d)) k = pixel_slice px d (s + k)"
proof -
  assume "k < n"
  then have "px * k + px \<le> px * n"
    by (metis Suc_leI mult_Suc_right add.commute mult_le_mono2)
  then show ?thesis
    by (simp add: pixel_slice_def drop_take add_mult_distrib2 add.commute min_def)
qed

lemma slice_of_write:
  assumes "length row = px * n" "px * (di + n) \<le> length d" "px * (j + 1) \<le> length d"
  shows "pixel_slice px (take (px * di) d @ row @ drop (px * di + px * n) d) j =
    (if di \<le> j \<and> j < di + n then pixel_slice px row (j - di) else pixel_slice px d j)"
proof -
  have di: "length (take (px * di) d) = px * di"
    using assms(2) by (simp add: add_mult_distrib2)
  consider "j < di" | "di \<le> j" "j < di + n" | "di + n \<le> j"
    by linarith
  then show ?thesis
  proof cases
    case 1
    then have "px * j + px \<le> px * di"
      by (metis Suc_leI mult_Suc_right add.commute mult_le_mono2)
    then have "px \<le> length (drop (px * j) (take (px * di) d))" "px * j \<le> length (take (px * di) d)" "px \<le> px * di - px * j"
      using 1 di by simp_all
    then have "pixel_slice px (take (px * di) d @ row @ drop (px * di + px * n) d) j = take px (drop (px * j) (take (px * di) d))"
      unfolding pixel_slice_def by simp
    also have "\<dots> = pixel_slice px d j"
      using \<open>px \<le> px * di - px * j\<close> by (simp add: pixel_slice_def drop_take)
    finally show ?thesis
      using 1 by simp
  next
    case 2
    define k where "k = j - di"
    have k: "j = di + k" "k < n"
      using 2 by (simp_all add: k_def)
    then have "px * k + px \<le> px * n"
      by (metis Suc_leI mult_Suc_right add.commute mult_le_mono2)
    then show ?thesis
      using k di assms(1) by (simp add: pixel_slice_def add_mult_distrib2)
  next
    case 3
    then have "px * (di + n) \<le> px * j"
      by simp
    then show ?thesis
      using 3 di assms(1) by (simp add: pixel_slice_def add_mult_distrib2)
  qed
qed

lemma length_write: "length row = px * n \<Longrightarrow> px * (di + n) \<le> length d \<Longrightarrow>
    length (take (px * di) d @ row @ drop (px * di + px * n) d) = length d"
  by (simp add: add_mult_distrib2)

section \<open>Rows\<close>

lemma pixel_index_small:
  assumes "0 \<le> x" "x < w" "0 \<le> y" "y < h" "w * h < 2 ^ 31"
  shows "pixel_index x y w = Inr (y * w + x)"
proof -
  note rows = pixel_in_rows [OF assms(1-4)]
  have "in_int (y * w)" "in_int (y * w + x)"
    using rows assms(5) by (auto intro!: in_int_nonneg)
  then show ?thesis
    by (simp add: pixel_index_def)
qed

text \<open>A run of \<open>n\<close> pixels of one row, in the memory.\<close>

lemma run_in_rows:
  fixes x :: int
  assumes "0 \<le> x" "0 \<le> n" "x + n \<le> w" "0 \<le> y" "y < h" "length d = px * nat (w * h)"
  shows "0 \<le> y * w + x" "px * (nat (y * w + x) + nat n) \<le> length d"
    "(y * w + x) * int px + int (px * nat n) \<le> int (length d)" "nat ((y * w + x) * int px) = px * nat (y * w + x)"
proof -
  have "(y + 1) * w \<le> h * w"
    using assms by (intro mult_right_mono) simp_all
  then have e: "y * w + x + n \<le> w * h"
    using assms by (simp add: algebra_simps)
  show pos: "0 \<le> y * w + x"
    using assms by simp
  then have "nat (y * w + x) + nat n \<le> nat (w * h)"
    using e assms(2) by simp
  then show fits: "px * (nat (y * w + x) + nat n) \<le> length d"
    unfolding assms(6) by (rule mult_le_mono2)
  have "int (px * (nat (y * w + x) + nat n)) = (y * w + x) * int px + int (px * nat n)"
    using pos assms(2) by (simp add: algebra_simps)
  then show "(y * w + x) * int px + int (px * nat n) \<le> int (length d)"
    using fits by linarith
  show "nat ((y * w + x) * int px) = px * nat (y * w + x)"
    using pos by (simp add: nat_mult_distrib mult.commute)
qed

text \<open>Which pixels lie in a run.\<close>

lemma in_run:
  fixes x :: int
  assumes "0 \<le> x" "x < w" "0 \<le> y" "0 \<le> a" "a + n \<le> w" "0 \<le> n" "0 \<le> b"
  shows "nat (b * w + a) \<le> nat (y * w + x) \<and> nat (y * w + x) < nat (b * w + a) + nat n \<longleftrightarrow> y = b \<and> a \<le> x \<and> x < a + n"
    and "y = b \<Longrightarrow> a \<le> x \<Longrightarrow> nat (y * w + x) - nat (b * w + a) = nat (x - a)"
proof -
  have pos: "0 \<le> b * w + a" "0 \<le> y * w + x"
    using assms by simp_all
  then have "nat (b * w + a) \<le> nat (y * w + x) \<and> nat (y * w + x) < nat (b * w + a) + nat n \<longleftrightarrow>
      b * w + a \<le> y * w + x \<and> y * w + x < b * w + a + n"
    using assms(6) by (auto simp: nat_less_iff nat_le_iff)
  also have "\<dots> \<longleftrightarrow> y = b \<and> a \<le> x \<and> x < a + n"
  proof -
    have "(y + 1) * w \<le> b * w" if "y < b"
      using that assms(1,2) by (intro mult_right_mono) simp_all
    moreover have "(b + 1) * w \<le> y * w" if "b < y"
      using that assms(1,2) by (intro mult_right_mono) simp_all
    ultimately show ?thesis
      using assms by (cases y b rule: linorder_cases) (auto simp: algebra_simps)
  qed
  finally show "nat (b * w + a) \<le> nat (y * w + x) \<and> nat (y * w + x) < nat (b * w + a) + nat n \<longleftrightarrow> y = b \<and> a \<le> x \<and> x < a + n" .
  show "nat (y * w + x) - nat (b * w + a) = nat (x - a)" if "y = b" "a \<le> x"
    using that pos by (simp add: nat_diff_distrib [symmetric])
qed

lemma paste_rows_copy:
  assumes "image_ok src" "img_format src = fmt" "px = getPixelSize src" "length d = px * nat (W * H)" "W * H < 2 ^ 31"
    and "0 \<le> dx" "0 \<le> dy" "0 \<le> sx" "0 \<le> sy" "0 < sw" "dx + sw \<le> W" "dy + sh \<le> H" "sx + sw \<le> img_w src" "sy + sh \<le> img_h src"
    and "set rows \<subseteq> {0..<sh}"
  shows "\<exists>d'. paste_rows bits src fmt W dx dy sx sy sw rows d = Inr d' \<and> length d' = length d \<and>
    (\<forall>x y. 0 \<le> x \<and> x < W \<and> 0 \<le> y \<and> y < H \<longrightarrow> pixel_slice px d' (nat (y * W + x)) =
       (if dx \<le> x \<and> x < dx + sw \<and> y - dy \<in> set rows
        then pixel_slice px (img_data src) (nat ((y - dy + sy) * img_w src + (x - dx + sx)))
        else pixel_slice px d (nat (y * W + x))))"
  using assms(4,15)
proof (induction rows arbitrary: d)
  case Nil
  then show ?case
    by simp
next
  case (Cons i rows)
  have i: "0 \<le> i" "i < sh"
    using Cons.prems(2) by simp_all
  have src: "length (img_data src) = px * nat (img_w src * img_h src)" "img_w src * img_h src < 2 ^ 31"
    using assms(1,3) by (simp_all add: image_ok_def)
  define si di where "si = (i + sy) * img_w src + sx" and "di = (i + dy) * W + dx"
  have index: "pixel_index sx (i + sy) (img_w src) = Inr si" "pixel_index dx (i + dy) W = Inr di"
    using pixel_index_small [of sx "img_w src" "i + sy" "img_h src"] pixel_index_small [of dx W "i + dy" H] src(2) i assms
    by (simp_all add: si_def di_def)
  note srun = run_in_rows [of sx sw "img_w src" "i + sy" "img_h src" "img_data src" px, folded si_def]
  note drun = run_in_rows [of dx sw W "i + dy" H d px, folded di_def]
  have s: "0 \<le> si" "si * int px + int (px * nat sw) \<le> int (length (img_data src))" "nat (si * int px) = px * nat si"
    using srun src(1) i assms(7-14) by simp_all
  have dd: "0 \<le> di" "px * (nat di + nat sw) \<le> length d" "di * int px + int (px * nat sw) \<le> int (length d)" "nat (di * int px) = px * nat di"
    using drun Cons.prems(1) i assms(6-14) by simp_all
  define row where "row = take (px * nat sw) (drop (px * nat si) (img_data src))"
  define d1 where "d1 = take (px * nat di) d @ row @ drop (px * nat di + px * nat sw) d"
  have read: "read_at (img_data src) (si * int px) (px * nat sw) = Inr row" "length row = px * nat sw"
    using read_write(1,2) [of "si * int px" "px * nat sw" "img_data src"] s by (simp_all add: row_def)
  have written: "write_at d (di * int px) row = Inr d1" "read_at d (di * int px) (px * nat sw) = Inr (take (px * nat sw) (drop (px * nat di) d))"
    using read_write(1,4) [of "di * int px" "px * nat sw" d] dd read(2) by (simp_all add: d1_def)
  have len: "length d1 = length d"
    unfolding d1_def by (rule length_write [OF read(2) dd(2)])
  obtain d' where d': "paste_rows bits src fmt W dx dy sx sy sw rows d1 = Inr d'" "length d' = length d1"
    "\<And>x y. 0 \<le> x \<and> x < W \<and> 0 \<le> y \<and> y < H \<Longrightarrow> pixel_slice px d' (nat (y * W + x)) =
       (if dx \<le> x \<and> x < dx + sw \<and> y - dy \<in> set rows
        then pixel_slice px (img_data src) (nat ((y - dy + sy) * img_w src + (x - dx + sx)))
        else pixel_slice px d1 (nat (y * W + x)))"
    using Cons.IH [of d1] Cons.prems len by auto
  have "paste_rows bits src fmt W dx dy sx sy sw (i # rows) d = Inr d'"
    using d'(1) index read(1) written assms(2,3) by (simp add: Let_def paste_row_def getPixelSize_def)
  moreover have "pixel_slice px d1 (nat (y * W + x)) =
      (if y = i + dy \<and> dx \<le> x \<and> x < dx + sw
       then pixel_slice px (img_data src) (nat ((y - dy + sy) * img_w src + (x - dx + sx)))
       else pixel_slice px d (nat (y * W + x)))" if xy: "0 \<le> x" "x < W" "0 \<le> y" "y < H" for x y
  proof -
    have "px * (nat (y * W + x) + 1) \<le> length d"
      using run_in_rows(2) [of x 1 W y H d px] xy Cons.prems(1) by simp
    note slice = slice_of_write [OF read(2) dd(2) this, folded d1_def]
    note run = in_run [of x W y dx sw "i + dy", folded di_def]
    show ?thesis
    proof (cases "y = i + dy \<and> dx \<le> x \<and> x < dx + sw")
      case True
      then have "pixel_slice px d1 (nat (y * W + x)) = pixel_slice px row (nat (x - dx))"
        using slice run xy i assms(6-11) by (simp add: di_def)
      also have "\<dots> = pixel_slice px (img_data src) (nat si + nat (x - dx))"
        unfolding row_def using True by (intro slice_of_row) simp
      also have "nat si + nat (x - dx) = nat ((y - dy + sy) * img_w src + (x - dx + sx))"
        using True s(1) by (simp add: si_def nat_add_distrib [symmetric] algebra_simps)
      finally show ?thesis
        using True by simp
    next
      case False
      then show ?thesis
        using slice run(1) xy i assms(6-11) by auto
    qed
  qed
  moreover have "pixel_slice px d' (nat (y * W + x)) =
      (if dx \<le> x \<and> x < dx + sw \<and> y - dy \<in> set (i # rows)
       then pixel_slice px (img_data src) (nat ((y - dy + sy) * img_w src + (x - dx + sx)))
       else pixel_slice px d (nat (y * W + x)))" if xy: "0 \<le> x \<and> x < W \<and> 0 \<le> y \<and> y < H" for x y
  proof -
    have row: "y - dy \<in> set (i # rows) \<longleftrightarrow> y = i + dy \<or> y - dy \<in> set rows"
      by auto
    show ?thesis
      unfolding d'(3) [OF xy] calculation(2) [OF xy [THEN conjunct1] xy [THEN conjunct2, THEN conjunct1]
        xy [THEN conjunct2, THEN conjunct2, THEN conjunct1] xy [THEN conjunct2, THEN conjunct2, THEN conjunct2]] row
      by (cases "y = i + dy"; cases "dx \<le> x \<and> x < dx + sw"; cases "y - dy \<in> set rows"; simp only: simp_thms if_True if_False)
  qed
  ultimately show ?case
    using d'(2) len by (intro exI [of _ d']) simp
qed

section \<open>Paste copies the part both images have\<close>

definition pixel_at :: "image \<Rightarrow> int \<Rightarrow> int \<Rightarrow> byte list" where
  "pixel_at img x y = pixel_slice (getPixelSize img) (img_data img) (nat (y * img_w img + x))"

text \<open>Pixel \<open>x\<close> of an axis is one a paste of \<open>n\<close> pixels from \<open>s\<close> to \<open>d\<close> may reach, and its source exists.\<close>

definition reached :: "int \<Rightarrow> int \<Rightarrow> int \<Rightarrow> int \<Rightarrow> int \<Rightarrow> bool" where
  "reached d s n extent k \<longleftrightarrow> d \<le> k \<and> k < d + n \<and> 0 \<le> k - d + s \<and> k - d + s < extent"

definition pasted :: "image \<Rightarrow> int \<Rightarrow> int \<Rightarrow> int \<Rightarrow> int \<Rightarrow> int \<Rightarrow> int \<Rightarrow> image \<Rightarrow> image \<Rightarrow> bool" where
  "pasted src dx dy sx sy sw sh img img' \<longleftrightarrow>
     img_w img' = img_w img \<and> img_h img' = img_h img \<and> img_format img' = img_format img \<and> image_ok img' \<and>
     (\<forall>x y. 0 \<le> x \<and> x < img_w img \<and> 0 \<le> y \<and> y < img_h img \<longrightarrow>
       pixel_at img' x y =
         (if reached dx sx sw (img_w src) x \<and> reached dy sy sh (img_h src) y
          then pixel_at src (x - dx + sx) (y - dy + sy)
          else pixel_at img x y))"

lemma pasted_nothing:
  assumes "image_ok img"
    "\<And>x y. 0 \<le> x \<Longrightarrow> x < img_w img \<Longrightarrow> 0 \<le> y \<Longrightarrow> y < img_h img \<Longrightarrow>
      \<not> (reached dx sx sw (img_w src) x \<and> reached dy sy sh (img_h src) y)"
  shows "pasted src dx dy sx sy sw sh img img"
  using assms unfolding pasted_def by (intro conjI refl allI impI) (blast, metis)

lemma outside_small:
  "small p \<Longrightarrow> small n \<Longrightarrow> outside_axis p n extent = Inr (p \<ge> extent \<or> p + n < 0)"
  by (simp add: outside_axis_def small_def in_int_def)

lemma size_same_format: "img_format a = img_format b \<Longrightarrow> getPixelSize a = getPixelSize b"
  by (simp add: getPixelSize_def)

lemma paste_whole:
  assumes "image_ok src" "image_ok img" "img_format src = img_format img" "img_w src = img_w img" "img_h src = img_h img"
  shows "read_at (img_data src) 0 (getPixelSize src * nat (img_w img) * nat (img_h img)) = Inr (img_data src)"
    "write_at (img_data img) 0 (img_data src) = Inr (img_data src)"
    "pasted src 0 0 0 0 (img_w img) (img_h img) img (img\<lparr>img_data := img_data src\<rparr>)"
proof -
  have len: "length (img_data src) = getPixelSize src * nat (img_w img) * nat (img_h img)" "length (img_data img) = length (img_data src)"
    using assms size_same_format [OF assms(3)] by (simp_all add: image_ok_def nat_mult_distrib)
  show "read_at (img_data src) 0 (getPixelSize src * nat (img_w img) * nat (img_h img)) = Inr (img_data src)"
    unfolding len(1) [symmetric] by (simp add: read_at_def)
  show "write_at (img_data img) 0 (img_data src) = Inr (img_data src)"
    using len(2) by (simp add: write_at_def)
  show "pasted src 0 0 0 0 (img_w img) (img_h img) img (img\<lparr>img_data := img_data src\<rparr>)"
    using assms by (simp add: pasted_def reached_def pixel_at_def image_ok_def getPixelSize_def)
qed

lemma pasted_clipped:
  assumes "pasted src dx' dy' sx' sy' sw' sh' img img'" "dx' - sx' = dx - sx" "dy' - sy' = dy - sy"
    and "\<And>x. 0 \<le> x \<Longrightarrow> x < img_w img \<Longrightarrow> reached dx' sx' sw' (img_w src) x = reached dx sx sw (img_w src) x"
    and "\<And>y. 0 \<le> y \<Longrightarrow> y < img_h img \<Longrightarrow> reached dy' sy' sh' (img_h src) y = reached dy sy sh (img_h src) y"
  shows "pasted src dx dy sx sy sw sh img img'"
proof -
  have moved: "x - dx' + sx' = x - dx + sx" "y - dy' + sy' = y - dy + sy" for x y
    using assms(2,3) by simp_all
  show ?thesis
    using assms(1,4,5) unfolding pasted_def moved by simp
qed

lemma reached_clipped:
  assumes "0 \<le> s'" "s' + n' \<le> S" "d' - s' = d - s"
    and "\<And>k. d' \<le> k \<and> k < d' + n' \<longleftrightarrow> d \<le> k \<and> k < d + n \<and> 0 \<le> k \<and> k < D \<and> 0 \<le> k - d + s \<and> k - d + s < S"
    and "0 \<le> k" "k < D"
  shows "reached d' s' n' S k = reached d s n S k"
proof -
  have "reached d' s' n' S k \<longleftrightarrow> d' \<le> k \<and> k < d' + n'"
    using assms(1-3) unfolding reached_def by linarith
  then show ?thesis
    unfolding assms(4) reached_def using assms(5,6) by blast
qed

lemma paste_rows_pasted:
  assumes "image_ok src" "image_ok img" "img_format src = img_format img"
    and "0 \<le> dx" "0 \<le> dy" "0 \<le> sx" "0 \<le> sy" "0 < sw" "dx + sw \<le> img_w img" "dy + sh \<le> img_h img"
    "sx + sw \<le> img_w src" "sy + sh \<le> img_h src"
  shows "\<exists>d'. paste_rows bits src (img_format img) (img_w img) dx dy sx sy sw (map int [0..<nat sh]) (img_data img) = Inr d' \<and>
    pasted src dx dy sx sy sw sh img (img\<lparr>img_data := d'\<rparr>)"
proof -
  define px where "px = getPixelSize src"
  have px: "getPixelSize img = px"
    using size_same_format [OF assms(3)] by (simp add: px_def)
  have img: "length (img_data img) = px * nat (img_w img * img_h img)" "img_w img * img_h img < 2 ^ 31"
    using assms(2) px by (simp_all add: image_ok_def)
  have rows: "set (map int [0..<nat sh]) \<subseteq> {0..<sh}" "y - dy \<in> set (map int [0..<nat sh]) \<longleftrightarrow> dy \<le> y \<and> y < dy + sh" for y
    by (auto simp: image_iff intro!: bexI [of _ "nat (y - dy)"])
  obtain d' where d': "paste_rows bits src (img_format img) (img_w img) dx dy sx sy sw (map int [0..<nat sh]) (img_data img) = Inr d'"
    "length d' = length (img_data img)"
    "\<And>x y. 0 \<le> x \<and> x < img_w img \<and> 0 \<le> y \<and> y < img_h img \<Longrightarrow> pixel_slice px d' (nat (y * img_w img + x)) =
       (if dx \<le> x \<and> x < dx + sw \<and> y - dy \<in> set (map int [0..<nat sh])
        then pixel_slice px (img_data src) (nat ((y - dy + sy) * img_w src + (x - dx + sx)))
        else pixel_slice px (img_data img) (nat (y * img_w img + x)))"
    using paste_rows_copy [OF assms(1,3) px_def img assms(4-12) rows(1), of bits] by blast
  have ok: "image_ok (img\<lparr>img_data := d'\<rparr>)" "getPixelSize (img\<lparr>img_data := d'\<rparr>) = px"
    using assms(2) d'(2) px by (simp_all add: image_ok_def getPixelSize_def)
  have "reached dx sx sw (img_w src) x \<longleftrightarrow> dx \<le> x \<and> x < dx + sw" "reached dy sy sh (img_h src) y \<longleftrightarrow> dy \<le> y \<and> y < dy + sh" for x y
    using assms(6,7,11,12) by (auto simp: reached_def)
  then have "pasted src dx dy sx sy sw sh img (img\<lparr>img_data := d'\<rparr>)"
    using d'(3) ok unfolding pasted_def pixel_at_def rows(2) by (simp add: px px_def [symmetric] conj_assoc)
  then show ?thesis
    using d'(1) by blast
qed

text \<open>
  Claim C26. Pasting between images of one format never touches memory outside either image and never
  overflows while every coordinate, extent and image side is below $2^{28}$: the destination keeps
  its size, and a pixel of it becomes the source pixel at the same offset exactly when it is in
  the pasted rectangle and that source pixel exists; every other pixel is unchanged.
\<close>

theorem paste_copies:
  assumes "image_ok src" "image_ok img" "img_format src = img_format img"
    and "list_all small [dx, dy, sx, sy, sw, sh, img_w src, img_h src, img_w img, img_h img]"
  shows "\<exists>img'. paste bits src dx dy sx sy sw sh img = Inr img' \<and> pasted src dx dy sx sy sw sh img img'"
proof -
  have small: "small dx" "small dy" "small sx" "small sy" "small sw" "small sh" "small (img_w src)" "small (img_h src)"
    "small (img_w img)" "small (img_h img)" and sides: "0 \<le> img_w src" "0 \<le> img_h src" "0 \<le> img_w img" "0 \<le> img_h img"
    using assms by (simp_all add: image_ok_def)
  define out where "out \<longleftrightarrow> (sx \<ge> img_w src \<or> sx + sw < 0) \<or> (sy \<ge> img_h src \<or> sy + sh < 0) \<or>
    (dx \<ge> img_w img \<or> dx + sw < 0) \<or> (dy \<ge> img_h img \<or> dy + sh < 0)"
  have outside: "or_result (outside_axis sx sw (img_w src)) (or_result (outside_axis sy sh (img_h src))
      (or_result (outside_axis dx sw (img_w img)) (outside_axis dy sh (img_h img)))) = Inr out"
    using small by (simp add: outside_small or_result_def out_def)
  show ?thesis
  proof (cases out)
    case True
    then have "pasted src dx dy sx sy sw sh img img"
      using assms(2) by (intro pasted_nothing) (auto simp: out_def reached_def)
    then show ?thesis
      using outside True by (simp add: paste_def)
  next
    case False
    obtain x' u' w' where x: "clip_axis dx sx sw (img_w img) (img_w src) = Inr (x', u', w')" "0 \<le> x'" "0 \<le> u'" "x' - u' = dx - sx"
      "x' + w' \<le> img_w img" "u' + w' \<le> img_w src" "\<And>k. x' \<le> k \<and> k < x' + w' \<longleftrightarrow>
        dx \<le> k \<and> k < dx + sw \<and> 0 \<le> k \<and> k < img_w img \<and> 0 \<le> k - dx + sx \<and> k - dx + sx < img_w src"
      using clip_axis_small [OF small(1,3,5) sides(3) small(9) sides(1) small(7)] by blast
    obtain y' v' h' where y: "clip_axis dy sy sh (img_h img) (img_h src) = Inr (y', v', h')" "0 \<le> y'" "0 \<le> v'" "y' - v' = dy - sy"
      "y' + h' \<le> img_h img" "v' + h' \<le> img_h src" "\<And>k. y' \<le> k \<and> k < y' + h' \<longleftrightarrow>
        dy \<le> k \<and> k < dy + sh \<and> 0 \<le> k \<and> k < img_h img \<and> 0 \<le> k - dy + sy \<and> k - dy + sy < img_h src"
      using clip_axis_small [OF small(2,4,6) sides(4) small(10) sides(2) small(8)] by blast
    have clipped: "pasted src dx dy sx sy sw sh img img'" if "pasted src x' y' u' v' w' h' img img'" for img'
      using that x(4) y(4)
      by (rule pasted_clipped) (rule reached_clipped [OF x(3,6,4,7)] reached_clipped [OF y(3,6,4,7)], assumption+)+
    have steps: "paste bits src dx dy sx sy sw sh img =
      (if w' = img_w img \<and> img_w img = img_w src \<and> h' = img_h img \<and> img_h img = img_h src
       then bind_result (read_at (img_data src) 0 (getPixelSize src * nat w' * nat h')) (\<lambda>bs.
            bind_result (write_at (img_data img) 0 bs) (\<lambda>d. Inr (img\<lparr>img_data := d\<rparr>)))
       else if 0 < w'
       then bind_result (paste_rows bits src (img_format img) (img_w img) x' y' u' v' w' (map int [0..<nat h']) (img_data img))
              (\<lambda>d. Inr (img\<lparr>img_data := d\<rparr>))
       else Inr img)"
      using False x(1) y(1) assms(3) by (simp add: paste_def Let_def outside)
    show ?thesis
    proof (cases "w' = img_w img \<and> img_w img = img_w src \<and> h' = img_h img \<and> img_h img = img_h src")
      case True
      then have "x' = 0" "u' = 0" "y' = 0" "v' = 0"
        using x(2,3,5,6) y(2,3,5,6) by simp_all
      then show ?thesis
        using paste_whole [OF assms(1-3)] True clipped [of "img\<lparr>img_data := img_data src\<rparr>"] by (simp add: steps)
    next
      case whole: False
      show ?thesis
      proof (cases "0 < w'")
        case True
        then show ?thesis
          using paste_rows_pasted [OF assms(1-3) x(2) y(2) x(3) y(3) True x(5) y(5) x(6) y(6), of bits] whole clipped
          by (auto simp: steps)
      next
        case False
        then have "pasted src x' y' u' v' w' h' img img"
          using assms(2) by (intro pasted_nothing) (auto simp: reached_def)
        then show ?thesis
          using whole False clipped by (auto simp: steps)
      qed
    qed
  qed
qed

definition strip :: "byte list \<Rightarrow> image" where
  "strip d = \<lparr>img_w = int (length d), img_h = 1, img_format = PIXELFORMAT_R8_UNORM, img_data = d\<rparr>"

lemma strip_ok: "length d < 2 ^ 31 \<Longrightarrow> image_ok (strip d)" "getPixelSize (strip d) = 1"
proof -
  have "\<not> isPixelFormatCompressed PIXELFORMAT_R8_UNORM \<and> getPixelSize (strip []) = 1 \<and> PIXELFORMAT_R8_UNORM < PIXELFORMAT_MAX_ENUM"
    by code_simp
  moreover have "getPixelSize (strip d) = getPixelSize (strip [])"
    by (simp add: getPixelSize_def strip_def)
  ultimately show "getPixelSize (strip d) = 1" "length d < 2 ^ 31 \<Longrightarrow> image_ok (strip d)"
    by (simp_all add: image_ok_def) (simp_all add: strip_def)
qed

text \<open>Two pixels pasted over the right edge of three: only the first has a place.\<close>

theorem paste_copies_witness:
  "\<exists>img'. paste (\<lambda>_. 0) (strip [7, 9]) 2 0 0 0 2 1 (strip [1, 2, 3]) = Inr img' \<and>
     map (\<lambda>x. pixel_at img' x 0) [0, 1, 2] = [[1], [2], [7]]"
proof -
  have "image_ok (strip [7, 9])" "image_ok (strip [1, 2, 3])"
    by (rule strip_ok(1), simp)+
  moreover have "list_all small [2, 0, 0, 0, 2, 1, img_w (strip [7, 9]), img_h (strip [7, 9]), img_w (strip [1, 2, 3]), img_h (strip [1, 2, 3])]"
    by (simp add: small_def strip_def)
  ultimately obtain img' where "paste (\<lambda>_. 0) (strip [7, 9]) 2 0 0 0 2 1 (strip [1, 2, 3]) = Inr img'"
    and img': "pasted (strip [7, 9]) 2 0 0 0 2 1 (strip [1, 2, 3]) img'"
    using paste_copies [of "strip [7, 9]" "strip [1, 2, 3]" 2 0 0 0 2 1 "\<lambda>_. 0"] by (auto simp: strip_def)
  moreover have pixel: "pixel_at img' x 0 =
      (if reached 2 0 2 2 x \<and> reached 0 0 1 1 0 then pixel_at (strip [7, 9]) (x - 2) 0 else pixel_at (strip [1, 2, 3]) x 0)"
    if "0 \<le> x" "x < 3" for x
    using img' that by (simp add: pasted_def strip_def)
  have strips: "pixel_at (strip d) x 0 = take 1 (drop (nat x) d)" for d x
    by (simp add: pixel_at_def pixel_slice_def strip_ok(2)) (simp add: strip_def)
  have "pixel_at img' 0 0 = [1]" "pixel_at img' 1 0 = [2]" "pixel_at img' 2 0 = [7]"
    by (simp_all add: pixel strips reached_def)
  ultimately show ?thesis
    by auto
qed

end
