(* ===== verification/Bezier.thy ===== *)
theory Bezier
  imports Geometry
begin

text \<open>
  Bezier curves (\<^verbatim>\<open>src/src/modules/math/BezierCurve.cpp\<close>): a curve is the list of its control points.
  Every loop of de Casteljau's scheme works in place on a copy of that list, one row after the
  other. A \<^verbatim>\<open>float\<close> is a real number; the sine and cosine of the C library are parameters.
\<close>

section \<open>Control points\<close>

definition getDegree :: "vector2 list \<Rightarrow> nat" where
  "getDegree pts = last_index pts"

text \<open>The loops \<^verbatim>\<open>while (i < 0)\<close> and \<^verbatim>\<open>while (i >= size)\<close>, which are only entered with points.\<close>

function raise_index :: "nat \<Rightarrow> int \<Rightarrow> int" where
  "raise_index n i = (if i < 0 \<and> 0 < n then raise_index n (i + int n) else i)"
  by pat_completeness auto
termination
  by (relation "measure (\<lambda>(n, i). nat (- i))") auto

function lower_index :: "nat \<Rightarrow> nat \<Rightarrow> int \<Rightarrow> int" where
  "lower_index n bound i = (if i \<ge> int bound \<and> 0 < n then lower_index n bound (i - int n) else i)"
  by pat_completeness auto
termination
  by (relation "measure (\<lambda>(n, bound, i). nat (i + 1))") auto

definition wrapped :: "vector2 list \<Rightarrow> int \<Rightarrow> nat" where
  "wrapped pts i = nat (lower_index (length pts) (length pts) (raise_index (length pts) i))"

definition getControlPoint :: "vector2 list \<Rightarrow> int \<Rightarrow> vector2 result" where
  "getControlPoint pts i =
     (if pts = [] then Inl (Exception ''Curve contains no control points.'') else Inr (pts ! wrapped pts i))"

definition setControlPoint :: "vector2 list \<Rightarrow> int \<Rightarrow> vector2 \<Rightarrow> vector2 list result" where
  "setControlPoint pts i point =
     (if pts = [] then Inl (Exception ''Curve contains no control points.'') else Inr (pts[wrapped pts i := point]))"

definition insertControlPoint :: "vector2 list \<Rightarrow> vector2 \<Rightarrow> int \<Rightarrow> vector2 list" where
  "insertControlPoint pts point i =
     (let i = (if pts = [] then 0 else i);
          i = nat (lower_index (length pts) (Suc (length pts)) (raise_index (length pts) i))
      in take i pts @ point # drop i pts)"

definition removeControlPoint :: "vector2 list \<Rightarrow> int \<Rightarrow> vector2 list result" where
  "removeControlPoint pts i =
     (if pts = [] then Inl (Exception ''No control points to remove.'')
      else let i = wrapped pts i in Inr (take i pts @ drop (Suc i) pts))"

section \<open>The whole curve moved\<close>

definition translate_curve :: "vector2 \<Rightarrow> vector2 list \<Rightarrow> vector2 list" where
  "translate_curve t pts = map (\<lambda>v. vec_plus v t) pts"

definition rotate_curve :: "(real \<Rightarrow> real) \<Rightarrow> (real \<Rightarrow> real) \<Rightarrow> real \<Rightarrow> vector2 \<Rightarrow> vector2 list \<Rightarrow> vector2 list" where
  "rotate_curve c_cos c_sin phi center pts =
     (let c = c_cos phi; s = c_sin phi
      in map (\<lambda>p. let v = vec_minus p center
                  in vec (c * vec_x v - s * vec_y v + vec_x center) (s * vec_x v + c * vec_y v + vec_y center)) pts)"

definition scale_curve :: "real \<Rightarrow> vector2 \<Rightarrow> vector2 list \<Rightarrow> vector2 list" where
  "scale_curve s center pts = map (\<lambda>p. vec_plus (vec_times (vec_minus p center) s) center) pts"

section \<open>Evaluation and subdivision\<close>

text \<open>One row of the scheme: \<^verbatim>\<open>for (i = 0; i < m; ++i) points[i] = ... points[i] ... points[i+1] ...\<close>.\<close>

definition row :: "(vector2 \<Rightarrow> vector2 \<Rightarrow> vector2) \<Rightarrow> nat \<Rightarrow> vector2 list \<Rightarrow> vector2 list" where
  "row f m pts = fold (\<lambda>i pts. pts[i := f (pts ! i) (pts ! Suc i)]) [0..<m] pts"

definition evaluate :: "vector2 list \<Rightarrow> real \<Rightarrow> vector2 result" where
  "evaluate pts t =
     (if t < 0 \<or> t > 1 then Inl (Exception ''Invalid evaluation parameter: must be between 0 and 1'')
      else if length pts < 2 then Inl (Exception ''Invalid Bezier curve: Not enough control points.'')
      else Inr (fold (\<lambda>step. row (\<lambda>a b. vec_plus (vec_times a (1 - t)) (vec_times b t)) (length pts - step))
                  [1..<length pts] pts ! 0))"

text \<open>The first loop of \<open>getSegment\<close> keeps the first points of the rows, the second the last ones, in reversed order.\<close>

definition toward :: "real \<Rightarrow> vector2 \<Rightarrow> vector2 \<Rightarrow> vector2" where
  "toward t a b = vec_plus a (vec_times (vec_minus b a) t)"

definition left_points :: "real \<Rightarrow> vector2 list \<Rightarrow> vector2 list \<times> vector2 list" where
  "left_points t pts =
     fold (\<lambda>step (left, ps). (left @ [ps ! 0], row (toward t) (length pts - step) ps)) [1..<length pts] ([], pts)"

definition right_points :: "real \<Rightarrow> vector2 list \<Rightarrow> vector2 list \<times> vector2 list" where
  "right_points t pts =
     fold (\<lambda>step (right, ps). (right @ [ps ! (length pts - step)], row (toward t) (length pts - step) ps)) [1..<length pts] ([], pts)"

definition getSegment :: "vector2 list \<Rightarrow> real \<Rightarrow> real \<Rightarrow> vector2 list result" where
  "getSegment pts t1 t2 =
     (if t1 < 0 \<or> t2 > 1 then Inl (Exception ''Invalid segment parameters: must be between 0 and 1'')
      else if t2 \<le> t1 then Inl (Exception ''Invalid segment parameters: t1 must be smaller than t2'')
      else
        let (left, ps) = left_points t2 pts
        in bind_result (element ps 0) (\<lambda>p.
             let left = left @ [p]; (right, ps) = right_points (t1 / t2) left
             in bind_result (element ps 0) (\<lambda>p. Inr (rev (right @ [p])))))"

definition halves :: "vector2 list \<Rightarrow> vector2 list \<times> vector2 list \<times> vector2 list" where
  "halves pts =
     fold (\<lambda>step (left, right, ps).
             (left @ [ps ! 0], right @ [ps ! (length pts - step)],
              row (\<lambda>a b. vec_times (vec_plus a b) (1 / 2)) (length pts - step) ps))
       [1..<length pts] ([], [], pts)"

fun subdivide :: "vector2 list \<Rightarrow> nat \<Rightarrow> vector2 list" where
  "subdivide pts 0 = pts"
| "subdivide pts (Suc k) =
     (let (left, right, ps) = halves pts;
          left = subdivide (left @ [ps ! 0]) k;
          right = subdivide (right @ [ps ! 0]) k
      in map (\<lambda>i. left ! i) [0..<length left - 1] @ map (\<lambda>i. right ! (length right - i - 1)) [1..<length right])"

text \<open>\<^verbatim>\<open>accuracy\<close> is an \<^verbatim>\<open>int\<close>; nothing is subdivided unless it is positive.\<close>

definition render_curve :: "vector2 list \<Rightarrow> int \<Rightarrow> vector2 list result" where
  "render_curve pts accuracy =
     (if length pts < 2 then Inl (Exception ''Invalid Bezier curve: Not enough control points.'')
      else Inr (subdivide pts (nat accuracy)))"

definition stretch :: "vector2 list \<Rightarrow> nat \<Rightarrow> nat \<Rightarrow> vector2 list result" where
  "stretch vs i j =
     (if i \<le> j \<and> j \<le> length vs then Inr (drop i (take j vs)) else Inl (Undefined_behaviour ''iterator past the end''))"

definition renderSegment :: "vector2 list \<Rightarrow> real \<Rightarrow> real \<Rightarrow> int \<Rightarrow> vector2 list result" where
  "renderSegment pts start finish accuracy =
     (if length pts < 2 then Inl (Exception ''Invalid Bezier curve: Not enough control points.'')
      else
        let vs = subdivide pts (nat accuracy); n = real (length vs)
        in if start = finish then Inr []
           else if start < finish
           then bind_result (to_index (start * n)) (\<lambda>i. bind_result (to_index (finish * n + 1 / 2)) (\<lambda>j. stretch vs i j))
           else if finish > start
           then bind_result (to_index (finish * n + 1 / 2)) (\<lambda>i. bind_result (to_index (start * n)) (\<lambda>j. stretch vs i j))
           else Inr vs)"

text \<open>A curve without points has the degree \<^verbatim>\<open>size_t(-1)\<close>, and a vector of that length is refused.\<close>

definition getDerivative :: "vector2 list \<Rightarrow> vector2 list result" where
  "getDerivative pts =
     (if getDegree pts < 1 then Inl (Exception ''Cannot derive a curve of degree < 1.'')
      else if pts = [] then Inl (Exception ''vector too long'')
      else Inr (map (\<lambda>i. vec_times (vec_minus (pts ! Suc i) (pts ! i)) (real (getDegree pts))) [0..<length pts - 1]))"

section \<open>Rows as sequences\<close>

definition mix :: "real \<Rightarrow> vector2 \<Rightarrow> vector2 \<Rightarrow> vector2" where
  "mix t a b = vec ((1 - t) * vec_x a + t * vec_x b) ((1 - t) * vec_y a + t * vec_y b)"

lemma mix_forms:
  "toward t = mix t" "(\<lambda>a b. vec_plus (vec_times a (1 - t)) (vec_times b t)) = mix t"
  "(\<lambda>a b. vec_times (vec_plus a b) (1 / 2)) = mix (1 / 2)"
  by (simp_all add: fun_eq_iff toward_def mix_def vec_plus_def vec_times_def vec_minus_def algebra_simps add_divide_distrib)

definition next_row :: "real \<Rightarrow> (nat \<Rightarrow> vector2) \<Rightarrow> nat \<Rightarrow> vector2" where
  "next_row t p i = mix t (p i) (p (Suc i))"

lemma length_row [simp]: "length (row f m pts) = length pts"
proof -
  have "length (fold (\<lambda>i pts. pts[i := f (pts ! i) (pts ! Suc i)]) is pts) = length pts" for "is" :: "nat list"
    by (induction "is" arbitrary: pts) simp_all
  then show ?thesis
    by (simp add: row_def)
qed

lemma nth_row: "m < length pts \<Longrightarrow> i < length pts \<Longrightarrow> row f m pts ! i = (if i < m then f (pts ! i) (pts ! Suc i) else pts ! i)"
proof (induction m arbitrary: i)
  case (Suc m)
  have "row f (Suc m) pts = (row f m pts)[m := f (row f m pts ! m) (row f m pts ! Suc m)]"
    by (simp add: row_def)
  then show ?case
    using Suc by (simp add: nth_list_update less_Suc_eq)
qed (simp add: row_def)

definition rows :: "real \<Rightarrow> nat \<Rightarrow> vector2 list \<Rightarrow> vector2 list" where
  "rows t s pts = fold (\<lambda>step. row (mix t) (length pts - step)) [1..<Suc s] pts"

lemma rows_simps: "rows t 0 pts = pts" "rows t (Suc s) pts = row (mix t) (length pts - Suc s) (rows t s pts)"
  by (simp_all add: rows_def)

lemma length_rows [simp]: "length (rows t s pts) = length pts"
  by (induction s) (simp_all add: rows_simps)

lemma nth_rows:
  "s < length pts \<Longrightarrow> i < length pts \<Longrightarrow> rows t s pts ! i = (next_row t ^^ min s (length pts - 1 - i)) ((!) pts) i"
proof (induction s arbitrary: i)
  case (Suc s)
  let ?n = "length pts"
  have row: "rows t (Suc s) pts ! i =
      (if i < ?n - Suc s then mix t (rows t s pts ! i) (rows t s pts ! Suc i) else rows t s pts ! i)"
    using Suc.prems by (simp add: rows_simps nth_row)
  show ?case
  proof (cases "i < ?n - Suc s")
    case True
    then have "min s (?n - 1 - i) = s" "min s (?n - 1 - Suc i) = s" "min (Suc s) (?n - 1 - i) = Suc s" "Suc i < ?n"
      by auto
    then show ?thesis
      using True Suc.IH [of i] Suc.IH [of "Suc i"] Suc.prems row by (simp add: next_row_def)
  next
    case False
    then have "min (Suc s) (?n - 1 - i) = min s (?n - 1 - i)"
      using Suc.prems by auto
    then show ?thesis
      using False Suc.IH [of i] Suc.prems row by simp
  qed
qed (simp add: rows_simps)

lemma left_fold:
  "fold (\<lambda>step (left, ps). (left @ [ps ! 0], row (mix t) (length pts - step) ps)) [1..<Suc s] ([], pts) =
     (map (\<lambda>j. rows t j pts ! 0) [0..<s], rows t s pts)"
  by (induction s) (simp_all add: rows_simps)

lemma right_fold:
  "fold (\<lambda>step (right, ps). (right @ [ps ! (length pts - step)], row (mix t) (length pts - step) ps)) [1..<Suc s] ([], pts) =
     (map (\<lambda>j. rows t j pts ! (length pts - Suc j)) [0..<s], rows t s pts)"
  by (induction s) (simp_all add: rows_simps)

lemma halves_fold:
  "fold (\<lambda>step (left, right, ps). (left @ [ps ! 0], right @ [ps ! (length pts - step)], row (mix t) (length pts - step) ps))
     [1..<Suc s] ([], [], pts) =
     (map (\<lambda>j. rows t j pts ! 0) [0..<s], map (\<lambda>j. rows t j pts ! (length pts - Suc j)) [0..<s], rows t s pts)"
  by (induction s) (simp_all add: rows_simps)

section \<open>The polygon of a segment\<close>

text \<open>The control points of the stretch between the parameters \<open>a\<close> and \<open>b\<close> of a curve of degree \<open>d\<close>.\<close>

definition seg :: "nat \<Rightarrow> real \<Rightarrow> real \<Rightarrow> (nat \<Rightarrow> vector2) \<Rightarrow> nat \<Rightarrow> vector2" where
  "seg d a b p i = (next_row a ^^ (d - i)) ((next_row b ^^ i) p) 0"

definition polygon :: "real \<Rightarrow> real \<Rightarrow> vector2 list \<Rightarrow> vector2 list" where
  "polygon a b pts = map (seg (length pts - 1) a b ((!) pts)) [0..<length pts]"

lemma length_polygon [simp]: "length (polygon a b pts) = length pts"
  by (simp add: polygon_def)

lemma next_row_mix: "next_row t (\<lambda>i. mix u (p i) (q i)) = (\<lambda>i. mix u (next_row t p i) (next_row t q i))"
  by (simp add: fun_eq_iff next_row_def mix_def algebra_simps)

lemma mix_next_row: "mix u (next_row a p i) (next_row b p i) = next_row (a + u * (b - a)) p i"
  by (simp add: next_row_def mix_def algebra_simps)

lemma next_rows_mix: "(next_row t ^^ s) (\<lambda>i. mix u (p i) (q i)) = (\<lambda>i. mix u ((next_row t ^^ s) p i) ((next_row t ^^ s) q i))"
  by (induction s) (simp_all add: next_row_mix)

lemma next_row_commute: "next_row t (next_row u p) = next_row u (next_row t p)"
  by (simp add: fun_eq_iff next_row_def mix_def algebra_simps)

lemma next_rows_commute: "(next_row t ^^ s) (next_row u p) = next_row u ((next_row t ^^ s) p)"
  by (induction s) (simp_all add: next_row_commute)

lemma next_rows_Suc: "(next_row t ^^ Suc s) p i = mix t ((next_row t ^^ s) p i) ((next_row t ^^ s) p (Suc i))"
  using next_row_def [of t "(next_row t ^^ s) p" i] by simp

lemma next_rows_cong: "(\<And>i. i \<le> k + s \<Longrightarrow> p i = q i) \<Longrightarrow> (next_row t ^^ s) p k = (next_row t ^^ s) q k"
proof (induction s arbitrary: k)
  case (Suc s)
  have "(next_row t ^^ s) p k = (next_row t ^^ s) q k" "(next_row t ^^ s) p (Suc k) = (next_row t ^^ s) q (Suc k)"
    using Suc.prems by (auto intro!: Suc.IH)
  then show ?case
    by (simp only: next_rows_Suc)
qed simp

lemma next_row_one: "next_row 1 p = (\<lambda>i. p (Suc i))" "next_row 0 p = p"
  by (simp_all add: fun_eq_iff next_row_def mix_def vec_def)

lemma next_rows_one: "(next_row 1 ^^ s) p = (\<lambda>i. p (i + s))" "(next_row 0 ^^ s) p = p"
  by (induction s) (simp_all add: next_row_one)

lemma next_row_seg:
  assumes "i < d"
  shows "next_row u (seg d a b p) i = seg (d - 1) a b (next_row (a + u * (b - a)) p) i"
proof -
  let ?q = "(next_row b ^^ i) p"
  have i: "d - i = Suc (d - 1 - i)" "d - Suc i = d - 1 - i"
    using assms by simp_all
  have "seg d a b p i = (next_row a ^^ (d - 1 - i)) (next_row a ?q) 0"
    unfolding seg_def i(1) funpow_Suc_right by simp
  moreover have "seg d a b p (Suc i) = (next_row a ^^ (d - 1 - i)) (next_row b ?q) 0"
    unfolding seg_def i(2) by simp
  ultimately have "next_row u (seg d a b p) i = (next_row a ^^ (d - 1 - i)) (\<lambda>j. mix u (next_row a ?q j) (next_row b ?q j)) 0"
    using next_row_def [of u "seg d a b p" i] next_rows_mix [where s = "d - 1 - i" and t = a and u = u and p = "next_row a ?q" and q = "next_row b ?q"] by simp
  then show ?thesis
    by (simp only: mix_next_row seg_def next_rows_commute)
qed

lemma next_rows_seg: "i + s \<le> d \<Longrightarrow> (next_row u ^^ s) (seg d a b p) i = seg (d - s) a b ((next_row (a + u * (b - a)) ^^ s) p) i"
proof (induction s arbitrary: i)
  case (Suc s)
  let ?q = "(next_row (a + u * (b - a)) ^^ s) p"
  have "(next_row u ^^ s) (seg d a b p) i = seg (d - s) a b ?q i" "(next_row u ^^ s) (seg d a b p) (Suc i) = seg (d - s) a b ?q (Suc i)"
    using Suc by simp_all
  then have "(next_row u ^^ Suc s) (seg d a b p) i = next_row u (seg (d - s) a b ?q) i"
    unfolding next_rows_Suc next_row_def [of u "seg (d - s) a b ?q"] by simp
  then show ?case
    using Suc.prems next_row_seg [of i "d - s" u a b ?q] by simp
qed simp

lemma seg_seg: "i \<le> d \<Longrightarrow> seg d u v (seg d a b p) i = seg d (a + u * (b - a)) (a + v * (b - a)) p i"
proof -
  assume i: "i \<le> d"
  have "seg d u v (seg d a b p) i = (next_row u ^^ (d - i)) (seg (d - i) a b ((next_row (a + v * (b - a)) ^^ i) p)) 0"
    unfolding seg_def [of d u v] using i by (intro next_rows_cong next_rows_seg) simp
  then show ?thesis
    using i by (simp add: next_rows_seg) (simp add: seg_def)
qed

lemma polygon_polygon: "polygon u v (polygon a b pts) = polygon (a + u * (b - a)) (a + v * (b - a)) pts"
proof -
  have "seg (length pts - 1) u v ((!) (polygon a b pts)) i = seg (length pts - 1) u v (seg (length pts - 1) a b ((!) pts)) i"
    if "i < length pts" for i
    unfolding seg_def [of _ u v] using that
    by (intro next_rows_cong) (auto intro!: next_rows_cong simp: polygon_def)
  then show ?thesis
    unfolding polygon_def [of u v] length_polygon
    by (subst polygon_def) (simp add: seg_seg)
qed

section \<open>What the loops compute\<close>

definition point :: "vector2 list \<Rightarrow> real \<Rightarrow> vector2" where
  "point pts t = (next_row t ^^ (length pts - 1)) ((!) pts) 0"

lemma evaluate_point:
  "evaluate pts t =
     (if t < 0 \<or> t > 1 then Inl (Exception ''Invalid evaluation parameter: must be between 0 and 1'')
      else if length pts < 2 then Inl (Exception ''Invalid Bezier curve: Not enough control points.'')
      else Inr (point pts t))"
proof -
  have "fold (\<lambda>step. row (mix t) (length pts - step)) [1..<length pts] pts = rows t (length pts - 1) pts" if "2 \<le> length pts"
  proof -
    have "Suc (length pts - 1) = length pts"
      using that by simp
    then show ?thesis
      by (simp only: rows_def)
  qed
  moreover have "rows t (length pts - 1) pts ! 0 = point pts t" if "2 \<le> length pts"
  proof -
    have "0 < length pts"
      using that by linarith
    then show ?thesis
      using nth_rows [of "length pts - 1" pts 0 t] unfolding point_def by simp
  qed
  ultimately show ?thesis
    by (simp add: evaluate_def mix_forms not_less)
qed

lemma snoc_map_upt: "map f [0..<n] @ [f n] = map f [0..<Suc n]"
  by simp

lemma left_points_polygon:
  assumes "pts \<noteq> []"
  shows "fst (left_points t pts) @ [snd (left_points t pts) ! 0] = polygon 0 t pts" "length (snd (left_points t pts)) = length pts"
proof -
  let ?d = "length pts - 1"
  have left: "left_points t pts = (map (\<lambda>j. rows t j pts ! 0) [0..<?d], rows t ?d pts)"
    using left_fold [where pts = pts and t = t and s = ?d] assms by (simp add: left_points_def mix_forms)
  have "rows t j pts ! 0 = seg ?d 0 t ((!) pts) j" if "j < length pts" for j
    using that assms nth_rows [of j pts 0 t] by (simp add: seg_def next_rows_one min_def)
  then show "fst (left_points t pts) @ [snd (left_points t pts) ! 0] = polygon 0 t pts"
    using assms snoc_map_upt [of "\<lambda>j. rows t j pts ! 0" ?d] by (simp add: left polygon_def)
  show "length (snd (left_points t pts)) = length pts"
    by (simp add: left)
qed

lemma map_rev_upt: "map f [0..<n] = rev (map (\<lambda>i. f (n - Suc i)) [0..<n])"
  by (rule nth_equalityI) (simp_all add: rev_nth)

lemma next_rows_shift: "(next_row t ^^ s) (\<lambda>i. p (i + k)) i = (next_row t ^^ s) p (i + k)"
  by (induction s arbitrary: i) (simp_all only: next_rows_Suc funpow_0 id_apply add_Suc)

lemma right_row: "j < length pts \<Longrightarrow> rows t j pts ! (length pts - Suc j) = seg (length pts - 1) t 1 ((!) pts) (length pts - Suc j)"
  using nth_rows [of j pts "length pts - Suc j" t] next_rows_shift [of j t "(!) pts" "length pts - Suc j" 0]
  by (simp add: seg_def next_rows_one min_def)

lemma right_points_polygon:
  assumes "pts \<noteq> []"
  shows "rev (fst (right_points t pts) @ [snd (right_points t pts) ! 0]) = polygon t 1 pts" "length (snd (right_points t pts)) = length pts"
proof -
  let ?d = "length pts - 1"
  have right: "right_points t pts = (map (\<lambda>j. rows t j pts ! (length pts - Suc j)) [0..<?d], rows t ?d pts)"
    using right_fold [where pts = pts and t = t and s = ?d] assms by (simp add: right_points_def mix_forms)
  have "map (\<lambda>j. rows t j pts ! (length pts - Suc j)) [0..<length pts] = rev (polygon t 1 pts)"
  proof -
    have "rows t (length pts - Suc i) pts ! i = seg ?d t 1 ((!) pts) i" if "i < length pts" for i
      using right_row [of "length pts - Suc i" pts t] that by simp
    then show ?thesis
      by (subst map_rev_upt) (simp add: polygon_def)
  qed
  then show "rev (fst (right_points t pts) @ [snd (right_points t pts) ! 0]) = polygon t 1 pts"
    using assms snoc_map_upt [of "\<lambda>j. rows t j pts ! (length pts - Suc j)" ?d] by (simp add: right)
  show "length (snd (right_points t pts)) = length pts"
    by (simp add: right)
qed

lemma getSegment_polygon: 
  "getSegment pts t1 t2 =
     (if t1 < 0 \<or> t2 > 1 then Inl (Exception ''Invalid segment parameters: must be between 0 and 1'')
      else if t2 \<le> t1 then Inl (Exception ''Invalid segment parameters: t1 must be smaller than t2'')
      else if pts = [] then Inl (Undefined_behaviour ''index past the end of a vector'')
      else Inr (polygon t1 t2 pts))"
proof (cases "0 \<le> t1 \<and> t2 \<le> 1 \<and> t1 < t2 \<and> pts \<noteq> []")
  case True
  let ?left = "polygon 0 t2 pts"
  have ne: "?left \<noteq> []"
    using True by (metis length_0_conv length_polygon)
  have "snd (left_points t2 pts) \<noteq> []" "snd (right_points (t1 / t2) ?left) \<noteq> []"
    using left_points_polygon(2) [of pts t2] right_points_polygon(2) [OF ne, of "t1 / t2"] True ne by auto
  then have "getSegment pts t1 t2 = Inr (polygon (t1 / t2) 1 ?left)"
    using True left_points_polygon [of pts t2] right_points_polygon [OF ne, of "t1 / t2"]
    by (simp add: getSegment_def element_def split_beta Let_def)
  then show ?thesis
    using True by (simp add: polygon_polygon)
next
  case False
  then show ?thesis
    by (auto simp: getSegment_def left_points_def element_def split_beta)
qed

lemma halves_polygon:
  assumes "pts \<noteq> []"
  shows "case halves pts of (left, right, ps) \<Rightarrow> left @ [ps ! 0] = polygon 0 (1 / 2) pts \<and> right @ [ps ! 0] = rev (polygon (1 / 2) 1 pts)"
proof -
  let ?d = "length pts - 1"
  have "halves pts = (fst (left_points (1 / 2) pts), fst (right_points (1 / 2) pts), rows (1 / 2) ?d pts)"
    using halves_fold [where pts = pts and t = "1 / 2" and s = ?d] left_fold [where pts = pts and t = "1 / 2" and s = ?d]
      right_fold [where pts = pts and t = "1 / 2" and s = ?d] assms
    by (simp add: halves_def left_points_def right_points_def mix_forms)
  moreover have "snd (left_points (1 / 2) pts) = rows (1 / 2) ?d pts" "snd (right_points (1 / 2) pts) = rows (1 / 2) ?d pts"
    using left_fold [where pts = pts and t = "1 / 2" and s = ?d] right_fold [where pts = pts and t = "1 / 2" and s = ?d] assms
    by (simp_all add: left_points_def right_points_def mix_forms)
  moreover have "fst (right_points (1 / 2) pts) @ [snd (right_points (1 / 2) pts) ! 0] = rev (polygon (1 / 2) 1 pts)"
    using right_points_polygon(1) [OF assms, of "1 / 2"] rev_swap by blast
  ultimately show ?thesis
    using left_points_polygon(1) [OF assms, of "1 / 2"] by simp
qed

section \<open>The curve as a polynomial\<close>

definition bernstein :: "real list \<Rightarrow> real \<Rightarrow> real" where
  "bernstein xs t = (\<Sum>i<length xs. real (length xs - 1 choose i) * t ^ i * (1 - t) ^ (length xs - 1 - i) * xs ! i)"

text \<open>The same rows for one coordinate.\<close>

primrec mixed :: "nat \<Rightarrow> real \<Rightarrow> (nat \<Rightarrow> real) \<Rightarrow> nat \<Rightarrow> real" where
  "mixed 0 t p i = p i"
| "mixed (Suc n) t p i = (1 - t) * mixed n t p i + t * mixed n t p (Suc i)"

lemma next_rows_mixed: "vec_x ((next_row t ^^ s) p i) = mixed s t (\<lambda>i. vec_x (p i)) i" "vec_y ((next_row t ^^ s) p i) = mixed s t (\<lambda>i. vec_y (p i)) i"
  by (induction s arbitrary: i) (simp_all only: next_rows_Suc mixed.simps mix_def vec_sel funpow_0 id_apply)

lemma mixed_Suc: "mixed n t p (Suc i) = mixed n t (\<lambda>i. p (Suc i)) i"
  by (induction n arbitrary: i) simp_all

lemma mixed_cong: "(\<And>j. j \<le> i + n \<Longrightarrow> p j = q j) \<Longrightarrow> mixed n t p i = mixed n t q i"
  by (induction n arbitrary: i) simp_all

lemma mixed_diff: "mixed n t (\<lambda>i. p i - q i) i = mixed n t p i - mixed n t q i"
  by (induction n arbitrary: i) (simp_all, simp add: algebra_simps)

lemma mixed_times: "mixed n t (\<lambda>i. p i * c) i = mixed n t p i * c"
  by (induction n arbitrary: i) (simp_all add: algebra_simps)

definition basis :: "nat \<Rightarrow> real \<Rightarrow> nat \<Rightarrow> real" where
  "basis n t i = real (n choose i) * t ^ i * (1 - t) ^ (n - i)"

lemma basis_Suc: "basis (Suc n) t (Suc i) = t * basis n t i + (1 - t) * basis n t (Suc i)"
proof (cases "i < n")
  case True
  then have "n - i = Suc (n - Suc i)"
    by simp
  then show ?thesis
    by (simp add: basis_def algebra_simps)
next
  case False
  then show ?thesis
    by (simp add: basis_def binomial_eq_0)
qed

lemma mixed_basis: "mixed n t p 0 = (\<Sum>i\<le>n. basis n t i * p i)"
proof (induction n arbitrary: p)
  case (Suc n)
  have "(\<Sum>i\<le>Suc n. basis (Suc n) t i * p i) = (1 - t) * basis n t 0 * p 0 + (\<Sum>i\<le>n. basis (Suc n) t (Suc i) * p (Suc i))"
    unfolding sum.atMost_Suc_shift by (simp add: basis_def)
  also have "\<dots> = (1 - t) * (basis n t 0 * p 0 + (\<Sum>i\<le>n. basis n t (Suc i) * p (Suc i))) + t * (\<Sum>i\<le>n. basis n t i * p (Suc i))"
    by (simp add: basis_Suc distrib_left distrib_right sum.distrib sum_distrib_left mult.assoc)
  also have "basis n t 0 * p 0 + (\<Sum>i\<le>n. basis n t (Suc i) * p (Suc i)) = (\<Sum>i\<le>Suc n. basis n t i * p i)"
    by (simp only: sum.atMost_Suc_shift)
  also have "\<dots> = (\<Sum>i\<le>n. basis n t i * p i)"
    by (simp add: basis_def)
  finally show ?case
    by (simp add: Suc.IH mixed_Suc)
qed (simp add: basis_def)

lemma bernstein_mixed: "xs \<noteq> [] \<Longrightarrow> bernstein xs t = mixed (length xs - 1) t ((!) xs) 0"
  by (cases xs) (simp_all add: bernstein_def mixed_basis basis_def lessThan_Suc_atMost)

lemma point_bernstein:
  assumes "pts \<noteq> []"
  shows "point pts t = vec (bernstein (map vec_x pts) t) (bernstein (map vec_y pts) t)"
proof -
  have "mixed (length pts - 1) t ((!) (map f pts)) 0 = mixed (length pts - 1) t (\<lambda>i. f (pts ! i)) 0" for f :: "vector2 \<Rightarrow> real"
    using assms by (intro mixed_cong nth_map) (cases pts; simp)
  then have "vec_x (point pts t) = bernstein (map vec_x pts) t" "vec_y (point pts t) = bernstein (map vec_y pts) t"
    using assms by (simp_all add: bernstein_mixed point_def next_rows_mixed)
  then show ?thesis
    by (simp add: vec_def)
qed

text \<open>Claim C5. Evaluating a curve by the scheme gives the polynomial its control points stand for, coordinate by
  coordinate, at every parameter between zero and one; any other parameter and any curve of fewer than two
  points is refused.\<close>

theorem evaluate_bernstein:
  "evaluate pts t =
     (if t < 0 \<or> t > 1 then Inl (Exception ''Invalid evaluation parameter: must be between 0 and 1'')
      else if length pts < 2 then Inl (Exception ''Invalid Bezier curve: Not enough control points.'')
      else Inr (vec (bernstein (map vec_x pts) t) (bernstein (map vec_y pts) t)))"
  using point_bernstein [of pts t] unfolding evaluate_point by (cases pts) simp_all

lemma point_polygon:
  assumes "pts \<noteq> []"
  shows "point (polygon a b pts) u = point pts (a + u * (b - a))"
proof -
  let ?d = "length pts - 1"
  have "point (polygon a b pts) u = (next_row u ^^ ?d) (seg ?d a b ((!) pts)) 0"
    unfolding point_def length_polygon
  proof (rule next_rows_cong)
    fix i assume "i \<le> 0 + ?d"
    then have "i < length pts"
      using assms by (cases pts) simp_all
    then show "polygon a b pts ! i = seg ?d a b ((!) pts) i"
      by (simp add: polygon_def)
  qed
  then show ?thesis
    using next_rows_seg [of 0 ?d ?d u a b] by (simp add: seg_def point_def)
qed

text \<open>Claim C15. A segment of a curve is again a curve with as many control points, and it runs through exactly the
  points of the given one between the two parameters, at the same pace.\<close>

theorem getSegment_evaluates:
  assumes "0 \<le> t1" "t1 < t2" "t2 \<le> 1" "2 \<le> length pts" "0 \<le> u" "u \<le> 1"
  shows "\<exists>part. getSegment pts t1 t2 = Inr part \<and> length part = length pts \<and>
    evaluate part u = evaluate pts (t1 + u * (t2 - t1))"
proof -
  have "t1 + u * (t2 - t1) = (1 - u) * t1 + u * t2"
    by (simp add: algebra_simps)
  then have high: "\<not> t1 + u * (t2 - t1) > 1"
    using assms convex_bound_le [of t1 1 t2 "1 - u" u] by simp
  have low: "\<not> t1 + u * (t2 - t1) < 0"
    using assms by (simp add: not_less)
  have ne: "pts \<noteq> []"
    using assms(4) by auto
  show ?thesis
    using assms ne by (intro exI [of _ "polygon t1 t2 pts"]) (simp add: getSegment_polygon evaluate_point high low point_polygon [OF ne])
qed

theorem getSegment_evaluates_witness:
  "\<exists>part. getSegment [vec 0 0, vec 1 2, vec 2 0] (1 / 4) (3 / 4) = Inr part \<and> length part = 3 \<and>
     evaluate part (1 / 2) = evaluate [vec 0 0, vec 1 2, vec 2 0] (1 / 2)"
  using getSegment_evaluates [of "1 / 4" "3 / 4" "[vec 0 0, vec 1 2, vec 2 0]" "1 / 2"]
  by (simp add: eval_nat_numeral)

section \<open>Rendering\<close>

text \<open>The points of a polygon without its two ends.\<close>

definition inner :: "vector2 list \<Rightarrow> vector2 list" where
  "inner q = butlast (tl q)"

definition joined :: "nat \<Rightarrow> vector2 list \<Rightarrow> vector2 list" where
  "joined m pts = concat (map (\<lambda>j. inner (polygon (real j / real m) (real (Suc j) / real m) pts)) [0..<m])"

lemma polygon_whole: "polygon 0 1 pts = pts"
proof (rule nth_equalityI)
  fix i assume "i < length (polygon 0 1 pts)"
  then show "polygon 0 1 pts ! i = pts ! i"
    by (simp add: polygon_def seg_def next_rows_one)
qed simp

lemma hd_polygon: "pts \<noteq> [] \<Longrightarrow> hd (polygon 0 b pts) = hd pts"
  by (cases pts) (simp_all add: polygon_def seg_def next_rows_one hd_map del: upt_Suc)

lemma last_polygon: "pts \<noteq> [] \<Longrightarrow> last (polygon a 1 pts) = last pts"
  by (cases pts rule: rev_cases) (simp_all add: polygon_def seg_def next_rows_one)

lemma joined_double:
  assumes "0 < m"
  shows "joined (2 * m) pts = joined m (polygon 0 (1 / 2) pts) @ joined m (polygon (1 / 2) 1 pts)"
proof -
  have upt: "[0..<2 * m] = [0..<m] @ map (\<lambda>j. m + j) [0..<m]"
    using upt_add_eq_append [of 0 m m] by (simp add: mult_2 map_add_upt add.commute)
  have low: "polygon (real j / real m) (real (Suc j) / real m) (polygon 0 (1 / 2) pts) =
      polygon (real j / real (2 * m)) (real (Suc j) / real (2 * m)) pts" for j
    by (simp add: polygon_polygon mult.commute)
  have high: "polygon (real j / real m) (real (Suc j) / real m) (polygon (1 / 2) 1 pts) =
      polygon (real (m + j) / real (2 * m)) (real (Suc (m + j)) / real (2 * m)) pts" for j
    using assms by (simp add: polygon_polygon add_divide_distrib mult.commute add.left_commute)
  show ?thesis
    unfolding joined_def upt map_append concat_append low high by (simp add: comp_def)
qed

lemma next_rows_rev: "k + s \<le> d \<Longrightarrow> (next_row (1 / 2) ^^ s) (\<lambda>i. p (d - i)) k = (next_row (1 / 2) ^^ s) p (d - k - s)"
proof (induction s arbitrary: k)
  case (Suc s)
  have "d - k - s = Suc (d - k - Suc s)" "d - Suc k - s = d - k - Suc s"
    using Suc.prems by simp_all
  then have "(next_row (1 / 2) ^^ s) (\<lambda>i. p (d - i)) k = (next_row (1 / 2) ^^ s) p (Suc (d - k - Suc s))"
    "(next_row (1 / 2) ^^ s) (\<lambda>i. p (d - i)) (Suc k) = (next_row (1 / 2) ^^ s) p (d - k - Suc s)"
    using Suc.IH [of k] Suc.IH [of "Suc k"] Suc.prems by simp_all
  then show ?case
    by (simp only: next_rows_Suc) (simp add: mix_def algebra_simps)
qed simp

lemma polygon_rev: "polygon 0 (1 / 2) (rev pts) = rev (polygon (1 / 2) 1 pts)"
proof (rule nth_equalityI)
  fix i assume "i < length (polygon 0 (1 / 2) (rev pts))"
  then have i: "i < length pts"
    by simp
  let ?d = "length pts - 1"
  have "polygon 0 (1 / 2) (rev pts) ! i = (next_row (1 / 2) ^^ i) ((!) (rev pts)) 0"
    using i by (simp add: polygon_def seg_def next_rows_one)
  also have "\<dots> = (next_row (1 / 2) ^^ i) (\<lambda>j. pts ! (?d - j)) 0"
    using i by (intro next_rows_cong) (simp add: rev_nth)
  also have "\<dots> = (next_row (1 / 2) ^^ i) ((!) pts) (?d - i)"
    using i next_rows_rev [of 0 i ?d "(!) pts"] by simp
  also have "\<dots> = rev (polygon (1 / 2) 1 pts) ! i"
    using i next_rows_shift [of i "1 / 2" "(!) pts" "?d - i" 0] by (simp add: polygon_def seg_def next_rows_one rev_nth)
  finally show "polygon 0 (1 / 2) (rev pts) ! i = rev (polygon (1 / 2) 1 pts) ! i" .
qed simp

lemma tl_rev: "tl (rev xs) = rev (butlast xs)"
  by (cases xs rule: rev_cases) simp_all

lemma subdivide_joined:
  "2 \<le> length pts \<Longrightarrow> subdivide pts k = hd pts # joined (2 ^ k) pts @ [last pts] \<and> subdivide (rev pts) k = rev (subdivide pts k)"
proof (induction k arbitrary: pts)
  case 0
  then obtain a xs b where "pts = a # xs @ [b]"
    by (cases pts; cases "tl pts" rule: rev_cases) auto
  then show ?case
    by (simp add: joined_def polygon_whole inner_def)
next
  case (Suc k)
  have merge: "subdivide qs (Suc k) = butlast (subdivide (polygon 0 (1 / 2) qs) k) @ tl (subdivide (polygon (1 / 2) 1 qs) k)"
    if "2 \<le> length qs" for qs
  proof -
    have "qs \<noteq> []"
      using that by auto
    obtain left right ps where h: "halves qs = (left, right, ps)"
      by (cases "halves qs")
    have poly: "left @ [ps ! 0] = polygon 0 (1 / 2) qs" "right @ [ps ! 0] = rev (polygon (1 / 2) 1 qs)"
      using halves_polygon [OF \<open>qs \<noteq> []\<close>] by (simp_all add: h)
    let ?l = "subdivide (polygon 0 (1 / 2) qs) k" and ?r = "subdivide (polygon (1 / 2) 1 qs) k"
    have right: "subdivide (right @ [ps ! 0]) k = rev ?r"
      using Suc.IH [of "polygon (1 / 2) 1 qs"] that by (simp add: poly)
    have "map (\<lambda>i. ?l ! i) [0..<length ?l - 1] = butlast ?l"
      by (rule nth_equalityI) (simp_all add: nth_butlast)
    moreover have "map (\<lambda>i. rev ?r ! (length ?r - i - 1)) [1..<length ?r] = tl ?r"
      by (rule nth_equalityI) (simp_all add: rev_nth nth_tl)
    ultimately show ?thesis
      by (simp add: h right poly(1))
  qed
  note ih = Suc.IH [of "polygon 0 (1 / 2) pts"] Suc.IH [of "polygon (1 / 2) 1 pts"]
  have "pts \<noteq> []"
    using Suc.prems by auto
  then have first: "subdivide pts (Suc k) = hd pts # joined (2 ^ Suc k) pts @ [last pts]"
    using merge [OF Suc.prems] ih Suc.prems by (simp add: hd_polygon last_polygon joined_double)
  have "subdivide (rev pts) (Suc k) = rev (subdivide pts (Suc k))"
    using merge [OF Suc.prems] merge [of "rev pts"] ih Suc.prems polygon_rev [of pts] polygon_rev [of "rev pts"]
    by (simp add: tl_rev rev_swap)
  then show ?case
    using first by blast
qed

text \<open>Claim C3. Rendering with accuracy \<open>k\<close> cuts the curve into \<open>2 ^ k\<close> segments of equal length in the parameter and answers their
  control polygons one after the other, without the points where two of them meet: the result starts and ends where
  the curve does and its length is known.\<close>

theorem render_joins_segments:
  assumes "2 \<le> length pts"
  shows "\<exists>parts. length parts = 2 ^ k \<and>
    (\<forall>j < 2 ^ k. getSegment pts (real j / 2 ^ k) (real (Suc j) / 2 ^ k) = Inr (parts ! j)) \<and>
    render_curve pts (int k) = Inr (hd pts # concat (map (\<lambda>q. butlast (tl q)) parts) @ [last pts]) \<and>
    length (concat (map (\<lambda>q. butlast (tl q)) parts)) = 2 ^ k * (length pts - 2)"
proof (intro exI conjI allI impI)
  let ?parts = "map (\<lambda>j. polygon (real j / 2 ^ k) (real (Suc j) / 2 ^ k) pts) [0..<2 ^ k]"
  have joined: "joined (2 ^ k) pts = concat (map (\<lambda>q. butlast (tl q)) ?parts)"
    by (simp add: joined_def inner_def comp_def)
  show "length ?parts = 2 ^ k"
    by simp
  show "getSegment pts (real j / 2 ^ k) (real (Suc j) / 2 ^ k) = Inr (?parts ! j)" if "j < 2 ^ k" for j
  proof -
    have "real (Suc j) \<le> 2 ^ k"
      using that by (metis Suc_leI of_nat_le_iff of_nat_numeral of_nat_power)
    then have "real (Suc j) / 2 ^ k \<le> 1"
      by simp
    moreover have "real j / 2 ^ k < real (Suc j) / 2 ^ k"
      by (simp add: divide_strict_right_mono)
    moreover have "pts \<noteq> []"
      using assms by auto
    ultimately show ?thesis
      using that by (simp add: getSegment_polygon not_less)
  qed
  show "render_curve pts (int k) = Inr (hd pts # concat (map (\<lambda>q. butlast (tl q)) ?parts) @ [last pts])"
    unfolding joined [symmetric] using assms subdivide_joined [OF assms, of k] by (simp add: render_curve_def)
  have "map length (map (\<lambda>q. butlast (tl q)) ?parts) = replicate (2 ^ k) (length pts - 2)"
    by (rule nth_equalityI) simp_all
  then show "length (concat (map (\<lambda>q. butlast (tl q)) ?parts)) = 2 ^ k * (length pts - 2)"
    by (simp only: length_concat) (simp add: sum_list_replicate)
qed

theorem render_joins_segments_witness:
  "\<exists>parts. length parts = 2 \<and> render_curve [vec 0 0, vec 1 2, vec 2 0] 1 = Inr (vec 0 0 # concat (map (\<lambda>q. butlast (tl q)) parts) @ [vec 2 0])"
  using render_joins_segments [of "[vec 0 0, vec 1 2, vec 2 0]" 1] by auto

text \<open>The test for a segment that runs backwards can never hold: such a request renders the whole curve.\<close>

lemma renderSegment_backwards:
  "2 \<le> length pts \<Longrightarrow> finish < start \<Longrightarrow> renderSegment pts start finish accuracy = render_curve pts accuracy"
  by (simp add: renderSegment_def render_curve_def Let_def)

section \<open>The derivative\<close>

lemma mixed_derivative:
  "((\<lambda>t. mixed n t p i) has_real_derivative real n * mixed (n - 1) t (\<lambda>i. p (Suc i) - p i) i) (at t)"
proof (induction n arbitrary: i)
  case (Suc n)
  let ?D = "\<lambda>i. real n * mixed (n - 1) t (\<lambda>i. p (Suc i) - p i) i"
  have "((\<lambda>t. (1 - t) * mixed n t p i + t * mixed n t p (Suc i)) has_real_derivative
      (0 - 1) * mixed n t p i + ?D i * (1 - t) + (1 * mixed n t p (Suc i) + ?D (Suc i) * t)) (at t)"
    by (intro derivative_intros Suc.IH)
  moreover have "mixed n t p (Suc i) - mixed n t p i = mixed n t (\<lambda>i. p (Suc i) - p i) i"
    by (simp add: mixed_Suc mixed_diff)
  moreover have "?D i * (1 - t) + ?D (Suc i) * t = real n * mixed n t (\<lambda>i. p (Suc i) - p i) i"
    by (cases n) (simp_all add: algebra_simps)
  ultimately show ?case
    by (simp add: algebra_simps)
qed simp

lemma bernstein_derivative:
  assumes "2 \<le> length xs"
  shows "(bernstein xs has_real_derivative
    bernstein (map (\<lambda>i. (xs ! Suc i - xs ! i) * real (length xs - 1)) [0..<length xs - 1]) t) (at t)"
proof -
  let ?d = "length xs - 1" and ?ds = "map (\<lambda>i. (xs ! Suc i - xs ! i) * real (length xs - 1)) [0..<length xs - 1]"
  have ne: "xs \<noteq> []" "?ds \<noteq> []"
    using assms by auto
  have "bernstein ?ds t = mixed (?d - 1) t (\<lambda>i. (xs ! Suc i - xs ! i) * real ?d) 0"
  proof -
    have "length ?ds - 1 = ?d - 1"
      by simp
    then show ?thesis
      unfolding bernstein_mixed [OF ne(2)] by (simp only:) (rule mixed_cong, use assms in auto)
  qed
  then have "bernstein ?ds t = real ?d * mixed (?d - 1) t (\<lambda>i. xs ! Suc i - xs ! i) 0"
    by (simp add: mixed_times)
  then show ?thesis
    using mixed_derivative [of ?d "(!) xs" 0 t] unfolding bernstein_mixed [OF ne(1), abs_def] by simp
qed

text \<open>The derivative of a curve is the curve whose polynomials are the derivatives of the given one's, at every
  parameter.\<close>

theorem getDerivative_derives:
  assumes "2 \<le> length pts" "length pts < 2 ^ 63"
  shows "\<exists>ds. getDerivative pts = Inr ds \<and> length ds = length pts - 1 \<and>
    (bernstein (map vec_x pts) has_real_derivative bernstein (map vec_x ds) t) (at t) \<and>
    (bernstein (map vec_y pts) has_real_derivative bernstein (map vec_y ds) t) (at t)"
proof -
  let ?d = "length pts - 1"
  define ds where "ds = map (\<lambda>i. vec_times (vec_minus (pts ! Suc i) (pts ! i)) (real ?d)) [0..<?d]"
  have "getDegree pts = ?d" "pts \<noteq> []"
    using assms by (auto simp: getDegree_def last_index_def mod_if)
  then have out: "getDerivative pts = Inr ds"
    using assms(1) by (simp add: getDerivative_def ds_def)
  have coords: "map vec_x ds = map (\<lambda>i. (map vec_x pts ! Suc i - map vec_x pts ! i) * real ?d) [0..<?d]"
    "map vec_y ds = map (\<lambda>i. (map vec_y pts ! Suc i - map vec_y pts ! i) * real ?d) [0..<?d]"
    by (auto simp: ds_def vec_times_def vec_minus_def)
  have "(bernstein (map vec_x pts) has_real_derivative bernstein (map vec_x ds) t) (at t)"
    "(bernstein (map vec_y pts) has_real_derivative bernstein (map vec_y ds) t) (at t)"
    using bernstein_derivative [of "map vec_x pts" t] bernstein_derivative [of "map vec_y pts" t] assms(1)
    unfolding length_map coords [symmetric] by simp_all
  then show ?thesis
    using out by (simp add: ds_def)
qed

theorem getDerivative_derives_witness:
  "\<exists>ds. getDerivative [vec 0 0, vec 1 2, vec 2 0] = Inr ds \<and>
     (bernstein [0, 2, 0] has_real_derivative bernstein (map vec_y ds) (1 / 2)) (at (1 / 2))"
  using getDerivative_derives [of "[vec 0 0, vec 1 2, vec 2 0]" "1 / 2"] by auto

section \<open>Moving a curve and editing its points\<close>

lemma next_rows_affine:
  assumes "\<And>u a b. h (mix u a b) = mix u (h a) (h b)"
  shows "(next_row t ^^ s) (\<lambda>i. h (p i)) i = h ((next_row t ^^ s) p i)"
  by (induction s arbitrary: i) (simp_all only: next_rows_Suc funpow_0 id_apply assms)

lemma evaluate_affine:
  assumes "\<And>u a b. h (mix u a b) = mix u (h a) (h b)"
  shows "evaluate (map h pts) t = bind_result (evaluate pts t) (\<lambda>v. Inr (h v))"
proof (cases "pts = []")
  case False
  have "point (map h pts) t = (next_row t ^^ (length pts - 1)) (\<lambda>i. h (pts ! i)) 0"
    unfolding point_def length_map using False by (intro next_rows_cong nth_map) (cases pts; simp)
  then have "point (map h pts) t = h (point pts t)"
    by (simp add: next_rows_affine [OF assms] point_def)
  then show ?thesis
    by (simp add: evaluate_point)
qed (simp add: evaluate_def)

text \<open>Moving, turning or scaling the control points moves, turns or scales every point of the curve the same way,
  whatever the C library answers for sine and cosine.\<close>

theorem moved_curve_evaluates:
  "evaluate (translate_curve v pts) t = bind_result (evaluate pts t) (\<lambda>p. Inr (vec_plus p v)) \<and>
   evaluate (scale_curve s center pts) t = bind_result (evaluate pts t) (\<lambda>p. Inr (hd (scale_curve s center [p]))) \<and>
   evaluate (rotate_curve c_cos c_sin phi center pts) t = bind_result (evaluate pts t) (\<lambda>p. Inr (hd (rotate_curve c_cos c_sin phi center [p])))"
  unfolding translate_curve_def scale_curve_def rotate_curve_def Let_def
  by (intro conjI evaluate_affine) (simp_all add: evaluate_affine mix_def vec_plus_def vec_minus_def vec_times_def algebra_simps)

declare raise_index.simps [simp del] lower_index.simps [simp del]

lemma raise_index_mod: "0 < n \<Longrightarrow> raise_index n i = (if i < 0 then i mod int n else i)"
proof (induction n i rule: raise_index.induct)
  case (1 n i)
  then show ?case
  proof (cases "i < 0")
    case True
    have step: "raise_index n i = raise_index n (i + int n)"
      using True 1 by (subst raise_index.simps) simp
    show ?thesis
    proof (cases "i + int n < 0")
      case False
      then have "(i + int n) mod int n = i + int n"
        using True by (intro mod_pos_pos_trivial) auto
      then show ?thesis
        using False True step 1 by simp
    qed (use 1 True step in simp)
  qed (simp add: raise_index.simps)
qed

lemma lower_index_mod: "0 < n \<Longrightarrow> 0 \<le> i \<Longrightarrow> b = n \<Longrightarrow> lower_index n b i = i mod int n"
proof (induction n b i rule: lower_index.induct)
  case (1 n b i)
  show ?case
  proof (cases "i \<ge> int n")
    case True
    have "lower_index n n i = lower_index n n (i - int n)"
      using True 1 by (subst lower_index.simps) simp
    also have "\<dots> = (i - int n) mod int n"
      using True 1 by simp
    finally show ?thesis
      using 1 by simp
  qed (use 1 in \<open>simp add: lower_index.simps\<close>)
qed

lemma wrapped_mod: "pts \<noteq> [] \<Longrightarrow> wrapped pts i = nat (i mod int (length pts))"
  by (simp add: wrapped_def raise_index_mod lower_index_mod)

lemma wrapped_less: "pts \<noteq> [] \<Longrightarrow> wrapped pts i < length pts"
  by (simp add: wrapped_mod nat_less_iff)

text \<open>An index counts from either end, and any number of times around; what was inserted at a place is removed there.\<close>

lemma control_point_edits:
  assumes "pts \<noteq> []"
  shows "getControlPoint pts i = Inr (pts ! nat (i mod int (length pts)))"
    and "bind_result (setControlPoint pts i v) (\<lambda>qs. getControlPoint qs i) = Inr v"
    and "0 \<le> j \<Longrightarrow> j \<le> int (length pts) \<Longrightarrow> insertControlPoint pts v j = take (nat j) pts @ v # drop (nat j) pts"
    and "0 \<le> j \<Longrightarrow> j \<le> int (length pts) \<Longrightarrow> removeControlPoint (insertControlPoint pts v j) j = Inr pts"
proof -
  show "getControlPoint pts i = Inr (pts ! nat (i mod int (length pts)))"
    using assms by (simp add: getControlPoint_def wrapped_mod)
  show "bind_result (setControlPoint pts i v) (\<lambda>qs. getControlPoint qs i) = Inr v"
    using assms wrapped_less [OF assms, of i] by (simp add: setControlPoint_def getControlPoint_def wrapped_def)
  show insert: "insertControlPoint pts v j = take (nat j) pts @ v # drop (nat j) pts" if "0 \<le> j" "j \<le> int (length pts)"
  proof -
    have "raise_index (length pts) j = j" "lower_index (length pts) (Suc (length pts)) j = j"
      using that by (subst raise_index.simps lower_index.simps; simp)+
    then show ?thesis
      using assms by (simp add: insertControlPoint_def Let_def)
  qed
  show "removeControlPoint (insertControlPoint pts v j) j = Inr pts" if "0 \<le> j" "j \<le> int (length pts)"
  proof -
    have "wrapped (take (nat j) pts @ v # drop (nat j) pts) j = nat j"
      using that by (simp add: wrapped_mod)
    then show ?thesis
      using that by (simp add: insert [OF that] removeControlPoint_def)
  qed
qed

end
