(* ===== verification/Transforms.thy ===== *)
theory Transforms
  imports Geometry
begin

text \<open>
  Matrices of four rows and columns (\<^verbatim>\<open>src/src/common/Matrix.h\<close> and \<^verbatim>\<open>.cpp\<close>) and the transforms that scripts
  hold (\<^verbatim>\<open>src/src/modules/math/Transform.h\<close> and \<^verbatim>\<open>.cpp\<close>), which keep the inverse of their matrix once it was asked
  for. A matrix is its sixteen elements, column after column; a \<^verbatim>\<open>float\<close> is a real number. The sine and
  cosine of the C library are parameters. Of the three ways the product is computed, by processor, this
  is the one in plain C++, whose sums the others compute in the same order or fused.
\<close>

section \<open>Matrices\<close>

text \<open>A function of the parts of a transform: place and angle, scale, origin, shear.\<close>

type_synonym 'a of_parts =
  "real \<Rightarrow> real \<Rightarrow> real \<Rightarrow> (real \<Rightarrow> real \<Rightarrow> (real \<Rightarrow> real \<Rightarrow> (real \<Rightarrow> real \<Rightarrow> 'a)))"

datatype matrix4 = M4 real real real real real real real real real real real real real real real real

fun mat_multiply :: "matrix4 \<Rightarrow> matrix4 \<Rightarrow> matrix4" where
  "mat_multiply (M4 a0 a1 a2 a3 a4 a5 a6 a7 a8 a9 a10 a11 a12 a13 a14 a15)
     (M4 b0 b1 b2 b3 b4 b5 b6 b7 b8 b9 b10 b11 b12 b13 b14 b15) =
     M4 ((a0 * b0) + (a4 * b1) + (a8 * b2) + (a12 * b3))
       ((a1 * b0) + (a5 * b1) + (a9 * b2) + (a13 * b3))
       ((a2 * b0) + (a6 * b1) + (a10 * b2) + (a14 * b3))
       ((a3 * b0) + (a7 * b1) + (a11 * b2) + (a15 * b3))
       ((a0 * b4) + (a4 * b5) + (a8 * b6) + (a12 * b7))
       ((a1 * b4) + (a5 * b5) + (a9 * b6) + (a13 * b7))
       ((a2 * b4) + (a6 * b5) + (a10 * b6) + (a14 * b7))
       ((a3 * b4) + (a7 * b5) + (a11 * b6) + (a15 * b7))
       ((a0 * b8) + (a4 * b9) + (a8 * b10) + (a12 * b11))
       ((a1 * b8) + (a5 * b9) + (a9 * b10) + (a13 * b11))
       ((a2 * b8) + (a6 * b9) + (a10 * b10) + (a14 * b11))
       ((a3 * b8) + (a7 * b9) + (a11 * b10) + (a15 * b11))
       ((a0 * b12) + (a4 * b13) + (a8 * b14) + (a12 * b15))
       ((a1 * b12) + (a5 * b13) + (a9 * b14) + (a13 * b15))
       ((a2 * b12) + (a6 * b13) + (a10 * b14) + (a14 * b15))
       ((a3 * b12) + (a7 * b13) + (a11 * b14) + (a15 * b15))"

definition mat_identity :: matrix4 where
  "mat_identity = M4 1 0 0 0 0 1 0 0 0 0 1 0 0 0 0 1"

definition mat_translation :: "real \<Rightarrow> real \<Rightarrow> matrix4" where
  "mat_translation x y = M4 1 0 0 0 0 1 0 0 0 0 1 0 x y 0 1"

definition mat_rotation :: "(real \<Rightarrow> real) \<Rightarrow> (real \<Rightarrow> real) \<Rightarrow> real \<Rightarrow> matrix4" where
  "mat_rotation c_cos c_sin rad = (let c = c_cos rad; s = c_sin rad in M4 c s 0 0 (- s) c 0 0 0 0 1 0 0 0 0 1)"

definition mat_scale :: "real \<Rightarrow> real \<Rightarrow> matrix4" where
  "mat_scale sx sy = M4 sx 0 0 0 0 sy 0 0 0 0 1 0 0 0 0 1"

definition mat_shear :: "real \<Rightarrow> real \<Rightarrow> matrix4" where
  "mat_shear kx ky = M4 1 ky 0 0 kx 1 0 0 0 0 1 0 0 0 0 1"

definition mat_raw :: "real \<Rightarrow> real \<Rightarrow> real \<Rightarrow> real \<Rightarrow> real \<Rightarrow> real \<Rightarrow> matrix4" where
  "mat_raw t00 t10 t01 t11 x y = M4 t00 t10 0 0 t01 t11 0 0 0 0 1 0 x y 0 1"

definition mat_transformation ::
  "(real \<Rightarrow> real) \<Rightarrow> (real \<Rightarrow> real) \<Rightarrow> matrix4 of_parts" where
  "mat_transformation c_cos c_sin x y angle sx sy ox oy kx ky =
     (let c = c_cos angle; s = c_sin angle;
          e0 = c * sx - ky * s * sy;
          e1 = s * sx + ky * c * sy;
          e4 = kx * c * sx - s * sy;
          e5 = kx * s * sx + c * sy
      in M4 e0 e1 0 0 e4 e5 0 0 0 0 1 0 (x - ox * e0 - oy * e4) (y - ox * e1 - oy * e5) 0 1)"

fun isAffine2DTransform :: "matrix4 \<Rightarrow> bool" where
  "isAffine2DTransform (M4 e0 e1 e2 e3 e4 e5 e6 e7 e8 e9 e10 e11 e12 e13 e14 e15) \<longleftrightarrow>
     \<bar>e2 + e3 + e6 + e7 + e8 + e9 + e11 + e14\<bar> < 1 / 100000 \<and> \<bar>e10 + e15 - 2\<bar> < 1 / 100000"

text \<open>The first half of \<^verbatim>\<open>Matrix4::inverse\<close>, before the division by the determinant.\<close>

fun cofactors :: "matrix4 \<Rightarrow> matrix4" where
  "cofactors (M4 e0 e1 e2 e3 e4 e5 e6 e7 e8 e9 e10 e11 e12 e13 e14 e15) =
     M4 (e5 * e10 * e15 - e5 * e11 * e14 - e9 * e6 * e15 + e9 * e7 * e14 + e13 * e6 * e11 - e13 * e7 * e10)
       (- e1 * e10 * e15 + e1 * e11 * e14 + e9 * e2 * e15 - e9 * e3 * e14 - e13 * e2 * e11 + e13 * e3 * e10)
       (e1 * e6 * e15 - e1 * e7 * e14 - e5 * e2 * e15 + e5 * e3 * e14 + e13 * e2 * e7 - e13 * e3 * e6)
       (- e1 * e6 * e11 + e1 * e7 * e10 + e5 * e2 * e11 - e5 * e3 * e10 - e9 * e2 * e7 + e9 * e3 * e6)
       (- e4 * e10 * e15 + e4 * e11 * e14 + e8 * e6 * e15 - e8 * e7 * e14 - e12 * e6 * e11 + e12 * e7 * e10)
       (e0 * e10 * e15 - e0 * e11 * e14 - e8 * e2 * e15 + e8 * e3 * e14 + e12 * e2 * e11 - e12 * e3 * e10)
       (- e0 * e6 * e15 + e0 * e7 * e14 + e4 * e2 * e15 - e4 * e3 * e14 - e12 * e2 * e7 + e12 * e3 * e6)
       (e0 * e6 * e11 - e0 * e7 * e10 - e4 * e2 * e11 + e4 * e3 * e10 + e8 * e2 * e7 - e8 * e3 * e6)
       (e4 * e9 * e15 - e4 * e11 * e13 - e8 * e5 * e15 + e8 * e7 * e13 + e12 * e5 * e11 - e12 * e7 * e9)
       (- e0 * e9 * e15 + e0 * e11 * e13 + e8 * e1 * e15 - e8 * e3 * e13 - e12 * e1 * e11 + e12 * e3 * e9)
       (e0 * e5 * e15 - e0 * e7 * e13 - e4 * e1 * e15 + e4 * e3 * e13 + e12 * e1 * e7 - e12 * e3 * e5)
       (- e0 * e5 * e11 + e0 * e7 * e9 + e4 * e1 * e11 - e4 * e3 * e9 - e8 * e1 * e7 + e8 * e3 * e5)
       (- e4 * e9 * e14 + e4 * e10 * e13 + e8 * e5 * e14 - e8 * e6 * e13 - e12 * e5 * e10 + e12 * e6 * e9)
       (e0 * e9 * e14 - e0 * e10 * e13 - e8 * e1 * e14 + e8 * e2 * e13 + e12 * e1 * e10 - e12 * e2 * e9)
       (- e0 * e5 * e14 + e0 * e6 * e13 + e4 * e1 * e14 - e4 * e2 * e13 - e12 * e1 * e6 + e12 * e2 * e5)
       (e0 * e5 * e10 - e0 * e6 * e9 - e4 * e1 * e10 + e4 * e2 * e9 + e8 * e1 * e6 - e8 * e2 * e5)"

fun determinant :: "matrix4 \<Rightarrow> matrix4 \<Rightarrow> real" where
  "determinant (M4 e0 e1 e2 e3 e4 e5 e6 e7 e8 e9 e10 e11 e12 e13 e14 e15) (M4 i0 i1 i2 i3 i4 i5 i6 i7 i8 i9 i10 i11 i12 i13 i14 i15) =
     e0 * i0 + e1 * i4 + e2 * i8 + e3 * i12"

fun mat_times :: "real \<Rightarrow> matrix4 \<Rightarrow> matrix4" where
  "mat_times r (M4 e0 e1 e2 e3 e4 e5 e6 e7 e8 e9 e10 e11 e12 e13 e14 e15) =
     M4 (e0 * r) (e1 * r) (e2 * r) (e3 * r) (e4 * r) (e5 * r) (e6 * r) (e7 * r) (e8 * r) (e9 * r) (e10 * r) (e11 * r)
       (e12 * r) (e13 * r) (e14 * r) (e15 * r)"

definition mat_inverse :: "matrix4 \<Rightarrow> matrix4" where
  "mat_inverse m = (let inv = cofactors m; det = determinant m inv; invdet = 1 / det in mat_times invdet inv)"

text \<open>The elements as the array they are, and its rows and columns. An index past the fourth row or column writes or reads
  outside the array, here \<^verbatim>\<open>None\<close>.\<close>

type_synonym vector4 = "real \<times> real \<times> real \<times> real"

fun getElements :: "matrix4 \<Rightarrow> real list" where
  "getElements (M4 e0 e1 e2 e3 e4 e5 e6 e7 e8 e9 e10 e11 e12 e13 e14 e15) =
     [e0, e1, e2, e3, e4, e5, e6, e7, e8, e9, e10, e11, e12, e13, e14, e15]"

definition mat_of_elements :: "real list \<Rightarrow> matrix4" where
  "mat_of_elements e = M4 (e ! 0) (e ! 1) (e ! 2) (e ! 3) (e ! 4) (e ! 5) (e ! 6) (e ! 7) (e ! 8) (e ! 9) (e ! 10) (e ! 11)
     (e ! 12) (e ! 13) (e ! 14) (e ! 15)"

fun setRow :: "nat \<Rightarrow> vector4 \<Rightarrow> matrix4 \<Rightarrow> matrix4 option" where
  "setRow r (x, y, z, w) m =
     (if r < 4 then Some (mat_of_elements ((getElements m)[0 * 4 + r := x, 1 * 4 + r := y, 2 * 4 + r := z, 3 * 4 + r := w])) else None)"

definition getRow :: "nat \<Rightarrow> matrix4 \<Rightarrow> vector4 option" where
  "getRow r m =
     (let e = getElements m in if r < 4 then Some (e ! (0 * 4 + r), e ! (1 * 4 + r), e ! (2 * 4 + r), e ! (3 * 4 + r)) else None)"

fun setColumn :: "nat \<Rightarrow> vector4 \<Rightarrow> matrix4 \<Rightarrow> matrix4 option" where
  "setColumn c (x, y, z, w) m =
     (if c < 4 then Some (mat_of_elements ((getElements m)[c * 4 + 0 := x, c * 4 + 1 := y, c * 4 + 2 := z, c * 4 + 3 := w])) else None)"

definition getColumn :: "nat \<Rightarrow> matrix4 \<Rightarrow> vector4 option" where
  "getColumn c m =
     (let e = getElements m in if c < 4 then Some (e ! (c * 4 + 0), e ! (c * 4 + 1), e ! (c * 4 + 2), e ! (c * 4 + 3)) else None)"

definition getApproximateScale :: "(real \<Rightarrow> real) \<Rightarrow> matrix4 \<Rightarrow> real \<times> real" where
  "getApproximateScale c_sqrt m =
     (let e = getElements m in (c_sqrt (e ! 0 * e ! 0 + e ! 4 * e ! 4), c_sqrt (e ! 1 * e ! 1 + e ! 5 * e ! 5)))"

text \<open>Projections.\<close>

definition ortho :: "real \<Rightarrow> real \<Rightarrow> real \<Rightarrow> real \<Rightarrow> real \<Rightarrow> real \<Rightarrow> matrix4" where
  "ortho left right bottom top' near far =
     M4 (2 / (right - left)) 0 0 0
       0 (2 / (top' - bottom)) 0 0
       0 0 (- 2 / (far - near)) 0
       (- (right + left) / (right - left)) (- (top' + bottom) / (top' - bottom)) (- (far + near) / (far - near)) 1"

definition perspective :: "(real \<Rightarrow> real) \<Rightarrow> real \<Rightarrow> real \<Rightarrow> real \<Rightarrow> real \<Rightarrow> matrix4" where
  "perspective c_tan verticalfov aspect near far =
     (let cotangent = 1 / c_tan (verticalfov * (1 / 2))
      in M4 (cotangent / aspect) 0 0 0
           0 cotangent 0 0
           0 0 ((far + near) / (near - far)) (- 1)
           0 0 (2 * near * far / (near - far)) 0)"

text \<open>Transforming points, one of an array's each; the third has three coordinates.\<close>

fun transformXY :: "matrix4 \<Rightarrow> vector2 \<Rightarrow> vector2" where
  "transformXY (M4 e0 e1 e2 e3 e4 e5 e6 e7 e8 e9 e10 e11 e12 e13 e14 e15) p =
     vec (e0 * vec_x p + e4 * vec_y p + 0 + e12) (e1 * vec_x p + e5 * vec_y p + 0 + e13)"

type_synonym vector3 = "real \<times> real \<times> real"

fun transformXY0 :: "matrix4 \<Rightarrow> vector2 \<Rightarrow> vector3" where
  "transformXY0 (M4 e0 e1 e2 e3 e4 e5 e6 e7 e8 e9 e10 e11 e12 e13 e14 e15) p =
     (e0 * vec_x p + e4 * vec_y p + 0 + e12, e1 * vec_x p + e5 * vec_y p + 0 + e13, e2 * vec_x p + e6 * vec_y p + 0 + e14)"

fun transformXYZ :: "matrix4 \<Rightarrow> vector3 \<Rightarrow> vector3" where
  "transformXYZ (M4 e0 e1 e2 e3 e4 e5 e6 e7 e8 e9 e10 e11 e12 e13 e14 e15) (x, y, z) =
     (e0 * x + e4 * y + e8 * z + e12, e1 * x + e5 * y + e9 * z + e13, e2 * x + e6 * y + e10 * z + e14)"

section \<open>Matrices of three rows\<close>

datatype matrix3 = M3 real real real real real real real real real

definition mat3_identity :: matrix3 where
  "mat3_identity = M3 1 0 0 0 1 0 0 0 1"

fun mat3_of :: "matrix4 \<Rightarrow> matrix3" where
  "mat3_of (M4 e0 e1 e2 e3 e4 e5 e6 e7 e8 e9 e10 e11 e12 e13 e14 e15) = M3 e0 e1 e2 e4 e5 e6 e8 e9 e10"

fun mat3_multiply :: "matrix3 \<Rightarrow> matrix3 \<Rightarrow> matrix3" where
  "mat3_multiply (M3 e0 e1 e2 e3 e4 e5 e6 e7 e8) (M3 m0 m1 m2 m3 m4 m5 m6 m7 m8) =
     M3 ((e0 * m0) + (e3 * m1) + (e6 * m2))
       ((e1 * m0) + (e4 * m1) + (e7 * m2))
       ((e2 * m0) + (e5 * m1) + (e8 * m2))
       ((e0 * m3) + (e3 * m4) + (e6 * m5))
       ((e1 * m3) + (e4 * m4) + (e7 * m5))
       ((e2 * m3) + (e5 * m4) + (e8 * m5))
       ((e0 * m6) + (e3 * m7) + (e6 * m8))
       ((e1 * m6) + (e4 * m7) + (e7 * m8))
       ((e2 * m6) + (e5 * m7) + (e8 * m8))"

fun mat3_det :: "matrix3 \<Rightarrow> real" where
  "mat3_det (M3 e0 e1 e2 e3 e4 e5 e6 e7 e8) =
     e0 * (e4 * e8 - e7 * e5) - e1 * (e3 * e8 - e5 * e6) + e2 * (e3 * e7 - e4 * e6)"

fun transposedInverse :: "matrix3 \<Rightarrow> matrix3" where
  "transposedInverse (M3 e0 e1 e2 e3 e4 e5 e6 e7 e8) =
     (let det = mat3_det (M3 e0 e1 e2 e3 e4 e5 e6 e7 e8); invdet = 1 / det
      in M3 (invdet * (e4 * e8 - e7 * e5))
           (- invdet * (e3 * e8 - e5 * e6))
           (invdet * (e3 * e7 - e6 * e4))
           (- invdet * (e1 * e8 - e2 * e7))
           (invdet * (e0 * e8 - e2 * e6))
           (- invdet * (e0 * e7 - e6 * e1))
           (invdet * (e1 * e5 - e2 * e4))
           (- invdet * (e0 * e5 - e3 * e2))
           (invdet * (e0 * e4 - e3 * e1)))"

definition mat3_transformation ::
  "(real \<Rightarrow> real) \<Rightarrow> (real \<Rightarrow> real) \<Rightarrow> matrix3 of_parts" where
  "mat3_transformation c_cos c_sin x y angle sx sy ox oy kx ky =
     (let c = c_cos angle; s = c_sin angle;
          e0 = c * sx - ky * s * sy;
          e1 = s * sx + ky * c * sy;
          e3 = kx * c * sx - s * sy;
          e4 = kx * s * sx + c * sy
      in M3 e0 e1 0 e3 e4 0 (x - ox * e0 - oy * e3) (y - ox * e1 - oy * e4) 1)"

fun mat3_transformXY :: "matrix3 \<Rightarrow> vector2 \<Rightarrow> vector2" where
  "mat3_transformXY (M3 e0 e1 e2 e3 e4 e5 e6 e7 e8) p =
     vec (e0 * vec_x p + e3 * vec_y p + e6) (e1 * vec_x p + e4 * vec_y p + e7)"

section \<open>Transforms\<close>

record transform =
  t_matrix :: matrix4
  t_inverseDirty :: bool
  t_inverseMatrix :: matrix4

definition new_transform :: "matrix4 \<Rightarrow> transform" where
  "new_transform m = \<lparr>t_matrix = m, t_inverseDirty = True, t_inverseMatrix = mat_identity\<rparr>"

definition getInverseMatrix :: "transform \<Rightarrow> transform \<times> matrix4" where
  "getInverseMatrix t =
     (let t = (if t_inverseDirty t then t\<lparr>t_inverseDirty := False, t_inverseMatrix := mat_inverse (t_matrix t)\<rparr> else t)
      in (t, t_inverseMatrix t))"

definition inverse_transform :: "transform \<Rightarrow> transform \<times> transform" where
  "inverse_transform t = (let (t, m) = getInverseMatrix t in (t, new_transform m))"

text \<open>Every change of the matrix marks the inverse as out of date.\<close>

definition setMatrix :: "matrix4 \<Rightarrow> transform \<Rightarrow> transform" where
  "setMatrix m t = t\<lparr>t_matrix := m, t_inverseDirty := True\<rparr>"

definition t_apply :: "transform \<Rightarrow> transform \<Rightarrow> transform" where
  "t_apply other t = t\<lparr>t_matrix := mat_multiply (t_matrix t) (t_matrix other), t_inverseDirty := True\<rparr>"

definition t_translate :: "real \<Rightarrow> real \<Rightarrow> transform \<Rightarrow> transform" where
  "t_translate x y t = t\<lparr>t_matrix := mat_multiply (t_matrix t) (mat_translation x y), t_inverseDirty := True\<rparr>"

definition t_rotate :: "(real \<Rightarrow> real) \<Rightarrow> (real \<Rightarrow> real) \<Rightarrow> real \<Rightarrow> transform \<Rightarrow> transform" where
  "t_rotate c_cos c_sin angle t =
     t\<lparr>t_matrix := mat_multiply (t_matrix t) (mat_rotation c_cos c_sin angle), t_inverseDirty := True\<rparr>"

definition t_scale :: "real \<Rightarrow> real \<Rightarrow> transform \<Rightarrow> transform" where
  "t_scale x y t = t\<lparr>t_matrix := mat_multiply (t_matrix t) (mat_scale x y), t_inverseDirty := True\<rparr>"

definition t_shear :: "real \<Rightarrow> real \<Rightarrow> transform \<Rightarrow> transform" where
  "t_shear x y t = t\<lparr>t_matrix := mat_multiply (t_matrix t) (mat_shear x y), t_inverseDirty := True\<rparr>"

definition t_reset :: "transform \<Rightarrow> transform" where
  "t_reset t = t\<lparr>t_matrix := mat_identity, t_inverseDirty := True\<rparr>"

definition t_setTransformation ::
  "(real \<Rightarrow> real) \<Rightarrow> (real \<Rightarrow> real) \<Rightarrow> (transform \<Rightarrow> transform) of_parts" where
  "t_setTransformation c_cos c_sin x y a sx sy ox oy kx ky t =
     t\<lparr>t_matrix := mat_transformation c_cos c_sin x y a sx sy ox oy kx ky, t_inverseDirty := True\<rparr>"

definition transformPoint :: "transform \<Rightarrow> vector2 \<Rightarrow> vector2" where
  "transformPoint t p = transformXY (t_matrix t) p"

definition inverseTransformPoint :: "transform \<Rightarrow> vector2 \<Rightarrow> transform \<times> vector2" where
  "inverseTransformPoint t p = (let (t, m) = getInverseMatrix t in (t, transformXY m p))"

section \<open>The inverse of a matrix\<close>

abbreviation det4 :: "matrix4 \<Rightarrow> real" where
  "det4 m \<equiv> determinant m (cofactors m)"

lemma multiply_cofactors:
  "mat_multiply m (cofactors m) = mat_times (det4 m) mat_identity"
  "mat_multiply (cofactors m) m = mat_times (det4 m) mat_identity"
  by (cases m; simp add: mat_identity_def algebra_simps)+

lemma multiply_times:
  "mat_multiply m (mat_times r n) = mat_times r (mat_multiply m n)"
  "mat_multiply (mat_times r m) n = mat_times r (mat_multiply m n)"
  by (cases m; cases n; simp add: algebra_simps)+

lemma mat_inverse_inverts:
  assumes "det4 m \<noteq> 0"
  shows "mat_multiply m (mat_inverse m) = mat_identity" "mat_multiply (mat_inverse m) m = mat_identity"
  using assms by (simp_all add: mat_inverse_def Let_def multiply_times multiply_cofactors) (simp_all add: mat_identity_def)

section \<open>Rows, columns, projections and normals\<close>

lemma getElements_of: "length e = 16 \<Longrightarrow> getElements (mat_of_elements e) = e"
  by (auto simp: mat_of_elements_def numeral_eq_Suc length_Suc_conv)

lemma length_getElements [simp]: "length (getElements m) = 16"
  by (cases m) simp

lemma get_set_row: "r < 4 \<Longrightarrow> r' < 4 \<Longrightarrow> setRow r v m = Some m' \<Longrightarrow> getRow r' m' = (if r' = r then Some v else getRow r' m)"
  by (cases v) (auto simp: getRow_def getElements_of Let_def nth_list_update)

lemma get_set_column:
  "c < 4 \<Longrightarrow> c' < 4 \<Longrightarrow> setColumn c v m = Some m' \<Longrightarrow> getColumn c' m' = (if c' = c then Some v else getColumn c' m)"
  by (cases v) (auto simp: getColumn_def getElements_of Let_def nth_list_update)

text \<open>An orthographic projection takes opposite corners of its box to opposite corners of the unit box, with the depth turned.\<close>

lemma ortho_corners:
  assumes "left \<noteq> right" "bottom \<noteq> top'" "near \<noteq> far"
  shows "transformXYZ (ortho left right bottom top' near far) (left, bottom, - near) = (- 1, - 1, - 1)"
    "transformXYZ (ortho left right bottom top' near far) (right, top', - far) = (1, 1, 1)"
  using assms by (simp_all add: ortho_def divide_simps)

text \<open>Transforming a direction that stands at right angles to a surface by the inverse, transposed, keeps the right angle: the
  two products meet again in the identity.\<close>

fun transpose3 :: "matrix3 \<Rightarrow> matrix3" where
  "transpose3 (M3 e0 e1 e2 e3 e4 e5 e6 e7 e8) = M3 e0 e3 e6 e1 e4 e7 e2 e5 e8"

lemma transposedInverse_inverts:
  assumes "mat3_det m \<noteq> 0"
  shows "mat3_multiply (transpose3 (transposedInverse m)) m = mat3_identity" "mat3_multiply m (transpose3 (transposedInverse m)) = mat3_identity"
  using assms
  by (cases m, simp add: mat3_identity_def Let_def divide_simps, simp add: algebra_simps)+

lemma mat3_transformXY_eq:
  "mat3_transformXY (mat3_transformation c_cos c_sin x y a sx sy ox oy kx ky) p = transformXY (mat_transformation c_cos c_sin x y a sx sy ox oy kx ky) p"
  by (simp add: mat3_transformation_def mat_transformation_def Let_def)

section \<open>Transforms of the plane\<close>

fun plane :: "matrix4 \<Rightarrow> bool" where
  "plane (M4 e0 e1 e2 e3 e4 e5 e6 e7 e8 e9 e10 e11 e12 e13 e14 e15) \<longleftrightarrow>
     e2 = 0 \<and> e3 = 0 \<and> e6 = 0 \<and> e7 = 0 \<and> e8 = 0 \<and> e9 = 0 \<and> e10 = 1 \<and> e11 = 0 \<and> e14 = 0 \<and> e15 = 1"

lemma plane_made [simp]:
  "plane mat_identity" "plane (mat_translation x y)" "plane (mat_rotation c_cos c_sin a)" "plane (mat_scale x y)" "plane (mat_shear x y)"
  "plane (mat_transformation c_cos c_sin x y a sx sy ox oy kx ky)"
  by (simp_all add: mat_identity_def mat_translation_def mat_rotation_def mat_scale_def mat_shear_def mat_transformation_def Let_def)

lemma plane_multiply [simp]: "plane m \<Longrightarrow> plane n \<Longrightarrow> plane (mat_multiply m n)"
  by (cases m; cases n; simp)

lemma plane_isAffine: "plane m \<Longrightarrow> isAffine2DTransform m"
  by (cases m) simp

lemma plane_inverse:
  assumes "plane m" "det4 m \<noteq> 0"
  shows "plane (mat_inverse m)"
  using assms by (cases m) (simp add: mat_inverse_def Let_def)

lemma transformXY_multiply: "plane n \<Longrightarrow> transformXY (mat_multiply m n) p = transformXY m (transformXY n p)"
  by (cases m; cases n; simp add: algebra_simps)

lemma transformXY_identity: "transformXY mat_identity p = p"
  by (simp add: mat_identity_def vec_def)

text \<open>What scripts do with a transform, and the questions that fill its cache.\<close>

inductive transform_step :: "(real \<Rightarrow> real) \<Rightarrow> (real \<Rightarrow> real) \<Rightarrow> transform \<Rightarrow> transform \<Rightarrow> bool" for c_cos c_sin where
  "transform_step c_cos c_sin t (t_translate x y t)"
| "transform_step c_cos c_sin t (t_rotate c_cos c_sin a t)"
| "transform_step c_cos c_sin t (t_scale x y t)"
| "transform_step c_cos c_sin t (t_shear x y t)"
| "transform_step c_cos c_sin t (t_reset t)"
| "transform_step c_cos c_sin t (t_setTransformation c_cos c_sin x y a sx sy ox oy kx ky t)"
| "plane (t_matrix other) \<Longrightarrow> transform_step c_cos c_sin t (t_apply other t)"
| "plane m \<Longrightarrow> transform_step c_cos c_sin t (setMatrix m t)"
| "transform_step c_cos c_sin t (fst (inverse_transform t))"
| "transform_step c_cos c_sin t (fst (inverseTransformPoint t p))"

definition transform_ok :: "transform \<Rightarrow> bool" where
  "transform_ok t \<longleftrightarrow> plane (t_matrix t) \<and> (t_inverseDirty t \<or> t_inverseMatrix t = mat_inverse (t_matrix t))"

lemma transform_step_ok: "transform_step c_cos c_sin t t' \<Longrightarrow> transform_ok t \<Longrightarrow> transform_ok t'"
  by (induction rule: transform_step.induct)
    (auto simp: transform_ok_def t_translate_def t_rotate_def t_scale_def t_shear_def t_reset_def t_setTransformation_def t_apply_def setMatrix_def
      inverse_transform_def inverseTransformPoint_def getInverseMatrix_def Let_def split_beta)

lemma transform_steps_ok: "(transform_step c_cos c_sin)\<^sup>*\<^sup>* t t' \<Longrightarrow> transform_ok t \<Longrightarrow> transform_ok t'"
  by (induction rule: rtranclp_induct) (auto intro: transform_step_ok)

lemma getInverseMatrix_ok: "transform_ok t \<Longrightarrow> snd (getInverseMatrix t) = mat_inverse (t_matrix t)"
  by (auto simp: transform_ok_def getInverseMatrix_def Let_def)

text \<open>Claim C20. However a transform of the plane was built, changed and asked before, its inverse is up to date: as long as its
  matrix can be inverted, transforming a point and transforming it back gives the point, in either order, and asking does not
  change the transform.\<close>

theorem transform_sessions:
  assumes "plane m" "(transform_step c_cos c_sin)\<^sup>*\<^sup>* (new_transform m) t" "det4 (t_matrix t) \<noteq> 0"
  shows "snd (inverseTransformPoint t (transformPoint t p)) = p \<and> transformPoint t (snd (inverseTransformPoint t p)) = p \<and>
    t_matrix (fst (inverseTransformPoint t p)) = t_matrix t"
proof -
  have "transform_ok (new_transform m)"
    using assms(1) by (simp add: transform_ok_def new_transform_def)
  then have ok: "transform_ok t"
    by (rule transform_steps_ok [OF assms(2)])
  then have plane: "plane (t_matrix t)"
    by (simp add: transform_ok_def)
  have "snd (inverseTransformPoint t q) = transformXY (mat_inverse (t_matrix t)) q" for q
    using getInverseMatrix_ok [OF ok] by (simp add: inverseTransformPoint_def split_beta)
  moreover have "t_matrix (fst (inverseTransformPoint t p)) = t_matrix t"
    by (simp add: inverseTransformPoint_def getInverseMatrix_def split_beta Let_def)
  ultimately show ?thesis
    using assms(3) plane plane_inverse [OF plane assms(3)]
    by (simp add: transformPoint_def mat_inverse_inverts transformXY_identity flip: transformXY_multiply)
qed

theorem transform_sessions_witness:
  "snd (inverseTransformPoint (t_scale 2 4 (new_transform mat_identity)) (transformPoint (t_scale 2 4 (new_transform mat_identity)) (vec 1 3))) = vec 1 3"
proof -
  have "(transform_step cos sin)\<^sup>*\<^sup>* (new_transform mat_identity) (t_scale 2 4 (new_transform mat_identity))"
    by (rule r_into_rtranclp) (rule transform_step.intros)
  then show ?thesis
    using transform_sessions [OF plane_made(1), of cos sin "t_scale 2 4 (new_transform mat_identity)" "vec 1 3"]
    by (simp add: t_scale_def new_transform_def mat_identity_def mat_scale_def)
qed

text \<open>Setting all parts of a transform at once gives the matrix of moving, turning, scaling, shearing and moving to the origin one
  after the other, for whatever the C library answers for sine and cosine; and applying a transform of the plane after
  another is transforming twice.\<close>

theorem setTransformation_factors:
  "t_matrix (t_setTransformation c_cos c_sin x y a sx sy ox oy kx ky t) =
     t_matrix (t_translate (- ox) (- oy) (t_shear kx ky (t_scale sx sy (t_rotate c_cos c_sin a (t_translate x y (t_reset t)))))) \<and>
   (if plane (t_matrix other) then transformPoint (t_apply other t) p = transformPoint t (transformPoint other p) else True)"
  by (simp add: t_setTransformation_def t_translate_def t_shear_def t_scale_def t_rotate_def t_reset_def t_apply_def transformPoint_def
      transformXY_multiply mat_transformation_def mat_translation_def mat_shear_def mat_scale_def mat_rotation_def mat_identity_def Let_def algebra_simps)

end
