(* ===== verification/SoundData.thy ===== *)
theory SoundData
  imports Prelude Complex_Main
begin

text \<open>
  Sampled sound in memory (\<^verbatim>\<open>src/src/modules/sound/SoundData.h\<close> and \<^verbatim>\<open>.cpp\<close>): made silent, of given bytes or of what a
  decoder answers; single samples read and written, stretches copied between two sounds or cut out of one.

  A decoder is code of a library: it is the record of its format and of what its calls of \<^verbatim>\<open>decode\<close> write, one
  list of bytes a call. A \<^verbatim>\<open>float\<close> is a real number; rounding to 32 bits changes none of the samples that are read
  and written back. A pointer past the end of a block is only an error once something is read or written there.
\<close>

section \<open>Memory\<close>

definition read_block :: "byte list \<Rightarrow> nat \<Rightarrow> nat \<Rightarrow> byte list result" where
  "read_block m i n =
     (if i + n \<le> length m then Inr (take n (drop i m)) else Inl (Undefined_behaviour ''read past the end of a block''))"

definition write_block :: "byte list \<Rightarrow> nat \<Rightarrow> byte list \<Rightarrow> byte list result" where
  "write_block m i bs =
     (if i + length bs \<le> length m then Inr (take i m @ bs @ drop (i + length bs) m)
      else Inl (Undefined_behaviour ''write past the end of a block''))"

text \<open>A \<^verbatim>\<open>float\<close> converted to an integer type loses its fraction and has to fit.\<close>

definition truncated :: "int \<Rightarrow> int \<Rightarrow> real \<Rightarrow> int result" where
  "truncated lo hi x =
     (let k = (if x < 0 then \<lceil>x\<rceil> else \<lfloor>x\<rfloor>)
      in if lo \<le> k \<and> k \<le> hi then Inr k else Inl (Undefined_behaviour ''float out of the range of an integer type''))"

section \<open>Making sounds\<close>

text \<open>\<open>sd_data\<close> is the null pointer where nothing was decoded.\<close>

record sound_data =
  sd_data :: "byte list option"
  sd_size :: nat
  sd_rate :: int
  sd_bits :: int
  sd_channels :: int

record decoder =
  dc_rate :: int
  dc_bits :: int
  dc_channels :: int
  dc_answers :: "byte list list"

definition pointee :: "sound_data \<Rightarrow> byte list result" where
  "pointee d = (case sd_data d of None \<Rightarrow> Inl (Undefined_behaviour ''null pointer'') | Some m \<Rightarrow> Inr m)"

text \<open>\<^verbatim>\<open>SoundData::load\<close>. The product that is checked against the largest size is computed after the size was.\<close>

definition sd_load :: "allocator \<Rightarrow> byte list option \<Rightarrow> int \<Rightarrow> int \<Rightarrow> int \<Rightarrow> int \<Rightarrow> sound_data result" where
  "sd_load alloc newData samples rate bits channels =
     (if samples \<le> 0 then Inl (Exception (''Invalid sample count: '' @ decimal_int samples))
      else if rate \<le> 0 then Inl (Exception (''Invalid sample rate: '' @ decimal_int rate))
      else if bits \<noteq> 8 \<and> bits \<noteq> 16 then Inl (Exception (''Invalid bit depth: '' @ decimal_int bits))
      else if channels \<le> 0 then Inl (Exception (''Invalid channel count: '' @ decimal_int channels))
      else
        bind_result (int_op (samples * (bits div 8))) (\<lambda>b.
        bind_result (int_op (b * channels)) (\<lambda>n.
        bind_result (int_op (bits div 8 * channels)) (\<lambda>frame.
          if samples * frame > 2 ^ 64 then Inl (Exception ''Data is too big!'')
          else if \<not> alloc (nat n) then Inl (Exception ''Not enough memory.'')
          else
            bind_result
              (case newData of
                 Some p \<Rightarrow> read_block p 0 (nat n)
               | None \<Rightarrow> Inr (replicate (nat n) (if bits = 8 then 128 else 0)))
              (\<lambda>m. Inr \<lparr>sd_data = Some m, sd_size = nat n, sd_rate = rate, sd_bits = bits, sd_channels = channels\<rparr>)))))"

text \<open>The buffer doubles until the next answer of the decoder fits. An answer without bytes is the end or an error.\<close>

function grow_to :: "nat \<Rightarrow> nat \<Rightarrow> nat" where
  "grow_to cap need = (if cap < need \<and> 0 < cap then grow_to (2 * cap) need else cap)"
  by pat_completeness auto
termination
  by (relation "measure (\<lambda>(cap, need). need - cap)") auto

declare grow_to.simps [simp del]

fun decode_all :: "allocator \<Rightarrow> byte list list \<Rightarrow> nat \<Rightarrow> byte list option \<Rightarrow> (byte list option \<times> nat) result" where
  "decode_all alloc [] cap data = Inr (data, cap)"
| "decode_all alloc (chunk # rest) cap data =
     (if chunk = [] then Inr (data, cap)
      else
        let size = (case data of None \<Rightarrow> 0 | Some m \<Rightarrow> length m);
            need = size + length chunk;
            short = (data = None \<or> cap < need);
            cap = (if short then grow_to cap need else cap)
        in if short \<and> \<not> alloc cap then Inl (Exception ''Not enough memory.'')
           else if cap < need then Inl (Undefined_behaviour ''write past the end of a block'')
           else if size > 2 ^ 64 - 1 - length chunk then Inl (Exception ''Not enough memory.'')
           else decode_all alloc rest cap (Some ((case data of None \<Rightarrow> [] | Some m \<Rightarrow> m) @ chunk)))"

definition newSoundData_decoder :: "allocator \<Rightarrow> decoder \<Rightarrow> sound_data result" where
  "newSoundData_decoder alloc dc =
     (if dc_bits dc \<noteq> 8 \<and> dc_bits dc \<noteq> 16 then Inl (Exception (''Invalid bit depth: '' @ decimal_int (dc_bits dc)))
      else
        bind_result (decode_all alloc (dc_answers dc) 524288 None) (\<lambda>(data, cap).
          let size = (case data of None \<Rightarrow> 0 | Some m \<Rightarrow> length m)
          in Inr \<lparr>sd_data = (if cap > size \<and> \<not> alloc size then None else data), sd_size = size,
                  sd_rate = dc_rate dc, sd_bits = dc_bits dc, sd_channels = dc_channels dc\<rparr>))"

section \<open>Samples\<close>

definition getSampleCount :: "sound_data \<Rightarrow> int result" where
  "getSampleCount d =
     (if sd_channels d = 0 then Inl (Undefined_behaviour ''division by zero'')
      else Inr (sint (of_nat (sd_size d div unat (word_of_int (sd_channels d) :: uint64) div nat (sd_bits d div 8)) :: uint32)))"

definition getDuration :: "sound_data \<Rightarrow> real result" where
  "getDuration d =
     bind_result (int_op (sd_channels d * sd_rate d)) (\<lambda>x.
     bind_result (int_op (x * sd_bits d)) (\<lambda>x.
       if x div 8 = 0 then Inl (Undefined_behaviour ''division by zero'') else Inr (real (sd_size d) / real_of_int (x div 8))))"

definition clone_sound :: "allocator \<Rightarrow> sound_data \<Rightarrow> sound_data result" where
  "clone_sound alloc d = bind_result (getSampleCount d) (\<lambda>n. sd_load alloc (sd_data d) n (sd_rate d) (sd_bits d) (sd_channels d))"

definition in_samples :: "sound_data \<Rightarrow> int \<Rightarrow> bool" where
  "in_samples d i \<longleftrightarrow> 0 \<le> i \<and> nat i < sd_size d div nat (sd_bits d div 8)"

definition setSample :: "sound_data \<Rightarrow> int \<Rightarrow> real \<Rightarrow> sound_data result" where
  "setSample d i sample =
     (if \<not> in_samples d i then Inl (Exception ''Attempt to set out-of-range sample!'')
      else
        bind_result (pointee d) (\<lambda>m.
        bind_result
          (if sd_bits d = 16
           then bind_result (truncated (- 32768) 32767 (sample * 32767)) (\<lambda>k. write_block m (2 * nat i) (bytes16 (word_of_int k)))
           else bind_result (truncated 0 255 (sample * 127 + 128)) (\<lambda>k. write_block m (nat i) [word_of_int k]))
          (\<lambda>m. Inr (d\<lparr>sd_data := Some m\<rparr>))))"

definition getSample :: "sound_data \<Rightarrow> int \<Rightarrow> real result" where
  "getSample d i =
     (if \<not> in_samples d i then Inl (Exception ''Attempt to get out-of-range sample!'')
      else
        bind_result (pointee d) (\<lambda>m.
          if sd_bits d = 16
          then bind_result (read_block m (2 * nat i) 2) (\<lambda>bs. Inr (real_of_int (sint (word16 bs)) / 32767))
          else bind_result (read_block m (nat i) 1) (\<lambda>bs. Inr ((real (unat (hd bs)) - 128) / 127))))"

definition channel_index :: "sound_data \<Rightarrow> int \<Rightarrow> int \<Rightarrow> int result" where
  "channel_index d i channel = bind_result (int_op (i * sd_channels d)) (\<lambda>k. int_op (k + (channel - 1)))"

definition setSample_channel :: "sound_data \<Rightarrow> int \<Rightarrow> int \<Rightarrow> real \<Rightarrow> sound_data result" where
  "setSample_channel d i channel sample =
     (if channel < 1 \<or> channel > sd_channels d then Inl (Exception ''Attempt to set sample from out-of-range channel!'')
      else bind_result (channel_index d i channel) (\<lambda>k. setSample d k sample))"

definition getSample_channel :: "sound_data \<Rightarrow> int \<Rightarrow> int \<Rightarrow> real result" where
  "getSample_channel d i channel =
     (if channel < 1 \<or> channel > sd_channels d then Inl (Exception ''Attempt to get sample from out-of-range channel!'')
      else bind_result (channel_index d i channel) (\<lambda>k. getSample d k))"

section \<open>Stretches\<close>

definition bytes_per_sample :: "sound_data \<Rightarrow> uint64" where
  "bytes_per_sample d = word_of_int (sd_channels d) * word_of_int (sd_bits d) div 8"

text \<open>The loop over single samples, from the \<open>i\<close>-th of \<open>i + n\<close>.\<close>

fun copy_samples :: "sound_data \<Rightarrow> int \<Rightarrow> int \<Rightarrow> int \<Rightarrow> nat \<Rightarrow> sound_data \<Rightarrow> sound_data result" where
  "copy_samples src off dest i 0 d = Inr d"
| "copy_samples src off dest i (Suc n) d =
     bind_result (int_op (dest + i)) (\<lambda>k.
     bind_result (int_op (off + i)) (\<lambda>j.
     bind_result (getSample src j) (\<lambda>x.
     bind_result (setSample d k x) (copy_samples src off dest (i + 1) n))))"

text \<open>
  Of one sound onto itself the code moves the bytes as if through a copy, between two it copies them;
  \<open>src\<close> is what the source holds before.
\<close>

definition copyFrom :: "sound_data \<Rightarrow> sound_data \<Rightarrow> int \<Rightarrow> int \<Rightarrow> int \<Rightarrow> sound_data result" where
  "copyFrom d src srcStart count dstStart =
     (if sd_channels d \<noteq> sd_channels src then Inl (Exception ''Channel count mismatch!'')
      else
        bind_result (if dstStart < 0 then Inr True
                     else bind_result (int_op (dstStart + count)) (\<lambda>e. Inr (unat (word_of_int e * bytes_per_sample d) > sd_size d))) (\<lambda>bad.
        if bad then Inl (Exception ''Destination out-of-range!'')
        else bind_result (if srcStart < 0 then Inr True
                          else bind_result (int_op (srcStart + count)) (\<lambda>e. Inr (unat (word_of_int e * bytes_per_sample src) > sd_size src))) (\<lambda>bad.
        if bad then Inl (Exception ''Source out-of-range!'')
        else if sd_bits d \<noteq> sd_bits src
        then bind_result (int_op (count * sd_channels d)) (\<lambda>n.
               if n \<le> 0 then Inr d
               else bind_result (int_op (dstStart * sd_channels d)) (\<lambda>dest.
                    bind_result (int_op (srcStart * sd_channels d)) (\<lambda>off. copy_samples src off dest 0 (nat n) d)))
        else
          let n = unat (word_of_int count * bytes_per_sample d)
          in if n = 0 then Inr d
             else bind_result (pointee src) (\<lambda>p.
                  bind_result (read_block p (unat (word_of_int srcStart * bytes_per_sample d)) n) (\<lambda>bs.
                  bind_result (pointee d) (\<lambda>m.
                  bind_result (write_block m (unat (word_of_int dstStart * bytes_per_sample d)) bs) (\<lambda>m. Inr (d\<lparr>sd_data := Some m\<rparr>))))))))"

definition sd_slice :: "allocator \<Rightarrow> sound_data \<Rightarrow> int \<Rightarrow> int \<Rightarrow> sound_data result" where
  "sd_slice alloc d start len =
     bind_result (getSampleCount d) (\<lambda>total.
       if len = 0 then Inl (Exception ''Invalid slice length: 0'')
       else
         bind_result (if len < 0 then int_op (total - start) else Inr len) (\<lambda>len.
         bind_result (if start < 0 then Inr True else bind_result (int_op (start + len)) (\<lambda>e. Inr (e > total))) (\<lambda>bad.
         if bad then Inl (Exception ''Attempt to slice at out-of-range position!'')
         else
           bind_result (int_op (start * sd_channels d)) (\<lambda>x.
           bind_result (int_op (x * sd_bits d)) (\<lambda>x.
             sd_load alloc (Some (drop (nat (x div 8)) (case sd_data d of None \<Rightarrow> [] | Some m \<Rightarrow> m))) len (sd_rate d) (sd_bits d) (sd_channels d))))))"

section \<open>Sounds as sequences of samples\<close>

definition width :: "sound_data \<Rightarrow> nat" where
  "width d = nat (sd_bits d div 8)"

definition frame :: "sound_data \<Rightarrow> nat" where
  "frame d = nat (sd_channels d) * width d"

text \<open>What every sound made of samples is: its memory is there, holds whole frames, and is small enough for an \<^verbatim>\<open>int\<close>.\<close>

definition sound_ok :: "sound_data \<Rightarrow> bool" where
  "sound_ok d \<longleftrightarrow>
     (\<exists>m. sd_data d = Some m \<and> length m = sd_size d) \<and> (sd_bits d = 8 \<or> sd_bits d = 16) \<and>
     0 < sd_channels d \<and> frame d dvd sd_size d \<and> 0 < sd_size d \<and> sd_size d < 2 ^ 31"

definition memory_of :: "sound_data \<Rightarrow> byte list" where
  "memory_of d = the (sd_data d)"

definition cell :: "nat \<Rightarrow> byte list \<Rightarrow> nat \<Rightarrow> byte list" where
  "cell w m i = take w (drop (w * i) m)"

definition sample_of :: "int \<Rightarrow> byte list \<Rightarrow> real" where
  "sample_of bits bs = (if bits = 16 then real_of_int (sint (word16 bs)) / 32767 else (real (unat (hd bs)) - 128) / 127)"

lemma nth_cell: "t < w \<Longrightarrow> w * Suc i \<le> length m \<Longrightarrow> cell w m i ! t = m ! (w * i + t)"
  by (simp add: cell_def)

lemma length_cell: "w * Suc i \<le> length m \<Longrightarrow> length (cell w m i) = w"
  by (simp add: cell_def)

lemma cell_part: "w * Suc j \<le> n \<Longrightarrow> cell w (take n (drop (w * b) p)) j = cell w p (b + j)"
  by (simp add: cell_def take_drop min_def algebra_simps)

lemma nth_spliced:
  "i + length bs \<le> length m \<Longrightarrow> i + length bs \<le> k \<Longrightarrow> k < length m \<Longrightarrow> (take i m @ bs @ drop (i + length bs) m) ! k = m ! k"
  by (auto simp: nth_append min_def)

lemma length_spliced: "i + length bs \<le> length m \<Longrightarrow> length (take i m @ bs @ drop (i + length bs) m) = length m"
  by simp

lemma cell_write:
  assumes "length bs = w * k" "w * (a + k) \<le> length m" "w * Suc j \<le> length m"
  shows "cell w (take (w * a) m @ bs @ drop (w * a + length bs) m) j = (if a \<le> j \<and> j < a + k then cell w bs (j - a) else cell w m j)"
proof (rule nth_equalityI)
  let ?m = "take (w * a) m @ bs @ drop (w * a + length bs) m"
  have len: "length ?m = length m"
    using assms(1,2) by (simp add: algebra_simps)
  have part: "w * Suc (j - a) \<le> length bs" if "a \<le> j" "j < a + k"
    using that mult_le_mono2 [of "Suc (j - a)" k w] assms(1) by simp
  show "length (cell w ?m j) = length (if a \<le> j \<and> j < a + k then cell w bs (j - a) else cell w m j)"
    using assms(3) part len by (simp add: length_cell)
  fix t assume "t < length (cell w ?m j)"
  then have t: "t < w"
    using assms(3) len by (simp add: length_cell)
  have left: "cell w ?m j ! t = ?m ! (w * j + t)"
    using t assms(3) len by (simp add: nth_cell)
  consider "j < a" | "a \<le> j" "j < a + k" | "a + k \<le> j"
    by linarith
  then show "cell w ?m j ! t = (if a \<le> j \<and> j < a + k then cell w bs (j - a) else cell w m j) ! t"
  proof cases
    case 1
    then have "w * j + t < w * a"
      using t mult_le_mono2 [of "Suc j" a w] by simp
    then show ?thesis
      using 1 t assms left by (simp add: nth_append nth_cell)
  next
    case 2
    have "w * j = w * a + w * (j - a)"
      using 2 by (simp flip: distrib_left)
    then have "w * j + t - w * a = w * (j - a) + t" "w * a \<le> w * j + t"
      by linarith+
    moreover have "w * (j - a) + t < length bs"
      using part [OF 2] t by simp
    ultimately show ?thesis
      using 2 t assms left part [OF 2] by (simp add: nth_append nth_cell)
  next
    case 3
    have "w * (a + k) \<le> w * j + t"
      using mult_le_mono2 [OF 3, of w] by linarith
    then have "w * a + length bs \<le> w * j + t"
      using assms(1) by (simp add: algebra_simps)
    moreover have "w * a + length bs \<le> length m" "w * j + t < length m"
      using assms t by (simp_all add: algebra_simps)
    ultimately have "?m ! (w * j + t) = m ! (w * j + t)"
      by (intro nth_spliced)
    then show ?thesis
      using 3 t assms left by (simp add: nth_cell)
  qed
qed

lemma sound_okD:
  assumes "sound_ok d"
  shows "sd_data d = Some (memory_of d)" "length (memory_of d) = sd_size d" "width d = 1 \<or> width d = 2" "sd_bits d = 8 * int (width d)"
    "sd_bits d = 16 \<longleftrightarrow> width d = 2" "0 < frame d" "frame d dvd sd_size d" "sd_size d < 2 ^ 31" "0 < sd_channels d"
    "width d dvd sd_size d" "frame d \<le> sd_size d"
  using assms by (auto simp: sound_ok_def memory_of_def width_def frame_def dvd_mult_right intro: dvd_trans dvd_imp_le)

lemma in_samples_iff: "sound_ok d \<Longrightarrow> in_samples d i \<longleftrightarrow> 0 \<le> i \<and> width d * Suc (nat i) \<le> sd_size d"
  unfolding in_samples_def width_def [symmetric] using sound_okD(3) [of d] by (auto simp: less_eq_div_iff_mult_less_eq Suc_le_eq [symmetric] mult.commute)

lemma getSample_cell:
  assumes "sound_ok d"
  shows "getSample d i =
    (if in_samples d i then Inr (sample_of (sd_bits d) (cell (width d) (memory_of d) (nat i)))
     else Inl (Exception ''Attempt to get out-of-range sample!''))"
  using sound_okD [OF assms] in_samples_iff [OF assms, of i]
  by (auto simp: getSample_def pointee_def read_block_def cell_def sample_of_def)

section \<open>Single samples\<close>

definition encoded :: "int \<Rightarrow> real \<Rightarrow> byte list result" where
  "encoded bits x =
     (if bits = 16 then bind_result (truncated (- 32768) 32767 (x * 32767)) (\<lambda>k. Inr (bytes16 (word_of_int k)))
      else bind_result (truncated 0 255 (x * 127 + 128)) (\<lambda>k. Inr [word_of_int k]))"

lemma bind_assoc: "bind_result (bind_result r f) g = bind_result r (\<lambda>x. bind_result (f x) g)"
  by (simp add: bind_result_def split: sum.split)

lemma setSample_encoded:
  assumes "sound_ok d" "in_samples d i"
  shows "setSample d i x =
    bind_result (encoded (sd_bits d) x) (\<lambda>bs.
      bind_result (write_block (memory_of d) (width d * nat i) bs) (\<lambda>m. Inr (d\<lparr>sd_data := Some m\<rparr>)))"
  using sound_okD [OF assms(1)] assms(2) by (auto simp: setSample_def pointee_def encoded_def bind_assoc)

lemma length_encoded: "encoded bits x = Inr bs \<Longrightarrow> length bs = (if bits = 16 then 2 else 1)"
  by (auto simp: encoded_def bytes16_def bind_result_def split: if_splits sum.splits)

lemma setSample_cell:
  assumes "sound_ok d" "in_samples d i" "encoded (sd_bits d) x = Inr bs"
  shows "\<exists>d'. setSample d i x = Inr d' \<and> sound_ok d' \<and> sd_size d' = sd_size d \<and> sd_bits d' = sd_bits d \<and> sd_channels d' = sd_channels d \<and>
    memory_of d' = take (width d * nat i) (memory_of d) @ bs @ drop (width d * nat i + length bs) (memory_of d) \<and>
    (\<forall>j. getSample d' j = (if j = i then Inr (sample_of (sd_bits d) bs) else getSample d j))"
proof -
  note d = sound_okD [OF assms(1)]
  let ?w = "width d" and ?m = "take (width d * nat i) (memory_of d) @ bs @ drop (width d * nat i + length bs) (memory_of d)"
  let ?d = "d\<lparr>sd_data := Some ?m\<rparr>"
  have i: "0 \<le> i" "?w * Suc (nat i) \<le> sd_size d"
    using assms(2) in_samples_iff [OF assms(1)] by simp_all
  have bs: "length bs = ?w"
    using length_encoded [OF assms(3)] d(3,5) by auto
  have len: "length ?m = sd_size d"
    using i(2) bs d(2) by simp
  have "setSample d i x = Inr ?d"
    using assms(3) setSample_encoded [OF assms(1,2), of x] i(2) bs d(2) by (simp add: write_block_def)
  moreover have ok: "sound_ok ?d"
    using assms(1) len by (simp add: sound_ok_def frame_def width_def)
  moreover have "getSample ?d j = (if j = i then Inr (sample_of (sd_bits d) bs) else getSample d j)" for j
  proof (cases "in_samples d j")
    case True
    then have j: "0 \<le> j" "?w * Suc (nat j) \<le> sd_size d"
      using in_samples_iff [OF assms(1)] by simp_all
    have "cell ?w ?m (nat j) = (if nat i \<le> nat j \<and> nat j < nat i + 1 then cell ?w bs (nat j - nat i) else cell ?w (memory_of d) (nat j))"
      using bs i(2) j(2) d(2) by (intro cell_write) simp_all
    then have "cell ?w ?m (nat j) = (if j = i then bs else cell ?w (memory_of d) (nat j))"
      using i(1) j(1) bs by (auto simp: cell_def)
    then show ?thesis
      using True getSample_cell [OF ok] getSample_cell [OF assms(1)] by (simp add: in_samples_def memory_of_def width_def)
  next
    case False
    then show ?thesis
      using assms(2) getSample_cell [OF ok] getSample_cell [OF assms(1)] by (auto simp: in_samples_def)
  qed
  ultimately show ?thesis
    by (intro exI [of _ ?d]) (simp add: memory_of_def)
qed

lemma truncated_int: "lo \<le> k \<Longrightarrow> k \<le> hi \<Longrightarrow> truncated lo hi (real_of_int k) = Inr k"
  by (simp add: truncated_def)

lemma sample16_encoded: "length bs = 2 \<Longrightarrow> encoded 16 (sample_of 16 bs) = Inr bs"
proof -
  assume "length bs = 2"
  then obtain a b where bs: "bs = [a, b]"
    by (auto simp: numeral_2_eq_2 length_Suc_conv)
  have "- 32768 \<le> sint (word16 bs)" "sint (word16 bs) \<le> 32767"
    using sint_range_size [of "word16 bs"] by (simp_all add: word_size)
  then have "truncated (- 32768) 32767 (real_of_int (sint (word16 bs))) = Inr (sint (word16 bs))"
    by (rule truncated_int)
  then show ?thesis
    by (simp add: encoded_def sample_of_def bs bytes16_word16)
qed

lemma sample8_encoded: "length bs = 1 \<Longrightarrow> encoded 8 (sample_of 8 bs) = Inr bs"
proof -
  assume "length bs = 1"
  then obtain a where bs: "bs = [a]"
    by (auto simp: length_Suc_conv)
  have "uint a \<le> 255"
    using uint_lt2p [of a] by simp
  then have "truncated 0 255 (real_of_int (uint a)) = Inr (uint a)"
    by (intro truncated_int) simp_all
  moreover have "sample_of 8 bs * 127 + 128 = real_of_int (uint a)"
    by (simp add: sample_of_def bs diff_divide_distrib)
  ultimately show ?thesis
    by (simp add: encoded_def bs)
qed

lemma truncated_near:
  assumes "real_of_int lo \<le> x" "x \<le> real_of_int hi" "lo \<le> 0" "0 \<le> hi"
  shows "\<exists>k. truncated lo hi x = Inr k \<and> lo \<le> k \<and> k \<le> hi \<and> \<bar>real_of_int k - x\<bar> < 1"
proof (intro exI conjI)
  let ?k = "if x < 0 then \<lceil>x\<rceil> else \<lfloor>x\<rfloor>"
  show bounds: "lo \<le> ?k" "?k \<le> hi"
    using assms by (auto simp: le_floor_iff ceiling_le_iff le_ceiling_iff floor_le_iff)
  then show "truncated lo hi x = Inr ?k"
    by (simp add: truncated_def Let_def)
  show "\<bar>real_of_int ?k - x\<bar> < 1"
    by (simp add: abs_if) linarith
qed

lemma word16_bytes16: "word16 (bytes16 w) = w"
  by (rule bit_word_eqI) (auto simp: word16_def bytes16_def bit_simps)

text \<open>What was put there is at most one step of the format away from what is read back.\<close>

lemma encoded_close:
  assumes "- 1 \<le> x" "x \<le> 1" "bits = 8 \<or> bits = 16"
  shows "\<exists>bs. encoded bits x = Inr bs \<and> \<bar>sample_of bits bs - x\<bar> < 1 / (if bits = 16 then 32767 else 127)"
proof (cases "bits = 16")
  case True
  have "real_of_int (- 32768) \<le> x * 32767" "x * 32767 \<le> real_of_int 32767"
    using assms(1,2) by simp_all
  then obtain k where k: "truncated (- 32768) 32767 (x * 32767) = Inr k" "- 32768 \<le> k" "k \<le> 32767" "\<bar>real_of_int k - x * 32767\<bar> < 1"
    using truncated_near [of "- 32768" "x * 32767" 32767] by auto
  have "sint (word_of_int k :: uint16) = k"
    using k(2,3) by (simp add: sint_sbintrunc' signed_take_bit_int_eq_self)
  then have "sample_of 16 (bytes16 (word_of_int k)) - x = (real_of_int k - x * 32767) / 32767"
    by (simp add: sample_of_def word16_bytes16 diff_divide_distrib)
  then have "\<bar>sample_of 16 (bytes16 (word_of_int k)) - x\<bar> < 1 / 32767"
    using divide_strict_right_mono [OF k(4), of 32767] by (simp only: abs_divide) simp
  then show ?thesis
    using True k(1) by (simp add: encoded_def)
next
  case False
  have "real_of_int 0 \<le> x * 127 + 128" "x * 127 + 128 \<le> real_of_int 255"
    using assms(1,2) by simp_all
  then obtain k where k: "truncated 0 255 (x * 127 + 128) = Inr k" "0 \<le> k" "k \<le> 255" "\<bar>real_of_int k - (x * 127 + 128)\<bar> < 1"
    using truncated_near [of 0 "x * 127 + 128" 255] by auto
  have "real (unat (word_of_int k :: byte)) = real_of_int k"
    using k(2,3) by (simp add: unat_eq_nat_uint uint_word_of_int_eq take_bit_int_eq_self)
  then have "sample_of 8 [word_of_int k] - x = (real_of_int k - (x * 127 + 128)) / 127"
    by (simp add: sample_of_def field_simps)
  then have "\<bar>sample_of 8 [word_of_int k] - x\<bar> < 1 / 127"
    using divide_strict_right_mono [OF k(4), of 127] by (simp only: abs_divide) simp
  then show ?thesis
    using False assms(3) k(1) by (simp add: encoded_def)
qed

text \<open>Claim C14. Reading a sample and writing it back changes nothing, whatever the sample is; writing any level between -1 and 1
  succeeds, reads back within one step of the format, and touches no other sample.\<close>

theorem sample_round_trip:
  assumes "sound_ok d" "in_samples d i" "- 1 \<le> x" "x \<le> 1"
  shows "(\<exists>y. getSample d i = Inr y \<and> setSample d i y = Inr d) \<and>
    (\<exists>d' y. setSample d i x = Inr d' \<and> sound_ok d' \<and> getSample d' i = Inr y \<and>
       \<bar>y - x\<bar> < 1 / (if sd_bits d = 16 then 32767 else 127) \<and> (\<forall>j. j \<noteq> i \<longrightarrow> getSample d' j = getSample d j))"
proof
  note d = sound_okD [OF assms(1)]
  have i: "0 \<le> i" "width d * Suc (nat i) \<le> sd_size d"
    using assms(2) in_samples_iff [OF assms(1)] by simp_all
  let ?bs = "cell (width d) (memory_of d) (nat i)"
  have get: "getSample d i = Inr (sample_of (sd_bits d) ?bs)"
    using assms(2) by (simp add: getSample_cell [OF assms(1)])
  have "length ?bs = width d"
    using i(2) d(2) by (simp add: length_cell)
  then have enc: "encoded (sd_bits d) (sample_of (sd_bits d) ?bs) = Inr ?bs"
    using d(3,4) sample16_encoded sample8_encoded by auto
  have "take (width d * nat i) (memory_of d) @ ?bs @ drop (width d * nat i + length ?bs) (memory_of d) = memory_of d"
    unfolding \<open>length ?bs = width d\<close> by (simp add: cell_def) (metis add.commute append_take_drop_id drop_drop)
  then have "setSample d i (sample_of (sd_bits d) ?bs) = Inr d"
    using i(2) d(1,2) \<open>length ?bs = width d\<close> by (simp add: setSample_encoded [OF assms(1,2)] enc write_block_def)
  then show "\<exists>y. getSample d i = Inr y \<and> setSample d i y = Inr d"
    using get by blast
  obtain bs where bs: "encoded (sd_bits d) x = Inr bs" "\<bar>sample_of (sd_bits d) bs - x\<bar> < 1 / (if sd_bits d = 16 then 32767 else 127)"
    using encoded_close [OF assms(3,4), of "sd_bits d"] assms(1) unfolding sound_ok_def by blast
  show "\<exists>d' y. setSample d i x = Inr d' \<and> sound_ok d' \<and> getSample d' i = Inr y \<and>
       \<bar>y - x\<bar> < 1 / (if sd_bits d = 16 then 32767 else 127) \<and> (\<forall>j. j \<noteq> i \<longrightarrow> getSample d' j = getSample d j)"
    using setSample_cell [OF assms(1,2) bs(1)] bs(2) by auto
qed

section \<open>Sounds that are made\<close>

definition valid_format :: "int \<Rightarrow> int \<Rightarrow> int \<Rightarrow> int \<Rightarrow> bool" where
  "valid_format samples rate bits channels \<longleftrightarrow> 0 < samples \<and> 0 < rate \<and> (bits = 8 \<or> bits = 16) \<and> 0 < channels"

text \<open>The product of the three numbers is all that decides: the later check of the size never finds anything.\<close>

lemma sd_load_eq:
  assumes "valid_format samples rate bits channels"
  shows "sd_load alloc p samples rate bits channels =
    (let n = nat (samples * (bits div 8) * channels)
     in if samples * (bits div 8) * channels \<ge> 2 ^ 31 then Inl (Undefined_behaviour ''signed overflow'')
        else if \<not> alloc n then Inl (Exception ''Not enough memory.'')
        else bind_result (case p of Some b \<Rightarrow> read_block b 0 n | None \<Rightarrow> Inr (replicate n (if bits = 8 then 128 else 0)))
               (\<lambda>m. Inr \<lparr>sd_data = Some m, sd_size = n, sd_rate = rate, sd_bits = bits, sd_channels = channels\<rparr>))"
proof -
  let ?b = "samples * (bits div 8)" and ?f = "bits div 8 * channels"
  have pos: "0 < samples" "0 < rate" "0 < channels" "bits = 8 \<or> bits = 16" "0 < bits div 8"
    using assms by (auto simp: valid_format_def)
  have le: "?b \<le> ?b * channels" "?f \<le> ?b * channels" "0 < ?b" "0 < ?f"
    using pos mult_left_mono [of 1 channels ?b] mult_right_mono [of 1 samples ?f] by (simp_all add: algebra_simps)
  show ?thesis
  proof (cases "?b * channels < 2 ^ 31")
    case True
    have "in_int ?b" "in_int (?b * channels)" "in_int ?f" "\<not> samples * ?f > 2 ^ 64"
      using True le by (auto simp: in_int_def algebra_simps)
    then show ?thesis
      using True pos(1-4) unfolding sd_load_def Let_def by auto
  next
    case False
    have "int_op ?b = Inl (Undefined_behaviour ''signed overflow'') \<or> int_op ?b = Inr ?b"
      by (simp add: int_op_def)
    moreover have "int_op (?b * channels) = Inl (Undefined_behaviour ''signed overflow'')"
      using False by (simp add: int_op_def in_int_def)
    ultimately show ?thesis
      using False pos unfolding sd_load_def Let_def by auto
  qed
qed

lemma sd_load_valid: "sd_load alloc p samples rate bits channels = Inr d \<Longrightarrow> valid_format samples rate bits channels"
  by (auto simp: sd_load_def valid_format_def split: if_splits)

lemma sd_load_ok:
  assumes "sd_load alloc p samples rate bits channels = Inr d"
  shows "sound_ok d" "int (sd_size d) = samples * (bits div 8) * channels" "sd_channels d = channels" "sd_bits d = bits"
    "sd_rate d = rate" "0 < samples"
proof -
  note v = sd_load_valid [OF assms]
  let ?n = "nat (samples * (bits div 8) * channels)"
  obtain m where d: "d = \<lparr>sd_data = Some m, sd_size = ?n, sd_rate = rate, sd_bits = bits, sd_channels = channels\<rparr>"
    "length m = ?n" "samples * (bits div 8) * channels < 2 ^ 31"
    using assms unfolding sd_load_eq [OF v] Let_def
    by (auto simp: read_block_def bind_result_def not_le split: if_splits option.splits sum.splits)
  have pos: "0 < samples" "0 < channels" "bits = 8 \<or> bits = 16" "0 < bits div 8"
    using v by (auto simp: valid_format_def)
  have "?n = nat samples * (nat channels * nat (bits div 8))"
    using pos by (simp add: nat_mult_distrib algebra_simps)
  then have "nat channels * nat (bits div 8) dvd ?n"
    by simp
  moreover have "0 < samples * (bits div 8) * channels"
    using pos by simp
  ultimately show "sound_ok d" "int (sd_size d) = samples * (bits div 8) * channels" "sd_channels d = channels" "sd_bits d = bits"
    "sd_rate d = rate" "0 < samples"
    using pos d by (auto simp: sound_ok_def frame_def width_def)
qed

lemma sint_small:
  assumes "n < 2 ^ 31"
  shows "sint (of_nat n :: uint32) = int n"
  using sint_sbintrunc' [where 'a = 32 and bin = "int n"] assms by (simp add: signed_take_bit_int_eq_self)

lemma getSampleCount_ok: "sound_ok d \<Longrightarrow> getSampleCount d = Inr (int (sd_size d div frame d))"
proof -
  assume ok: "sound_ok d"
  note d = sound_okD [OF ok]
  have ch: "nat (sd_channels d) \<le> sd_size d"
    using d(3,11) mult_le_mono2 [of 1 "width d" "nat (sd_channels d)"] by (auto simp: frame_def)
  then have "unat (word_of_int (sd_channels d) :: uint64) = nat (sd_channels d)"
    using d(8,9) by (simp add: unat_eq_nat_uint uint_word_of_int_eq take_bit_int_eq_self)
  moreover have "sd_size d div nat (sd_channels d) div width d = sd_size d div frame d"
    by (simp add: frame_def div_mult2_eq)
  moreover have "sint (of_nat (sd_size d div frame d) :: uint32) = int (sd_size d div frame d)"
  proof -
    have "sd_size d div frame d < 2 ^ 31"
      using d(8) div_le_dividend le_less_trans by blast
    then show ?thesis
      by (rule sint_small)
  qed
  ultimately show ?thesis
    using d(9) by (simp add: getSampleCount_def width_def)
qed

lemma replicate_two: "replicate 2 x = [x, x]"
  by (simp add: numeral_2_eq_2)

text \<open>Claim C16. With enough memory a silent sound of a valid format is made exactly when its bytes fit an \<^verbatim>\<open>int\<close>: then it has as many
  samples as asked for, each of them silent; otherwise the product overflows, which the check meant to refuse it
  comes too late for.\<close>

theorem newSoundData_fits_iff:
  assumes "valid_format samples rate bits channels" "\<And>n. alloc n"
  shows "if samples * (bits div 8) * channels < 2 ^ 31
    then \<exists>d. sd_load alloc None samples rate bits channels = Inr d \<and> sound_ok d \<and> getSampleCount d = Inr samples \<and>
      (\<forall>i. getSample d i = (if 0 \<le> i \<and> i < samples * channels then Inr 0 else Inl (Exception ''Attempt to get out-of-range sample!'')))
    else sd_load alloc None samples rate bits channels = Inl (Undefined_behaviour ''signed overflow'')"
proof (cases "samples * (bits div 8) * channels < 2 ^ 31")
  case False
  then show ?thesis
    unfolding sd_load_eq [OF assms(1)] Let_def by simp
next
  case True
  let ?n = "nat (samples * (bits div 8) * channels)" and ?s = "if bits = 8 then 128 else 0 :: byte"
  define d where "d = \<lparr>sd_data = Some (replicate ?n ?s), sd_size = ?n, sd_rate = rate, sd_bits = bits, sd_channels = channels\<rparr>"
  have load: "sd_load alloc None samples rate bits channels = Inr d"
    using True assms(2) unfolding sd_load_eq [OF assms(1)] Let_def d_def by simp
  note made = sd_load_ok [OF load]
  note ok = sound_okD [OF made(1)]
  have mem: "memory_of d = replicate (sd_size d) ?s"
    by (simp add: d_def memory_of_def)
  have pos: "0 < samples" "0 < channels" "bits = 8 \<or> bits = 16" "0 < bits div 8"
    using assms(1) by (auto simp: valid_format_def)
  have "int (sd_size d) = int (nat samples * frame d)" "int (sd_size d) = int (width d * nat (samples * channels))"
    using made(2-4) pos by (simp_all add: frame_def width_def algebra_simps)
  then have n: "sd_size d = nat samples * frame d" "sd_size d = width d * nat (samples * channels)"
    by (simp_all only: of_nat_eq_iff)
  have count: "getSampleCount d = Inr samples"
    using getSampleCount_ok [OF made(1)] n(1) ok(6) pos(1) by simp
  have in_range: "in_samples d i \<longleftrightarrow> 0 \<le> i \<and> i < samples * channels" for i
  proof -
    have "width d * Suc (nat i) \<le> sd_size d \<longleftrightarrow> Suc (nat i) \<le> nat (samples * channels)"
      using ok(3) unfolding n(2) by (auto simp del: mult_Suc_right)
    then show ?thesis
      using in_samples_iff [OF made(1), of i] by (auto simp: nat_less_iff Suc_le_eq)
  qed
  have silent: "getSample d i = Inr 0" if "in_samples d i" for i
  proof -
    have "width d * Suc (nat i) \<le> sd_size d"
      using that in_samples_iff [OF made(1)] by simp
    then have "cell (width d) (memory_of d) (nat i) = replicate (width d) ?s"
      by (simp add: cell_def mem)
    moreover have "sample_of (sd_bits d) (replicate (width d) ?s) = 0"
      using pos(3) made(4) ok(4) by (auto simp: sample_of_def word16_def replicate_two)
    ultimately show ?thesis
      using that by (simp add: getSample_cell [OF made(1)])
  qed
  have "getSample d i = (if 0 \<le> i \<and> i < samples * channels then Inr 0 else Inl (Exception ''Attempt to get out-of-range sample!''))" for i
    using silent [of i] getSample_cell [OF made(1), of i] in_range [of i] by auto
  then show ?thesis
    using True load made(1) count by auto
qed

theorem newSoundData_fits_iff_witness:
  "\<exists>d. sd_load (\<lambda>_. True) None 3 44100 16 2 = Inr d \<and> getSampleCount d = Inr 3 \<and> getSample d 5 = Inr 0"
  using newSoundData_fits_iff [of 3 44100 16 2 "\<lambda>_. True"] by (auto simp: valid_format_def)

section \<open>Copying\<close>

lemma bytes_per_sample_frame:
  assumes "sound_ok d"
  shows "bytes_per_sample d = of_nat (frame d)"
proof -
  note d = sound_okD [OF assms]
  have "sd_channels d * sd_bits d = int (8 * frame d)"
    using d(4,9) by (simp add: frame_def algebra_simps)
  then have "word_of_int (sd_channels d) * word_of_int (sd_bits d) = (word_of_int (int (8 * frame d)) :: uint64)"
    by (simp only: wi_homs)
  then have "word_of_int (sd_channels d) * word_of_int (sd_bits d) = (of_nat (8 * frame d) :: uint64)"
    by simp
  moreover have "unat (of_nat (8 * frame d) :: uint64) = 8 * frame d" "unat (of_nat (frame d) :: uint64) = frame d"
    using unat_of_nat_small [where 'a = 64, of "8 * frame d"] unat_of_nat_small [where 'a = 64, of "frame d"] d(8,11) by simp_all
  ultimately show ?thesis
    unfolding bytes_per_sample_def word_unat_eq_iff by (simp add: unat_div)
qed

lemma byte_offset:
  assumes "sound_ok d" "0 \<le> e" "e * int (frame d) < 2 ^ 64"
  shows "unat (word_of_int e * bytes_per_sample d) = nat e * frame d"
proof -
  have "word_of_int e * bytes_per_sample d = (of_nat (nat e * frame d) :: uint64)"
    using assms(2) unfolding bytes_per_sample_frame [OF assms(1)] by simp
  moreover have "nat e * frame d < 2 ^ 64"
    using assms(2,3) by (simp add: nat_less_iff flip: of_nat_less_iff [where 'a = int])
  ultimately show ?thesis
    using unat_of_nat_small [where 'a = 64, of "nat e * frame d"] by simp
qed

text \<open>What copying between sounds of one format comes down to, once the numbers are seen to be harmless.\<close>

definition copying :: "sound_data \<Rightarrow> sound_data \<Rightarrow> int \<Rightarrow> int \<Rightarrow> int \<Rightarrow> bool" where
  "copying d s srcStart count dstStart \<longleftrightarrow>
     sound_ok d \<and> sound_ok s \<and> sd_channels d = sd_channels s \<and> sd_bits d = sd_bits s \<and>
     in_int srcStart \<and> in_int count \<and> in_int dstStart \<and> 0 \<le> srcStart \<and> 0 \<le> dstStart \<and>
     0 \<le> srcStart + count \<and> 0 \<le> dstStart + count \<and>
     nat (srcStart + count) * frame s \<le> sd_size s \<and> nat (dstStart + count) * frame d \<le> sd_size d"

lemma nat_between: "0 \<le> j \<and> a \<le> nat j \<and> nat j < a + k \<longleftrightarrow> int a \<le> j \<and> j < int a + int k"
  by auto

lemma small_product: "e < 2 ^ 31 \<Longrightarrow> n < 2 ^ 31 \<Longrightarrow> e * int n < 2 ^ 64"
proof (cases "0 \<le> e")
  case True
  assume "e < 2 ^ 31" "n < 2 ^ 31"
  then have "e * int n \<le> 2 ^ 31 * int n"
    by (intro mult_right_mono) simp_all
  also have "\<dots> < 2 ^ 64"
    using \<open>n < 2 ^ 31\<close> by simp
  finally show ?thesis .
next
  case False
  then have "e * int n \<le> 0"
    by (intro mult_nonpos_nonneg) simp_all
  then show ?thesis
    by simp
qed

lemma copyFrom_blocks:
  assumes "copying d s srcStart count dstStart"
  shows "copyFrom d s srcStart count dstStart =
    (let n = unat (word_of_int count * bytes_per_sample d)
     in if n = 0 then Inr d
        else bind_result (read_block (memory_of s) (nat srcStart * frame d) n) (\<lambda>bs.
             bind_result (write_block (memory_of d) (nat dstStart * frame d) bs) (\<lambda>m. Inr (d\<lparr>sd_data := Some m\<rparr>))))"
proof -
  note ok = assms [unfolded copying_def]
  have d: "sound_ok d" and s: "sound_ok s"
    using ok by simp_all
  have f: "frame s = frame d" "0 < frame d" "frame d < 2 ^ 31" "bytes_per_sample s = bytes_per_sample d"
  proof -
    show "frame s = frame d" "bytes_per_sample s = bytes_per_sample d"
      using ok by (simp_all add: frame_def width_def bytes_per_sample_def)
    show "0 < frame d" "frame d < 2 ^ 31"
      using sound_okD(6,8,11) [OF d] by linarith+
  qed
  have small: "e * int (frame d) < 2 ^ 64" if "e < 2 ^ 31" for e
    using that f(3) by (rule small_product)
  have sum: "in_int e" if "0 \<le> e" "nat e * frame d \<le> b" "b < 2 ^ 31" for e b
  proof -
    have "nat e \<le> nat e * frame d"
      using f(2) by simp
    then have "nat e < 2 ^ 31"
      using that(2,3) by linarith
    then show ?thesis
      using that(1) by (simp add: in_int_def nat_less_iff)
  qed
  have e: "in_int (dstStart + count)" "in_int (srcStart + count)"
    using ok f(1) sum [of "dstStart + count" "sd_size d"] sum [of "srcStart + count" "sd_size s"] sound_okD(8) [OF d] sound_okD(8) [OF s] by simp_all
  have off: "unat (word_of_int e * bytes_per_sample d) = nat e * frame d" if "0 \<le> e" "in_int e" for e
    using that by (intro byte_offset [OF d] small) (simp_all add: in_int_def)
  have "unat (word_of_int (dstStart + count) * bytes_per_sample d) = nat (dstStart + count) * frame d"
    "unat (word_of_int (srcStart + count) * bytes_per_sample d) = nat (srcStart + count) * frame d"
    "unat (word_of_int srcStart * bytes_per_sample d) = nat srcStart * frame d"
    "unat (word_of_int dstStart * bytes_per_sample d) = nat dstStart * frame d"
    by (rule off; use ok e in blast)+
  then show ?thesis
    using ok e f sound_okD(1) [OF d] sound_okD(1) [OF s] unfolding copyFrom_def by (simp add: pointee_def not_less Let_def)
qed

definition spliced :: "nat \<Rightarrow> nat \<Rightarrow> nat \<Rightarrow> nat \<Rightarrow> byte list \<Rightarrow> byte list \<Rightarrow> byte list" where
  "spliced w a b k p m = (let bs = take (w * k) (drop (w * b) p) in take (w * a) m @ bs @ drop (w * a + length bs) m)"

lemma cell_spliced:
  assumes "w * (a + k) \<le> length m" "w * (b + k) \<le> length p"
  shows "length (spliced w a b k p m) = length m"
    and "w * Suc j \<le> length m \<Longrightarrow> cell w (spliced w a b k p m) j = (if a \<le> j \<and> j < a + k then cell w p (b + (j - a)) else cell w m j)"
proof -
  have bs: "length (take (w * k) (drop (w * b) p)) = w * k"
    using assms(2) by (simp add: distrib_left)
  show "length (spliced w a b k p m) = length m"
    using length_spliced [of "w * a" "take (w * k) (drop (w * b) p)" m] assms(1) unfolding spliced_def Let_def bs by (simp add: distrib_left)
  assume j: "w * Suc j \<le> length m"
  show "cell w (spliced w a b k p m) j = (if a \<le> j \<and> j < a + k then cell w p (b + (j - a)) else cell w m j)"
  proof (cases "a \<le> j \<and> j < a + k")
    case True
    then have "Suc (j - a) \<le> k"
      by linarith
    then have "cell w (take (w * k) (drop (w * b) p)) (j - a) = cell w p (b + (j - a))"
      by (intro cell_part mult_le_mono2)
    then show ?thesis
      using True cell_write [OF bs assms(1) j] by (simp add: spliced_def)
  next
    case False
    then show ?thesis
      using cell_write [OF bs assms(1) j] by (auto simp: spliced_def Let_def)
  qed
qed

lemma spliced_none: "w * k = 0 \<Longrightarrow> spliced w a b k p m = m"
proof -
  assume zero: "w * k = 0"
  show ?thesis
    unfolding spliced_def Let_def zero by simp
qed

lemma memory_same: "sd_data d = Some (memory_of d) \<Longrightarrow> d\<lparr>sd_data := Some (memory_of d)\<rparr> = d"
  by (cases d) simp

lemma getSample_spliced:
  assumes "sound_ok d" "sound_ok s" "sd_bits d = sd_bits s" "width d * (a + k) \<le> sd_size d" "width d * (b + k) \<le> sd_size s"
    and d': "d' = d\<lparr>sd_data := Some (spliced (width d) a b k (memory_of s) (memory_of d))\<rparr>"
  shows "sound_ok d'"
    "getSample d' j = (if int a \<le> j \<and> j < int a + int k then getSample s (j - int a + int b) else getSample d j)"
proof -
  note dd = sound_okD [OF assms(1)] and ss = sound_okD [OF assms(2)]
  let ?w = "width d" and ?m = "spliced (width d) a b k (memory_of s) (memory_of d)"
  have w: "width s = ?w"
    using assms(3) by (simp add: width_def)
  have m: "length ?m = sd_size d"
    and cell: "width d * Suc i \<le> sd_size d \<Longrightarrow> cell ?w ?m i = (if a \<le> i \<and> i < a + k then cell ?w (memory_of s) (b + (i - a)) else cell ?w (memory_of d) i)" for i
    using cell_spliced [of ?w a k "memory_of d" b "memory_of s"] assms(4,5) dd(2) ss(2) by simp_all
  show ok': "sound_ok d'"
    using assms(1) m by (simp add: sound_ok_def frame_def width_def d')
  have shape: "in_samples d' j = in_samples d j" "width d' = ?w" "memory_of d' = ?m" "sd_bits d' = sd_bits d"
    by (simp_all add: d' in_samples_def width_def memory_of_def)
  show "getSample d' j = (if int a \<le> j \<and> j < int a + int k then getSample s (j - int a + int b) else getSample d j)"
  proof (cases "int a \<le> j \<and> j < int a + int k")
    case True
    then have j: "0 \<le> j" "a \<le> nat j" "nat j < a + k" and i: "j - int a + int b = int (b + (nat j - a))"
      by auto
    have "Suc (nat j) \<le> a + k" "Suc (b + (nat j - a)) \<le> b + k"
      using j by linarith+
    then have "?w * Suc (nat j) \<le> sd_size d" "?w * Suc (b + (nat j - a)) \<le> sd_size s"
      using assms(4,5) mult_le_mono2 [of _ _ ?w] order_trans by blast+
    moreover from this have "in_samples d j" "in_samples s (j - int a + int b)"
      using j(1) unfolding in_samples_iff [OF assms(1)] in_samples_iff [OF assms(2)] w i nat_int by (blast intro: of_nat_0_le_iff)+
    ultimately show ?thesis
      using True j cell [of "nat j"] assms(3) unfolding getSample_cell [OF ok'] getSample_cell [OF assms(2)] shape w i nat_int by simp
  next
    case False
    then show ?thesis
      using cell [of "nat j"] in_samples_iff [OF assms(1), of j] unfolding getSample_cell [OF ok'] getSample_cell [OF assms(1)] shape by auto
  qed
qed

lemma copy_in_range:
  assumes "copying d s srcStart count dstStart" "0 \<le> count"
  shows "\<exists>d'. copyFrom d s srcStart count dstStart = Inr d' \<and> sound_ok d' \<and> sd_size d' = sd_size d \<and>
    (\<forall>j. getSample d' j =
      (if dstStart * sd_channels d \<le> j \<and> j < (dstStart + count) * sd_channels d
       then getSample s (j - dstStart * sd_channels d + srcStart * sd_channels d) else getSample d j))"
proof -
  note ok = assms(1) [unfolded copying_def]
  have d: "sound_ok d" and s: "sound_ok s"
    using ok by simp_all
  note dd = sound_okD [OF d] and ss = sound_okD [OF s]
  let ?w = "width d" and ?c = "nat (sd_channels d)" and ?n = "nat count * frame d"
  let ?a = "nat dstStart * ?c" and ?b = "nat srcStart * ?c" and ?k = "nat count * ?c"
  define d' where "d' = d\<lparr>sd_data := Some (spliced ?w ?a ?b ?k (memory_of s) (memory_of d))\<rparr>"
  have n: "unat (word_of_int count * bytes_per_sample d) = ?n"
    using ok assms(2) dd(8,11) by (intro byte_offset [OF d] small_product) (auto simp: in_int_def)
  have cells: "nat dstStart * frame d = ?w * ?a" "nat srcStart * frame d = ?w * ?b" "?n = ?w * ?k"
    by (simp_all add: frame_def)
  have le: "?w * (?b + ?k) \<le> sd_size s" "?w * (?a + ?k) \<le> sd_size d"
  proof -
    have "nat (srcStart + count) = nat srcStart + nat count" "nat (dstStart + count) = nat dstStart + nat count" "frame s = frame d"
      using ok assms(2) by (simp_all add: nat_add_distrib frame_def width_def)
    then show "?w * (?b + ?k) \<le> sd_size s" "?w * (?a + ?k) \<le> sd_size d"
      using ok unfolding distrib_left cells [symmetric] by (simp_all add: distrib_right)
  qed
  have "read_block (memory_of s) (?w * ?b) ?n = Inr (take (?w * ?k) (drop (?w * ?b) (memory_of s)))"
    using le(1) ss(2) unfolding cells(3) distrib_left by (simp add: read_block_def)
  moreover have "length (take (?w * ?k) (drop (?w * ?b) (memory_of s))) = ?w * ?k"
    using le(1) ss(2) unfolding distrib_left by simp
  then have "write_block (memory_of d) (?w * ?a) (take (?w * ?k) (drop (?w * ?b) (memory_of s))) =
      Inr (spliced ?w ?a ?b ?k (memory_of s) (memory_of d))"
    using le(2) dd(2) unfolding distrib_left by (simp add: write_block_def spliced_def)
  moreover have "d' = d" if "?n = 0"
    using spliced_none [OF that [unfolded cells(3)]] memory_same [OF dd(1)] by (simp only: d'_def)
  ultimately have "copyFrom d s srcStart count dstStart = Inr d'"
    unfolding copyFrom_blocks [OF assms(1)] n Let_def cells(1,2) d'_def by auto
  moreover have ints: "int ?a = dstStart * sd_channels d" "int ?b = srcStart * sd_channels d" "int ?k = count * sd_channels d"
    using ok dd(9) assms(2) by simp_all
  have "getSample d' j =
      (if dstStart * sd_channels d \<le> j \<and> j < (dstStart + count) * sd_channels d
       then getSample s (j - dstStart * sd_channels d + srcStart * sd_channels d) else getSample d j)" for j
    using getSample_spliced(2) [OF d s _ le(2,1) d'_def, of j] ok unfolding ints distrib_right by simp
  ultimately show ?thesis
    using getSample_spliced(1) [OF d s _ le(2,1) d'_def] ok by (intro exI [of _ d']) (simp add: d'_def)
qed

text \<open>A negative count passes both tests and becomes a length near \<open>2 ^ 64\<close>.\<close>

lemma negative_length:
  assumes "sound_ok d" "in_int count" "count < 0"
  shows "2 ^ 63 \<le> unat (word_of_int count * bytes_per_sample d)"
proof -
  let ?f = "int (frame d)"
  have f: "0 < ?f" "?f < 2 ^ 31"
    using sound_okD(6,8,11) [OF assms(1)] by simp_all
  have "- (2 ^ 31) * ?f \<le> count * ?f"
    using assms(2) f(1) by (intro mult_right_mono) (simp_all add: in_int_def)
  then have prod: "- (2 ^ 62) \<le> count * ?f" "count * ?f < 0"
    using f(2) mult_neg_pos [OF assms(3) f(1)] by simp_all
  have "word_of_int count * bytes_per_sample d = (word_of_int (count * ?f) :: uint64)"
    unfolding bytes_per_sample_frame [OF assms(1)] by simp
  then have "uint (word_of_int count * bytes_per_sample d) = count * ?f mod 2 ^ 64"
    by (simp only: uint_word_of_int len_num1 len_bit0) simp
  also have "count * ?f mod 2 ^ 64 = (count * ?f + 2 ^ 64) mod 2 ^ 64"
    by simp
  also have "\<dots> = count * ?f + 2 ^ 64"
    using prod by (intro mod_pos_pos_trivial) simp_all
  finally have "uint (word_of_int count * bytes_per_sample d) = count * ?f + 2 ^ 64" .
  then have large: "2 ^ 63 \<le> uint (word_of_int count * bytes_per_sample d)"
    using prod(1) by simp
  have "2 ^ 63 \<le> nat x" if "2 ^ 63 \<le> x" for x
    using that by (subst le_nat_iff) simp_all
  then show ?thesis
    unfolding unat_eq_nat_uint using large by blast
qed

text \<open>Nothing refuses a negative number of samples: between sounds of one format it passes both range checks and then
  reads a stretch no memory has.\<close>

theorem copyFrom_negative_count:
  assumes "copying d s srcStart count dstStart" "count < 0"
  shows "copyFrom d s srcStart count dstStart = Inl (Undefined_behaviour ''read past the end of a block'')"
proof -
  have ok: "sound_ok d" "in_int count" "length (memory_of s) < 2 ^ 31"
    using assms(1) sound_okD(2,8) [of s] unfolding copying_def by simp_all
  have "2 ^ 63 \<le> unat (word_of_int count * bytes_per_sample d)"
    by (rule negative_length [OF ok(1,2) assms(2)])
  then show ?thesis
    using ok(3) unfolding copyFrom_blocks [OF assms(1)] Let_def by (simp add: read_block_def)
qed

text \<open>Both range checks compare the end of a stretch with what a sound holds.\<close>

definition part_of :: "sound_data \<Rightarrow> int \<Rightarrow> int \<Rightarrow> bool" where
  "part_of d start count \<longleftrightarrow> 0 \<le> start \<and> 0 \<le> start + count \<and> nat (start + count) * frame d \<le> sd_size d"

lemma end_check:
  assumes "sound_ok d" "in_int e"
  shows "unat (word_of_int e * bytes_per_sample d) > sd_size d \<longleftrightarrow> \<not> (0 \<le> e \<and> nat e * frame d \<le> sd_size d)"
proof (cases "0 \<le> e")
  case True
  have "e < 2 ^ 31" "frame d < 2 ^ 31"
    using assms(2) sound_okD(8,11) [OF assms(1)] by (simp_all add: in_int_def)
  then have "unat (word_of_int e * bytes_per_sample d) = nat e * frame d"
    by (intro byte_offset [OF assms(1) True] small_product)
  then show ?thesis
    using True by auto
next
  case False
  then show ?thesis
    using negative_length [OF assms] sound_okD(8) [OF assms(1)] by auto
qed

text \<open>Claim C4. Copying between two sounds of one format, or within one, refuses exactly what is not a part of one of them; otherwise
  it copies the samples asked for, stays inside both memories and leaves every other sample as it was, unless the number of samples is
  negative: that passes both checks, and memory outside the source is read. The end of a stretch is computed as
  an \<^verbatim>\<open>int\<close> and may overflow first.\<close>

theorem copyFrom_copies:
  assumes "sound_ok d" "sound_ok s" "sd_channels d = sd_channels s" "sd_bits d = sd_bits s" "in_int srcStart" "in_int count" "in_int dstStart"
  shows "if 0 \<le> dstStart \<and> \<not> in_int (dstStart + count)
    then copyFrom d s srcStart count dstStart = Inl (Undefined_behaviour ''signed overflow'')
    else if \<not> part_of d dstStart count then copyFrom d s srcStart count dstStart = Inl (Exception ''Destination out-of-range!'')
    else if 0 \<le> srcStart \<and> \<not> in_int (srcStart + count)
    then copyFrom d s srcStart count dstStart = Inl (Undefined_behaviour ''signed overflow'')
    else if \<not> part_of s srcStart count then copyFrom d s srcStart count dstStart = Inl (Exception ''Source out-of-range!'')
    else if count < 0 then copyFrom d s srcStart count dstStart = Inl (Undefined_behaviour ''read past the end of a block'')
    else \<exists>d'. copyFrom d s srcStart count dstStart = Inr d' \<and> sound_ok d' \<and> sd_size d' = sd_size d \<and>
      (\<forall>j. getSample d' j =
        (if dstStart * sd_channels d \<le> j \<and> j < (dstStart + count) * sd_channels d
         then getSample s (j - dstStart * sd_channels d + srcStart * sd_channels d) else getSample d j))"
proof (cases "part_of d dstStart count \<and> part_of s srcStart count")
  case True
  then have copying: "copying d s srcStart count dstStart"
    using assms by (simp add: copying_def part_of_def)
  have "in_int (start + count)" if "part_of e start count" "sound_ok e" for e start
  proof -
    have "nat (start + count) \<le> nat (start + count) * frame e"
      using sound_okD(6,11) [OF that(2)] by simp
    then have "nat (start + count) < 2 ^ 31"
      using that(1) sound_okD(8) [OF that(2)] unfolding part_of_def by linarith
    then show ?thesis
      using that(1) by (simp add: part_of_def in_int_def nat_less_iff)
  qed
  then show ?thesis
    using True assms(1,2) copy_in_range [OF copying] copyFrom_negative_count [OF copying] by auto
next
  case False
  then show ?thesis
    using assms end_check [OF assms(1), of "dstStart + count"] end_check [OF assms(2), of "srcStart + count"]
    by (auto simp: copyFrom_def part_of_def int_op_def)
qed

text \<open>From 8 to 16 bits the lowest level has no place: it is a little below -1, and the conversion overflows.\<close>

lemma widening_overflows:
  assumes "sound_ok d" "in_samples d i" "sd_bits d = 16"
  shows "setSample d i (sample_of 8 [0]) = Inl (Undefined_behaviour ''float out of the range of an integer type'')"
proof -
  have "\<lceil>(- 128 / 127) * 32767 :: real\<rceil> \<le> - 33025"
    by (simp add: ceiling_le_iff)
  then have "encoded 16 (sample_of 8 [0]) = Inl (Undefined_behaviour ''float out of the range of an integer type'')"
    by (simp add: encoded_def sample_of_def truncated_def)
  then show ?thesis
    using assms(3) by (simp add: setSample_encoded [OF assms(1,2)])
qed

section \<open>Decoding and slicing\<close>

lemma grow_to_enough: "0 < cap \<Longrightarrow> need \<le> grow_to cap need \<and> 0 < grow_to cap need"
proof (induction cap need rule: grow_to.induct)
  case (1 cap need)
  then show ?case
    by (cases "cap < need") (simp_all add: grow_to.simps [of cap need])
qed

definition decoded :: "byte list list \<Rightarrow> byte list" where
  "decoded answers = concat (takeWhile (\<lambda>a. a \<noteq> []) answers)"

lemma decode_all_collects:
  assumes "\<And>n. alloc n" "0 < cap" "(case data of None \<Rightarrow> 0 | Some m \<Rightarrow> length m) + length (decoded answers) < 2 ^ 64"
  shows "\<exists>cap'. decode_all alloc answers cap data =
    Inr (if decoded answers = [] then data else Some ((case data of None \<Rightarrow> [] | Some m \<Rightarrow> m) @ decoded answers), cap')"
  using assms(2,3)
proof (induction answers arbitrary: cap data)
  case (Cons chunk rest)
  show ?case
  proof (cases "chunk = []")
    case False
    let ?m = "case data of None \<Rightarrow> [] | Some m \<Rightarrow> m" and ?need = "(case data of None \<Rightarrow> 0 | Some m \<Rightarrow> length m) + length chunk"
    let ?cap = "if data = None \<or> cap < ?need then grow_to cap ?need else cap"
    have m: "(case data of None \<Rightarrow> 0 | Some m \<Rightarrow> length m) = length ?m"
      by (simp split: option.split)
    have cap: "?need \<le> ?cap" "0 < ?cap"
      using grow_to_enough [OF Cons.prems(1), of ?need] Cons.prems(1) by auto
    have total: "length ?m + length chunk + length (decoded rest) < 2 ^ 64"
      using Cons.prems(2) False unfolding m by (simp add: decoded_def)
    then have "\<not> length ?m > 2 ^ 64 - 1 - length chunk"
      by linarith
    then have "decode_all alloc (chunk # rest) cap data = decode_all alloc rest ?cap (Some (?m @ chunk))"
      using False assms(1) cap(1) by (cases data) (auto simp: Let_def not_less)
    moreover obtain cap' where "decode_all alloc rest ?cap (Some (?m @ chunk)) =
        Inr (if decoded rest = [] then Some (?m @ chunk) else Some ((?m @ chunk) @ decoded rest), cap')"
      using Cons.IH [OF cap(2), of "Some (?m @ chunk)"] total by auto
    moreover have "decoded (chunk # rest) = chunk @ decoded rest"
      using False by (simp add: decoded_def)
    ultimately show ?thesis
      using False by (intro exI [of _ cap']) simp
  qed (simp add: decoded_def)
qed (simp add: decoded_def)

text \<open>With enough memory a sound made from a decoder holds exactly the bytes of its answers up to the first empty one, in
  order, however the buffer grew on the way, and a decoder that has nothing gives a sound without memory and without samples.\<close>

theorem newSoundData_decoder_collects:
  assumes "\<And>n. alloc n" "dc_bits dc = 8 \<or> dc_bits dc = 16" "length (decoded (dc_answers dc)) < 2 ^ 64"
  shows "\<exists>d. newSoundData_decoder alloc dc = Inr d \<and> sd_size d = length (decoded (dc_answers dc)) \<and>
    sd_data d = (if decoded (dc_answers dc) = [] then None else Some (decoded (dc_answers dc))) \<and>
    sd_rate d = dc_rate dc \<and> sd_bits d = dc_bits dc \<and> sd_channels d = dc_channels dc"
proof -
  obtain cap where "decode_all alloc (dc_answers dc) 524288 None =
      Inr (if decoded (dc_answers dc) = [] then None else Some (decoded (dc_answers dc)), cap)"
    using decode_all_collects [of alloc 524288 None "dc_answers dc"] assms(1,3) by auto
  then show ?thesis
    using assms(1,2) by (auto simp: newSoundData_decoder_def Let_def)
qed

lemma not_big_nat: "n < 2 ^ 31 \<Longrightarrow> \<not> 2 ^ 31 \<le> int n"
  by simp

lemma in_int_nat: "n < 2 ^ 31 \<Longrightarrow> in_int (int n)"
  by (simp add: in_int_def)

lemma getSample_sliced:
  assumes "sound_ok d" "sound_ok d'" "width d' = width d" "sd_bits d' = sd_bits d" "width d * (a + k) \<le> sd_size d" "sd_size d' = width d * k"
    and "memory_of d' = take (width d * k) (drop (width d * a) (memory_of d))" "0 \<le> j" "j < int k"
  shows "getSample d' j = getSample d (int a + j)"
proof -
  have j: "Suc (nat j) \<le> k" "Suc (a + nat j) \<le> a + k"
    using assms(8,9) by linarith+
  have at_j: "nat (int a + j) = a + nat j" "0 \<le> int a + j"
    using assms(8) by simp_all
  have room: "width d * Suc (nat j) \<le> width d * k" "width d * Suc (a + nat j) \<le> sd_size d"
    using j assms(5) mult_le_mono2 order_trans by blast+
  then have "in_samples d (int a + j)" "in_samples d' j"
    using assms(8) at_j unfolding in_samples_iff [OF assms(1)] in_samples_iff [OF assms(2)] assms(3,6) by simp_all
  moreover have "cell (width d) (memory_of d') (nat j) = cell (width d) (memory_of d) (a + nat j)"
    unfolding assms(7) by (rule cell_part) (rule room(1))
  ultimately show ?thesis
    unfolding getSample_cell [OF assms(1)] getSample_cell [OF assms(2)] assms(3,4) at_j(1) by simp
qed

text \<open>The arguments of a slice inside the sound, in samples and bytes.\<close>

lemma slice_ranges:
  assumes "sound_ok d" "0 \<le> start" "0 < len" "start + len \<le> int (sd_size d div frame d)"
  shows "(nat start + nat len) * frame d \<le> sd_size d"
    "sd_slice alloc d start len =
      bind_result (int_op (start * sd_channels d * sd_bits d)) (\<lambda>x.
        sd_load alloc (Some (drop (nat (x div 8)) (memory_of d))) len (sd_rate d) (sd_bits d) (sd_channels d))"
proof -
  note d = sound_okD [OF assms(1)]
  have "nat start + nat len \<le> sd_size d div frame d"
    using assms(2-4) by linarith
  then show size: "(nat start + nat len) * frame d \<le> sd_size d"
    using d(6) by (simp add: less_eq_div_iff_mult_less_eq)
  have "nat start * nat (sd_channels d) \<le> nat start * frame d" "nat start * frame d \<le> (nat start + nat len) * frame d"
    using d(3) by (auto simp: frame_def)
  then have "nat start * nat (sd_channels d) < 2 ^ 31"
    using size d(8) by linarith
  then have "in_int (int (nat start * nat (sd_channels d)))"
    by (rule in_int_nat)
  then have "in_int (start * sd_channels d)"
    using assms(2) d(9) by simp
  moreover have "sd_size d div frame d < 2 ^ 31"
    using d(8) div_le_dividend le_less_trans by blast
  then have "in_int (start + len)"
    using assms(2-4) by (simp add: in_int_def)
  ultimately show "sd_slice alloc d start len =
      bind_result (int_op (start * sd_channels d * sd_bits d)) (\<lambda>x.
        sd_load alloc (Some (drop (nat (x div 8)) (memory_of d))) len (sd_rate d) (sd_bits d) (sd_channels d))"
    using assms(2-4) by (simp add: sd_slice_def getSampleCount_ok [OF assms(1)] d(1))
qed

text \<open>Claim C17. A slice inside a sound has the length asked for and reads the samples of its stretch; but the place of its first byte
  is computed in bits, so a slice that starts far enough overflows although the sound is there.\<close>

theorem sd_slice_reads:
  assumes "sound_ok d" "0 < sd_rate d" "\<And>n. alloc n" "0 \<le> start" "0 < len" "start + len \<le> int (sd_size d div frame d)"
  shows "if start * sd_channels d * sd_bits d < 2 ^ 31
    then \<exists>d'. sd_slice alloc d start len = Inr d' \<and> sound_ok d' \<and> getSampleCount d' = Inr len \<and>
      (\<forall>j. 0 \<le> j \<and> j < len * sd_channels d \<longrightarrow> getSample d' j = getSample d (start * sd_channels d + j))
    else sd_slice alloc d start len = Inl (Undefined_behaviour ''signed overflow'')"
proof (cases "start * sd_channels d * sd_bits d < 2 ^ 31")
  case False
  then show ?thesis
    unfolding slice_ranges(2) [OF assms(1,4-6)] by (simp add: int_op_def in_int_def)
next
  case True
  note d = sound_okD [OF assms(1)] and size = slice_ranges(1) [OF assms(1,4-6)]
  let ?w = "width d" and ?a = "nat start * nat (sd_channels d)" and ?k = "nat len * nat (sd_channels d)"
  have ints: "int ?a = start * sd_channels d" "int (8 * (?w * ?a)) = start * sd_channels d * sd_bits d"
    "int ?k = len * sd_channels d" "int (?w * ?k) = len * (sd_bits d div 8) * sd_channels d"
    using assms(4,5) d(4,9) by (simp_all add: algebra_simps)
  have frames: "?w * (?a + ?k) = (nat start + nat len) * frame d" "?w * ?k = nat len * frame d"
    by (simp_all add: frame_def algebra_simps)
  have eighth: "int (8 * x) div 8 = int x" for x
    by simp
  have op: "int_op (start * sd_channels d * sd_bits d) = Inr (start * sd_channels d * sd_bits d)"
  proof -
    have "0 \<le> start * sd_channels d * sd_bits d"
      unfolding ints(2) [symmetric] by (rule of_nat_0_le_iff)
    then have "in_int (start * sd_channels d * sd_bits d)"
      using True unfolding in_int_def by linarith
    then show ?thesis
      by (rule int_op_ok)
  qed
  have v: "valid_format len (sd_rate d) (sd_bits d) (sd_channels d)"
    using assms(1,2,5) by (auto simp: valid_format_def sound_ok_def)
  let ?m = "take (?w * ?k) (drop (?w * ?a) (memory_of d))"
  define d' where "d' = \<lparr>sd_data = Some ?m, sd_size = ?w * ?k, sd_rate = sd_rate d, sd_bits = sd_bits d, sd_channels = sd_channels d\<rparr>"
  have fits: "?w * ?a + ?w * ?k \<le> sd_size d"
    using size unfolding frames(1) [symmetric] distrib_left .
  then have block: "read_block (drop (?w * ?a) (memory_of d)) 0 (?w * ?k) = Inr ?m" "?w * ?k < 2 ^ 31"
    using d(2,8) unfolding read_block_def by (auto simp only: if_P length_drop add_0 take0 drop0)
  have load: "sd_load alloc (Some (drop (?w * ?a) (memory_of d))) len (sd_rate d) (sd_bits d) (sd_channels d) = Inr d'"
    unfolding sd_load_eq [OF v] Let_def ints(4) [symmetric] nat_int if_not_P [OF not_big_nat [OF block(2)]] d'_def
    by (simp only: option.case block(1) bind_result_simps assms(3) not_True_eq_False if_False)
  note made = sd_load_ok [OF load]
  have shape: "frame d' = frame d" "width d' = ?w" "memory_of d' = ?m" "sd_size d' = ?w * ?k" "sd_bits d' = sd_bits d"
    by (simp_all add: d'_def frame_def width_def memory_of_def)
  have "getSampleCount d' = Inr len"
    using getSampleCount_ok [OF made(1)] d(6) assms(5) unfolding shape(1,4) frames(2) by simp
  moreover have "getSample d' j = getSample d (start * sd_channels d + j)" if "0 \<le> j" "j < len * sd_channels d" for j
    using getSample_sliced [OF assms(1) made(1) shape(2,5) _ shape(4,3)] that size unfolding frames(1) ints(1,3) by blast
  moreover have "nat (start * sd_channels d * sd_bits d div 8) = ?w * ?a"
    unfolding ints(2) [symmetric] eighth nat_int ..
  then have "sd_slice alloc d start len = Inr d'"
    unfolding slice_ranges(2) [OF assms(1,4-6)] op bind_result_simps by (simp only: load)
  ultimately show ?thesis
    using True made(1) by auto
qed

section \<open>A small sound\<close>

definition toy_sound :: sound_data where
  "toy_sound = \<lparr>sd_data = Some [1, 0, 2, 0, 3, 0, 255, 255], sd_size = 8, sd_rate = 44100, sd_bits = 16, sd_channels = 2\<rparr>"

lemma toy_sound_ok: "sound_ok toy_sound" "in_samples toy_sound 3" "frame toy_sound = 4"
  by (simp_all add: sound_ok_def toy_sound_def in_samples_def frame_def width_def)

theorem sample_round_trip_witness:
  "(\<exists>y. getSample toy_sound 3 = Inr y \<and> setSample toy_sound 3 y = Inr toy_sound) \<and> (\<exists>d'. setSample toy_sound 3 (1 / 2) = Inr d' \<and> sound_ok d')"
  using sample_round_trip [OF toy_sound_ok(1,2), of "1 / 2"] by auto

lemma toy_copying: "copying toy_sound toy_sound 1 1 0" "copying toy_sound toy_sound 1 (- 1) 1"
  using toy_sound_ok by (simp_all add: copying_def in_int_def) (simp_all add: toy_sound_def)

theorem copyFrom_copies_witness:
  "(\<exists>d'. copyFrom toy_sound toy_sound 1 1 0 = Inr d' \<and> getSample d' 1 = getSample toy_sound 3 \<and> getSample d' 2 = getSample toy_sound 2) \<and>
   copyFrom toy_sound toy_sound 1 2 0 = Inl (Exception ''Source out-of-range!'')"
proof -
  have "sd_channels toy_sound = 2" "frame toy_sound = 4" "sd_size toy_sound = 8"
    using toy_sound_ok(3) by (simp_all add: toy_sound_def)
  then show ?thesis
    using copyFrom_copies [of toy_sound toy_sound 1 1 0] copyFrom_copies [of toy_sound toy_sound 1 2 0] toy_sound_ok
    by (simp add: in_int_def part_of_def) auto
qed

theorem copyFrom_negative_count_witness:
  "copyFrom toy_sound toy_sound 1 (- 1) 1 = Inl (Undefined_behaviour ''read past the end of a block'')"
  by (rule copyFrom_negative_count [OF toy_copying(2)]) simp

theorem newSoundData_decoder_collects_witness:
  "\<exists>d. newSoundData_decoder (\<lambda>_. True) \<lparr>dc_rate = 44100, dc_bits = 8, dc_channels = 1, dc_answers = [[1, 2], [3], [], [4]]\<rparr> = Inr d \<and>
     sd_data d = Some [1, 2, 3]"
  using newSoundData_decoder_collects [of "\<lambda>_. True" "\<lparr>dc_rate = 44100, dc_bits = 8, dc_channels = 1, dc_answers = [[1, 2], [3], [], [4]]\<rparr>"]
  by (auto simp: decoded_def)

theorem sd_slice_reads_witness:
  "\<exists>d'. sd_slice (\<lambda>_. True) toy_sound 1 1 = Inr d' \<and> getSampleCount d' = Inr 1 \<and> getSample d' 1 = getSample toy_sound 3"
proof -
  have "sd_channels toy_sound = 2" "sd_bits toy_sound = 16" "sd_rate toy_sound = 44100" "sd_size toy_sound = 8"
    by (simp_all add: toy_sound_def)
  then show ?thesis
    using sd_slice_reads [OF toy_sound_ok(1), of "\<lambda>_. True" 1 1] toy_sound_ok(3) by auto
qed

end
