(* ===== verification/VertexIndices.thy ===== *)
theory VertexIndices
  imports Prelude
begin

text \<open>
  Which vertices a draw reads: ranges of indices (\<^verbatim>\<open>src/src/common/Range.h\<close>), the index lists that turn strips, fans and quads
  into triangles (\<^verbatim>\<open>src/src/modules/graphics/vertex.cpp\<close>), and the part of a mesh that a draw range leaves to be drawn
  (\<^verbatim>\<open>src/src/modules/graphics/Mesh.cpp\<close>), also on the backends that have no fans and draw them by an index list.

  A \<^verbatim>\<open>size_t\<close> has 64 bits, an \<^verbatim>\<open>int\<close> 32. What the graphics device does with a draw is outside; the answer of a draw
  is the command the code hands to it.
\<close>

section \<open>Ranges\<close>

record range =
  r_first :: uint64
  r_last :: uint64

definition no_range :: range where
  "no_range = \<lparr>r_first = 2 ^ 64 - 1, r_last = 0\<rparr>"

definition range_of :: "uint64 \<Rightarrow> uint64 \<Rightarrow> range" where
  "range_of offset len = \<lparr>r_first = offset, r_last = offset + len - 1\<rparr>"

definition valid_range :: "range \<Rightarrow> bool" where
  "valid_range r \<longleftrightarrow> r_first r \<le> r_last r"

definition range_size :: "range \<Rightarrow> uint64" where
  "range_size r = (r_last r - r_first r) + 1"

definition range_contains :: "range \<Rightarrow> range \<Rightarrow> bool" where
  "range_contains r other \<longleftrightarrow> r_first r \<le> r_first other \<and> r_last r \<ge> r_last other"

definition range_intersects :: "range \<Rightarrow> range \<Rightarrow> bool" where
  "range_intersects r other \<longleftrightarrow> \<not> (r_first r > r_last other \<or> r_last r < r_first other)"

definition intersect_range :: "range \<Rightarrow> range \<Rightarrow> range" where
  "intersect_range r other = \<lparr>r_first = max (r_first r) (r_first other), r_last = min (r_last r) (r_last other)\<rparr>"

definition encapsulate_index :: "range \<Rightarrow> uint64 \<Rightarrow> range" where
  "encapsulate_index r index = \<lparr>r_first = min (r_first r) index, r_last = max (r_last r) index\<rparr>"

definition encapsulate_part :: "range \<Rightarrow> uint64 \<Rightarrow> uint64 \<Rightarrow> range" where
  "encapsulate_part r offset len = \<lparr>r_first = min (r_first r) offset, r_last = max (r_last r) (offset + len - 1)\<rparr>"

definition encapsulate_range :: "range \<Rightarrow> range \<Rightarrow> range" where
  "encapsulate_range r other = \<lparr>r_first = min (r_first r) (r_first other), r_last = max (r_last r) (r_last other)\<rparr>"

abbreviation in_range :: "range \<Rightarrow> uint64 \<Rightarrow> bool" where
  "in_range r i \<equiv> r_first r \<le> i \<and> i \<le> r_last r"

lemma in_no_range: "\<not> in_range no_range i"
  by (auto simp: no_range_def)

lemma in_intersect_range: "in_range (intersect_range r r') i \<longleftrightarrow> in_range r i \<and> in_range r' i"
  by (auto simp: intersect_range_def)

lemma range_intersects_iff:
  "valid_range r \<Longrightarrow> valid_range r' \<Longrightarrow> range_intersects r r' \<longleftrightarrow> (\<exists>i. in_range r i \<and> in_range r' i)"
  unfolding range_intersects_def valid_range_def by (meson linorder_not_less order_trans linear)

lemma range_contains_iff: "valid_range r' \<Longrightarrow> range_contains r r' \<longleftrightarrow> (\<forall>i. in_range r' i \<longrightarrow> in_range r i)"
  unfolding range_contains_def valid_range_def by (meson order_refl order_trans)

text \<open>Recording the changed parts of a block: no index is lost, and the empty range is a neutral start.\<close>

lemma in_encapsulate:
  "in_range r i \<or> i = index \<Longrightarrow> in_range (encapsulate_index r index) i"
  "in_range r i \<or> in_range (range_of offset len) i \<Longrightarrow> in_range (encapsulate_part r offset len) i"
  "in_range r i \<or> in_range r' i \<Longrightarrow> in_range (encapsulate_range r r') i"
  by (auto simp: encapsulate_index_def encapsulate_part_def encapsulate_range_def range_of_def min_le_iff_disj le_max_iff_disj)

lemma encapsulate_no_range: "encapsulate_part no_range offset len = range_of offset len"
proof -
  have "offset \<le> 18446744073709551615"
    using unsigned_less [of offset, where ?'a = nat] by (simp add: word_le_nat_alt)
  then show ?thesis
    by (simp add: encapsulate_part_def no_range_def range_of_def)
qed

section \<open>Index lists\<close>

datatype index_mode = TRIANGLEINDEX_NONE | TRIANGLEINDEX_STRIP | TRIANGLEINDEX_FAN | TRIANGLEINDEX_QUADS

text \<open>Division of an \<^verbatim>\<open>int\<close> rounds towards zero.\<close>

definition quarter :: "int \<Rightarrow> int" where
  "quarter i = (if i < 0 then - ((- i) div 4) else i div 4)"

fun getIndexCount :: "index_mode \<Rightarrow> int \<Rightarrow> int result" where
  "getIndexCount TRIANGLEINDEX_NONE n = Inr 0"
| "getIndexCount TRIANGLEINDEX_STRIP n = bind_result (int_op (n - 2)) (\<lambda>k. int_op (3 * k))"
| "getIndexCount TRIANGLEINDEX_FAN n = bind_result (int_op (n - 2)) (\<lambda>k. int_op (3 * k))"
| "getIndexCount TRIANGLEINDEX_QUADS n = bind_result (int_op (n * 6)) (\<lambda>k. Inr (quarter k))"

definition strip :: "'a::len word \<Rightarrow> nat \<Rightarrow> 'a word list" where
  "strip vertexStart steps =
     concat (map (\<lambda>k. let index = of_nat k
       in [vertexStart + index, vertexStart + index + 1 + (index AND 1), vertexStart + index + 2 - (index AND 1)]) [0..<steps])"

definition fan :: "'a::len word \<Rightarrow> nat \<Rightarrow> 'a word list" where
  "fan vertexStart vertexCount =
     concat (map (\<lambda>k. let index = of_nat k in [vertexStart, vertexStart + index - 1, vertexStart + index]) [2..<vertexCount])"

definition quads :: "'a::len word \<Rightarrow> nat \<Rightarrow> 'a word list" where
  "quads vertexStart count =
     concat (map (\<lambda>i. let vi = vertexStart + of_nat (i * 4) in [vi + 0, vi + 1, vi + 2, vi + 2, vi + 1, vi + 3]) [0..<count])"

text \<open>The indices are written one after the other from the pointer on. The counter of the elements written is an \<^verbatim>\<open>int\<close>.\<close>

definition stored :: "'a word list \<Rightarrow> 'a word list \<Rightarrow> 'a word list result" where
  "stored new indices =
     (if 2 ^ 31 \<le> length new then Inl (Undefined_behaviour ''signed overflow'')
      else if length indices < length new then Inl (Undefined_behaviour ''write past the end of a block'')
      else Inr (new @ drop (length new) indices))"

text \<open>The bound of the loop over a strip is computed in \<^verbatim>\<open>int\<close> for 16-bit indices, so that it can be negative, and wraps around for those of 32 bits.\<close>

fun fillIndicesT :: "nat \<Rightarrow> index_mode \<Rightarrow> 'a::len word \<Rightarrow> 'a word \<Rightarrow> 'a word list \<Rightarrow> 'a word list result" where
  "fillIndicesT steps TRIANGLEINDEX_NONE vertexStart vertexCount indices = Inr indices"
| "fillIndicesT steps TRIANGLEINDEX_STRIP vertexStart vertexCount indices = stored (strip vertexStart steps) indices"
| "fillIndicesT steps TRIANGLEINDEX_FAN vertexStart vertexCount indices = stored (fan vertexStart (unat vertexCount)) indices"
| "fillIndicesT steps TRIANGLEINDEX_QUADS vertexStart vertexCount indices = stored (quads vertexStart (unat vertexCount div 4)) indices"

definition fillIndices16 :: "index_mode \<Rightarrow> uint16 \<Rightarrow> uint16 \<Rightarrow> uint16 list \<Rightarrow> uint16 list result" where
  "fillIndices16 mode vertexStart vertexCount indices = fillIndicesT (unat vertexCount - 2) mode vertexStart vertexCount indices"

definition fillIndices32 :: "index_mode \<Rightarrow> uint32 \<Rightarrow> uint32 \<Rightarrow> uint32 list \<Rightarrow> uint32 list result" where
  "fillIndices32 mode vertexStart vertexCount indices = fillIndicesT (unat (vertexCount - 2)) mode vertexStart vertexCount indices"

section \<open>The triangles of an index list\<close>

fun triangles :: "index_mode \<Rightarrow> nat \<Rightarrow> (nat \<times> nat \<times> nat) list" where
  "triangles TRIANGLEINDEX_NONE n = []"
| "triangles TRIANGLEINDEX_STRIP n = map (\<lambda>k. if even k then (k, k + 1, k + 2) else (k, k + 2, k + 1)) [0..<n - 2]"
| "triangles TRIANGLEINDEX_FAN n = map (\<lambda>k. (0, k - 1, k)) [2..<n]"
| "triangles TRIANGLEINDEX_QUADS n = concat (map (\<lambda>i. [(4 * i, 4 * i + 1, 4 * i + 2), (4 * i + 2, 4 * i + 1, 4 * i + 3)]) [0..<n div 4])"

definition corners :: "nat \<Rightarrow> (nat \<times> nat \<times> nat) list \<Rightarrow> nat list" where
  "corners start ts = concat (map (\<lambda>(a, b, c). [start + a, start + b, start + c]) ts)"

lemma length_corners [simp]: "length (corners start ts) = 3 * length ts"
  by (induction ts) (auto simp: corners_def)

lemma corners_concat: "corners start (concat tss) = concat (map (corners start) tss)"
  by (induction tss) (auto simp: corners_def)

lemma unat_plus_nat:
  fixes s :: "'a::len word"
  assumes "unat s + k < 2 ^ LENGTH('a)"
  shows "unat (s + of_nat k) = unat s + k"
proof -
  have "s + of_nat k = of_nat (unat s + k)"
    by simp
  then show ?thesis
    using assms by (simp only: unat_of_nat_small)
qed

lemma strip_corners:
  fixes s :: "'a::len word"
  assumes "unat s + (steps + 2) \<le> 2 ^ LENGTH('a)"
  shows "map unat (strip s steps) = corners (unat s) (triangles TRIANGLEINDEX_STRIP (steps + 2))"
proof -
  have low: "of_nat k AND 1 = (of_bool (odd k) :: 'a word)" for k
    using of_nat_and_eq [of k 1, where 'a = "'a word", symmetric] by (simp add: and_one_eq mod2_eq_if del: of_nat_mod)
  have "[unat (s + of_nat k), unat (s + of_nat k + 1 + (of_nat k AND 1)), unat (s + of_nat k + 2 - (of_nat k AND 1))] =
      (if even k then [unat s + k, unat s + (k + 1), unat s + (k + 2)] else [unat s + k, unat s + (k + 2), unat s + (k + 1)])"
    if "k < steps" for k
    using that assms unat_plus_nat [of s k] unat_plus_nat [of s "k + 1"] unat_plus_nat [of s "k + 2"]
    by (auto simp: low add_ac)
  then show ?thesis
    unfolding strip_def corners_def
    by (auto simp: map_concat comp_def Let_def intro!: arg_cong [where f = concat] map_cong)
qed

lemma fan_corners:
  fixes s :: "'a::len word"
  assumes "unat s + n \<le> 2 ^ LENGTH('a)"
  shows "map unat (fan s n) = corners (unat s) (triangles TRIANGLEINDEX_FAN n)"
proof -
  have "unat (s + of_nat k - 1) = unat s + (k - 1) \<and> unat (s + of_nat k) = unat s + k" if "2 \<le> k" "k < n" for k
  proof -
    have "s + of_nat k - 1 = s + of_nat (k - 1)"
      using that by (simp add: of_nat_diff)
    then show ?thesis
      using that assms unat_plus_nat [of s k] unat_plus_nat [of s "k - 1"] by (simp only:)
  qed
  then show ?thesis
    unfolding fan_def corners_def
    by (auto simp: map_concat comp_def Let_def intro!: arg_cong [where f = concat] map_cong)
qed

lemma quads_corners:
  fixes s :: "'a::len word"
  assumes "unat s + n \<le> 2 ^ LENGTH('a)"
  shows "map unat (quads s (n div 4)) = corners (unat s) (triangles TRIANGLEINDEX_QUADS n)"
proof -
  have "unat (s + of_nat (i * 4) + of_nat j) = unat s + (4 * i + j)" if "i < n div 4" "j < 4" for i j
  proof -
    have "i * 4 + j < n"
      using that by linarith
    then show ?thesis
      using assms unat_plus_nat [of s "i * 4 + j"] by (simp add: add.assoc mult.commute)
  qed
  from this [of _ 0] this [of _ 1] this [of _ 2] this [of _ 3]
  have "map unat (let vi = s + of_nat (i * 4) in [vi + 0, vi + 1, vi + 2, vi + 2, vi + 1, vi + 3]) =
      corners (unat s) [(4 * i, 4 * i + 1, 4 * i + 2), (4 * i + 2, 4 * i + 1, 4 * i + 3)]" if "i < n div 4" for i
    using that by (simp add: Let_def corners_def)
  then have "map unat (quads s (n div 4)) =
      concat (map (\<lambda>i. corners (unat s) [(4 * i, 4 * i + 1, 4 * i + 2), (4 * i + 2, 4 * i + 1, 4 * i + 3)]) [0..<n div 4])"
    unfolding quads_def map_concat map_map by (auto simp: comp_def intro!: arg_cong [where f = concat])
  also have "\<dots> = corners (unat s) (triangles TRIANGLEINDEX_QUADS n)"
    by (simp add: corners_concat comp_def)
  finally show ?thesis .
qed

lemma length_indices:
  "length (strip s steps) = 3 * steps" "length (fan s n) = 3 * (n - 2)" "length (quads s m) = 6 * m"
  by (simp_all add: strip_def fan_def quads_def length_concat comp_def Let_def sum_list_triv)

lemma length_triangles:
  "length (triangles mode n) = (case mode of TRIANGLEINDEX_NONE \<Rightarrow> 0 | TRIANGLEINDEX_QUADS \<Rightarrow> 2 * (n div 4) | _ \<Rightarrow> n - 2)"
  by (cases mode) (simp_all add: length_concat comp_def sum_list_triv)

lemma fill_triangles:
  fixes s n :: "'a::len word"
  assumes "unat s + unat n \<le> 2 ^ LENGTH('a)" "mode = TRIANGLEINDEX_STRIP \<Longrightarrow> 2 \<le> unat n" "3 * length (triangles mode (unat n)) < 2 ^ 31"
    "3 * length (triangles mode (unat n)) \<le> length indices"
  shows "\<exists>new. fillIndicesT (unat n - 2) mode s n indices = Inr (new @ drop (length new) indices) \<and>
    map unat new = corners (unat s) (triangles mode (unat n))"
proof (cases mode)
  case TRIANGLEINDEX_NONE
  then show ?thesis
    by (auto simp: corners_def intro: exI [of _ "[]"])
next
  case TRIANGLEINDEX_STRIP
  then show ?thesis
    using assms strip_corners [of s "unat n - 2"]
    by (intro exI [of _ "strip s (unat n - 2)"]) (simp add: stored_def length_indices)
next
  case TRIANGLEINDEX_FAN
  then show ?thesis
    using assms fan_corners [of s "unat n"]
    by (intro exI [of _ "fan s (unat n)"]) (simp add: stored_def length_indices)
next
  case TRIANGLEINDEX_QUADS
  then show ?thesis
    using assms quads_corners [of s "unat n"]
    by (intro exI [of _ "quads s (unat n div 4)"]) (simp add: stored_def length_indices length_triangles del: triangles.simps(4))
qed

text \<open>Quads leave up to three vertices over, for which the count still asks for space.\<close>

definition left_over :: "index_mode \<Rightarrow> nat \<Rightarrow> nat" where
  "left_over mode n = (if mode = TRIANGLEINDEX_QUADS then 3 * (n mod 4) div 2 else 0)"

lemma getIndexCount_triangles:
  assumes "n < 65536" "mode \<in> {TRIANGLEINDEX_STRIP, TRIANGLEINDEX_FAN} \<Longrightarrow> 2 \<le> n"
  shows "getIndexCount mode (int n) = Inr (int (3 * length (triangles mode n) + left_over mode n))"
proof (cases "mode = TRIANGLEINDEX_QUADS")
  case True
  have "n * 6 div 4 = 3 * (2 * (n div 4)) + 3 * (n mod 4) div 2"
    by presburger
  then show ?thesis
    using True assms(1) by (simp add: length_triangles left_over_def in_int_def quarter_def flip: of_nat_mult of_nat_div del: triangles.simps)
next
  case False
  then show ?thesis
    using assms by (cases mode) (auto simp: length_triangles left_over_def in_int_def of_nat_diff simp del: triangles.simps)
qed

text \<open>Claim C21. Making the 16-bit indices of vertices that all fit 16 bits writes three corners of every triangle of the strip, the fan or the
  quads, every second triangle of a strip turned around, never a vertex that was not given, and leaves what follows. The space
  asked for always suffices; it is exactly what is written, except that for quads it counts up to three vertices that are left over (the
  index buffer made for 65535 vertices has four elements that nothing writes). A strip or a fan has to have two
  vertices, for fewer the space asked for is negative.\<close>

theorem fillIndices_triangles:
  assumes "unat s + unat n \<le> 65536" "mode \<in> {TRIANGLEINDEX_STRIP, TRIANGLEINDEX_FAN} \<longrightarrow> 2 \<le> unat n"
    "getIndexCount mode (int (unat n)) = Inr count" "nat count \<le> length indices"
  shows "\<exists>new. fillIndices16 mode s n indices = Inr (new @ drop (length new) indices) \<and>
    count = int (length new) + (if mode = TRIANGLEINDEX_QUADS then int (3 * (unat n mod 4) div 2) else 0) \<and>
    map unat new = corners (unat s) (triangles mode (unat n)) \<and> (\<forall>i \<in> set new. unat s \<le> unat i \<and> unat i < unat s + unat n)"
proof -
  have small: "unat n < 65536"
    using unsigned_less [of n, where ?'a = nat] by simp
  have count: "count = int (3 * length (triangles mode (unat n)) + left_over mode (unat n))"
    using assms(2,3) getIndexCount_triangles [OF small, of mode] by auto
  then have "3 * length (triangles mode (unat n)) \<le> length indices"
    using assms(4) by simp
  moreover have "3 * length (triangles mode (unat n)) < 2 ^ 31"
    using small by (cases mode) (auto simp: length_triangles simp del: triangles.simps)
  ultimately obtain new where new: "fillIndices16 mode s n indices = Inr (new @ drop (length new) indices)"
      "map unat new = corners (unat s) (triangles mode (unat n))"
    using assms fill_triangles [of s n mode indices] by (auto simp: fillIndices16_def)
  have "set (corners (unat s) (triangles mode (unat n))) \<subseteq> {unat s..<unat s + unat n}"
    using assms(2) by (cases mode) (auto simp: corners_def split: if_splits)
  then have "unat s \<le> unat i \<and> unat i < unat s + unat n" if "i \<in> set new" for i
    using that new(2) by (metis atLeastLessThan_iff image_eqI list.set_map subsetD)
  moreover have "count = int (length new) + (if mode = TRIANGLEINDEX_QUADS then int (3 * (unat n mod 4) div 2) else 0)"
    using arg_cong [OF new(2), of length] count by (simp add: left_over_def)
  ultimately show ?thesis
    using new by blast
qed

theorem fillIndices_triangles_witness:
  "(\<exists>new. fillIndices16 TRIANGLEINDEX_STRIP 10 4 [0, 0, 0, 0, 0, 0, 7] = Inr (new @ drop (length new) [0, 0, 0, 0, 0, 0, 7]) \<and> length new = 6) \<and>
   (\<exists>new. fillIndices16 TRIANGLEINDEX_QUADS 0 7 (replicate 10 0) = Inr (new @ drop (length new) (replicate 10 0)) \<and> length new = 6)"
  using fillIndices_triangles [of 10 4 TRIANGLEINDEX_STRIP 6 "[0, 0, 0, 0, 0, 0, 7]"]
    fillIndices_triangles [of 0 7 TRIANGLEINDEX_QUADS 10 "replicate 10 0"]
  by (auto simp: in_int_def quarter_def)

text \<open>Indices of 32 bits are made in the same way, but a strip of fewer than two vertices never ends well: the bound of its loop wraps around.\<close>

lemma fillIndices32_triangles:
  assumes "unat s + unat n \<le> 2 ^ 32" "2 \<le> unat n" "3 * length (triangles mode (unat n)) < 2 ^ 31"
    "3 * length (triangles mode (unat n)) \<le> length indices"
  shows "\<exists>new. fillIndices32 mode s n indices = Inr (new @ drop (length new) indices) \<and>
    map unat new = corners (unat s) (triangles mode (unat n))"
proof -
  have "unat (n - 2) = unat n - 2"
    using assms(2) by (simp add: unat_sub word_le_nat_alt)
  then show ?thesis
    using assms fill_triangles [of s n mode indices] by (simp add: fillIndices32_def)
qed

lemma fillIndices32_short_strip: "n < 2 \<Longrightarrow> fillIndices32 TRIANGLEINDEX_STRIP s n indices = Inl (Undefined_behaviour ''signed overflow'')"
proof -
  assume "n < 2"
  then have "unat n < 2"
    by (simp add: word_less_nat_alt)
  then obtain i where "i < 2" "n = of_nat i"
    by (rule word_lt_cases)
  then have "n = 0 \<or> n = 1"
    by (auto simp: less_2_cases_iff)
  then show ?thesis
    by (auto simp: fillIndices32_def stored_def length_indices unsigned_minus_1_eq_mask mask_eq_exp_minus_1)
qed

section \<open>What a mesh draws\<close>

text \<open>A mesh as far as its draw range is concerned: whether it is drawn as a fan, whether it uses its index buffer, the size in bytes of an
  element of that buffer if it has one, and the numbers of indices and vertices.\<close>

record mesh =
  ms_fan :: bool
  ms_useIndexBuffer :: bool
  ms_indexBuffer :: "uint64 option"
  ms_indexCount :: uint64
  ms_vertexCount :: uint64
  ms_drawRange :: range

datatype drawing = No_draw | Draw_indexed uint64 int | Draw_vertices int int

text \<open>Of a \<^verbatim>\<open>size_t\<close> that becomes an \<^verbatim>\<open>int\<close> the lower 32 bits remain.\<close>

definition as_int :: "uint64 \<Rightarrow> int" where
  "as_int w = sint (ucast w :: uint32)"

definition setDrawRange :: "int \<Rightarrow> int \<Rightarrow> mesh \<Rightarrow> mesh result" where
  "setDrawRange start count ms =
     (if start < 0 \<or> count \<le> 0 then Inl (Exception ''Invalid draw range.'')
      else Inr (ms\<lparr>ms_drawRange := range_of (word_of_int start) (word_of_int count)\<rparr>))"

definition setDrawRange_all :: "mesh \<Rightarrow> mesh" where
  "setDrawRange_all ms = ms\<lparr>ms_drawRange := no_range\<rparr>"

definition getDrawRange :: "mesh \<Rightarrow> (int \<times> int) option" where
  "getDrawRange ms =
     (if \<not> valid_range (ms_drawRange ms) then None
      else Some (as_int (r_first (ms_drawRange ms)), as_int (range_size (ms_drawRange ms))))"

text \<open>The index buffer, the number of indices and the range of a draw. \<open>fan_buffer\<close> is the size of an element of the index buffer that
  stands in for fans, on the backends that need one.\<close>

definition draw_source :: "uint64 option \<Rightarrow> mesh \<Rightarrow> (uint64 option \<times> int \<times> range) result" where
  "draw_source fan_buffer ms =
     (let indexbuffer = (if ms_useIndexBuffer ms then ms_indexBuffer ms else None);
          indexcount = as_int (ms_indexCount ms);
          range = ms_drawRange ms
      in if ms_fan ms \<and> indexbuffer = None \<and> fan_buffer \<noteq> None then
           bind_result (getIndexCount TRIANGLEINDEX_FAN (as_int (ms_vertexCount ms))) (\<lambda>indexcount.
             if valid_range range then
               bind_result (getIndexCount TRIANGLEINDEX_FAN (as_int (r_first range))) (\<lambda>start.
               bind_result (getIndexCount TRIANGLEINDEX_FAN (as_int (range_size range))) (\<lambda>count.
                 Inr (fan_buffer, indexcount, range_of (word_of_int start) (word_of_int count))))
             else Inr (fan_buffer, indexcount, range))
         else Inr (indexbuffer, indexcount, range))"

text \<open>The part of \<^verbatim>\<open>Mesh::drawInternal\<close> that decides what is drawn, for a draw that is not indirect and has at least one instance.\<close>

definition drawInternal :: "uint64 option \<Rightarrow> mesh \<Rightarrow> drawing result" where
  "drawInternal fan_buffer ms =
     (if ms_vertexCount ms = 0 then Inr No_draw
      else if ms_fan ms \<and> ms_useIndexBuffer ms \<and> ms_indexBuffer ms \<noteq> None then
        Inl (Exception ''The 'fan' Mesh draw mode cannot be used with an index buffer / vertex map.'')
      else
        bind_result (draw_source fan_buffer ms) (\<lambda>(indexbuffer, indexcount, range).
          case (if indexcount > 0 then indexbuffer else None) of
            Some stride \<Rightarrow>
              let r = range_of 0 (word_of_int indexcount);
                  r = (if valid_range range then intersect_range r range else r);
                  count = as_int (range_size r)
              in Inr (if count > 0 then Draw_indexed (r_first r * stride) count else No_draw)
          | None \<Rightarrow>
              let r = range_of 0 (ms_vertexCount ms);
                  r = (if valid_range range then intersect_range r range else r);
                  count = as_int (range_size r)
              in Inr (if count > 0 then Draw_vertices (as_int (r_first r)) count else No_draw)))"

lemma as_int_of_int: "in_int k \<Longrightarrow> as_int (word_of_int k) = k"
  by (simp add: as_int_def in_int_def signed_take_bit_int_eq_self_iff unsigned_of_int signed_of_int signed_take_bit_take_bit)

lemma word_of_int_le: "0 \<le> a \<Longrightarrow> a < 2 ^ 64 \<Longrightarrow> 0 \<le> b \<Longrightarrow> b < 2 ^ 64 \<Longrightarrow> (word_of_int a :: uint64) \<le> word_of_int b \<longleftrightarrow> a \<le> b"
  by (simp add: word_le_def uint_word_of_int)

lemma range_of_ints: "range_of (word_of_int a) (word_of_int n) = \<lparr>r_first = word_of_int a, r_last = word_of_int (a + n - 1)\<rparr>"
  by (simp add: range_of_def)

text \<open>A part of a row of elements, cut at its end.\<close>

lemma cut_range:
  assumes "0 \<le> start" "start < 2 ^ 31" "0 < count" "count < 2 ^ 31" "0 < n" "n < 2 ^ 31"
  shows "valid_range (range_of (word_of_int start) (word_of_int count))"
    "intersect_range (range_of 0 (word_of_int n)) (range_of (word_of_int start) (word_of_int count)) =
      \<lparr>r_first = word_of_int start, r_last = word_of_int (min (n - 1) (start + count - 1))\<rparr>"
    "as_int (range_size \<lparr>r_first = word_of_int start, r_last = word_of_int (min (n - 1) (start + count - 1))\<rparr>) = min count (n - start)"
proof -
  have bounds: "start + count - 1 < 2 ^ 64" "n - 1 < 2 ^ 64" "start < 2 ^ 64" "0 \<le> start + count - 1" "0 \<le> n - 1"
    using assms by simp_all
  then show "valid_range (range_of (word_of_int start) (word_of_int count))"
    using assms word_of_int_le [of start "start + count - 1"] by (simp add: valid_range_def range_of_ints)
  have "range_of 0 (word_of_int n) = \<lparr>r_first = 0, r_last = word_of_int (n - 1)\<rparr>"
    using range_of_ints [of 0 n] by simp
  then show "intersect_range (range_of 0 (word_of_int n)) (range_of (word_of_int start) (word_of_int count)) =
      \<lparr>r_first = word_of_int start, r_last = word_of_int (min (n - 1) (start + count - 1))\<rparr>"
    using bounds assms word_of_int_le [of "n - 1" "start + count - 1"]
    by (simp add: intersect_range_def range_of_ints min_def)
  have "range_size \<lparr>r_first = word_of_int start, r_last = word_of_int (min (n - 1) (start + count - 1))\<rparr> =
      word_of_int (min (n - 1) (start + count - 1) - start + 1)"
    by (simp add: range_size_def)
  also have "min (n - 1) (start + count - 1) - start + 1 = min count (n - start)"
    by (simp add: min_def)
  finally show "as_int (range_size \<lparr>r_first = word_of_int start, r_last = word_of_int (min (n - 1) (start + count - 1))\<rparr>) = min count (n - start)"
    using assms as_int_of_int [of "min count (n - start)"] by (simp add: in_int_def min_def)
qed

text \<open>Claim C19. A draw range is honoured on every mesh but the fans that a backend draws by an index list: it is kept as it was given, and
  the elements drawn are those from its start on, as many as it counts or as many as there are, and nothing when it starts past the
  end. They are indices where the mesh uses an index buffer and has any index, and vertices otherwise; a fan with an
  index buffer is refused.\<close>

theorem draw_range_honoured:
  assumes "setDrawRange start count ms = Inr ms'" "start < 2 ^ 31" "count < 2 ^ 31"
    "ms_vertexCount ms = word_of_int n" "0 < n" "n < 2 ^ 31" "ms_indexCount ms = word_of_int k" "0 \<le> k" "k < 2 ^ 31"
    "ms_fan ms \<longrightarrow> fan_buffer = None"
  shows "getDrawRange ms' = Some (start, count) \<and>
    drawInternal fan_buffer ms' =
      (if ms_fan ms \<and> ms_useIndexBuffer ms \<and> ms_indexBuffer ms \<noteq> None
       then Inl (Exception ''The 'fan' Mesh draw mode cannot be used with an index buffer / vertex map.'')
       else Inr
         (case (if ms_useIndexBuffer ms \<and> 0 < k then ms_indexBuffer ms else None) of
            Some stride \<Rightarrow> if start < k then Draw_indexed (word_of_int start * stride) (min count (k - start)) else No_draw
          | None \<Rightarrow> if start < n then Draw_vertices start (min count (n - start)) else No_draw))"
proof -
  have ms': "ms' = ms\<lparr>ms_drawRange := range_of (word_of_int start) (word_of_int count)\<rparr>" and pos: "0 \<le> start" "0 < count"
    using assms(1) by (auto simp: setDrawRange_def split: if_splits)
  define given where "given = range_of (word_of_int start) (word_of_int count)"
  define part where "part len = intersect_range (range_of 0 (word_of_int len)) given" for len
  have part: "r_first (part len) = word_of_int start" "as_int (range_size (part len)) = min count (len - start)" "valid_range given"
    if "0 < len" "len < 2 ^ 31" for len
    using cut_range [OF pos(1) assms(2) pos(2) assms(3) that] by (simp_all add: part_def given_def)
  have ints: "as_int (word_of_int start) = start" "as_int (word_of_int k) = k" "as_int (word_of_int count) = count"
    using assms pos by (simp_all add: as_int_of_int in_int_def)
  have "range_size given = word_of_int count"
    by (simp add: given_def range_size_def range_of_ints)
  moreover have "r_first given = word_of_int start"
    by (simp add: given_def range_of_ints)
  ultimately have "getDrawRange ms' = Some (start, count)"
    using ints part(3) [OF assms(5,6)] by (simp add: ms' getDrawRange_def flip: given_def)
  moreover have "(word_of_int n :: uint64) \<noteq> 0"
    using assms(5,6) as_int_of_int [of n] as_int_of_int [of 0] by (auto simp: in_int_def)
  ultimately show ?thesis
    using assms(4-10) pos ints part [OF assms(5,6)] part [of k]
    unfolding ms' given_def [symmetric]
    by (auto simp: drawInternal_def draw_source_def Let_def part_def [symmetric] split: option.splits)
qed

text \<open>A mesh of six vertices drawn from the second on, four of them.\<close>

definition example_mesh :: "bool \<Rightarrow> mesh" where
  "example_mesh f = \<lparr>ms_fan = f, ms_useIndexBuffer = False, ms_indexBuffer = None, ms_indexCount = 0, ms_vertexCount = 6, ms_drawRange = no_range\<rparr>"

definition example_part :: "bool \<Rightarrow> int \<Rightarrow> int \<Rightarrow> mesh" where
  "example_part f start count = (example_mesh f)\<lparr>ms_drawRange := range_of (word_of_int start) (word_of_int count)\<rparr>"

theorem draw_range_honoured_witness:
  "getDrawRange (example_part False 1 4) = Some (1, 4) \<and> drawInternal (Some 2) (example_part False 1 4) = Inr (Draw_vertices 1 4)"
  using draw_range_honoured [of 1 4 "example_mesh False" "example_part False 1 4" 6 0 "Some 2"]
  by (simp add: example_mesh_def example_part_def setDrawRange_def)

text \<open>The index list that stands in for a fan numbers its triangles from zero, but a range that starts at a vertex is looked up as if it ended there.\<close>

lemma fan_part:
  fixes n :: nat
  assumes "start + 2 + len \<le> n"
  shows "take len (drop start (triangles TRIANGLEINDEX_FAN n)) = map (\<lambda>k. (0, k - 1, k)) [start + 2..<start + 2 + len]"
proof -
  have "take len (drop start [2..<n]) = [2 + start..<2 + start + len]"
    unfolding drop_upt by (rule take_upt) (use assms in simp)
  then show ?thesis
    unfolding triangles.simps take_map drop_map by (simp only: add.commute)
qed

lemma wrapped_le:
  assumes "in_int a" "in_int b"
  shows "(word_of_int a :: uint64) \<le> word_of_int b \<longleftrightarrow> (if a < 0 then b < 0 \<and> a \<le> b else b < 0 \<or> a \<le> b)"
proof -
  have "uint (word_of_int i :: uint64) = (if i < 0 then i + 2 ^ 64 else i)" if "in_int i" for i
    using that mod_pos_pos_trivial [of "i + 2 ^ 64" "2 ^ 64"] by (simp add: in_int_def uint_word_of_int take_bit_eq_mod)
  from this [OF assms(1)] this [OF assms(2)] assms show ?thesis
    by (simp add: word_le_def in_int_def)
qed

text \<open>Claim C18. On a backend that draws fans by an index list a draw range of at least three vertices is not honoured, unless it is all of
  a fan of five or more: from the third vertex on it draws the right number of triangles, but the ones of the whole fan that begin one
  vertex before the range and hang on vertex zero (lemma \<open>fan_part\<close>); from the first or second vertex it draws the whole
  fan, or, for the shortest ranges, more indices than there are from a place before the list begins.\<close>

theorem fan_range_wrong:
  assumes "setDrawRange start count ms = Inr ms'" "3 \<le> count" "start + count \<le> n" "n < 65536"
    "ms_vertexCount ms = word_of_int n" "ms_fan ms" "\<not> (ms_useIndexBuffer ms \<and> ms_indexBuffer ms \<noteq> None)"
  shows "drawInternal (Some 2) ms' = Inr
    (if 2 \<le> start then Draw_indexed (word_of_int (2 * (3 * (start - 2)))) (3 * (count - 2))
     else if start + count \<le> 4
       then Draw_indexed (word_of_int (2 * (3 * (start - 2)))) (3 * (n - 2) + 3 * (2 - start))
     else Draw_indexed 0 (3 * (n - 2)))"
proof -
  have start: "0 \<le> start" and ms': "ms' = ms\<lparr>ms_drawRange := range_of (word_of_int start) (word_of_int count)\<rparr>"
    using assms(1) by (auto simp: setDrawRange_def split: if_splits)
  let ?range = "range_of (word_of_int (3 * (start - 2))) (word_of_int (3 * (count - 2)))"
  have given: "valid_range (range_of (word_of_int start) (word_of_int count))"
    using start assms(2-4) cut_range(1) [of start count 1] by simp
  have ints: "as_int (word_of_int start) = start" "as_int (word_of_int n) = n" "as_int (word_of_int count) = count"
    using assms start by (simp_all add: as_int_of_int in_int_def)
  have "range_size (range_of (word_of_int start) (word_of_int count)) = word_of_int count"
    by (simp add: range_size_def range_of_ints)
  then have source: "draw_source (Some 2) ms' = Inr (Some 2, 3 * (n - 2), ?range)"
    using assms start ints given range_of_ints [of start count]
    by (auto simp: ms' draw_source_def Let_def in_int_def simp del: word_of_int_homs)
  have "(word_of_int n :: uint64) \<noteq> 0"
    using assms start as_int_of_int [of n] as_int_of_int [of 0] by (auto simp: in_int_def)
  then have draw: "drawInternal (Some 2) ms' =
      (let r = (if valid_range ?range then intersect_range (range_of 0 (word_of_int (3 * (n - 2)))) ?range else range_of 0 (word_of_int (3 * (n - 2))));
           len = as_int (range_size r)
       in Inr (if len > 0 then Draw_indexed (r_first r * 2) len else No_draw))"
    using source assms start by (auto simp: ms' drawInternal_def Let_def)
  have whole: "as_int (range_size (range_of 0 (word_of_int (3 * (n - 2))))) = 3 * (n - 2)" "r_first (range_of 0 w) = 0" for w
    using assms start as_int_of_int [of "3 * (n - 2)"] range_of_ints [of 0 "3 * (n - 2)"]
    by (simp_all add: range_size_def in_int_def range_of_def)
  show ?thesis
  proof (cases "2 \<le> start")
    case True
    have "3 * (start - 2) < 2 ^ 31" "3 * (count - 2) < 2 ^ 31" "3 * (n - 2) < 2 ^ 31" "min (3 * (count - 2)) (3 * (n - 2) - 3 * (start - 2)) = 3 * (count - 2)"
      using assms start by simp_all
    with True show ?thesis
      using draw cut_range [of "3 * (start - 2)" "3 * (count - 2)" "3 * (n - 2)"] assms start by (simp add: Let_def)
  next
    case False
    let ?a = "3 * (start - 2)" and ?l = "3 * (start - 2) + 3 * (count - 2) - 1" and ?e = "3 * (n - 2) - 1"
    have ints: "in_int ?a" "in_int ?l" "in_int ?e" and signs: "?a < 0" "0 \<le> ?e" "?l < 0 \<longleftrightarrow> start + count \<le> 4"
      using False assms start by (auto simp: in_int_def)
    have all: "range_of 0 (word_of_int (3 * (n - 2))) = \<lparr>r_first = 0, r_last = word_of_int ?e\<rparr>"
      using range_of_ints [of 0 "3 * (n - 2)"] by simp
    have range: "?range = \<lparr>r_first = word_of_int ?a, r_last = word_of_int ?l\<rparr>"
      by (rule range_of_ints)
    show ?thesis
    proof (cases "start + count \<le> 4")
      case True
      then have "valid_range ?range"
        unfolding range valid_range_def using wrapped_le [OF ints(1,2)] True signs assms(2) by simp
      moreover have "intersect_range (range_of 0 (word_of_int (3 * (n - 2)))) ?range = \<lparr>r_first = word_of_int ?a, r_last = word_of_int ?e\<rparr>"
        unfolding range all intersect_range_def
        using True ints signs wrapped_le [OF ints(3,2)] by (simp add: max_def min_def)
      moreover have "as_int (range_size \<lparr>r_first = word_of_int ?a, r_last = word_of_int ?e\<rparr>) = 3 * (n - 2) - ?a"
        using as_int_of_int [of "3 * (n - 2) - ?a"] assms start False by (simp add: range_size_def in_int_def)
      ultimately show ?thesis
        using True False draw assms start by (simp add: Let_def)
    next
      case late: False
      then have "\<not> valid_range ?range"
        unfolding range valid_range_def using wrapped_le [OF ints(1,2)] late signs by simp
      then show ?thesis
        using late False draw whole assms start by (simp add: Let_def)
    qed
  qed
qed

theorem fan_range_wrong_witness:
  "drawInternal (Some 2) (example_part True 0 3) = Inr (Draw_indexed (- 12) 18) \<and>
   drawInternal (Some 2) (example_part True 2 4) = Inr (Draw_indexed 0 6)"
  using fan_range_wrong [of 0 3 "example_mesh True" "example_part True 0 3" 6]
    fan_range_wrong [of 2 4 "example_mesh True" "example_part True 2 4" 6]
  by (simp add: example_mesh_def example_part_def setDrawRange_def)

end
