(* ===== verification/Rounding.thy ===== *)
theory Rounding
  imports Complex_Main
begin

text \<open>
  Arithmetic of 32-bit floats where a loop depends on its rounding: the counter that decides how many
  particles are due (\<^verbatim>\<open>src/src/modules/graphics/ParticleSystem.cpp\<close>). An operation rounds the
  real result to the nearest number that has a float, exactly as the standard requires; numbers too large for a
  float are only told apart in \<open>f32_reciprocal\<close>, where the code divides by a number that may be nothing.
\<close>

section \<open>Rounding\<close>

text \<open>A \<^verbatim>\<open>float\<close> keeps 24 binary digits, the last of which is never worth less than a \<open>2 ^ 149\<close>-th.\<close>

definition float_ulp :: "real \<Rightarrow> real" where
  "float_ulp x = 2 powi max (\<lfloor>log 2 \<bar>x\<bar>\<rfloor> - 23) (-149)"

text \<open>Rounding goes to the nearest number of digits, and to the even one of two that are as near.\<close>

definition round_even :: "real \<Rightarrow> int" where
  "round_even x =
     (let k = \<lfloor>x\<rfloor>; r = x - of_int k
      in if r < 1 / 2 \<or> r = 1 / 2 \<and> even k then k else k + 1)"

definition f32 :: "real \<Rightarrow> real" where
  "f32 x = of_int (round_even (x / float_ulp x)) * float_ulp x"

text \<open>One divided by a float; no answer stands for infinity.\<close>

definition f32_reciprocal :: "real \<Rightarrow> real option" where
  "f32_reciprocal x = (if x = 0 \<or> \<bar>f32 (1 / x)\<bar> \<ge> 2 ^ 128 then None else Some (f32 (1 / x)))"

section \<open>How far rounding goes\<close>

lemma float_ulp_pos: "0 < float_ulp x" "2 powi (-149) \<le> float_ulp x"
proof -
  show "0 < float_ulp x"
    by (simp add: float_ulp_def)
  show "2 powi (-149) \<le> float_ulp x"
    unfolding float_ulp_def by (rule power_int_increasing) simp_all
qed

lemma round_even_near: "\<bar>of_int (round_even x) - x\<bar> \<le> 1 / 2"
  unfolding round_even_def Let_def by (simp split: if_splits; linarith)

lemma f32_near: "\<bar>f32 x - x\<bar> \<le> float_ulp x / 2"
proof -
  have "f32 x - x = (of_int (round_even (x / float_ulp x)) - x / float_ulp x) * float_ulp x"
    using float_ulp_pos(1) [of x] by (simp add: f32_def algebra_simps)
  then show ?thesis
    using mult_right_mono [OF round_even_near [of "x / float_ulp x"], of "float_ulp x"] float_ulp_pos(1) [of x]
    by (simp add: abs_mult)
qed

lemma float_ulp_le:
  assumes "0 < x"
  shows "float_ulp x \<le> max (x / 2 ^ 23) (2 powi (-149))"
proof -
  have "(2::real) powi \<lfloor>log 2 x\<rfloor> = 2 powr of_int \<lfloor>log 2 x\<rfloor>"
    by (simp add: powr_real_of_int')
  also have "\<dots> \<le> 2 powr log 2 x"
    by (intro powr_mono) simp_all
  also have "\<dots> = x"
    using assms by simp
  finally have "2 powi (\<lfloor>log 2 x\<rfloor> - 23) \<le> x / 2 ^ 23"
    by (simp add: power_int_diff divide_right_mono)
  then show ?thesis
    using assms unfolding float_ulp_def max_def by auto
qed

lemma f32_least: "0 < f32 x \<Longrightarrow> 2 powi (-149) \<le> f32 x"
proof -
  assume "0 < f32 x"
  then have "0 < round_even (x / float_ulp x)"
    using float_ulp_pos(1) [of x] by (simp add: f32_def zero_less_mult_iff)
  then have "1 * float_ulp x \<le> f32 x"
    unfolding f32_def using float_ulp_pos(1) [of x] by (intro mult_right_mono) simp_all
  then show ?thesis
    using float_ulp_pos(2) [of x] by simp
qed

text \<open>Taking a number away that is not absorbed leaves at least half of it off.\<close>

lemma f32_take:
  assumes "2 powi (-149) \<le> r" "r < c" "c \<le> 2 ^ 23 * r"
  shows "f32 (c - r) \<le> c - r / 2"
proof -
  have "float_ulp (c - r) \<le> r"
    using float_ulp_le [of "c - r"] assms by (simp add: max_def field_simps split: if_splits)
  then show ?thesis
    using f32_near [of "c - r"] by linarith
qed

lemma float_ulp_eq:
  assumes "2 powi e \<le> x" "x < 2 powi (e + 1)" "-126 \<le> e"
  shows "float_ulp x = 2 powi (e - 23)"
proof -
  have x: "0 < x"
    using assms(1) by (metis less_le_trans zero_less_power_int zero_less_numeral)
  have "2 powr of_int e \<le> x" "x < 2 powr of_int (e + 1)"
    using assms(1,2) by (simp_all add: powr_real_of_int' del: of_int_add)
  then have "of_int e \<le> log 2 x" "log 2 x < of_int (e + 1)"
    using x by (simp_all add: le_log_iff log_less_iff)
  then have "\<lfloor>log 2 x\<rfloor> = e"
    by (simp add: floor_eq_iff)
  moreover have "max (e - 23) (-149) = e - 23"
    using assms(3) by simp
  ultimately show ?thesis
    using x by (simp add: float_ulp_def)
qed

lemma f32_power: "-126 \<le> e \<Longrightarrow> f32 (2 powi e) = 2 powi e"
proof -
  assume e: "-126 \<le> e"
  have "(2::real) powi e < 2 powi (e + 1)"
    by (rule power_int_strict_increasing) simp_all
  then have u: "float_ulp (2 powi e) = 2 powi (e - 23)"
    using e by (intro float_ulp_eq) simp_all
  have "(2::real) powi e / 2 powi (e - 23) = 2 ^ 23"
    by (simp add: power_int_diff)
  then show ?thesis
    unfolding f32_def u by (simp add: round_even_def Let_def power_int_diff)
qed

text \<open>A second is not shortened by a billionth of it.\<close>

lemma f32_absorbed: "f32 (1 - 1 / 2 ^ 30) = 1"
proof -
  have u: "float_ulp (1 - 1 / 2 ^ 30) = 2 powi (-1 - 23)"
    by (rule float_ulp_eq) simp_all
  have "(1 - 1 / 2 ^ 30) / 2 powi (-1 - 23) = (2 ^ 24 - 1 / 64 :: real)"
    by simp
  moreover have "\<lfloor>2 ^ 24 - 1 / 64 :: real\<rfloor> = 2 ^ 24 - 1"
    by (simp add: floor_eq_iff)
  ultimately show ?thesis
    unfolding f32_def u by (simp add: round_even_def Let_def)
qed
end
