(* ===== verification/Particles.thy ===== *)
theory Particles
  imports Geometry Rounding RandomGenerator StringMap
begin

text \<open>
  Particle systems (\<^verbatim>\<open>src/src/modules/graphics/ParticleSystem.h\<close> and \<^verbatim>\<open>.cpp\<close>): the block of memory
  the particles are taken from, the list that threads them in drawing order through pointers into
  that block, how a particle is made, moved and removed, and the emitter that makes them.

  A pointer is the number of a block and a place in it, so that one that outlives its block is
  told from one into the block that replaced it; following any other pointer than one into the
  block of the system is undefined behaviour. A \<^verbatim>\<open>float\<close> is a real number; where the code converts
  one to an index the range of the conversion is kept, and the arithmetic of the counter that says
  how many particles are due is rounded as the code's is (\<open>Rounding\<close>), because its loop need not
  end. The functions of the C library are the record
  \<open>c_math\<close> and what allocates memory the record \<open>memory\<close>, both parameters.
\<close>

section \<open>The data\<close>

type_synonym particle_pointer = "(nat \<times> nat) option"

record colorf =
  c_r :: real
  c_g :: real
  c_b :: real
  c_a :: real

record particle =
  p_prev :: particle_pointer
  p_next :: particle_pointer
  p_lifetime :: real
  p_life :: real
  p_position :: vector2
  p_origin :: vector2
  p_velocity :: vector2
  p_linearAcceleration :: vector2
  p_radialAcceleration :: real
  p_tangentialAcceleration :: real
  p_linearDamping :: real
  p_size :: real
  p_sizeOffset :: real
  p_sizeIntervalSize :: real
  p_rotation :: real
  p_angle :: real
  p_spinStart :: real
  p_spinEnd :: real
  p_color :: colorf
  p_quadIndex :: int

datatype distribution =
  DISTRIBUTION_NONE | DISTRIBUTION_UNIFORM | DISTRIBUTION_NORMAL | DISTRIBUTION_ELLIPSE
  | DISTRIBUTION_BORDER_ELLIPSE | DISTRIBUTION_BORDER_RECTANGLE

datatype insert_mode = INSERT_MODE_TOP | INSERT_MODE_BOTTOM | INSERT_MODE_RANDOM

text \<open>
  The members that manage the particles. \<^verbatim>\<open>pFree\<close> always points into \<^verbatim>\<open>pMem\<close> or just past it: it is
  its distance from there. \<open>pl_buffer\<close> tells whether there is a vertex buffer.
\<close>

record pool =
  pl_block :: nat
  pMem :: "particle list option"
  pFree :: nat
  pHead :: particle_pointer
  pTail :: particle_pointer
  maxParticles :: uint32
  activeParticles :: uint32
  pl_buffer :: bool

text \<open>A texture and a quad are what the particle system asks of them: the size, and whether the texture is flat.\<close>

record texture =
  tx_width :: real
  tx_height :: real
  tx_2D :: bool

type_synonym quad = vector2

record emitter =
  e_texture :: texture
  e_active :: bool
  e_insertMode :: insert_mode
  e_emissionRate :: real
  e_emitCounter :: real
  e_position :: vector2
  e_prevPosition :: vector2
  e_distribution :: distribution
  e_area :: vector2
  e_areaAngle :: real
  e_directionRelative :: bool
  e_lifetime :: real
  e_life :: real
  e_particleLife :: "real \<times> real"
  e_direction :: real
  e_spread :: real
  e_speed :: "real \<times> real"
  e_linearAcceleration :: "vector2 \<times> vector2"
  e_radialAcceleration :: "real \<times> real"
  e_tangentialAcceleration :: "real \<times> real"
  e_linearDamping :: "real \<times> real"
  e_sizes :: "real list"
  e_sizeVariation :: real
  e_rotation :: "real \<times> real"
  e_spinStart :: real
  e_spinEnd :: real
  e_spinVariation :: real
  e_offset :: vector2
  e_defaultOffset :: bool
  e_colors :: "colorf list"
  e_quads :: "quad list"
  e_relativeRotation :: bool

record particle_system =
  ps_pool :: pool
  ps_emitter :: emitter

definition MAX_PARTICLES :: uint32 where
  "MAX_PARTICLES = 2147483647 div 4"

section \<open>Parameters\<close>

text \<open>\<open>c_inverse\<close> is one divided by a float, a parameter because what it answers for nothing is no real number.\<close>

record c_math =
  c_sqrt :: "real \<Rightarrow> real"
  c_log :: "real \<Rightarrow> real"
  c_cos :: "real \<Rightarrow> real"
  c_sin :: "real \<Rightarrow> real"
  c_atan2 :: "real \<Rightarrow> real \<Rightarrow> real"
  c_inverse :: "real \<Rightarrow> real"
  c_pi :: real

text \<open>
  \<^verbatim>\<open>new Particle[size]\<close> answers memory with anything in it or throws; so may \<^verbatim>\<open>newBuffer\<close>, which can
  also throw an exception of the engine.
\<close>

datatype buffer_answer = Buffer_made | Buffer_bad_alloc | Buffer_exception string

record memory =
  new_particles :: "nat \<Rightarrow> particle list option"
  new_buffer :: "nat \<Rightarrow> buffer_answer"

section \<open>Following pointers\<close>

definition load :: "particle_pointer \<Rightarrow> pool \<Rightarrow> particle result" where
  "load p q =
     (case p of
        None \<Rightarrow> Inl (Undefined_behaviour ''null pointer'')
      | Some (b, i) \<Rightarrow>
          (case pMem q of
             None \<Rightarrow> Inl (Undefined_behaviour ''pointer into freed memory'')
           | Some m \<Rightarrow>
               if b = pl_block q \<and> i < length m then Inr (m ! i)
               else Inl (Undefined_behaviour ''pointer into freed memory'')))"

definition update_at :: "particle_pointer \<Rightarrow> (particle \<Rightarrow> particle) \<Rightarrow> pool \<Rightarrow> pool result" where
  "update_at p f q =
     bind_result (load p q) (\<lambda>c. Inr (q\<lparr>pMem := Some ((the (pMem q))[snd (the p) := f c])\<rparr>))"

section \<open>The list of particles\<close>

definition insertTop :: "particle_pointer \<Rightarrow> pool \<Rightarrow> pool result" where
  "insertTop p q =
     bind_result
       (if pHead q = None then update_at p (\<lambda>c. c\<lparr>p_prev := None\<rparr>) (q\<lparr>pHead := p\<rparr>)
        else bind_result (update_at (pTail q) (\<lambda>c. c\<lparr>p_next := p\<rparr>) q) (\<lambda>q. update_at p (\<lambda>c. c\<lparr>p_prev := pTail q\<rparr>) q))
       (\<lambda>q. bind_result (update_at p (\<lambda>c. c\<lparr>p_next := None\<rparr>) q) (\<lambda>q. Inr (q\<lparr>pTail := p\<rparr>)))"

definition insertBottom :: "particle_pointer \<Rightarrow> pool \<Rightarrow> pool result" where
  "insertBottom p q =
     bind_result
       (if pTail q = None then update_at p (\<lambda>c. c\<lparr>p_next := None\<rparr>) (q\<lparr>pTail := p\<rparr>)
        else bind_result (update_at (pHead q) (\<lambda>c. c\<lparr>p_prev := p\<rparr>) q) (\<lambda>q. update_at p (\<lambda>c. c\<lparr>p_next := pHead q\<rparr>) q))
       (\<lambda>q. bind_result (update_at p (\<lambda>c. c\<lparr>p_prev := None\<rparr>) q) (\<lambda>q. Inr (q\<lparr>pHead := p\<rparr>)))"

text \<open>\<open>r\<close> is the random number drawn.\<close>

definition insertRandom :: "uint64 \<Rightarrow> particle_pointer \<Rightarrow> pool \<Rightarrow> pool result" where
  "insertRandom r p q =
     (let pos = r mod (ucast (activeParticles q) + 1)
      in if pos = ucast (activeParticles q)
         then
           let pA = pHead q
           in bind_result (if pA \<noteq> None then update_at pA (\<lambda>c. c\<lparr>p_prev := p\<rparr>) q else Inr q) (\<lambda>q.
              bind_result (update_at p (\<lambda>c. c\<lparr>p_prev := None\<rparr>) q) (\<lambda>q.
              bind_result (update_at p (\<lambda>c. c\<lparr>p_next := pA\<rparr>) q) (\<lambda>q. Inr (q\<lparr>pHead := p\<rparr>))))
         else
           let pA = Some (pl_block q, unat pos)
           in bind_result (load pA q) (\<lambda>a. let pB = p_next a in
              bind_result (update_at pA (\<lambda>c. c\<lparr>p_next := p\<rparr>) q) (\<lambda>q.
              bind_result (if pB \<noteq> None then update_at pB (\<lambda>c. c\<lparr>p_prev := p\<rparr>) q else Inr (q\<lparr>pTail := p\<rparr>)) (\<lambda>q.
              bind_result (update_at p (\<lambda>c. c\<lparr>p_prev := pA\<rparr>) q) (\<lambda>q.
                update_at p (\<lambda>c. c\<lparr>p_next := pB\<rparr>) q)))))"

text \<open>
  Removing a particle: it is unlinked, and the last one in memory moves to its place. The
  answer is the next particle of the list, wherever it is then. The two halves of the links of a
  particle are set by \<open>link_prev\<close> and \<open>link_next\<close>.
\<close>

definition link_prev :: "particle_pointer \<Rightarrow> particle_pointer \<Rightarrow> pool \<Rightarrow> pool result" where
  "link_prev p target q =
     bind_result (load p q) (\<lambda>c.
       if p_prev c \<noteq> None then update_at (p_prev c) (\<lambda>c. c\<lparr>p_next := target\<rparr>) q else Inr (q\<lparr>pHead := target\<rparr>))"

definition link_next :: "particle_pointer \<Rightarrow> particle_pointer \<Rightarrow> pool \<Rightarrow> pool result" where
  "link_next p target q =
     bind_result (load p q) (\<lambda>c.
       if p_next c \<noteq> None then update_at (p_next c) (\<lambda>c. c\<lparr>p_prev := target\<rparr>) q else Inr (q\<lparr>pTail := target\<rparr>))"

definition removeParticle :: "particle_pointer \<Rightarrow> pool \<Rightarrow> (pool \<times> particle_pointer) result" where
  "removeParticle p q =
     bind_result (load p q) (\<lambda>c.
     bind_result (link_prev p (p_next c) q) (\<lambda>q.
     bind_result (load p q) (\<lambda>c.
     bind_result (link_next p (p_prev c) q) (\<lambda>q.
       let pNext = p_next c; q = q\<lparr>pFree := pFree q - 1\<rparr>; last = Some (pl_block q, pFree q)
       in bind_result
            (if p \<noteq> last
             then bind_result (load last q) (\<lambda>l.
                  bind_result (update_at p (\<lambda>_. l) q) (\<lambda>q.
                  bind_result (link_prev p p q) (\<lambda>q.
                  bind_result (link_next p p q) (\<lambda>q. Inr (q, if pNext = last then p else pNext)))))
             else Inr (q, pNext))
            (\<lambda>(q, pNext). Inr (q\<lparr>activeParticles := activeParticles q - 1\<rparr>, pNext))))))"

definition isEmpty :: "pool \<Rightarrow> bool" where
  "isEmpty q = (activeParticles q = 0)"

definition isFull :: "pool \<Rightarrow> bool" where
  "isFull q = (activeParticles q = maxParticles q)"

section \<open>Lengths and colours\<close>

definition vec_getLength :: "c_math \<Rightarrow> vector2 \<Rightarrow> real" where
  "vec_getLength cm v = c_sqrt cm (vec_x v * vec_x v + vec_y v * vec_y v)"

definition vec_normalize :: "c_math \<Rightarrow> vector2 \<Rightarrow> vector2" where
  "vec_normalize cm v =
     (let length_current = vec_getLength cm v
      in if length_current > 0 then vec_times v (1 / length_current) else v)"

definition mk_colorf :: "real \<Rightarrow> real \<Rightarrow> real \<Rightarrow> real \<Rightarrow> colorf" where
  "mk_colorf r g b a = \<lparr>c_r = r, c_g = g, c_b = b, c_a = a\<rparr>"

definition color_times :: "colorf \<Rightarrow> real \<Rightarrow> colorf" where
  "color_times c s = mk_colorf (c_r c * s) (c_g c * s) (c_b c * s) (c_a c * s)"

definition color_plus :: "colorf \<Rightarrow> colorf \<Rightarrow> colorf" where
  "color_plus c d = mk_colorf (c_r c + c_r d) (c_g c + c_g d) (c_b c + c_b d) (c_a c + c_a d)"

section \<open>Making a particle\<close>

definition calculate_variation :: "real \<Rightarrow> real \<Rightarrow> real \<Rightarrow> generator \<Rightarrow> real \<times> generator" where
  "calculate_variation inner outer var g =
     (let low = inner - (outer / 2) * var; high = inner + (outer / 2) * var; (r, g) = random g
      in (low * (1 - r) + high * r, g))"

text \<open>Where in the area a particle starts, before the area is turned by its angle.\<close>

definition area_offset :: "c_math \<Rightarrow> emitter \<Rightarrow> generator \<Rightarrow> vector2 \<times> generator" where
  "area_offset cm e g =
     (let ax = vec_x (e_area e); ay = vec_y (e_area e)
      in case e_distribution e of
           DISTRIBUTION_UNIFORM \<Rightarrow>
             let (rand_x, g) = random_range (- ax) ax g; (rand_y, g) = random_range (- ay) ay g
             in (vec rand_x rand_y, g)
         | DISTRIBUTION_NORMAL \<Rightarrow>
             let (rand_x, g) = randomNormal (c_sqrt cm) (c_log cm) (c_cos cm) (c_sin cm) (c_pi cm) ax g;
                 (rand_y, g) = randomNormal (c_sqrt cm) (c_log cm) (c_cos cm) (c_sin cm) (c_pi cm) ay g
             in (vec rand_x rand_y, g)
         | DISTRIBUTION_ELLIPSE \<Rightarrow>
             let (rand_x, g) = random_range (- 1) 1 g; (rand_y, g) = random_range (- 1) 1 g
             in (vec (ax * (rand_x * c_sqrt cm (1 - rand_y ^ 2 / 2))) (ay * (rand_y * c_sqrt cm (1 - rand_x ^ 2 / 2))), g)
         | DISTRIBUTION_BORDER_ELLIPSE \<Rightarrow>
             let (rand_x, g) = random_range 0 (c_pi cm * 2) g
             in (vec (c_cos cm rand_x * ax) (c_sin cm rand_x * ay), g)
         | DISTRIBUTION_BORDER_RECTANGLE \<Rightarrow>
             let (rand_x, g) = random_range ((ax + ay) * - 2) ((ax + ay) * 2) g; rand_y = ay * 2
             in (if rand_x < - rand_y then vec (rand_x + rand_y + ax) (- ay)
                 else if rand_x < 0 then vec (- ax) (rand_x + ay)
                 else if rand_x < rand_y then vec ax (rand_x - ay)
                 else vec (rand_x - rand_y - ax) ay, g)
         | DISTRIBUTION_NONE \<Rightarrow> (vec 0 0, g))"

definition turned :: "c_math \<Rightarrow> real \<Rightarrow> vector2 \<Rightarrow> vector2" where
  "turned cm angle v =
     (let c = c_cos cm angle; s = c_sin cm angle
      in vec (c * vec_x v - s * vec_y v) (s * vec_x v + c * vec_y v))"

text \<open>The size, the spin and the colour of a particle whose motion was decided.\<close>

definition initLook :: "c_math \<Rightarrow> emitter \<Rightarrow> particle \<Rightarrow> generator \<Rightarrow> (particle \<times> generator) result" where
  "initLook cm e p g =
     (let (sizeOffset, g) = random_max (e_sizeVariation e) g;
          (v, g) = random_max (e_sizeVariation e) g
      in bind_result (to_index (sizeOffset - 1 / 2)) (\<lambda>i.
         bind_result (element (e_sizes e) (i * last_index (e_sizes e) mod 2 ^ 64)) (\<lambda>size.
         let (start_spin, g) = calculate_variation (e_spinStart e) (e_spinEnd e) (e_spinVariation e) g;
             (end_spin, g) = calculate_variation (e_spinEnd e) (e_spinStart e) (e_spinVariation e) g;
             (rotation, g) = random_range (fst (e_rotation e)) (snd (e_rotation e)) g
         in bind_result (element (e_colors e) 0) (\<lambda>color.
            Inr (p\<lparr>p_size := size, p_sizeOffset := sizeOffset,
                   p_sizeIntervalSize := (1 - v) - sizeOffset, p_rotation := rotation,
                   p_angle := (if e_relativeRotation e
                               then rotation + c_atan2 cm (vec_y (p_velocity p)) (vec_x (p_velocity p)) else rotation),
                   p_spinStart := start_spin, p_spinEnd := end_spin, p_color := color, p_quadIndex := 0\<rparr>, g)))))"

text \<open>\<open>p\<close> is what the memory of the particle holds before.\<close>

definition initParticle :: "c_math \<Rightarrow> emitter \<Rightarrow> real \<Rightarrow> particle \<Rightarrow> generator \<Rightarrow> (particle \<times> generator) result" where
  "initParticle cm e t p g =
     (let pos = vec_plus (e_prevPosition e) (vec_times (vec_minus (e_position e) (e_prevPosition e)) t);
          (lifeMin, lifeMax) = e_particleLife e;
          (life, g) = (if lifeMin = lifeMax then (lifeMin, g) else random_range lifeMin lifeMax g);
          (dir, g) = random_range (e_direction e - e_spread e / 2) (e_direction e + e_spread e / 2) g;
          (off, g) = area_offset cm e g;
          start = (if e_distribution e = DISTRIBUTION_NONE then pos else vec_plus pos (turned cm (e_areaAngle e) off));
          dir = (if e_directionRelative e
                 then dir + c_atan2 cm (vec_y start - vec_y pos) (vec_x start - vec_x pos) else dir);
          (speed, g) = random_range (fst (e_speed e)) (snd (e_speed e)) g;
          (laMin, laMax) = e_linearAcceleration e;
          (lax, g) = random_range (vec_x laMin) (vec_x laMax) g;
          (lay, g) = random_range (vec_y laMin) (vec_y laMax) g;
          (ra, g) = random_range (fst (e_radialAcceleration e)) (snd (e_radialAcceleration e)) g;
          (ta, g) = random_range (fst (e_tangentialAcceleration e)) (snd (e_tangentialAcceleration e)) g;
          (damping, g) = random_range (fst (e_linearDamping e)) (snd (e_linearDamping e)) g
      in initLook cm e
           (p\<lparr>p_lifetime := life, p_life := life, p_position := start, p_origin := pos,
              p_velocity := vec_times (vec (c_cos cm dir) (c_sin cm dir)) speed,
              p_linearAcceleration := vec lax lay, p_radialAcceleration := ra, p_tangentialAcceleration := ta,
              p_linearDamping := damping\<rparr>) g)"

text \<open>\<open>insertRandom\<close> draws its number after the particle was made.\<close>

definition addParticle ::
  "c_math \<Rightarrow> emitter \<Rightarrow> real \<Rightarrow> pool \<Rightarrow> generator \<Rightarrow> (pool \<times> generator) result" where
  "addParticle cm e t q g =
     (if isFull q then Inr (q, g)
      else
        let p = Some (pl_block q, pFree q); q = q\<lparr>pFree := pFree q + 1\<rparr>
        in bind_result (load p q) (\<lambda>c.
           bind_result (initParticle cm e t c g) (\<lambda>(c, g).
           bind_result (update_at p (\<lambda>_. c) q) (\<lambda>q.
           bind_result
             (case e_insertMode e of
                INSERT_MODE_TOP \<Rightarrow> bind_result (insertTop p q) (\<lambda>q. Inr (q, g))
              | INSERT_MODE_BOTTOM \<Rightarrow> bind_result (insertBottom p q) (\<lambda>q. Inr (q, g))
              | INSERT_MODE_RANDOM \<Rightarrow> (let (r, g) = rand g in bind_result (insertRandom r p q) (\<lambda>q. Inr (q, g))))
             (\<lambda>(q, g). Inr (q\<lparr>activeParticles := activeParticles q + 1\<rparr>, g))))))"

section \<open>Moving the particles\<close>

text \<open>
  Between two neighbouring entries of \<open>xs\<close>: the place \<open>s\<close> on the way through them falls into
  the interval from the \<open>i\<close>-th to the \<open>k\<close>-th.
\<close>

definition interval :: "'a list \<Rightarrow> real \<Rightarrow> (nat \<times> nat \<times> real) result" where
  "interval xs s =
     bind_result (to_index s) (\<lambda>i.
       Inr (i, if i = last_index xs then i else (i + 1) mod 2 ^ 64, s - real i))"

text \<open>A particle whose life was already shortened. Dividing by a life of nothing ends in a number no index can be made of.\<close>

definition moveParticle :: "c_math \<Rightarrow> emitter \<Rightarrow> real \<Rightarrow> particle \<Rightarrow> particle result" where
  "moveParticle cm e dt p =
     (let ppos = p_position p;
          radial = vec_normalize cm (vec_minus ppos (p_origin p));
          tangential = vec_times (vec (- vec_y radial) (vec_x radial)) (p_tangentialAcceleration p);
          radial = vec_times radial (p_radialAcceleration p);
          velocity = vec_plus (p_velocity p) (vec_times (vec_plus (vec_plus radial tangential) (p_linearAcceleration p)) dt);
          velocity = vec_times velocity (c_inverse cm (1 + p_linearDamping p * dt));
          ppos = vec_plus ppos (vec_times velocity dt);
          t = 1 - p_life p / p_lifetime p;
          rotation = p_rotation p + (p_spinStart p * (1 - t) + p_spinEnd p * t) * dt;
          angle = (if e_relativeRotation e then rotation + c_atan2 cm (vec_y velocity) (vec_x velocity) else rotation);
          n = length (e_quads e)
      in if p_lifetime p = 0 then Inl (Undefined_behaviour ''float out of the range of size_t'')
         else
           bind_result (interval (e_sizes e) ((p_sizeOffset p + t * p_sizeIntervalSize p) * real (last_index (e_sizes e)))) (\<lambda>(i, k, s).
           bind_result (element (e_sizes e) i) (\<lambda>size_i.
           bind_result (element (e_sizes e) k) (\<lambda>size_k.
           bind_result (interval (e_colors e) (t * real (last_index (e_colors e)))) (\<lambda>(j, l, c).
           bind_result (element (e_colors e) j) (\<lambda>color_j.
           bind_result (element (e_colors e) l) (\<lambda>color_l.
           bind_result (if t * real n > 0 then to_index (t * real n) else Inr 0) (\<lambda>q.
             Inr (p\<lparr>p_velocity := velocity, p_position := ppos, p_rotation := rotation, p_angle := angle,
                    p_size := size_i * (1 - s) + size_k * s,
                    p_color := color_plus (color_times color_j (1 - c)) (color_times color_l c),
                    p_quadIndex := (if n > 0 then int (if q < n then q else n - 1) else p_quadIndex p)\<rparr>)))))))))"

text \<open>One turn of the loop over the list: the answer is the next particle.\<close>

definition update_one ::
  "c_math \<Rightarrow> emitter \<Rightarrow> real \<Rightarrow> particle_pointer \<Rightarrow> pool \<Rightarrow> (pool \<times> particle_pointer) result" where
  "update_one cm e dt p q =
     bind_result (update_at p (\<lambda>c. c\<lparr>p_life := p_life c - dt\<rparr>) q) (\<lambda>q.
     bind_result (load p q) (\<lambda>c.
       if p_life c \<le> 0 then removeParticle p q
       else
         bind_result (moveParticle cm e dt c) (\<lambda>c.
         bind_result (update_at p (\<lambda>_. c) q) (\<lambda>q. Inr (q, p_next c)))))"

text \<open>\<^verbatim>\<open>None\<close> is a loop that does not end.\<close>

partial_function (option) update_list ::
  "c_math \<Rightarrow> emitter \<Rightarrow> real \<Rightarrow> particle_pointer \<Rightarrow> pool \<Rightarrow> pool result option" where
  "update_list cm e dt p q =
     (if p = None then Some (Inr q)
      else case update_one cm e dt p q of
             Inl err \<Rightarrow> Some (Inl err)
           | Inr step \<Rightarrow> update_list cm e dt (snd step) (fst step))"

text \<open>A counter too large for the rate to change it makes this loop one that does not end.\<close>

partial_function (option) emit_list ::
  "c_math \<Rightarrow> emitter \<Rightarrow> real \<Rightarrow> real \<Rightarrow> real \<Rightarrow> pool \<Rightarrow> generator \<Rightarrow> (real \<times> pool \<times> generator) result option" where
  "emit_list cm e rate excess counter q g =
     (if counter > rate
      then case addParticle cm e (f32 (1 - f32 (f32 (counter - rate) / excess))) q g of
             Inl err \<Rightarrow> Some (Inl err)
           | Inr made \<Rightarrow> emit_list cm e rate excess (f32 (counter - rate)) (fst made) (snd made)
      else Some (Inr (counter, q, g)))"

section \<open>The emitter\<close>

definition stop_emitter :: "emitter \<Rightarrow> emitter" where
  "stop_emitter e = e\<lparr>e_active := False, e_life := e_lifetime e, e_emitCounter := 0\<rparr>"

text \<open>With a rate of nothing, or one next to nothing, the time between two particles is infinite and none is made.\<close>

definition update_emitter ::
  "c_math \<Rightarrow> real \<Rightarrow> emitter \<Rightarrow> pool \<Rightarrow> generator \<Rightarrow> (emitter \<times> pool \<times> generator) result option" where
  "update_emitter cm dt e q g =
     (let e = e\<lparr>e_emitCounter := f32 (e_emitCounter e + dt)\<rparr>
      in case (case f32_reciprocal (e_emissionRate e) of
                 None \<Rightarrow> Some (Inr (e_emitCounter e, q, g))
               | Some rate \<Rightarrow> emit_list cm e rate (f32 (e_emitCounter e - rate)) (e_emitCounter e) q g) of
           None \<Rightarrow> None
         | Some r \<Rightarrow>
             Some (bind_result r (\<lambda>(counter, q, g).
               let e = e\<lparr>e_emitCounter := counter, e_life := e_life e - dt\<rparr>;
                   e = (if e_lifetime e \<noteq> -1 \<and> e_life e < 0 then stop_emitter e else e)
               in Inr (e, q, g))))"

definition update :: "c_math \<Rightarrow> real \<Rightarrow> particle_system \<Rightarrow> generator \<Rightarrow> (particle_system \<times> generator) result option" where
  "update cm dt s g =
     (if pMem (ps_pool s) = None \<or> dt = 0 then Some (Inr (s, g))
      else
        let e = ps_emitter s
        in case update_list cm e dt (pHead (ps_pool s)) (ps_pool s) of
             None \<Rightarrow> None
           | Some (Inl err) \<Rightarrow> Some (Inl err)
           | Some (Inr q) \<Rightarrow>
               (case (if e_active e then update_emitter cm dt e q g else Some (Inr (e, q, g))) of
                  None \<Rightarrow> None
                | Some r \<Rightarrow>
                    Some (bind_result r (\<lambda>(e, q, g).
                      Inr (s\<lparr>ps_pool := q, ps_emitter := e\<lparr>e_prevPosition := e_position e\<rparr>\<rparr>, g)))))"

section \<open>The buffers\<close>

definition deleteBuffers :: "pool \<Rightarrow> pool" where
  "deleteBuffers q = q\<lparr>pMem := None, maxParticles := 0, activeParticles := 0, pl_buffer := False\<rparr>"

text \<open>What an exception leaves behind matters: the system is still there. A vertex has 20 bytes.\<close>

definition createBuffers :: "memory \<Rightarrow> uint32 \<Rightarrow> pool \<Rightarrow> pool \<times> unit result" where
  "createBuffers mem count q =
     (case new_particles mem (unat count) of
        None \<Rightarrow> (deleteBuffers q, Inl (Exception ''Out of memory''))
      | Some m \<Rightarrow>
          let q = q\<lparr>pl_block := pl_block q + 1, pMem := Some m, pFree := 0, maxParticles := count\<rparr>
          in (case new_buffer mem (20 * unat count * 4) of
                Buffer_made \<Rightarrow> (q\<lparr>pl_buffer := True\<rparr>, Inr ())
              | Buffer_bad_alloc \<Rightarrow> (deleteBuffers q, Inl (Exception ''Out of memory''))
              | Buffer_exception text \<Rightarrow> (q, Inl (Exception text))))"

definition reset :: "particle_system \<Rightarrow> particle_system" where
  "reset s =
     (if pMem (ps_pool s) = None then s
      else s\<lparr>ps_pool := (ps_pool s)\<lparr>pFree := 0, pHead := None, pTail := None, activeParticles := 0\<rparr>,
             ps_emitter := (ps_emitter s)\<lparr>e_life := e_lifetime (ps_emitter s), e_emitCounter := 0\<rparr>\<rparr>)"

definition setBufferSize :: "memory \<Rightarrow> uint32 \<Rightarrow> particle_system \<Rightarrow> particle_system \<times> unit result" where
  "setBufferSize mem count s =
     (if count = 0 \<or> count > MAX_PARTICLES then (s, Inl (Exception ''Invalid buffer size''))
      else
        case createBuffers mem count (deleteBuffers (ps_pool s)) of
          (q, Inl err) \<Rightarrow> (s\<lparr>ps_pool := q\<rparr>, Inl err)
        | (q, Inr _) \<Rightarrow> (reset (s\<lparr>ps_pool := q\<rparr>), Inr ()))"

definition no_pool :: pool where
  "no_pool = \<lparr>pl_block = 0, pMem = None, pFree = 0, pHead = None, pTail = None, maxParticles = 0, activeParticles = 0,
     pl_buffer = False\<rparr>"

definition default_emitter :: "texture \<Rightarrow> emitter" where
  "default_emitter tx =
     \<lparr>e_texture = tx, e_active = True, e_insertMode = INSERT_MODE_TOP, e_emissionRate = 0, e_emitCounter = 0,
      e_position = vec 0 0, e_prevPosition = vec 0 0, e_distribution = DISTRIBUTION_NONE, e_area = vec 0 0,
      e_areaAngle = 0, e_directionRelative = False, e_lifetime = -1, e_life = 0, e_particleLife = (0, 0),
      e_direction = 0, e_spread = 0, e_speed = (0, 0), e_linearAcceleration = (vec 0 0, vec 0 0),
      e_radialAcceleration = (0, 0), e_tangentialAcceleration = (0, 0), e_linearDamping = (0, 0), e_sizes = [1],
      e_sizeVariation = 0, e_rotation = (0, 0), e_spinStart = 0, e_spinEnd = 0, e_spinVariation = 0,
      e_offset = vec (tx_width tx / 2) (tx_height tx / 2), e_defaultOffset = True, e_colors = [mk_colorf 1 1 1 1],
      e_quads = [], e_relativeRotation = False\<rparr>"

text \<open>An exception in a constructor leaves no system.\<close>

definition constructed :: "particle_system \<times> unit result \<Rightarrow> particle_system result" where
  "constructed r = bind_result (snd r) (\<lambda>_. Inr (fst r))"

definition newParticleSystem :: "memory \<Rightarrow> texture \<Rightarrow> uint32 \<Rightarrow> particle_system result" where
  "newParticleSystem mem tx count =
     (if count = 0 \<or> count > MAX_PARTICLES then Inl (Exception ''Invalid ParticleSystem size.'')
      else if \<not> tx_2D tx then Inl (Exception ''Only 2D textures can be used with ParticleSystems.'')
      else constructed (setBufferSize mem count \<lparr>ps_pool = no_pool, ps_emitter = default_emitter tx\<rparr>))"

definition clone :: "memory \<Rightarrow> particle_system \<Rightarrow> particle_system result" where
  "clone mem s =
     (let e = ps_emitter s
      in constructed (setBufferSize mem (maxParticles (ps_pool s))
           \<lparr>ps_pool = no_pool, ps_emitter = e\<lparr>e_emitCounter := 0, e_life := e_lifetime e\<rparr>\<rparr>))"

section \<open>Emitting\<close>

fun add_particles :: "c_math \<Rightarrow> emitter \<Rightarrow> nat \<Rightarrow> pool \<Rightarrow> generator \<Rightarrow> (pool \<times> generator) result" where
  "add_particles cm e 0 q g = Inr (q, g)"
| "add_particles cm e (Suc n) q g = bind_result (addParticle cm e 1 q g) (\<lambda>(q, g). add_particles cm e n q g)"

definition emit :: "c_math \<Rightarrow> uint32 \<Rightarrow> particle_system \<Rightarrow> generator \<Rightarrow> (particle_system \<times> generator) result" where
  "emit cm num s g =
     (if \<not> e_active (ps_emitter s) then Inr (s, g)
      else
        let num = min num (maxParticles (ps_pool s) - activeParticles (ps_pool s))
        in bind_result (add_particles cm (ps_emitter s) (unat num) (ps_pool s) g) (\<lambda>(q, g). Inr (s\<lparr>ps_pool := q\<rparr>, g)))"

section \<open>Settings\<close>

definition start_emitter :: "emitter \<Rightarrow> emitter" where
  "start_emitter e = e\<lparr>e_active := True\<rparr>"

definition pause_emitter :: "emitter \<Rightarrow> emitter" where
  "pause_emitter e = e\<lparr>e_active := False\<rparr>"

definition isPaused :: "emitter \<Rightarrow> bool" where
  "isPaused e \<longleftrightarrow> \<not> e_active e \<and> e_life e < e_lifetime e"

definition isStopped :: "emitter \<Rightarrow> bool" where
  "isStopped e \<longleftrightarrow> \<not> e_active e \<and> e_life e \<ge> e_lifetime e"

definition resetOffset :: "emitter \<Rightarrow> emitter" where
  "resetOffset e =
     e\<lparr>e_offset := (case e_quads e of
                       [] \<Rightarrow> vec (tx_width (e_texture e) / 2) (tx_height (e_texture e) / 2)
                     | v # _ \<Rightarrow> vec (vec_x v / 2) (vec_y v / 2))\<rparr>"

text \<open>The texture that is tested is the one the system has, and not the new one.\<close>

definition setTexture :: "texture \<Rightarrow> emitter \<Rightarrow> emitter result" where
  "setTexture tx e =
     (if \<not> tx_2D (e_texture e) then Inl (Exception ''Only 2D textures can be used with ParticleSystems.'')
      else let e = e\<lparr>e_texture := tx\<rparr> in Inr (if e_defaultOffset e then resetOffset e else e))"

definition setInsertMode :: "insert_mode \<Rightarrow> emitter \<Rightarrow> emitter" where
  "setInsertMode mode e = e\<lparr>e_insertMode := mode\<rparr>"

definition setEmissionRate :: "real \<Rightarrow> emitter \<Rightarrow> emitter result" where
  "setEmissionRate rate e =
     (if rate < 0 then Inl (Exception ''Invalid emission rate'')
      else Inr (e\<lparr>e_emissionRate := rate,
                  e_emitCounter := (case f32_reciprocal rate of
                                      None \<Rightarrow> e_emitCounter e
                                    | Some r \<Rightarrow> min (e_emitCounter e) r)\<rparr>))"

definition setEmitterLifetime :: "real \<Rightarrow> emitter \<Rightarrow> emitter" where
  "setEmitterLifetime l e = e\<lparr>e_lifetime := l, e_life := l\<rparr>"

definition setParticleLifetime :: "real \<Rightarrow> real \<Rightarrow> emitter \<Rightarrow> emitter" where
  "setParticleLifetime lo hi e = e\<lparr>e_particleLife := (lo, if hi = 0 then lo else hi)\<rparr>"

definition setPosition :: "real \<Rightarrow> real \<Rightarrow> emitter \<Rightarrow> emitter" where
  "setPosition x y e = e\<lparr>e_position := vec x y, e_prevPosition := vec x y\<rparr>"

definition moveTo :: "real \<Rightarrow> real \<Rightarrow> emitter \<Rightarrow> emitter" where
  "moveTo x y e = e\<lparr>e_position := vec x y\<rparr>"

definition setEmissionArea :: "distribution \<Rightarrow> real \<Rightarrow> real \<Rightarrow> real \<Rightarrow> bool \<Rightarrow> emitter \<Rightarrow> emitter" where
  "setEmissionArea d x y angle relative e =
     e\<lparr>e_area := vec x y, e_distribution := d, e_areaAngle := angle, e_directionRelative := relative\<rparr>"

definition setSizes :: "real list \<Rightarrow> emitter \<Rightarrow> emitter" where
  "setSizes sizes e = e\<lparr>e_sizes := sizes\<rparr>"

definition setSizeVariation :: "real \<Rightarrow> emitter \<Rightarrow> emitter" where
  "setSizeVariation v e = e\<lparr>e_sizeVariation := v\<rparr>"

definition setOffset :: "real \<Rightarrow> real \<Rightarrow> emitter \<Rightarrow> emitter" where
  "setOffset x y e = e\<lparr>e_offset := vec x y, e_defaultOffset := False\<rparr>"

definition setColor :: "colorf list \<Rightarrow> emitter \<Rightarrow> emitter" where
  "setColor colors e =
     (let unit_range = (\<lambda>x. min (max x 0) 1)
      in e\<lparr>e_colors := map (\<lambda>c. mk_colorf (unit_range (c_r c)) (unit_range (c_g c)) (unit_range (c_b c)) (unit_range (c_a c))) colors\<rparr>)"

definition setQuads :: "quad list \<Rightarrow> emitter \<Rightarrow> emitter" where
  "setQuads quads e = (let e = e\<lparr>e_quads := quads\<rparr> in if e_defaultOffset e then resetOffset e else e)"

definition clearQuads :: "emitter \<Rightarrow> emitter" where
  "clearQuads e = e\<lparr>e_quads := []\<rparr>"

section \<open>The settings that are stored as they come\<close>

definition setDirection :: "real \<Rightarrow> emitter \<Rightarrow> emitter" where
  "setDirection direction e = e\<lparr>e_direction := direction\<rparr>"

definition setSpread :: "real \<Rightarrow> emitter \<Rightarrow> emitter" where
  "setSpread spread e = e\<lparr>e_spread := spread\<rparr>"

text \<open>Where the code has a setter for one value and one for a range, the first has the name of the second and \<open>_one\<close>.\<close>

definition setSpeed_one :: "real \<Rightarrow> emitter \<Rightarrow> emitter" where
  "setSpeed_one speed e = e\<lparr>e_speed := (speed, speed)\<rparr>"

definition setSpeed :: "real \<Rightarrow> real \<Rightarrow> emitter \<Rightarrow> emitter" where
  "setSpeed lo hi e = e\<lparr>e_speed := (lo, hi)\<rparr>"

definition setLinearAcceleration_one :: "real \<Rightarrow> real \<Rightarrow> emitter \<Rightarrow> emitter" where
  "setLinearAcceleration_one x y e = e\<lparr>e_linearAcceleration := (vec x y, vec x y)\<rparr>"

definition setLinearAcceleration :: "real \<Rightarrow> real \<Rightarrow> real \<Rightarrow> real \<Rightarrow> emitter \<Rightarrow> emitter" where
  "setLinearAcceleration xmin ymin xmax ymax e = e\<lparr>e_linearAcceleration := (vec xmin ymin, vec xmax ymax)\<rparr>"

definition setRadialAcceleration_one :: "real \<Rightarrow> emitter \<Rightarrow> emitter" where
  "setRadialAcceleration_one a e = e\<lparr>e_radialAcceleration := (a, a)\<rparr>"

definition setRadialAcceleration :: "real \<Rightarrow> real \<Rightarrow> emitter \<Rightarrow> emitter" where
  "setRadialAcceleration lo hi e = e\<lparr>e_radialAcceleration := (lo, hi)\<rparr>"

definition setTangentialAcceleration_one :: "real \<Rightarrow> emitter \<Rightarrow> emitter" where
  "setTangentialAcceleration_one a e = e\<lparr>e_tangentialAcceleration := (a, a)\<rparr>"

definition setTangentialAcceleration :: "real \<Rightarrow> real \<Rightarrow> emitter \<Rightarrow> emitter" where
  "setTangentialAcceleration lo hi e = e\<lparr>e_tangentialAcceleration := (lo, hi)\<rparr>"

definition setLinearDamping :: "real \<Rightarrow> real \<Rightarrow> emitter \<Rightarrow> emitter" where
  "setLinearDamping lo hi e = e\<lparr>e_linearDamping := (lo, hi)\<rparr>"

definition setSize :: "real \<Rightarrow> emitter \<Rightarrow> emitter" where
  "setSize x e = e\<lparr>e_sizes := [x]\<rparr>"

definition setRotation_one :: "real \<Rightarrow> emitter \<Rightarrow> emitter" where
  "setRotation_one r e = e\<lparr>e_rotation := (r, r)\<rparr>"

definition setRotation :: "real \<Rightarrow> real \<Rightarrow> emitter \<Rightarrow> emitter" where
  "setRotation lo hi e = e\<lparr>e_rotation := (lo, hi)\<rparr>"

definition setSpin_one :: "real \<Rightarrow> emitter \<Rightarrow> emitter" where
  "setSpin_one x e = e\<lparr>e_spinStart := x, e_spinEnd := x\<rparr>"

definition setSpin :: "real \<Rightarrow> real \<Rightarrow> emitter \<Rightarrow> emitter" where
  "setSpin x y e = e\<lparr>e_spinStart := x, e_spinEnd := y\<rparr>"

definition setSpinVariation :: "real \<Rightarrow> emitter \<Rightarrow> emitter" where
  "setSpinVariation v e = e\<lparr>e_spinVariation := v\<rparr>"

definition setRelativeRotation :: "bool \<Rightarrow> emitter \<Rightarrow> emitter" where
  "setRelativeRotation enable e = e\<lparr>e_relativeRotation := enable\<rparr>"

definition getOffset :: "emitter \<Rightarrow> vector2" where
  "getOffset e = e_offset e"

definition getCount :: "particle_system \<Rightarrow> uint32" where
  "getCount s = activeParticles (ps_pool s)"

definition getBufferSize :: "particle_system \<Rightarrow> uint32" where
  "getBufferSize s = maxParticles (ps_pool s)"

section \<open>Drawing\<close>

text \<open>
  The loop that writes four vertices a particle: which particle they are made of, and which
  quad. \<open>room\<close> is how many particles the vertex buffer still has room for.
\<close>

partial_function (option) draw_list ::
  "quad list \<Rightarrow> nat \<Rightarrow> particle_pointer \<Rightarrow> pool \<Rightarrow> (particle \<times> quad option) list \<Rightarrow> (particle \<times> quad option) list result option" where
  "draw_list quads room p q drawn =
     (if p = None then Some (Inr drawn)
      else
        case bind_result (load p q) (\<lambda>c.
               bind_result (if quads = [] then Inr None
                            else if p_quadIndex c < 0 then Inl (Undefined_behaviour ''index past the end of a vector'')
                            else bind_result (element quads (nat (p_quadIndex c))) (\<lambda>v. Inr (Some v))) (\<lambda>v.
               if room = 0 then Inl (Undefined_behaviour ''write past the end of a buffer'') else Inr (c, v))) of
          Inl err \<Rightarrow> Some (Inl err)
        | Inr vertex \<Rightarrow> draw_list quads (room - 1) (p_next (fst vertex)) q (drawn @ [vertex]))"

definition draw :: "particle_system \<Rightarrow> (particle \<times> quad option) list result option" where
  "draw s =
     (if activeParticles (ps_pool s) = 0 \<or> pMem (ps_pool s) = None \<or> \<not> pl_buffer (ps_pool s) then Some (Inr [])
      else draw_list (e_quads (ps_emitter s)) (unat (maxParticles (ps_pool s))) (pHead (ps_pool s)) (ps_pool s) [])"

end
