(* ===== verification/ParticleList.thy ===== *)
theory ParticleList
  imports Particles
begin

text \<open>
  The list of particles as a list: the places in memory in drawing order. A stretch of it is
  \<open>threaded\<close>; the lemmas here say what each pointer manipulation of \<open>Particles\<close> does to the stretches,
  and leave the rest of the program no pointers to reason about.
\<close>

section \<open>Linked stretches of memory\<close>

definition first :: "nat \<Rightarrow> nat list \<Rightarrow> particle_pointer \<Rightarrow> particle_pointer" where
  "first b xs nx = (case xs of [] \<Rightarrow> nx | i # _ \<Rightarrow> Some (b, i))"

definition final :: "nat \<Rightarrow> nat list \<Rightarrow> particle_pointer \<Rightarrow> particle_pointer" where
  "final b xs pv = (if xs = [] then pv else Some (b, last xs))"

lemma first_simps [simp]: "first b [] nx = nx" "first b (i # xs) nx = Some (b, i)" "first b (xs @ ys) nx = first b xs (first b ys nx)"
  by (simp_all add: first_def split: list.split)

lemma final_simps [simp]:
  "final b [] pv = pv" "final b (xs @ [i]) pv = Some (b, i)" "final b (i # xs) pv = final b xs (Some (b, i))"
  "final b (xs @ ys) pv = final b ys (final b xs pv)"
  by (simp_all add: final_def)

lemma first_some: "xs \<noteq> [] \<Longrightarrow> first b xs nx = Some (b, hd xs)"
  by (cases xs) simp_all

lemma final_some: "xs \<noteq> [] \<Longrightarrow> final b xs pv = Some (b, last xs)"
  by (simp add: final_def)

fun threaded :: "nat \<Rightarrow> particle list \<Rightarrow> particle_pointer \<Rightarrow> nat list \<Rightarrow> particle_pointer \<Rightarrow> bool" where
  "threaded b m pv [] nx \<longleftrightarrow> True"
| "threaded b m pv (i # xs) nx \<longleftrightarrow>
     i < length m \<and> p_prev (m ! i) = pv \<and> p_next (m ! i) = first b xs nx \<and> threaded b m (Some (b, i)) xs nx"

lemma threaded_append [simp]:
  "threaded b m pv (xs @ ys) nx \<longleftrightarrow> threaded b m pv xs (first b ys nx) \<and> threaded b m (final b xs pv) ys nx"
  by (induction xs arbitrary: pv) auto

lemma threaded_length: "threaded b m pv xs nx \<Longrightarrow> k \<in> set xs \<Longrightarrow> k < length m"
  by (induction xs arbitrary: pv) auto

lemma threaded_cong:
  "length m' = length m \<Longrightarrow> (\<And>k. k \<in> set xs \<Longrightarrow> m' ! k = m ! k) \<Longrightarrow> threaded b m' pv xs nx = threaded b m pv xs nx"
  by (induction xs arbitrary: pv) auto

lemma threaded_update [simp]: "j \<notin> set xs \<Longrightarrow> threaded b (m[j := c]) pv xs nx = threaded b m pv xs nx"
  by (rule threaded_cong) (auto intro: nth_list_update_neq)

lemma threaded_set_next:
  "threaded b m pv (xs @ [j]) nx \<Longrightarrow> j \<notin> set xs \<Longrightarrow> threaded b (m[j := (m ! j)\<lparr>p_next := nx'\<rparr>]) pv (xs @ [j]) nx'"
  by simp

lemma threaded_set_prev:
  "threaded b m pv (j # xs) nx \<Longrightarrow> j \<notin> set xs \<Longrightarrow> threaded b (m[j := (m ! j)\<lparr>p_prev := pv'\<rparr>]) pv' (j # xs) nx"
  by simp

section \<open>What a particle is apart from its links\<close>

definition payload :: "particle \<Rightarrow> particle" where
  "payload c = c\<lparr>p_prev := None, p_next := None\<rparr>"

lemma payload_links [simp]: "payload (c\<lparr>p_prev := x\<rparr>) = payload c" "payload (c\<lparr>p_next := x\<rparr>) = payload c"
  by (simp_all add: payload_def)

definition same_data :: "particle list \<Rightarrow> particle list \<Rightarrow> bool" where
  "same_data m m' \<longleftrightarrow> map payload m' = map payload m"

lemma same_data_length: "same_data m m' \<Longrightarrow> length m' = length m"
  unfolding same_data_def by (metis length_map)

lemma same_data_refl [simp]: "same_data m m"
  by (simp add: same_data_def)

lemma same_data_trans: "same_data m m' \<Longrightarrow> same_data m' m'' \<Longrightarrow> same_data m m''"
  by (simp add: same_data_def)

lemma same_data_nth: "same_data m m' \<Longrightarrow> i < length m \<Longrightarrow> payload (m' ! i) = payload (m ! i)"
  unfolding same_data_def by (metis length_map nth_map)

lemma same_data_update: "payload c = payload (m ! i) \<Longrightarrow> same_data m (m[i := c])"
  by (simp add: same_data_def map_update list_update_same_conv) (metis list_update_beyond list_update_id map_update not_le)

section \<open>Pools of one block\<close>

definition pool_with :: "pool \<Rightarrow> particle list \<Rightarrow> particle_pointer \<Rightarrow> particle_pointer \<Rightarrow> pool" where
  "pool_with q m h t = q\<lparr>pMem := Some m, pHead := h, pTail := t\<rparr>"

lemma pool_with_sel [simp]:
  "pMem (pool_with q m h t) = Some m" "pHead (pool_with q m h t) = h" "pTail (pool_with q m h t) = t"
  "pl_block (pool_with q m h t) = pl_block q" "pFree (pool_with q m h t) = pFree q"
  "activeParticles (pool_with q m h t) = activeParticles q" "maxParticles (pool_with q m h t) = maxParticles q"
  "pl_buffer (pool_with q m h t) = pl_buffer q"
  by (simp_all add: pool_with_def)

lemma pool_with_upd [simp]:
  "(pool_with q m h t)\<lparr>pHead := h'\<rparr> = pool_with q m h' t" "(pool_with q m h t)\<lparr>pTail := t'\<rparr> = pool_with q m h t'"
  "(pool_with q m h t)\<lparr>pMem := Some m'\<rparr> = pool_with q m' h t"
  "(pool_with q m h t)\<lparr>pFree := f\<rparr> = pool_with (q\<lparr>pFree := f\<rparr>) m h t"
  "(pool_with q m h t)\<lparr>activeParticles := a\<rparr> = pool_with (q\<lparr>activeParticles := a\<rparr>) m h t"
  by (simp_all add: pool_with_def)

lemma pool_with_id: "pMem q = Some m \<Longrightarrow> q = pool_with q m (pHead q) (pTail q)"
  by (simp add: pool_with_def)

lemma access [simp]:
  assumes "b = pl_block q" "i < length m"
  shows "load (Some (b, i)) (pool_with q m h t) = Inr (m ! i)"
    "update_at (Some (b, i)) f (pool_with q m h t) = Inr (pool_with q (m[i := f (m ! i)]) h t)"
  using assms by (simp_all add: load_def update_at_def)

section \<open>Inserting\<close>

lemma insertTop_threaded:
  assumes "threaded b m None xs None" "distinct xs" "i \<notin> set xs" "i < length m" "b = pl_block q"
  shows "\<exists>m'. insertTop (Some (b, i)) (pool_with q m (first b xs None) (final b xs None)) =
      Inr (pool_with q m' (first b (xs @ [i]) None) (Some (b, i))) \<and>
    threaded b m' None (xs @ [i]) None \<and> same_data m m'"
proof (cases xs rule: rev_cases)
  case Nil
  define m' where "m' = m[i := (m ! i)\<lparr>p_prev := None, p_next := None\<rparr>]"
  have "insertTop (Some (b, i)) (pool_with q m None None) = Inr (pool_with q m' (Some (b, i)) (Some (b, i)))"
    using assms(4,5) by (simp add: insertTop_def m'_def)
  moreover have "threaded b m' None [i] None" "same_data m m'"
    using assms(4) by (simp_all add: m'_def same_data_update)
  ultimately show ?thesis
    using Nil by auto
next
  case (snoc ys j)
  have ij: "i \<noteq> j" "j < length m" "j \<notin> set ys" "i \<notin> set ys"
    using assms(1-3) snoc by auto
  define m1 where "m1 = m[j := (m ! j)\<lparr>p_next := Some (b, i)\<rparr>]"
  define m' where "m' = m1[i := (m ! i)\<lparr>p_prev := Some (b, j), p_next := None\<rparr>]"
  have m1: "length m1 = length m" "m1 ! i = m ! i"
    using ij(1) by (simp_all add: m1_def)
  obtain p where head: "first b ys (Some (b, j)) = Some p"
    by (cases ys) simp_all
  have "insertTop (Some (b, i)) (pool_with q m (first b xs None) (final b xs None)) =
      Inr (pool_with q m' (first b xs None) (Some (b, i)))"
    using assms(4,5) ij(1,2) head snoc by (simp add: insertTop_def m'_def m1_def)
  moreover have "threaded b m1 None (ys @ [j]) (Some (b, i))"
    unfolding m1_def by (rule threaded_set_next) (use assms(1) snoc ij(3) in simp_all)
  then have "threaded b m' None (xs @ [i]) None"
    using ij assms(3,4) m1(1) snoc by (simp add: m'_def)
  moreover have "same_data m m'"
    unfolding m'_def by (rule same_data_trans [of m m1]) (simp_all add: m1_def same_data_update ij(1) [symmetric])
  ultimately show ?thesis
    using snoc by auto
qed

lemma insertBottom_threaded:
  assumes "threaded b m None xs None" "distinct xs" "i \<notin> set xs" "i < length m" "b = pl_block q"
  shows "\<exists>m'. insertBottom (Some (b, i)) (pool_with q m (first b xs None) (final b xs None)) =
      Inr (pool_with q m' (Some (b, i)) (final b (i # xs) None)) \<and>
    threaded b m' None (i # xs) None \<and> same_data m m'"
proof (cases xs)
  case Nil
  define m' where "m' = m[i := (m ! i)\<lparr>p_next := None, p_prev := None\<rparr>]"
  have "insertBottom (Some (b, i)) (pool_with q m None None) = Inr (pool_with q m' (Some (b, i)) (Some (b, i)))"
    using assms(4,5) by (simp add: insertBottom_def m'_def)
  moreover have "threaded b m' None [i] None" "same_data m m'"
    using assms(4) by (simp_all add: m'_def same_data_update)
  ultimately show ?thesis
    using Nil by auto
next
  case (Cons j ys)
  have ij: "i \<noteq> j" "j < length m" "j \<notin> set ys" "i \<notin> set ys"
    using assms(1-3) Cons by auto
  define m1 where "m1 = m[j := (m ! j)\<lparr>p_prev := Some (b, i)\<rparr>]"
  define m' where "m' = m1[i := (m ! i)\<lparr>p_next := Some (b, j), p_prev := None\<rparr>]"
  have m1: "length m1 = length m" "m1 ! i = m ! i"
    using ij(1) by (simp_all add: m1_def)
  obtain p where tail: "final b ys (Some (b, j)) = Some p"
    by (cases ys rule: rev_cases) simp_all
  have "insertBottom (Some (b, i)) (pool_with q m (first b xs None) (final b xs None)) =
      Inr (pool_with q m' (Some (b, i)) (final b xs None))"
    using assms(4,5) ij(1,2) tail Cons by (simp add: insertBottom_def m'_def m1_def)
  moreover have "threaded b m1 (Some (b, i)) (j # ys) None"
    unfolding m1_def by (rule threaded_set_prev) (use assms(1) Cons ij(3) in simp_all)
  then have "threaded b m' None (i # xs) None"
    using ij assms(3,4) m1(1) Cons by (simp add: m'_def)
  moreover have "same_data m m'"
    unfolding m'_def by (rule same_data_trans [of m m1]) (simp_all add: m1_def same_data_update ij(1) [symmetric])
  ultimately show ?thesis
    using Cons by (auto simp: final_def)
qed

lemma ucast_up: "unat (ucast (a :: uint32) :: uint64) = unat a"
proof -
  have "unat a < 2 ^ LENGTH(32)"
    by (rule unsigned_less)
  then have "unat a < 2 ^ 64"
    by simp
  then show ?thesis
    by (simp add: unsigned_ucast_eq take_bit_nat_eq_self)
qed

lemma ucast_up1: "unat (ucast (a :: uint32) + 1 :: uint64) = unat a + 1"
proof -
  have "unat a < 2 ^ LENGTH(32)"
    by (rule unsigned_less)
  then show ?thesis
    by (simp add: unat_word_ariths ucast_up)
qed

text \<open>
  A random place: after the particle at any place in memory, or before all of them. Only the last pointer
  can be missed: inserted before all of no particles it stays null.
\<close>

definition tail_kept :: "particle_pointer \<Rightarrow> particle_pointer \<Rightarrow> bool" where
  "tail_kept t l \<longleftrightarrow> t = None \<or> t = l"

lemma insertRandom_threaded:
  assumes "threaded b m None xs None" "distinct xs" "i \<notin> set xs" "i < length m" "b = pl_block q"
    and "set xs = {0..<unat (activeParticles q)}" "tail_kept t (final b xs None)"
  shows "\<exists>m' ys zs t'. xs = ys @ zs \<and>
    insertRandom r (Some (b, i)) (pool_with q m (first b xs None) t) = Inr (pool_with q m' (first b (ys @ i # zs) None) t') \<and>
    threaded b m' None (ys @ i # zs) None \<and> same_data m m' \<and> tail_kept t' (final b (ys @ i # zs) None)"
proof (cases "r mod (ucast (activeParticles q) + 1) = ucast (activeParticles q)")
  case before: True
  show ?thesis
  proof (cases xs)
    case Nil
    define m' where "m' = m[i := (m ! i)\<lparr>p_prev := None, p_next := None\<rparr>]"
    have "insertRandom r (Some (b, i)) (pool_with q m None t) = Inr (pool_with q m' (Some (b, i)) t)"
      using before assms(4,5) by (simp add: insertRandom_def m'_def)
    moreover have "threaded b m' None [i] None" "same_data m m'"
      using assms(4) by (simp_all add: m'_def same_data_update)
    ultimately show ?thesis
      using Nil assms(7) by (auto simp: tail_kept_def)
  next
    case (Cons j ys)
    have ij: "i \<noteq> j" "j < length m" "j \<notin> set ys" "i \<notin> set ys"
      using assms(1-3) Cons by auto
    define m1 where "m1 = m[j := (m ! j)\<lparr>p_prev := Some (b, i)\<rparr>]"
    define m' where "m' = m1[i := (m ! i)\<lparr>p_prev := None, p_next := Some (b, j)\<rparr>]"
    have "insertRandom r (Some (b, i)) (pool_with q m (first b xs None) t) = Inr (pool_with q m' (Some (b, i)) t)"
      using before assms(4,5) ij(1,2) Cons by (simp add: insertRandom_def m'_def m1_def)
    moreover have "threaded b m1 (Some (b, i)) (j # ys) None"
      unfolding m1_def by (rule threaded_set_prev) (use assms(1) Cons ij(3) in simp_all)
    then have "threaded b m' None (i # xs) None"
      using ij assms(3,4) Cons by (simp add: m'_def m1_def)
    moreover have "same_data m m'"
      unfolding m'_def by (rule same_data_trans [of m m1]) (simp_all add: m1_def same_data_update ij(1) [symmetric])
    ultimately show ?thesis
      using Cons assms(7) by (intro exI [of _ m'] exI [of _ "[]"] exI [of _ xs] exI [of _ t]) simp
  qed
next
  case after: False
  define pos where "pos = r mod (ucast (activeParticles q) + 1)"
  have "unat pos < unat (activeParticles q) + 1"
    unfolding pos_def unat_mod ucast_up1 by (rule mod_less_divisor) simp
  moreover have "unat pos \<noteq> unat (activeParticles q)"
    using after ucast_up [of "activeParticles q"] unfolding pos_def by (metis word_unat_eq_iff)
  ultimately have "unat pos \<in> set xs"
    unfolding assms(6) by simp
  define j where "j = unat pos"
  obtain ys zs where xs: "xs = ys @ j # zs"
    using \<open>unat pos \<in> set xs\<close> unfolding j_def by (metis split_list)
  have ij: "i \<noteq> j" "j < length m" "j \<notin> set ys" "j \<notin> set zs" "i \<notin> set ys" "i \<notin> set zs"
    using assms(1-3) xs by auto
  have links: "p_next (m ! j) = first b zs None" "threaded b m None (ys @ [j]) (first b zs None)" "threaded b m (Some (b, j)) zs None"
    using assms(1) xs by simp_all
  define m1 where "m1 = m[j := (m ! j)\<lparr>p_next := Some (b, i)\<rparr>]"
  have one: "threaded b m1 None (ys @ [j]) (Some (b, i))"
    unfolding m1_def by (rule threaded_set_next [OF links(2) ij(3)])
  have start: "insertRandom r (Some (b, i)) (pool_with q m h t) =
      bind_result (if first b zs None \<noteq> None then update_at (first b zs None) (\<lambda>c. c\<lparr>p_prev := Some (b, i)\<rparr>) (pool_with q m1 h t)
                   else Inr (pool_with q m1 h (Some (b, i))))
        (\<lambda>q. bind_result (update_at (Some (b, i)) (\<lambda>c. c\<lparr>p_prev := Some (b, j)\<rparr>) q)
           (update_at (Some (b, i)) (\<lambda>c. c\<lparr>p_next := first b zs None\<rparr>)))" for h
    using after assms(5) ij(2) links(1) by (simp add: insertRandom_def m1_def j_def pos_def Let_def)
  show ?thesis
  proof (cases zs)
    case Nil
    define m' where "m' = m1[i := (m ! i)\<lparr>p_prev := Some (b, j), p_next := None\<rparr>]"
    have "insertRandom r (Some (b, i)) (pool_with q m (first b xs None) t) = Inr (pool_with q m' (first b xs None) (Some (b, i)))"
      unfolding start using assms(4,5) ij(1) Nil by (simp add: m'_def m1_def)
    moreover have "threaded b m' None (xs @ [i]) None"
      using one ij xs Nil assms(4) by (simp add: m'_def) (simp add: m1_def)
    moreover have "same_data m m'"
      unfolding m'_def by (rule same_data_trans [of m m1]) (simp_all add: m1_def same_data_update ij(1) [symmetric])
    ultimately show ?thesis
      using xs Nil by (intro exI [of _ m'] exI [of _ xs] exI [of _ "[]"] exI [of _ "Some (b, i)"]) (simp add: tail_kept_def)
  next
    case (Cons k ws)
    have k: "k \<noteq> i" "k \<noteq> j" "k < length m" "k \<notin> set ys" "k \<notin> set ws" "i \<notin> set ws"
      using assms(1-3) xs Cons by auto
    define m2 where "m2 = m1[k := (m ! k)\<lparr>p_prev := Some (b, i)\<rparr>]"
    define m' where "m' = m2[i := (m ! i)\<lparr>p_prev := Some (b, j), p_next := Some (b, k)\<rparr>]"
    have "insertRandom r (Some (b, i)) (pool_with q m (first b xs None) t) = Inr (pool_with q m' (first b xs None) t)"
      unfolding start using assms(4,5) ij(1) k Cons by (simp add: m'_def m2_def m1_def)
    moreover have "threaded b m2 (Some (b, i)) (k # ws) None"
      using links(3) Cons k ij by (simp add: m2_def m1_def)
    then have "threaded b m' None ((ys @ [j]) @ i # zs) None"
      using one ij k Cons assms(4) by (simp add: m'_def) (simp add: m2_def m1_def)
    moreover have "same_data m m'"
      unfolding m'_def m2_def m1_def using ij(1) k(1,2)
      by (intro same_data_trans [OF same_data_trans [OF same_data_update same_data_update] same_data_update]) simp_all
    ultimately show ?thesis
      using xs Cons assms(7)
      by (intro exI [of _ m'] exI [of _ "ys @ [j]"] exI [of _ zs] exI [of _ t]) (simp add: tail_kept_def)
  qed
qed

section \<open>Removing\<close>

lemma link_prev_ok:
  assumes "threaded b m None ys old" "distinct ys" "p_prev (m ! i) = final b ys None" "i < length m" "b = pl_block q"
  obtains m' where "link_prev (Some (b, i)) target (pool_with q m h t) = Inr (pool_with q m' (if ys = [] then target else h) t)"
    "threaded b m' None ys target" "same_data m m'" "\<And>k. k \<notin> set ys \<Longrightarrow> m' ! k = m ! k"
proof (cases ys rule: rev_cases)
  case Nil
  then show thesis
    using assms by (intro that [of m]) (simp_all add: link_prev_def)
next
  case (snoc us j)
  define m' where "m' = m[j := (m ! j)\<lparr>p_next := target\<rparr>]"
  have j: "j < length m" "j \<notin> set us"
    using assms(1,2) snoc by simp_all
  show thesis
  proof (rule that [of m'])
    show "link_prev (Some (b, i)) target (pool_with q m h t) = Inr (pool_with q m' (if ys = [] then target else h) t)"
      using assms(3-5) snoc j(1) by (simp add: link_prev_def m'_def)
    show "threaded b m' None ys target"
      unfolding m'_def snoc by (rule threaded_set_next) (use assms(1) snoc j(2) in simp_all)
    show "same_data m m'" "\<And>k. k \<notin> set ys \<Longrightarrow> m' ! k = m ! k"
      using snoc by (simp_all add: m'_def same_data_update)
  qed
qed

lemma link_next_ok:
  assumes "threaded b m old zs None" "distinct zs" "p_next (m ! i) = first b zs None" "i < length m" "b = pl_block q"
  obtains m' where "link_next (Some (b, i)) target (pool_with q m h t) = Inr (pool_with q m' h (if zs = [] then target else t))"
    "threaded b m' target zs None" "same_data m m'" "\<And>k. k \<notin> set zs \<Longrightarrow> m' ! k = m ! k"
proof (cases zs)
  case Nil
  then show thesis
    using assms by (intro that [of m]) (simp_all add: link_next_def)
next
  case (Cons j us)
  define m' where "m' = m[j := (m ! j)\<lparr>p_prev := target\<rparr>]"
  have j: "j < length m" "j \<notin> set us"
    using assms(1,2) Cons by simp_all
  show thesis
  proof (rule that [of m'])
    show "link_next (Some (b, i)) target (pool_with q m h t) = Inr (pool_with q m' h (if zs = [] then target else t))"
      using assms(3-5) Cons j(1) by (simp add: link_next_def m'_def)
    show "threaded b m' target zs None"
      unfolding m'_def Cons by (rule threaded_set_prev) (use assms(1) Cons j(2) in simp_all)
    show "same_data m m'" "\<And>k. k \<notin> set zs \<Longrightarrow> m' ! k = m ! k"
      using Cons by (simp_all add: m'_def same_data_update)
  qed
qed

text \<open>
  Both ends of the links of place \<open>i\<close> set: to each other, which takes it out of the list, and to \<open>i\<close>,
  which puts it in.
\<close>

lemma link_both:
  assumes "threaded b m None ys old" "threaded b m old' zs None" "distinct (ys @ zs)" "i \<notin> set (ys @ zs)"
    and "p_prev (m ! i) = final b ys None" "p_next (m ! i) = first b zs None" "i < length m" "b = pl_block q"
  obtains m1 m' where
    "link_prev (Some (b, i)) target (pool_with q m h t) = Inr (pool_with q m1 (if ys = [] then target else h) t)"
    "link_next (Some (b, i)) target' (pool_with q m1 (if ys = [] then target else h) t) =
       Inr (pool_with q m' (if ys = [] then target else h) (if zs = [] then target' else t))"
    "threaded b m' None ys target" "threaded b m' target' zs None" "same_data m m'" "length m1 = length m" "m1 ! i = m ! i" "m' ! i = m ! i"
proof -
  have ys: "distinct ys" "i \<notin> set ys" "set ys \<inter> set zs = {}" and zs: "distinct zs" "i \<notin> set zs"
    using assms(3,4) by auto
  obtain m1 where m1: "link_prev (Some (b, i)) target (pool_with q m h t) = Inr (pool_with q m1 (if ys = [] then target else h) t)"
    "threaded b m1 None ys target" "same_data m m1" "\<And>k. k \<notin> set ys \<Longrightarrow> m1 ! k = m ! k"
    by (rule link_prev_ok [OF assms(1) ys(1) assms(5,7,8)]) blast
  have len: "length m1 = length m"
    using same_data_length [OF m1(3)] .
  have same: "m1 ! i = m ! i"
    using m1(4) ys(2) by simp
  have "threaded b m1 old' zs None = threaded b m old' zs None"
    using m1(4) ys(3) len by (intro threaded_cong) auto
  then have old: "threaded b m1 old' zs None"
    using assms(2) by simp
  have i: "p_next (m1 ! i) = first b zs None" "i < length m1"
    using same assms(6,7) len by simp_all
  obtain m' where m': "link_next (Some (b, i)) target' (pool_with q m1 (if ys = [] then target else h) t) =
      Inr (pool_with q m' (if ys = [] then target else h) (if zs = [] then target' else t))"
    "threaded b m' target' zs None" "same_data m1 m'" "\<And>k. k \<notin> set zs \<Longrightarrow> m' ! k = m1 ! k"
    by (rule link_next_ok [OF old zs(1) i assms(8)]) blast
  have "threaded b m' None ys target = threaded b m1 None ys target"
    using m'(4) ys(3) same_data_length [OF m'(3)] by (intro threaded_cong) auto
  then show thesis
    using m1 m' same len zs(2) by (intro that [of m1 m']) (auto intro: same_data_trans)
qed

text \<open>The last place in memory becomes place \<open>i\<close>.\<close>

definition moved :: "nat \<Rightarrow> nat \<Rightarrow> nat \<Rightarrow> nat" where
  "moved j i k = (if k = j then i else k)"

lemma map_moved [simp]: "j \<notin> set xs \<Longrightarrow> map (moved j i) xs = xs"
  by (induction xs) (auto simp: moved_def)

lemma moved_same [simp]: "moved j j = (\<lambda>k. k)"
  by (auto simp: moved_def)

lemma first_moved: "first b (map (moved j i) xs) None = (if first b xs None = Some (b, j) then Some (b, i) else first b xs None)"
  by (cases xs) (simp_all add: moved_def)

text \<open>A particle that was copied from place \<open>j\<close> to place \<open>i\<close>, and the list that still leads to \<open>j\<close>.\<close>

lemma relink:
  assumes "threaded b m None (us @ j # vs) None" "distinct (us @ j # vs)" "i \<notin> set (us @ j # vs)" "i < length m" "b = pl_block q"
    and "h = first b (us @ j # vs) None" "tail_kept t (final b (us @ j # vs) None)"
  obtains m' q1 t' where
    "link_prev (Some (b, i)) (Some (b, i)) (pool_with q (m[i := m ! j]) h t) = Inr q1"
    "link_next (Some (b, i)) (Some (b, i)) q1 = Inr (pool_with q m' (first b (us @ i # vs) None) t')"
    "threaded b m' None (us @ i # vs) None" "same_data (m[i := m ! j]) m'"
    "tail_kept t' (final b (us @ i # vs) None)"
    "t = final b (us @ j # vs) None \<Longrightarrow> t' = final b (us @ i # vs) None"
proof -
  let ?m = "m[i := m ! j]"
  have stretches: "threaded b ?m None us (Some (b, j))" "threaded b ?m (Some (b, j)) vs None"
    "p_prev (?m ! i) = final b us None" "p_next (?m ! i) = first b vs None" "i < length ?m"
    "distinct (us @ vs)" "i \<notin> set (us @ vs)"
    using assms(1-4) by auto
  obtain m1 m' where m: "link_prev (Some (b, i)) (Some (b, i)) (pool_with q ?m h t) = Inr (pool_with q m1 (if us = [] then Some (b, i) else h) t)"
    "link_next (Some (b, i)) (Some (b, i)) (pool_with q m1 (if us = [] then Some (b, i) else h) t) =
       Inr (pool_with q m' (if us = [] then Some (b, i) else h) (if vs = [] then Some (b, i) else t))"
    "threaded b m' None us (Some (b, i))" "threaded b m' (Some (b, i)) vs None" "same_data ?m m'" "m' ! i = ?m ! i"
    by (rule link_both [OF stretches(1,2,6,7,3,4,5) assms(5)]) blast
  have ends: "(if us = [] then Some (b, i) else h) = first b (us @ i # vs) None"
    unfolding assms(6) by (cases us) simp_all
  have tails: "(if vs = [] then Some (b, i) else t) = t \<or> (if vs = [] then Some (b, i) else t) = final b (us @ i # vs) None"
    "vs \<noteq> [] \<Longrightarrow> final b (us @ j # vs) None = final b (us @ i # vs) None"
    "vs = [] \<Longrightarrow> final b (us @ i # vs) None = Some (b, i)"
    by (auto simp: final_def)
  show thesis
  proof (rule that [OF m(1) [unfolded ends] m(2) [unfolded ends]])
    show "threaded b m' None (us @ i # vs) None"
      using m(3,4,6) stretches(3,4,5) same_data_length [OF m(5)] by simp
    show "same_data ?m m'"
      by (fact m(5))
    show "tail_kept (if vs = [] then Some (b, i) else t) (final b (us @ i # vs) None)"
      using assms(7) tails(2,3) by (auto simp: tail_kept_def)
    show "t = final b (us @ j # vs) None \<Longrightarrow> (if vs = [] then Some (b, i) else t) = final b (us @ i # vs) None"
      using tails(2,3) by simp
  qed
qed

lemma removeParticle_threaded:
  assumes "threaded b m None (ys @ i # zs) None" "distinct (ys @ i # zs)" "set (ys @ i # zs) = {0..<pFree q}" "b = pl_block q"
    and "h = first b (ys @ i # zs) None" "tail_kept t (final b (ys @ i # zs) None)" "f = moved (pFree q - 1) i"
  obtains m' t' where
    "removeParticle (Some (b, i)) (pool_with q m h t) =
       Inr (pool_with (q\<lparr>pFree := pFree q - 1, activeParticles := activeParticles q - 1\<rparr>) m' (first b (map f (ys @ zs)) None) t',
            first b (map f zs) None)"
    "threaded b m' None (map f (ys @ zs)) None" "length m' = length m"
    "\<And>k. k \<in> set (ys @ zs) \<Longrightarrow> payload (m' ! f k) = payload (m ! k)"
    "tail_kept t' (final b (map f (ys @ zs)) None)"
    "t = final b (ys @ i # zs) None \<Longrightarrow> t' = final b (map f (ys @ zs)) None"
proof -
  let ?q = "q\<lparr>pFree := pFree q - 1, activeParticles := activeParticles q - 1\<rparr>"
  let ?j = "pFree q - 1"
  have i: "i < length m" "p_prev (m ! i) = final b ys None" "p_next (m ! i) = first b zs None" "distinct (ys @ zs)" "i \<notin> set (ys @ zs)"
    "threaded b m None ys (Some (b, i))" "threaded b m (Some (b, i)) zs None"
    using assms(1,2) by simp_all
  define t0 where "t0 = (if zs = [] then final b ys None else t)"
  have t0: "tail_kept t0 (final b (ys @ zs) None)" "t = final b (ys @ i # zs) None \<Longrightarrow> t0 = final b (ys @ zs) None"
    using assms(6) by (cases zs rule: rev_cases; auto simp: t0_def tail_kept_def)+
  have h: "(if ys = [] then first b zs None else h) = first b (ys @ zs) None"
    unfolding assms(5) by (cases ys) simp_all
  obtain m1 m2 where unlinked: "link_prev (Some (b, i)) (first b zs None) (pool_with q m h t) = Inr (pool_with q m1 (first b (ys @ zs) None) t)"
    "link_next (Some (b, i)) (final b ys None) (pool_with q m1 (first b (ys @ zs) None) t) = Inr (pool_with q m2 (first b (ys @ zs) None) t0)"
    "threaded b m2 None (ys @ zs) None" "same_data m m2" "length m1 = length m" "m1 ! i = m ! i"
    by (rule link_both [OF i(6,7,4,5,2,3,1) assms(4), of "first b zs None" h t "final b ys None"]) (unfold h, simp add: t0_def)
  define body where "body = (\<lambda>q. if Some (b, i) \<noteq> Some (b, ?j)
             then bind_result (load (Some (b, ?j)) q) (\<lambda>l.
                  bind_result (update_at (Some (b, i)) (\<lambda>_. l) q) (\<lambda>q.
                  bind_result (link_prev (Some (b, i)) (Some (b, i)) q) (\<lambda>q.
                  bind_result (link_next (Some (b, i)) (Some (b, i)) q) (\<lambda>q.
                    Inr (q, if first b zs None = Some (b, ?j) then Some (b, i) else first b zs None)))))
             else Inr (q, first b zs None))"
  have start: "removeParticle (Some (b, i)) (pool_with q m h t) =
      bind_result (body (pool_with (q\<lparr>pFree := ?j\<rparr>) m2 (first b (ys @ zs) None) t0))
        (\<lambda>(q, n). Inr (q\<lparr>activeParticles := activeParticles q - 1\<rparr>, n))"
    using i unlinked assms(4) by (simp add: removeParticle_def body_def Let_def split del: if_split cong: if_cong)
  show thesis
  proof (cases "i = ?j")
    case True
    then have f: "f = (\<lambda>k. k)"
      by (simp add: assms(7))
    have "removeParticle (Some (b, i)) (pool_with q m h t) = Inr (pool_with ?q m2 (first b (ys @ zs) None) t0, first b zs None)"
      unfolding start using True by (simp add: body_def)
    then show thesis
      using unlinked(3,4) t0 i(4) threaded_length [OF unlinked(3)]
      by (intro that [of m2 t0]) (auto simp: f same_data_length [OF unlinked(4)] intro!: same_data_nth)
  next
    case False
    have "i \<in> {0..<pFree q}"
      unfolding assms(3) [symmetric] by simp
    then have "?j \<in> set (ys @ i # zs)"
      unfolding assms(3) by simp
    then have j: "?j \<in> set (ys @ zs)"
      using False by auto
    then obtain us vs where uv: "ys @ zs = us @ ?j # vs"
      by (metis split_list)
    have apart: "distinct (us @ ?j # vs)" "i \<notin> set (us @ ?j # vs)"
      using i(4,5) uv by metis+
    have fs: "map f (ys @ zs) = us @ i # vs"
      using apart(1) unfolding uv assms(7) by (simp add: moved_def)
    have len: "length m2 = length m" "?j < length m2" "i < length m2"
      using same_data_length [OF unlinked(4)] threaded_length [OF unlinked(3) j] i(1) by simp_all
    obtain m3 q1 t3 where last: "link_prev (Some (b, i)) (Some (b, i)) (pool_with (q\<lparr>pFree := ?j\<rparr>) (m2[i := m2 ! ?j]) (first b (ys @ zs) None) t0) = Inr q1"
      "link_next (Some (b, i)) (Some (b, i)) q1 = Inr (pool_with (q\<lparr>pFree := ?j\<rparr>) m3 (first b (us @ i # vs) None) t3)"
      "threaded b m3 None (us @ i # vs) None" "same_data (m2[i := m2 ! ?j]) m3" "tail_kept t3 (final b (us @ i # vs) None)"
      "t0 = final b (us @ ?j # vs) None \<Longrightarrow> t3 = final b (us @ i # vs) None"
      by (rule relink [OF unlinked(3) [unfolded uv] apart len(3), of "q\<lparr>pFree := ?j\<rparr>" "first b (ys @ zs) None" t0])
        (use assms(4) t0(1) uv in auto)
    have answer: "removeParticle (Some (b, i)) (pool_with q m h t) =
        Inr (pool_with ?q m3 (first b (us @ i # vs) None) t3, if first b zs None = Some (b, ?j) then Some (b, i) else first b zs None)"
      unfolding start using False len last(1,2) assms(4) by (simp add: body_def)
    have data: "payload (m3 ! f k) = payload (m ! k)" if "k \<in> set (ys @ zs)" for k
    proof -
      have k: "k < length m" "k \<noteq> i"
        using threaded_length [OF unlinked(3) that] len(1) i(5) that by auto
      then have "payload (m3 ! f k) = payload (m2[i := m2 ! ?j] ! f k)"
        using len i(1) by (intro same_data_nth [OF last(4)]) (simp add: assms(7) moved_def)
      also have "\<dots> = payload (m2 ! k)"
        using k len(3) by (simp add: assms(7) moved_def)
      also have "\<dots> = payload (m ! k)"
        by (rule same_data_nth [OF unlinked(4) k(1)])
      finally show ?thesis .
    qed
    have ahead: "first b (map f zs) None = (if first b zs None = Some (b, ?j) then Some (b, i) else first b zs None)"
      unfolding assms(7) by (rule first_moved)
    show thesis
      using answer last(3,5,6) data t0(2) same_data_length [OF last(4)] len(1)
      by (intro that [of m3 t3]) (simp_all only: fs [unfolded uv] uv ahead length_list_update)
  qed
qed

end
