(* ===== verification/ParticleSystem.thy ===== *)
theory ParticleSystem
  imports ParticleList "HOL-Library.Sublist"
begin

text \<open>
  What particle systems do as a whole: the invariant of the pool, adding and updating particles
  seen as changes of a list.
\<close>

section \<open>Settings and particles the arithmetic can handle\<close>

definition settings_ok :: "emitter \<Rightarrow> bool" where
  "settings_ok e \<longleftrightarrow>
     e_sizes e \<noteq> [] \<and> length (e_sizes e) < 2 ^ 63 \<and> e_colors e \<noteq> [] \<and> length (e_colors e) < 2 ^ 63 \<and>
     length (e_quads e) < 2 ^ 63 \<and> 0 \<le> e_sizeVariation e \<and> e_sizeVariation e \<le> 1 \<and> 0 \<le> e_emissionRate e"

definition particle_ok :: "particle \<Rightarrow> bool" where
  "particle_ok c \<longleftrightarrow>
     p_life c \<le> p_lifetime c \<and> 0 \<le> p_sizeOffset c \<and> p_sizeOffset c \<le> 1 \<and>
     0 \<le> p_sizeOffset c + p_sizeIntervalSize c \<and> p_sizeOffset c + p_sizeIntervalSize c \<le> 1 \<and> 0 \<le> p_quadIndex c"

lemma random_max_bounds:
  assumes "0 \<le> v" "v \<le> 1" "random_max v g = (x, g')"
  shows "0 \<le> x" "x \<le> 1"
proof -
  have x: "x = fst (random g) * v"
    using assms(3) by (simp add: random_max_def split: prod.splits)
  have r: "0 \<le> fst (random g)" "fst (random g) \<le> 1"
    using random_unit [of g] by simp_all
  then show "0 \<le> x"
    unfolding x using assms(1) by simp
  show "x \<le> 1"
    unfolding x using mult_mono [OF r(2) assms(2)] r assms(1) by simp
qed

lemma last_index_some: "xs \<noteq> [] \<Longrightarrow> length xs < 2 ^ 63 \<Longrightarrow> last_index xs = length xs - 1"
  by (cases xs) (simp_all add: last_index_def mod_if)

lemma to_index_some: "0 \<le> x \<Longrightarrow> x < 2 ^ 64 \<Longrightarrow> to_index x = Inr (nat \<lfloor>x\<rfloor>)"
  by (simp add: to_index_def)

lemma payload_sel [simp]:
  "p_life (payload c) = p_life c" "p_lifetime (payload c) = p_lifetime c" "p_quadIndex (payload c) = p_quadIndex c"
  "particle_ok (payload c) = particle_ok c"
  by (simp_all add: payload_def particle_ok_def)

lemma initLook_ok:
  assumes "settings_ok e" "p_life p = p_lifetime p"
  obtains c' g' where "initLook cm e p g = Inr (c', g')" "particle_ok c'" "p_prev c' = p_prev p" "p_next c' = p_next p"
proof -
  have e: "e_sizes e \<noteq> []" "e_colors e \<noteq> []" "0 \<le> e_sizeVariation e" "e_sizeVariation e \<le> 1"
    using assms(1) by (simp_all add: settings_ok_def)
  obtain x g1 y g2 where draws: "random_max (e_sizeVariation e) g = (x, g1)" "random_max (e_sizeVariation e) g1 = (y, g2)"
    by (meson surj_pair)
  note bounds = random_max_bounds [OF e(3,4) draws(1)] random_max_bounds [OF e(3,4) draws(2)]
  have "to_index (x - 1 / 2) = Inr 0"
    using bounds by (simp add: to_index_def floor_le_iff)
  moreover have "element (e_sizes e) 0 = Inr (hd (e_sizes e))" "element (e_colors e) 0 = Inr (hd (e_colors e))"
    using e(1,2) by (simp_all add: element_def hd_conv_nth)
  ultimately have "case initLook cm e p g of Inl _ \<Rightarrow> False | Inr (c', _) \<Rightarrow>
      particle_ok c' \<and> p_prev c' = p_prev p \<and> p_next c' = p_next p"
    using assms(2) bounds by (simp add: initLook_def draws particle_ok_def split: prod.split)
  then show thesis
    using that by (auto split: sum.splits)
qed

lemma initParticle_ok:
  assumes "settings_ok e"
  obtains c' g' where "initParticle cm e t c g = Inr (c', g')" "particle_ok c'" "p_prev c' = p_prev c" "p_next c' = p_next c"
proof -
  have "\<exists>p g'. initParticle cm e t c g = initLook cm e p g' \<and> p_life p = p_lifetime p \<and> p_prev p = p_prev c \<and> p_next p = p_next c"
    unfolding initParticle_def Let_def
    by (simp split: prod.split del: ex_simps split del: if_split) (intro allI impI, rule exI, rule exI, rule conjI, rule refl, simp)
  then show thesis
    using initLook_ok [OF assms] that by metis
qed

lemma interval_ok:
  assumes "xs \<noteq> []" "length xs < 2 ^ 63" "0 \<le> s" "s \<le> 1"
  obtains i k f where "interval xs (s * real (last_index xs)) = Inr (i, k, f)" "i < length xs" "k < length xs"
proof -
  define n where "n = length xs - 1"
  have n: "last_index xs = n" "n < 2 ^ 63" "length xs = n + 1"
    using last_index_some [OF assms(1,2)] assms(1,2) by (simp_all add: n_def)
  have "real n < 2 ^ 63"
    using n(2) by (metis of_nat_less_iff of_nat_numeral of_nat_power)
  moreover have x: "0 \<le> s * real n" "s * real n \<le> real n"
    using assms(3,4) by (simp_all add: mult_left_le_one_le)
  ultimately have index: "to_index (s * real n) = Inr (nat \<lfloor>s * real n\<rfloor>)"
    by (intro to_index_some) simp_all
  have "\<lfloor>s * real n\<rfloor> \<le> int n"
    using x(2) by (simp add: floor_le_iff)
  then have "nat \<lfloor>s * real n\<rfloor> \<le> n"
    by simp
  then show thesis
    using index n by (intro that) (simp_all add: interval_def, auto)
qed

lemma moveParticle_ok:
  assumes "settings_ok e" "particle_ok c" "0 < p_life c"
  obtains c' where "moveParticle cm e dt c = Inr c'" "particle_ok c'" "p_prev c' = p_prev c" "p_next c' = p_next c"
proof -
  have e: "e_sizes e \<noteq> []" "length (e_sizes e) < 2 ^ 63" "e_colors e \<noteq> []" "length (e_colors e) < 2 ^ 63" "length (e_quads e) < 2 ^ 63"
    using assms(1) by (simp_all add: settings_ok_def)
  define t where "t = 1 - p_life c / p_lifetime c"
  have t: "0 \<le> t" "t \<le> 1" "p_lifetime c \<noteq> 0"
    using assms(2,3) by (auto simp: t_def particle_ok_def divide_le_eq)
  define s where "s = p_sizeOffset c + t * p_sizeIntervalSize c"
  have "s = (1 - t) * p_sizeOffset c + t * (p_sizeOffset c + p_sizeIntervalSize c)"
    by (simp add: s_def algebra_simps)
  moreover have "0 \<le> p_sizeOffset c" "p_sizeOffset c \<le> 1" "0 \<le> p_sizeOffset c + p_sizeIntervalSize c" "p_sizeOffset c + p_sizeIntervalSize c \<le> 1"
    using assms(2) by (simp_all add: particle_ok_def)
  ultimately have "0 \<le> s" "s \<le> 1"
    using t convex_bound_le [of "p_sizeOffset c" 1 "p_sizeOffset c + p_sizeIntervalSize c" "1 - t" t] by simp_all
  then obtain i k f where size: "interval (e_sizes e) (s * real (last_index (e_sizes e))) = Inr (i, k, f)"
    "i < length (e_sizes e)" "k < length (e_sizes e)"
    by (rule interval_ok [OF e(1,2)])
  obtain j l h where color: "interval (e_colors e) (t * real (last_index (e_colors e))) = Inr (j, l, h)"
    "j < length (e_colors e)" "l < length (e_colors e)"
    by (rule interval_ok [OF e(3,4) t(1,2)])
  define n where "n = length (e_quads e)"
  have "real n < 2 ^ 63"
    using e(5) unfolding n_def by (metis of_nat_less_iff of_nat_numeral of_nat_power)
  moreover have "0 \<le> t * real n" "t * real n \<le> real n"
    using t(1,2) by (simp_all add: mult_left_le_one_le)
  ultimately have quad: "to_index (t * real n) = Inr (nat \<lfloor>t * real n\<rfloor>)"
    by (intro to_index_some) simp_all
  have elements: "element (e_sizes e) i = Inr (e_sizes e ! i)" "element (e_sizes e) k = Inr (e_sizes e ! k)"
    "element (e_colors e) j = Inr (e_colors e ! j)" "element (e_colors e) l = Inr (e_colors e ! l)"
    using size color by (simp_all add: element_def)
  note parts = t(3) t_def [symmetric] s_def [symmetric] size(1) color(1) n_def [symmetric] quad elements
  have "case moveParticle cm e dt c of Inl _ \<Rightarrow> False | Inr c' \<Rightarrow>
      particle_ok c' \<and> p_prev c' = p_prev c \<and> p_next c' = p_next c"
    using assms(2) by (simp add: moveParticle_def Let_def parts) (simp add: particle_ok_def)
  then show thesis
    using that by (auto split: sum.splits)
qed

lemma moveParticle_payload:
  "moveParticle cm e dt (payload c) = bind_result (moveParticle cm e dt c) (\<lambda>c'. Inr (payload c'))"
  by (simp add: moveParticle_def payload_def Let_def bind_result_def split: sum.split prod.split)

section \<open>The pool as a list\<close>

definition pool_ok :: "bool \<Rightarrow> pool \<Rightarrow> nat list \<Rightarrow> bool" where
  "pool_ok strict q xs \<longleftrightarrow>
     (\<exists>m. pMem q = Some m \<and> length m = unat (maxParticles q) \<and> threaded (pl_block q) m None xs None \<and>
        list_all (\<lambda>i. particle_ok (m ! i)) xs) \<and>
     distinct xs \<and> set xs = {0..<pFree q} \<and> pFree q = unat (activeParticles q) \<and> pFree q \<le> unat (maxParticles q) \<and>
     maxParticles q \<le> MAX_PARTICLES \<and> pHead q = first (pl_block q) xs None \<and>
     tail_kept (pTail q) (final (pl_block q) xs None) \<and> (strict \<longrightarrow> pTail q = final (pl_block q) xs None)"

definition contents :: "pool \<Rightarrow> nat list \<Rightarrow> particle list" where
  "contents q xs = map (\<lambda>i. payload (the (pMem q) ! i)) xs"

text \<open>What adding a particle does to the list, and what is done to a list by adding \<open>k\<close>.\<close>

definition placed :: "insert_mode \<Rightarrow> particle list \<Rightarrow> particle list \<Rightarrow> bool" where
  "placed mode ps ps' \<longleftrightarrow>
     (\<exists>as bs c. ps = as @ bs \<and> ps' = as @ c # bs \<and> (mode = INSERT_MODE_TOP \<longrightarrow> bs = []) \<and> (mode = INSERT_MODE_BOTTOM \<longrightarrow> as = []))"

definition after_adding :: "insert_mode \<Rightarrow> nat \<Rightarrow> particle list \<Rightarrow> particle list \<Rightarrow> bool" where
  "after_adding mode k ps ps' \<longleftrightarrow>
     subseq ps ps' \<and> length ps' = length ps + k \<and> (mode = INSERT_MODE_TOP \<longrightarrow> take (length ps) ps' = ps) \<and>
     (mode = INSERT_MODE_BOTTOM \<longrightarrow> drop k ps' = ps)"

lemma after_adding_none [simp]: "after_adding mode 0 ps ps"
  by (simp add: after_adding_def)

lemma after_adding_step: "after_adding mode k ps ps' \<Longrightarrow> placed mode ps' ps'' \<Longrightarrow> after_adding mode (Suc k) ps ps''"
proof -
  assume k: "after_adding mode k ps ps'" and "placed mode ps' ps''"
  then obtain as bs c where one: "ps' = as @ bs" "ps'' = as @ c # bs" "mode = INSERT_MODE_TOP \<longrightarrow> bs = []"
    "mode = INSERT_MODE_BOTTOM \<longrightarrow> as = []"
    unfolding placed_def by blast
  have "subseq ps' ps''"
    unfolding one by (intro list_emb_append_mono) auto
  then show ?thesis
    using k one by (auto simp: after_adding_def intro: subseq_order.trans)
qed

lemma unat_Suc_active: "unat (a :: uint32) < unat (b :: uint32) \<Longrightarrow> unat (a + 1) = Suc (unat a)"
proof -
  assume "unat a < unat b"
  moreover have "unat b < 2 ^ LENGTH(32)"
    by (rule unsigned_less)
  ultimately show ?thesis
    by (simp add: unat_word_ariths)
qed

lemma contents_same:
  "same_data m m' \<Longrightarrow> set ys \<subseteq> {..<length m} \<Longrightarrow> map (\<lambda>i. payload (m' ! i)) ys = map (\<lambda>i. payload (m ! i)) ys"
  by (intro map_cong refl same_data_nth) auto

lemma ok_same: "same_data m m' \<Longrightarrow> set ys \<subseteq> {..<length m} \<Longrightarrow> list_all (\<lambda>i. particle_ok (m' ! i)) ys = list_all (\<lambda>i. particle_ok (m ! i)) ys"
  unfolding list_all_iff using same_data_nth payload_sel(4) by (metis lessThan_iff subsetD)

text \<open>The three ways to put a new particle into the list, with one conclusion.\<close>

lemma insert_placed:
  assumes "threaded (pl_block q) m None xs None" "distinct xs" "i \<notin> set xs" "i < length m"
    and "set xs = {0..<unat (activeParticles q)}" "tail_kept t (final (pl_block q) xs None)"
    and "mode \<noteq> INSERT_MODE_RANDOM \<Longrightarrow> t = final (pl_block q) xs None"
    and "ins = (case mode of INSERT_MODE_TOP \<Rightarrow> bind_result (insertTop (Some (pl_block q, i)) p) (\<lambda>q. Inr (q, g))
              | INSERT_MODE_BOTTOM \<Rightarrow> bind_result (insertBottom (Some (pl_block q, i)) p) (\<lambda>q. Inr (q, g))
              | INSERT_MODE_RANDOM \<Rightarrow> (let (r, g) = rand g in bind_result (insertRandom r (Some (pl_block q, i)) p) (\<lambda>q. Inr (q, g))))"
    and "p = pool_with q m (first (pl_block q) xs None) t"
  obtains m' g' as bs t' where "xs = as @ bs" "ins = Inr (pool_with q m' (first (pl_block q) (as @ i # bs) None) t', g')"
    "threaded (pl_block q) m' None (as @ i # bs) None" "same_data m m'" "tail_kept t' (final (pl_block q) (as @ i # bs) None)"
    "mode \<noteq> INSERT_MODE_RANDOM \<Longrightarrow> t' = final (pl_block q) (as @ i # bs) None"
    "mode = INSERT_MODE_TOP \<Longrightarrow> bs = []" "mode = INSERT_MODE_BOTTOM \<Longrightarrow> as = []"
proof (cases mode)
  case INSERT_MODE_TOP
  then have "t = final (pl_block q) xs None"
    using assms(7) by simp
  then obtain m' where "insertTop (Some (pl_block q, i)) p = Inr (pool_with q m' (first (pl_block q) (xs @ [i]) None) (Some (pl_block q, i)))"
    "threaded (pl_block q) m' None (xs @ [i]) None" "same_data m m'"
    using insertTop_threaded [OF assms(1-4) refl] assms(9) by blast
  then show thesis
    using INSERT_MODE_TOP assms(8) by (intro that [of xs "[]" m' "Some (pl_block q, i)" g]) (simp_all add: tail_kept_def)
next
  case INSERT_MODE_BOTTOM
  then have "t = final (pl_block q) xs None"
    using assms(7) by simp
  then obtain m' where "insertBottom (Some (pl_block q, i)) p = Inr (pool_with q m' (Some (pl_block q, i)) (final (pl_block q) (i # xs) None))"
    "threaded (pl_block q) m' None (i # xs) None" "same_data m m'"
    using insertBottom_threaded [OF assms(1-4) refl] assms(9) by blast
  then show thesis
    using INSERT_MODE_BOTTOM assms(8) by (intro that [of "[]" xs m' _ g]) (simp_all add: tail_kept_def)
next
  case INSERT_MODE_RANDOM
  obtain r g' where r: "rand g = (r, g')"
    by (cases "rand g")
  obtain m' as bs t' where "xs = as @ bs" "insertRandom r (Some (pl_block q, i)) p = Inr (pool_with q m' (first (pl_block q) (as @ i # bs) None) t')"
    "threaded (pl_block q) m' None (as @ i # bs) None" "same_data m m'" "tail_kept t' (final (pl_block q) (as @ i # bs) None)"
    using insertRandom_threaded [OF assms(1-4) refl assms(5,6), of r] assms(9) by blast
  then show thesis
    using INSERT_MODE_RANDOM assms(8) r by (intro that [of as bs m' t' g']) simp_all
qed

lemma addParticle_ok:
  assumes "pool_ok (e_insertMode e \<noteq> INSERT_MODE_RANDOM) q xs" "settings_ok e" "\<not> isFull q"
  obtains q' g' ys where "addParticle cm e t q g = Inr (q', g')" "pool_ok (e_insertMode e \<noteq> INSERT_MODE_RANDOM) q' ys"
    "placed (e_insertMode e) (contents q xs) (contents q' ys)" "activeParticles q' = activeParticles q + 1"
    "maxParticles q' = maxParticles q" "pl_buffer q' = pl_buffer q" "pl_block q' = pl_block q"
proof -
  let ?b = "pl_block q" and ?i = "pFree q"
  let ?strict = "e_insertMode e \<noteq> INSERT_MODE_RANDOM"
  obtain m where m: "pMem q = Some m" "length m = unat (maxParticles q)" "threaded ?b m None xs None" "list_all (\<lambda>i. particle_ok (m ! i)) xs"
    using assms(1) unfolding pool_ok_def by blast
  have q: "distinct xs" "set xs = {0..<?i}" "?i = unat (activeParticles q)" "maxParticles q \<le> MAX_PARTICLES"
    "pHead q = first ?b xs None" "tail_kept (pTail q) (final ?b xs None)" "?strict \<Longrightarrow> pTail q = final ?b xs None"
    using assms(1) unfolding pool_ok_def by blast+
  have "unat (activeParticles q) < unat (maxParticles q)"
    using assms(1,3) unfolding pool_ok_def isFull_def by (metis le_neq_implies_less word_unat_eq_iff)
  note room = this unat_Suc_active [OF this]
  have i: "?i < length m" "?i \<notin> set xs"
    using room q(2,3) m(2) by simp_all
  obtain c' g1 where made: "initParticle cm e t (m ! ?i) g = Inr (c', g1)" "particle_ok c'"
    using initParticle_ok [OF assms(2)] by metis
  define q1 where "q1 = q\<lparr>pFree := ?i + 1\<rparr>"
  define m1 where "m1 = m[?i := c']"
  define p where "p = pool_with q1 m1 (first ?b xs None) (pTail q)"
  have blocks [simp]: "pl_block q1 = ?b" "activeParticles q1 = activeParticles q" "maxParticles q1 = maxParticles q" "pl_buffer q1 = pl_buffer q"
    "pFree q1 = ?i + 1"
    by (simp_all add: q1_def)
  have one: "threaded (pl_block q1) m1 None xs None" "?i < length m1" "set xs = {0..<unat (activeParticles q1)}" "length m1 = length m"
    using m(3) i q(2,3) by (simp_all add: m1_def)
  define ins where "ins = (case e_insertMode e of
        INSERT_MODE_TOP \<Rightarrow> bind_result (insertTop (Some (pl_block q1, ?i)) p) (\<lambda>q. Inr (q, g1))
      | INSERT_MODE_BOTTOM \<Rightarrow> bind_result (insertBottom (Some (pl_block q1, ?i)) p) (\<lambda>q. Inr (q, g1))
      | INSERT_MODE_RANDOM \<Rightarrow> (let (r, g) = rand g1 in bind_result (insertRandom r (Some (pl_block q1, ?i)) p) (\<lambda>q. Inr (q, g))))"
  have pool: "q\<lparr>pFree := ?i + 1\<rparr> = pool_with q1 m (pHead q) (pTail q)"
    using m(1) by (simp add: q1_def pool_with_def)
  have run: "addParticle cm e t q g = bind_result ins (\<lambda>(q, g). Inr (q\<lparr>activeParticles := activeParticles q + 1\<rparr>, g))"
    using assms(3) i(1) made(1) q(5) unfolding addParticle_def pool Let_def ins_def p_def m1_def blocks(1) by simp
  obtain m' g' as bs t' where ins: "xs = as @ bs" "ins = Inr (pool_with q1 m' (first ?b (as @ ?i # bs) None) t', g')"
    "threaded ?b m' None (as @ ?i # bs) None" "same_data m1 m'" "tail_kept t' (final ?b (as @ ?i # bs) None)"
    "?strict \<Longrightarrow> t' = final ?b (as @ ?i # bs) None"
    "e_insertMode e = INSERT_MODE_TOP \<Longrightarrow> bs = []" "e_insertMode e = INSERT_MODE_BOTTOM \<Longrightarrow> as = []"
    by (rule insert_placed [OF one(1) q(1) i(2) one(2,3) _ _ ins_def, of "pTail q"]) (use q(6,7) p_def in simp_all)
  define q' where "q' = (pool_with q1 m' (first ?b (as @ ?i # bs) None) t')\<lparr>activeParticles := activeParticles q + 1\<rparr>"
  have q': "pMem q' = Some m'" "pl_block q' = ?b" "pHead q' = first ?b (as @ ?i # bs) None" "pTail q' = t'" "pFree q' = ?i + 1"
    "activeParticles q' = activeParticles q + 1" "maxParticles q' = maxParticles q" "pl_buffer q' = pl_buffer q"
    by (simp_all add: q'_def)
  have inside: "set (as @ ?i # bs) \<subseteq> {..<length m1}"
    using threaded_length [OF ins(3)] same_data_length [OF ins(4)] by auto
  have others: "map (\<lambda>k. payload (m1 ! k)) ys = map (\<lambda>k. payload (m ! k)) ys" if "?i \<notin> set ys" for ys
    using that unfolding m1_def by (intro map_cong refl) (metis nth_list_update_neq)
  have "contents q' (as @ ?i # bs) = map (\<lambda>k. payload (m1 ! k)) (as @ ?i # bs)"
    unfolding contents_def q' option.sel by (rule contents_same [OF ins(4) inside])
  also have "\<dots> = map (\<lambda>k. payload (m ! k)) as @ payload c' # map (\<lambda>k. payload (m ! k)) bs"
    using others [of as] others [of bs] i ins(1) by (simp add: m1_def)
  finally have now: "contents q' (as @ ?i # bs) = map (\<lambda>k. payload (m ! k)) as @ payload c' # map (\<lambda>k. payload (m ! k)) bs" .
  have "placed (e_insertMode e) (contents q xs) (contents q' (as @ ?i # bs))"
    unfolding placed_def now
    by (rule exI [of _ "map (\<lambda>k. payload (m ! k)) as"], rule exI [of _ "map (\<lambda>k. payload (m ! k)) bs"], rule exI [of _ "payload c'"])
      (use ins(1,7,8) m(1) in \<open>simp add: contents_def\<close>)
  moreover have "list_all (\<lambda>k. particle_ok (m1 ! k)) (as @ ?i # bs)"
    using m(4) made(2) i ins(1) by (auto simp: m1_def list_all_iff nth_list_update)
  then have "pool_ok ?strict q' (as @ ?i # bs)"
    unfolding pool_ok_def q' using ins(1,3,5,6) q(1-4) i room m(2) one(4) same_data_length [OF ins(4)] ok_same [OF ins(4) inside]
    by (auto simp: atLeast0_lessThan_Suc)
  ultimately show thesis
    using run ins(2) q' by (intro that [of q' g' "as @ ?i # bs"]) (simp_all add: q'_def)
qed

section \<open>Adding several\<close>

lemma after_adding_trans: "after_adding mode k ps ps' \<Longrightarrow> after_adding mode j ps' ps'' \<Longrightarrow> after_adding mode (k + j) ps ps''"
proof -
  assume k: "after_adding mode k ps ps'" and j: "after_adding mode j ps' ps''"
  have whole: "subseq ps ps''" "length ps'' = length ps + (k + j)"
    using k j unfolding after_adding_def by (simp_all, blast intro: subseq_order.trans)
  have "take (length ps) ps'' = take (length ps) (take (length ps') ps'')"
    using k by (simp add: after_adding_def)
  then have "mode = INSERT_MODE_TOP \<longrightarrow> take (length ps) ps'' = ps"
    using k j unfolding after_adding_def by metis
  moreover have "drop (k + j) ps'' = drop k (drop j ps'')"
    by (simp add: add.commute)
  then have "mode = INSERT_MODE_BOTTOM \<longrightarrow> drop (k + j) ps'' = ps"
    using k j unfolding after_adding_def by metis
  ultimately show ?thesis
    using whole by (simp add: after_adding_def)
qed

definition same_buffers :: "pool \<Rightarrow> pool \<Rightarrow> bool" where
  "same_buffers q q' \<longleftrightarrow> maxParticles q' = maxParticles q \<and> pl_buffer q' = pl_buffer q \<and> pl_block q' = pl_block q"

lemma same_buffers_refl [simp]: "same_buffers q q"
  by (simp add: same_buffers_def)

lemma same_buffers_trans: "same_buffers q q' \<Longrightarrow> same_buffers q' q'' \<Longrightarrow> same_buffers q q''"
  by (simp add: same_buffers_def)

text \<open>What a call that may add particles achieves, from the pool \<open>q\<close> with the list \<open>xs\<close>.\<close>

definition added :: "emitter \<Rightarrow> pool \<Rightarrow> nat list \<Rightarrow> nat \<Rightarrow> pool \<Rightarrow> bool" where
  "added e q xs k q' \<longleftrightarrow> same_buffers q q' \<and>
     (\<exists>ys. pool_ok (e_insertMode e \<noteq> INSERT_MODE_RANDOM) q' ys \<and> after_adding (e_insertMode e) k (contents q xs) (contents q' ys))"

lemma addParticle_step:
  assumes "pool_ok (e_insertMode e \<noteq> INSERT_MODE_RANDOM) q xs" "settings_ok e"
  obtains q' g' where "addParticle cm e t q g = Inr (q', g')" "added e q xs (if isFull q then 0 else 1) q'"
proof (cases "isFull q")
  case True
  then show thesis
    using assms(1) by (intro that [of q g]) (auto simp: addParticle_def added_def)
next
  case False
  obtain q' g' ys where "addParticle cm e t q g = Inr (q', g')" "pool_ok (e_insertMode e \<noteq> INSERT_MODE_RANDOM) q' ys"
    "placed (e_insertMode e) (contents q xs) (contents q' ys)" "same_buffers q q'"
    by (rule addParticle_ok [OF assms False, of cm t g]) (simp add: same_buffers_def)
  then show thesis
    using False after_adding_step [OF after_adding_none] by (intro that [of q' g']) (auto simp: added_def)
qed

text \<open>The memory and the head determine the list.\<close>

lemma threaded_unique:
  "threaded b m pv xs None \<Longrightarrow> threaded b m pv' ys None \<Longrightarrow> first b xs None = first b ys None \<Longrightarrow> xs = ys"
proof (induction xs arbitrary: pv pv' ys)
  case Nil
  then show ?case
    by (cases ys) simp_all
next
  case (Cons i xs)
  then show ?case
    by (cases ys) auto
qed

lemma pool_ok_unique: "pool_ok s q xs \<Longrightarrow> pool_ok s' q ys \<Longrightarrow> xs = ys"
  unfolding pool_ok_def by (metis option.inject threaded_unique)

lemma added_trans:
  assumes "added e q xs k q'" "pool_ok (e_insertMode e \<noteq> INSERT_MODE_RANDOM) q' ys" "added e q' ys j q''"
  shows "added e q xs (k + j) q''"
  using assms unfolding added_def by (metis after_adding_trans same_buffers_trans pool_ok_unique)

lemma added_ok: "added e q xs k q' \<Longrightarrow> \<exists>ys. pool_ok (e_insertMode e \<noteq> INSERT_MODE_RANDOM) q' ys"
  unfolding added_def by blast

lemma added_none: "pool_ok (e_insertMode e \<noteq> INSERT_MODE_RANDOM) q xs \<Longrightarrow> added e q xs 0 q"
  by (auto simp: added_def)

lemma add_particles_ok:
  assumes "pool_ok (e_insertMode e \<noteq> INSERT_MODE_RANDOM) q xs" "settings_ok e"
  shows "\<exists>q' g' k. add_particles cm e n q g = Inr (q', g') \<and> k \<le> n \<and> added e q xs k q'"
  using assms(1)
proof (induction n arbitrary: q g xs)
  case 0
  then show ?case
    using added_none by auto
next
  case (Suc n)
  obtain q1 g1 where one: "addParticle cm e 1 q g = Inr (q1, g1)" "added e q xs (if isFull q then 0 else 1) q1"
    by (rule addParticle_step [OF Suc.prems assms(2)])
  obtain ys where ys: "pool_ok (e_insertMode e \<noteq> INSERT_MODE_RANDOM) q1 ys"
    using added_ok [OF one(2)] by blast
  obtain q' g' k where rest: "add_particles cm e n q1 g1 = Inr (q', g')" "k \<le> n" "added e q1 ys k q'"
    using Suc.IH [OF ys] by blast
  have "added e q xs ((if isFull q then 0 else 1) + k) q'"
    by (rule added_trans [OF one(2) ys rest(3)])
  then show ?case
    using one(1) rest(1,2) by (intro exI [of _ q'] exI [of _ g'] exI [of _ "(if isFull q then 0 else 1) + k"]) simp
qed

section \<open>How many particles are due\<close>

text \<open>
  The loop of an update seen from its counter: it turns \<open>n\<close> times when so many times over the counter is
  above the time between two particles. There need not be such a number.
\<close>

primrec emission_turns :: "real \<Rightarrow> real \<Rightarrow> nat \<Rightarrow> bool" where
  "emission_turns rate counter 0 \<longleftrightarrow> counter \<le> rate"
| "emission_turns rate counter (Suc n) \<longleftrightarrow> rate < counter \<and> emission_turns rate (f32 (counter - rate)) n"

lemma emission_turns_unique: "emission_turns rate counter n \<Longrightarrow> emission_turns rate counter k \<Longrightarrow> n = k"
proof (induction n arbitrary: counter k)
  case 0
  then show ?case
    by (cases k) auto
next
  case (Suc n)
  then show ?case
    by (cases k) auto
qed

text \<open>A counter of no more than \<open>2 ^ 23\<close> times the rate is never absorbed.\<close>

lemma emission_ends:
  assumes "2 powi (-149) \<le> rate" "counter \<le> 2 ^ 23 * rate"
  shows "\<exists>n. emission_turns rate counter n"
proof -
  have "\<exists>n. emission_turns rate c n" if "c \<le> real k * (rate / 2) + rate" "c \<le> 2 ^ 23 * rate" for c k
    using that
  proof (induction k arbitrary: c)
    case 0
    then show ?case
      by (intro exI [of _ 0]) simp
  next
    case (Suc k)
    show ?case
    proof (cases "rate < c")
      case False
      then show ?thesis
        by (intro exI [of _ 0]) simp
    next
      case True
      have "0 < (2::real) powi (-149)"
        by (simp add: power_int_minus)
      then have less: "f32 (c - rate) \<le> c - rate / 2" "0 < rate"
        using f32_take [OF assms(1) True Suc.prems(2)] assms(1) by linarith+
      then obtain n where "emission_turns rate (f32 (c - rate)) n"
        using Suc.IH [of "f32 (c - rate)"] Suc.prems by (auto simp: field_simps)
      then show ?thesis
        using True by (intro exI [of _ "Suc n"]) simp
    qed
  qed
  moreover have "0 < rate"
    using assms(1) by (rule less_le_trans [rotated]) (simp add: power_int_minus)
  then obtain k where "counter < real k * (rate / 2)"
    using ex_less_of_nat_mult [of "rate / 2" counter] by auto
  then have "counter \<le> real k * (rate / 2) + rate"
    using \<open>0 < rate\<close> by linarith
  ultimately show ?thesis
    using assms(2) by blast
qed

text \<open>A counter the rate is absorbed by stays what it is.\<close>

lemma emission_hangs: "rate < counter \<Longrightarrow> f32 (counter - rate) = counter \<Longrightarrow> \<not> emission_turns rate counter n"
  by (induction n) auto

lemma pool_ok_length: "pool_ok s q xs \<Longrightarrow> length xs = unat (activeParticles q)"
  unfolding pool_ok_def using distinct_card [of xs] by auto

text \<open>The loop of the code: so many particles as are due are added while there is room for them.\<close>

lemma emit_list_ok:
  assumes "pool_ok (e_insertMode e \<noteq> INSERT_MODE_RANDOM) q xs" "settings_ok e" "emission_turns rate counter n"
  shows "\<exists>counter' q' g'. emit_list cm e rate excess counter q g = Some (Inr (counter', q', g')) \<and>
    added e q xs (min n (unat (maxParticles q) - length xs)) q'"
  using assms(1,3)
proof (induction n arbitrary: q g xs counter)
  case 0
  then show ?case
    using added_none by (subst emit_list.simps) auto
next
  case (Suc n)
  let ?t = "f32 (1 - f32 (f32 (counter - rate) / excess))"
  obtain q1 g1 where one: "addParticle cm e ?t q g = Inr (q1, g1)" "added e q xs (if isFull q then 0 else 1) q1"
    by (rule addParticle_step [OF Suc.prems(1) assms(2)])
  obtain ys where ys: "pool_ok (e_insertMode e \<noteq> INSERT_MODE_RANDOM) q1 ys"
    using added_ok [OF one(2)] by blast
  obtain c' q' g' where rest: "emit_list cm e rate excess (f32 (counter - rate)) q1 g1 = Some (Inr (c', q', g'))"
    "added e q1 ys (min n (unat (maxParticles q1) - length ys)) q'"
    using Suc.IH [OF ys, of "f32 (counter - rate)" g1] Suc.prems(2) by auto
  have "added e q xs ((if isFull q then 0 else 1) + min n (unat (maxParticles q1) - length ys)) q'"
    by (rule added_trans [OF one(2) ys rest(2)])
  moreover have "length ys = length xs + (if isFull q then 0 else 1)" "maxParticles q1 = maxParticles q"
    using one(2) pool_ok_unique [OF ys] unfolding added_def same_buffers_def after_adding_def contents_def by auto
  moreover have "length xs \<le> unat (maxParticles q)" "isFull q \<longleftrightarrow> length xs = unat (maxParticles q)"
    using Suc.prems(1) pool_ok_length [OF Suc.prems(1)] by (auto simp: pool_ok_def isFull_def simp flip: word_unat_eq_iff)
  ultimately have "added e q xs (min (Suc n) (unat (maxParticles q) - length xs)) q'"
    by (auto simp: min_def split: if_splits)
  moreover have "emit_list cm e rate excess counter q g = Some (Inr (c', q', g'))"
    using Suc.prems(2) one(1) rest(1) by (subst emit_list.simps) simp
  ultimately show ?case
    by blast
qed

lemma emit_list_due:
  assumes "emit_list cm e rate excess counter q g = Some r" "pool_ok (e_insertMode e \<noteq> INSERT_MODE_RANDOM) q xs" "settings_ok e"
  shows "\<exists>n. emission_turns rate counter n"
proof -
  let ?ok = "\<lambda>e q. settings_ok e \<and> (\<exists>xs. pool_ok (e_insertMode e \<noteq> INSERT_MODE_RANDOM) q xs)"
  have "?ok e q \<longrightarrow> (\<exists>n. emission_turns rate counter n)"
    using assms(1)
  proof (rule emit_list.raw_induct [rotated, where P = "\<lambda>cm e rate excess counter q g r. ?ok e q \<longrightarrow> (\<exists>n. emission_turns rate counter n)"])
    fix loop cm e rate excess counter q g r
    assume IH: "\<And>cm e rate excess counter q g r. loop cm e rate excess counter q g = Some r \<Longrightarrow>
        ?ok e q \<longrightarrow> (\<exists>n. emission_turns rate counter n)"
      and step: "(if rate < counter
        then case addParticle cm e (f32 (1 - f32 (f32 (counter - rate) / excess))) q g of
               Inl err \<Rightarrow> Some (Inl err)
             | Inr made \<Rightarrow> loop cm e rate excess (f32 (counter - rate)) (fst made) (snd made)
        else Some (Inr (counter, q, g))) = Some r"
    show "?ok e q \<longrightarrow> (\<exists>n. emission_turns rate counter n)"
    proof (intro impI, elim conjE exE)
      fix xs
      assume e: "settings_ok e" and xs: "pool_ok (e_insertMode e \<noteq> INSERT_MODE_RANDOM) q xs"
      show "\<exists>n. emission_turns rate counter n"
      proof (cases "counter > rate")
        case False
        then show ?thesis
          by (intro exI [of _ 0]) simp
      next
        case True
        obtain q1 g1 where one: "addParticle cm e (f32 (1 - f32 (f32 (counter - rate) / excess))) q g = Inr (q1, g1)"
          "added e q xs (if isFull q then 0 else 1) q1"
          by (rule addParticle_step [OF xs e])
        have "loop cm e rate excess (f32 (counter - rate)) q1 g1 = Some r"
          using step True one(1) by simp
        then obtain n where "emission_turns rate (f32 (counter - rate)) n"
          using IH added_ok [OF one(2)] e by blast
        then show ?thesis
          using True by (intro exI [of _ "Suc n"]) simp
      qed
    qed
  qed
  then show ?thesis
    using assms(2,3) by blast
qed

section \<open>Updating the list\<close>

lemma threaded_data:
  "i < length m \<Longrightarrow> p_prev c = p_prev (m ! i) \<Longrightarrow> p_next c = p_next (m ! i) \<Longrightarrow>
     threaded b (m[i := c]) pv xs nx = threaded b m pv xs nx"
  by (induction xs arbitrary: pv) (auto simp: nth_list_update)

definition with_cell :: "pool \<Rightarrow> nat \<Rightarrow> particle \<Rightarrow> pool" where
  "with_cell q i c = q\<lparr>pMem := Some ((the (pMem q))[i := c])\<rparr>"

lemma with_cell_sel [simp]:
  "pHead (with_cell q i c) = pHead q" "pTail (with_cell q i c) = pTail q" "pl_block (with_cell q i c) = pl_block q"
  "pFree (with_cell q i c) = pFree q" "activeParticles (with_cell q i c) = activeParticles q"
  "maxParticles (with_cell q i c) = maxParticles q" "pl_buffer (with_cell q i c) = pl_buffer q"
  "pMem (with_cell q i c) = Some ((the (pMem q))[i := c])" "same_buffers q (with_cell q i c)"
  by (simp_all add: with_cell_def same_buffers_def)

lemma pool_ok_memory: "pool_ok s q xs \<Longrightarrow> \<exists>m. pMem q = Some m \<and> (\<forall>i\<in>set xs. i < length m)"
  unfolding pool_ok_def by auto

lemma pool_ok_with_cell:
  assumes "pool_ok s q xs" "i \<in> set xs" "p_prev c = p_prev (the (pMem q) ! i)" "p_next c = p_next (the (pMem q) ! i)" "particle_ok c"
  shows "pool_ok s (with_cell q i c) xs"
proof -
  obtain m where m: "pMem q = Some m" "length m = unat (maxParticles q)" "threaded (pl_block q) m None xs None" "list_all (\<lambda>i. particle_ok (m ! i)) xs"
    using assms(1) unfolding pool_ok_def by blast
  have i: "i < length m"
    using threaded_length [OF m(3) assms(2)] .
  have "threaded (pl_block q) (m[i := c]) None xs None"
    using threaded_data [OF i] m(1,3) assms(3,4) by simp
  moreover have "list_all (\<lambda>k. particle_ok (m[i := c] ! k)) xs"
    using m(4) assms(5) i by (auto simp: list_all_iff nth_list_update)
  ultimately show ?thesis
    using assms(1) m(1,2) unfolding pool_ok_def by simp
qed

lemma contents_with_cell:
  "i \<notin> set xs \<Longrightarrow> contents (with_cell q i c) xs = contents q xs"
  "pMem q = Some m \<Longrightarrow> i < length m \<Longrightarrow> contents (with_cell q i c) [i] = [payload c]"
  by (auto simp: contents_def) (metis nth_list_update_neq)

lemma contents_append [simp]: "contents q (xs @ ys) = contents q xs @ contents q ys" "contents q [] = []"
  by (simp_all add: contents_def)

lemma contents_Cons: "contents q (i # xs) = contents q [i] @ contents q xs"
  by (simp add: contents_def)

lemma cell_access:
  assumes "pool_ok s q xs" "i \<in> set xs"
  shows "load (Some (pl_block q, i)) q = Inr (the (pMem q) ! i)"
    "update_at (Some (pl_block q, i)) f q = Inr (with_cell q i (f (the (pMem q) ! i)))"
  using pool_ok_memory [OF assms(1)] assms(2) by (auto simp: load_def update_at_def with_cell_def)

lemma moved_places:
  assumes "distinct (ys @ i # zs)" "set (ys @ i # zs) = {0..<n}"
  shows "distinct (map (moved (n - 1) i) (ys @ zs)) \<and> set (map (moved (n - 1) i) (ys @ zs)) = {0..<n - 1}"
proof -
  have "i < n"
    using assms(2) by auto
  then obtain j where n: "n = Suc j" "i \<le> j"
    by (cases n) auto
  have "set (ys @ zs) = set (ys @ i # zs) - {i}"
    using assms(1) by auto
  then have places: "set (ys @ zs) = {0..<Suc j} - {i}"
    unfolding assms(2) n .
  have "inj_on (moved j i) (set (ys @ zs))"
    unfolding places by (auto simp: inj_on_def moved_def split: if_splits)
  moreover have "moved j i ` ({0..<Suc j} - {i}) = {0..<j}"
  proof (intro subset_antisym subsetI)
    fix k assume "k \<in> {0..<j}"
    then have "k = moved j i (if k = i then j else k) \<and> (if k = i then j else k) \<in> {0..<Suc j} - {i}"
      by (auto simp: moved_def)
    then show "k \<in> moved j i ` ({0..<Suc j} - {i})"
      by blast
  qed (use n(2) in \<open>auto simp: moved_def split: if_splits\<close>)
  ultimately show ?thesis
    using assms(1) places n by (simp only: distinct_map set_map) simp
qed

lemma removeParticle_ok:
  assumes "pool_ok s q (ys @ i # zs)"
  obtains q' ys' zs' where "removeParticle (Some (pl_block q, i)) q = Inr (q', first (pl_block q) zs' None)"
    "pool_ok s q' (ys' @ zs')" "contents q' ys' = contents q ys" "contents q' zs' = contents q zs" "same_buffers q q'" "length zs' = length zs"
proof -
  let ?b = "pl_block q"
  obtain m where m: "pMem q = Some m" "length m = unat (maxParticles q)" "threaded ?b m None (ys @ i # zs) None"
    "list_all (\<lambda>i. particle_ok (m ! i)) (ys @ i # zs)"
    using assms unfolding pool_ok_def by blast
  have q: "distinct (ys @ i # zs)" "set (ys @ i # zs) = {0..<pFree q}" "pFree q = unat (activeParticles q)" "pFree q \<le> unat (maxParticles q)"
    "maxParticles q \<le> MAX_PARTICLES" "pHead q = first ?b (ys @ i # zs) None" "tail_kept (pTail q) (final ?b (ys @ i # zs) None)"
    "s \<Longrightarrow> pTail q = final ?b (ys @ i # zs) None"
    using assms unfolding pool_ok_def by blast+
  define f where "f = moved (pFree q - 1) i"
  obtain m' t' where out: "removeParticle (Some (?b, i)) (pool_with q m (pHead q) (pTail q)) =
       Inr (pool_with (q\<lparr>pFree := pFree q - 1, activeParticles := activeParticles q - 1\<rparr>) m' (first ?b (map f (ys @ zs)) None) t',
            first ?b (map f zs) None)"
    "threaded ?b m' None (map f (ys @ zs)) None" "length m' = length m"
    "\<And>k. k \<in> set (ys @ zs) \<Longrightarrow> payload (m' ! f k) = payload (m ! k)" "tail_kept t' (final ?b (map f (ys @ zs)) None)"
    "pTail q = final ?b (ys @ i # zs) None \<Longrightarrow> t' = final ?b (map f (ys @ zs)) None"
    by (rule removeParticle_threaded [OF m(3) q(1,2) refl q(6,7) f_def]) blast
  define q' where "q' = pool_with (q\<lparr>pFree := pFree q - 1, activeParticles := activeParticles q - 1\<rparr>) m' (first ?b (map f (ys @ zs)) None) t'"
  have q': "pMem q' = Some m'" "pl_block q' = ?b" "pHead q' = first ?b (map f (ys @ zs)) None" "pTail q' = t'" "pFree q' = pFree q - 1"
    "activeParticles q' = activeParticles q - 1" "maxParticles q' = maxParticles q" "pl_buffer q' = pl_buffer q"
    by (simp_all add: q'_def)
  have "i \<in> {0..<pFree q}"
    unfolding q(2) [symmetric] by simp
  then have positive: "0 < pFree q"
    by simp
  have count: "unat (activeParticles q - 1) = unat (activeParticles q) - 1"
    using positive q(3) by (metis unat_eq_zero unat_minus_one less_numeral_extra(3))
  have data: "contents q' (map f us) = contents q us" if "set us \<subseteq> set (ys @ zs)" for us
    using that out(4) m(1) q'(1) by (auto simp: contents_def)
  have places: "distinct (map f (ys @ zs)) \<and> set (map f (ys @ zs)) = {0..<pFree q - 1}"
    unfolding f_def by (rule moved_places [OF q(1,2)])
  have "particle_ok (m' ! f k)" if "k \<in> set (ys @ zs)" for k
    using out(4) [OF that] m(4) that payload_sel(4) by (metis UnCI UnE list_all_iff list.set_intros(2) set_append)
  then have "list_all (\<lambda>k. particle_ok (m' ! k)) (map f (ys @ zs))"
    by (auto simp: list_all_iff)
  then have "pool_ok s q' (map f (ys @ zs))"
    unfolding pool_ok_def q' using out(2,3,5,6) m(2) q(3,4,5,8) count places by auto
  moreover have "same_buffers q q'"
    using q' by (simp add: same_buffers_def)
  ultimately show thesis
    using out(1) data [of ys] data [of zs] pool_with_id [OF m(1)]
    by (intro that [of q' "map f zs" "map f ys"]) (simp_all add: q'_def)
qed

text \<open>An update as a function of the list: what dies is gone, what lives moves, and the order stays.\<close>

definition advance :: "c_math \<Rightarrow> emitter \<Rightarrow> real \<Rightarrow> particle list \<Rightarrow> particle list" where
  "advance cm e dt ps =
     map (\<lambda>c. projr (moveParticle cm e dt c)) (filter (\<lambda>c. 0 < p_life c) (map (\<lambda>c. c\<lparr>p_life := p_life c - dt\<rparr>) ps))"

lemma advance_append [simp]: "advance cm e dt (ps @ ps') = advance cm e dt ps @ advance cm e dt ps'" "advance cm e dt [] = []"
  by (simp_all add: advance_def)

lemma payload_aged: "(payload c)\<lparr>p_life := x\<rparr> = payload (c\<lparr>p_life := x\<rparr>)"
  by (simp add: payload_def)

lemma pool_ok_cell:
  assumes "pool_ok s q xs" "i \<in> set xs"
  shows "particle_ok (the (pMem q) ! i)"
  using assms unfolding pool_ok_def by (auto simp: list_all_iff)

lemma update_one_ok:
  assumes "pool_ok s q (ys @ i # zs)" "settings_ok e" "0 < dt"
  obtains q' ys' zs' where "update_one cm e dt (Some (pl_block q, i)) q = Inr (q', first (pl_block q) zs' None)"
    "pool_ok s q' (ys' @ zs')" "contents q' ys' = contents q ys @ advance cm e dt (contents q [i])" "contents q' zs' = contents q zs"
    "same_buffers q q'" "length zs' = length zs"
proof -
  let ?p = "Some (pl_block q, i)"
  define c where "c = (the (pMem q) ! i)\<lparr>p_life := p_life (the (pMem q) ! i) - dt\<rparr>"
  define q1 where "q1 = with_cell q i c"
  have "distinct (ys @ i # zs)"
    using assms(1) unfolding pool_ok_def by blast
  then have i: "i \<in> set (ys @ i # zs)" "i \<notin> set ys" "i \<notin> set zs"
    by simp_all
  have c: "particle_ok c"
    using pool_ok_cell [OF assms(1) i(1)] assms(3) by (simp add: c_def particle_ok_def)
  have q1: "pool_ok s q1 (ys @ i # zs)"
    unfolding q1_def by (rule pool_ok_with_cell [OF assms(1) i(1) _ _ c]) (simp_all add: c_def)
  have cell: "the (pMem q1) ! i = c" "pl_block q1 = pl_block q" "same_buffers q q1"
    using pool_ok_memory [OF assms(1)] by (auto simp: q1_def)
  have kept: "contents q1 ys = contents q ys" "contents q1 zs = contents q zs"
    using i(2,3) by (simp_all add: q1_def contents_with_cell(1))
  have old: "map (\<lambda>c. c\<lparr>p_life := p_life c - dt\<rparr>) (contents q [i]) = [payload c]"
    by (simp add: contents_def c_def payload_aged)
  have run: "update_one cm e dt ?p q =
      (if p_life c \<le> 0 then removeParticle ?p q1
       else bind_result (moveParticle cm e dt c) (\<lambda>c. bind_result (update_at ?p (\<lambda>_. c) q1) (\<lambda>q. Inr (q, p_next c))))"
    using cell_access [OF assms(1) i(1)] cell_access(1) [OF q1 i(1)] cell(1,2)
    by (simp add: update_one_def c_def [symmetric] q1_def [symmetric])
  show thesis
  proof (cases "p_life c \<le> 0")
    case True
    obtain q' ys' zs' where gone: "removeParticle (Some (pl_block q1, i)) q1 = Inr (q', first (pl_block q1) zs' None)"
      "pool_ok s q' (ys' @ zs')" "contents q' ys' = contents q1 ys" "contents q' zs' = contents q1 zs" "same_buffers q1 q'" "length zs' = length zs"
      by (rule removeParticle_ok [OF q1])
    have "advance cm e dt (contents q [i]) = []"
      unfolding advance_def old using True by simp
    moreover have "update_one cm e dt ?p q = Inr (q', first (pl_block q) zs' None)"
      using gone(1) run True cell(2) by simp
    moreover have "same_buffers q q'"
      by (rule same_buffers_trans [OF cell(3) gone(5)])
    ultimately show thesis
      using gone(2-4,6) kept by (intro that [of q' zs' ys']) simp_all
  next
    case False
    then have "0 < p_life c"
      by simp
    then obtain c' where c': "moveParticle cm e dt c = Inr c'" "particle_ok c'" "p_prev c' = p_prev c" "p_next c' = p_next c"
      by (rule moveParticle_ok [OF assms(2) c])
    define q' where "q' = with_cell q1 i c'"
    have "p_next c = first (pl_block q) zs None"
      using q1 cell unfolding pool_ok_def by auto
    then have "update_one cm e dt ?p q = Inr (q', first (pl_block q) zs None)"
      using run False c' cell_access(2) [OF q1 i(1)] cell(2) by (simp add: q'_def)
    moreover have ok: "pool_ok s q' (ys @ i # zs)"
      unfolding q'_def by (rule pool_ok_with_cell [OF q1 i(1) _ _ c'(2)]) (use c' cell(1) in simp_all)
    moreover have "advance cm e dt (contents q [i]) = [payload c']"
      unfolding advance_def old using False c'(1) by (simp add: moveParticle_payload)
    then have "contents q' (ys @ [i]) = contents q ys @ advance cm e dt (contents q [i])"
      using pool_ok_memory [OF q1] i kept by (auto simp: q'_def contents_with_cell)
    moreover have "contents q' zs = contents q zs" "same_buffers q q'"
      using i(3) kept cell(3) by (auto simp: q'_def contents_with_cell(1) intro: same_buffers_trans)
    ultimately show thesis
      by (intro that [of q' zs "ys @ [i]"]) simp_all
  qed
qed

lemma update_list_ok:
  assumes "pool_ok s q (ys @ zs)" "settings_ok e" "0 < dt"
  shows "\<exists>q' xs. update_list cm e dt (first (pl_block q) zs None) q = Some (Inr q') \<and> pool_ok s q' xs \<and>
    contents q' xs = contents q ys @ advance cm e dt (contents q zs) \<and> same_buffers q q'"
  using assms(1)
proof (induction "length zs" arbitrary: q ys zs)
  case 0
  then show ?case
    by (subst update_list.simps) auto
next
  case (Suc n)
  then obtain i rest where zs: "zs = i # rest" "length rest = n"
    by (cases zs) auto
  obtain q1 ys' zs' where one: "update_one cm e dt (Some (pl_block q, i)) q = Inr (q1, first (pl_block q) zs' None)"
    "pool_ok s q1 (ys' @ zs')" "contents q1 ys' = contents q ys @ advance cm e dt (contents q [i])" "contents q1 zs' = contents q rest"
    "same_buffers q q1" "length zs' = length rest"
    by (rule update_one_ok [OF Suc.prems [unfolded zs(1)] assms(2,3)])
  obtain q' xs where q': "update_list cm e dt (first (pl_block q1) zs' None) q1 = Some (Inr q')" "pool_ok s q' xs"
    "contents q' xs = contents q1 ys' @ advance cm e dt (contents q1 zs')" "same_buffers q1 q'"
    using Suc.hyps(1) [OF _ one(2)] one(6) zs(2) by auto
  have "update_list cm e dt (first (pl_block q) zs None) q = Some (Inr q')"
    using q'(1) one(1,5) zs(1) by (subst update_list.simps) (simp add: same_buffers_def)
  then show ?case
    using q'(2-4) one(3-5) zs(1) contents_Cons [of q i rest]
    by (intro exI [of _ q'] exI [of _ xs]) (auto intro: same_buffers_trans)
qed

section \<open>Particle systems\<close>

fun follow :: "nat \<Rightarrow> particle_pointer \<Rightarrow> pool \<Rightarrow> particle list" where
  "follow 0 p q = []"
| "follow (Suc n) p q = (case load p q of Inl _ \<Rightarrow> [] | Inr c \<Rightarrow> payload c # follow n (p_next c) q)"

text \<open>The particles of a system in drawing order, without their links.\<close>

definition particles :: "particle_system \<Rightarrow> particle list" where
  "particles s = follow (unat (activeParticles (ps_pool s))) (pHead (ps_pool s)) (ps_pool s)"

definition no_memory :: "pool \<Rightarrow> bool" where
  "no_memory q \<longleftrightarrow> pMem q = None \<and> maxParticles q = 0 \<and> activeParticles q = 0"

definition keeps_tail :: "emitter \<Rightarrow> bool" where
  "keeps_tail e \<longleftrightarrow> e_insertMode e \<noteq> INSERT_MODE_RANDOM"

definition system_ok :: "particle_system \<Rightarrow> bool" where
  "system_ok s \<longleftrightarrow> settings_ok (ps_emitter s) \<and>
     (no_memory (ps_pool s) \<or> (\<exists>xs. pool_ok (keeps_tail (ps_emitter s)) (ps_pool s) xs))"

lemma follow_contents:
  "pMem q = Some m \<Longrightarrow> threaded (pl_block q) m pv xs None \<Longrightarrow> follow (length xs) (first (pl_block q) xs None) q = contents q xs"
proof (induction xs arbitrary: pv)
  case (Cons i xs)
  then show ?case
    using contents_Cons [of q i xs] by (auto simp: load_def contents_def)
qed simp

lemma particles_contents:
  assumes "pool_ok k (ps_pool s) xs"
  shows "particles s = contents (ps_pool s) xs"
proof -
  obtain m where "pMem (ps_pool s) = Some m" "threaded (pl_block (ps_pool s)) m None xs None" "pHead (ps_pool s) = first (pl_block (ps_pool s)) xs None"
    using assms unfolding pool_ok_def by blast
  then show ?thesis
    using follow_contents [of "ps_pool s" m None xs] pool_ok_length [OF assms] by (simp add: particles_def)
qed

lemma particles_none: "no_memory (ps_pool s) \<Longrightarrow> particles s = []"
  by (simp add: no_memory_def particles_def)

lemma settings_ok_counters [simp]:
  "settings_ok (e\<lparr>e_emitCounter := x\<rparr>) = settings_ok e" "settings_ok (e\<lparr>e_life := x\<rparr>) = settings_ok e"
  "settings_ok (e\<lparr>e_prevPosition := v\<rparr>) = settings_ok e" "settings_ok (stop_emitter e) = settings_ok e"
  "e_insertMode (stop_emitter e) = e_insertMode e"
  by (simp_all add: settings_ok_def stop_emitter_def)

text \<open>So many particles are due in an update of an emitter, or of a system, with some time.\<close>

definition emitter_due :: "emitter \<Rightarrow> real \<Rightarrow> nat \<Rightarrow> bool" where
  "emitter_due e dt n \<longleftrightarrow>
     (case f32_reciprocal (e_emissionRate e) of
        None \<Rightarrow> n = 0
      | Some rate \<Rightarrow> emission_turns rate (f32 (e_emitCounter e + dt)) n)"

definition due :: "particle_system \<Rightarrow> real \<Rightarrow> nat \<Rightarrow> bool" where
  "due s dt n \<longleftrightarrow>
     (if e_active (ps_emitter s) \<and> pMem (ps_pool s) \<noteq> None then emitter_due (ps_emitter s) dt n else n = 0)"

lemma emitter_due_unique: "emitter_due e dt n \<Longrightarrow> emitter_due e dt k \<Longrightarrow> n = k"
  by (auto simp: emitter_due_def dest: emission_turns_unique split: option.splits)

lemma due_unique: "due s dt n \<Longrightarrow> due s dt k \<Longrightarrow> n = k"
  by (auto simp: due_def dest: emitter_due_unique split: if_splits)

lemma update_emitter_ok:
  assumes "pool_ok (keeps_tail e) q xs" "settings_ok e"
  shows "case update_emitter cm dt e q g of
      None \<Rightarrow> \<nexists>n. emitter_due e dt n
    | Some r \<Rightarrow> \<exists>e' q' g' n. r = Inr (e', q', g') \<and> settings_ok e' \<and> e_insertMode e' = e_insertMode e \<and>
        emitter_due e dt n \<and> added e q xs (min n (unat (maxParticles q) - length xs)) q'"
proof -
  define e1 where "e1 = e\<lparr>e_emitCounter := f32 (e_emitCounter e + dt)\<rparr>"
  have e1: "settings_ok e1" "e_insertMode e1 = e_insertMode e" "added e1 = added e" "e_emissionRate e1 = e_emissionRate e"
    "e_emitCounter e1 = f32 (e_emitCounter e + dt)"
    using assms(2) by (simp_all add: e1_def added_def fun_eq_iff)
  have ok: "pool_ok (e_insertMode e1 \<noteq> INSERT_MODE_RANDOM) q xs"
    using assms(1) by (simp add: keeps_tail_def e1(2))
  define loop where "loop = (case f32_reciprocal (e_emissionRate e1) of
      None \<Rightarrow> Some (Inr (e_emitCounter e1, q, g))
    | Some rate \<Rightarrow> emit_list cm e1 rate (f32 (e_emitCounter e1 - rate)) (e_emitCounter e1) q g)"
  have out: "case loop of None \<Rightarrow> \<nexists>n. emitter_due e dt n
    | Some r \<Rightarrow> \<exists>c q' g' n. r = Inr (c, q', g') \<and> emitter_due e dt n \<and> added e q xs (min n (unat (maxParticles q) - length xs)) q'"
  proof (cases "f32_reciprocal (e_emissionRate e1)")
    case None
    then show ?thesis
      using added_none [of e q xs] assms(1) e1(4) by (simp add: loop_def emitter_due_def keeps_tail_def)
  next
    case (Some rate)
    have due: "emitter_due e dt = emission_turns rate (e_emitCounter e1)"
      using Some e1(4,5) by (simp add: emitter_due_def fun_eq_iff)
    show ?thesis
    proof (cases "\<exists>n. emission_turns rate (e_emitCounter e1) n")
      case True
      then obtain n where n: "emission_turns rate (e_emitCounter e1) n"
        by blast
      show ?thesis
        using emit_list_ok [OF ok e1(1) n, of cm "f32 (e_emitCounter e1 - rate)" g] n Some due e1(3) by (auto simp: loop_def)
    next
      case False
      then have "loop = None"
        using emit_list_due [OF _ ok e1(1), of cm rate "f32 (e_emitCounter e1 - rate)" "e_emitCounter e1" g] Some
        by (cases loop) (auto simp: loop_def)
      then show ?thesis
        using False due by simp
    qed
  qed
  have "update_emitter cm dt e q g = (case loop of
      None \<Rightarrow> None
    | Some r \<Rightarrow> Some (bind_result r (\<lambda>(counter, q, g).
        let e = e1\<lparr>e_emitCounter := counter, e_life := e_life e1 - dt\<rparr>;
            e = (if e_lifetime e \<noteq> -1 \<and> e_life e < 0 then stop_emitter e else e)
        in Inr (e, q, g))))"
    unfolding update_emitter_def Let_def e1_def [symmetric] loop_def ..
  then show ?thesis
    using out e1(1,2) by (auto split: option.splits simp: Let_def)
qed

text \<open>An update with time passing.\<close>

lemma update_ok:
  assumes "system_ok s" "0 < dt"
  shows "case update cm dt s g of
      None \<Rightarrow> \<nexists>n. due s dt n
    | Some r \<Rightarrow> \<exists>s' g' n. r = Inr (s', g') \<and> due s dt n \<and> system_ok s' \<and> maxParticles (ps_pool s') = maxParticles (ps_pool s) \<and>
        after_adding (e_insertMode (ps_emitter s))
          (min n (unat (maxParticles (ps_pool s)) - length (advance cm (ps_emitter s) dt (particles s))))
          (advance cm (ps_emitter s) dt (particles s)) (particles s')"
proof (cases "no_memory (ps_pool s)")
  case True
  then have "update cm dt s g = Some (Inr (s, g))" "due s dt 0" "particles s = []" "maxParticles (ps_pool s) = 0"
    by (simp_all add: update_def due_def no_memory_def particles_none)
  then show ?thesis
    using assms(1) by auto
next
  case False
  let ?e = "ps_emitter s" and ?q = "ps_pool s"
  obtain xs where xs: "pool_ok (keeps_tail ?e) ?q xs" and e: "settings_ok ?e"
    using assms(1) False unfolding system_ok_def by blast
  have head: "pHead ?q = first (pl_block ?q) xs None" "pMem ?q \<noteq> None"
    using xs unfolding pool_ok_def by auto
  obtain q ys where q: "update_list cm ?e dt (pHead ?q) ?q = Some (Inr q)" "pool_ok (keeps_tail ?e) q ys"
    "contents q ys = advance cm ?e dt (contents ?q xs)" "same_buffers ?q q"
    using update_list_ok [of "keeps_tail ?e" ?q "[]" xs ?e dt cm] xs e assms(2) unfolding head(1) by auto
  define last where "last = (if e_active ?e then update_emitter cm dt ?e q g else Some (Inr (?e, q, g)))"
  have out: "case last of None \<Rightarrow> \<nexists>n. due s dt n
    | Some r \<Rightarrow> \<exists>e' q' g' n. r = Inr (e', q', g') \<and> settings_ok e' \<and> e_insertMode e' = e_insertMode ?e \<and> due s dt n \<and>
        added ?e q ys (min n (unat (maxParticles q) - length ys)) q'"
  proof (cases "e_active ?e")
    case True
    then have due: "due s dt = emitter_due ?e dt"
      using head(2) by (simp add: due_def fun_eq_iff)
    show ?thesis
      unfolding due using update_emitter_ok [OF q(2) e, of dt cm g] True by (simp add: last_def)
  next
    case False
    then show ?thesis
      using added_none [of ?e q ys] q(2) e by (simp add: last_def due_def keeps_tail_def)
  qed
  have run: "update cm dt s g = (case last of None \<Rightarrow> None
    | Some r \<Rightarrow> Some (bind_result r (\<lambda>(e, q, g). Inr (s\<lparr>ps_pool := q, ps_emitter := e\<lparr>e_prevPosition := e_position e\<rparr>\<rparr>, g))))"
    unfolding update_def Let_def q(1) last_def using head(2) assms(2) by auto
  show ?thesis
  proof (cases last)
    case None
    then show ?thesis
      using out run by simp
  next
    case (Some r)
    then obtain e' q' g' n where last: "last = Some (Inr (e', q', g'))" "settings_ok e'" "e_insertMode e' = e_insertMode ?e"
      "due s dt n" "added ?e q ys (min n (unat (maxParticles q) - length ys)) q'"
      using out by auto
    define s' where "s' = s\<lparr>ps_pool := q', ps_emitter := e'\<lparr>e_prevPosition := e_position e'\<rparr>\<rparr>"
    obtain zs where zs: "pool_ok (keeps_tail ?e) q' zs"
      "after_adding (e_insertMode ?e) (min n (unat (maxParticles q) - length ys)) (contents q ys) (contents q' zs)"
      using last(5) q(2) unfolding added_def keeps_tail_def by blast
    have "update cm dt s g = Some (Inr (s', g'))"
      using run last(1) by (simp add: s'_def)
    moreover have "keeps_tail (ps_emitter s') = keeps_tail ?e"
      using last(3) by (simp add: keeps_tail_def s'_def)
    then have "system_ok s'"
      using last(2) zs(1) unfolding system_ok_def by (auto simp: s'_def)
    moreover have "particles s = contents ?q xs" "particles s' = contents q' zs"
      using particles_contents [OF xs] particles_contents [of _ s' zs] zs(1) by (simp_all add: s'_def)
    moreover have "maxParticles q = maxParticles ?q" "length (contents q ys) = length ys" "maxParticles (ps_pool s') = maxParticles ?q"
      using q(4) last(5) by (simp_all add: same_buffers_def added_def contents_def s'_def)
    ultimately show ?thesis
      using zs(2) q(3) last(4) by auto
  qed
qed

end
