(* ===== verification/ParticleSessions.thy ===== *)
theory ParticleSessions
  imports ParticleSystem
begin

text \<open>
  Sequences of calls on a particle system: which ones keep its invariant, so that no call reads or
  writes outside its memory, what drawing asks of the settings, and two sequences that do end in undefined
  behaviour.
\<close>

section \<open>Steps\<close>

definition memory_ok :: "memory \<Rightarrow> bool" where
  "memory_ok mem \<longleftrightarrow> (\<forall>n m. new_particles mem n = Some m \<longrightarrow> length m = n) \<and> (\<forall>n text. new_buffer mem n \<noteq> Buffer_exception text)"

text \<open>
  The calls that change a setting. Sizes and colors come one to eight at a time, which the functions that scripts
  call see to (\<^verbatim>\<open>lh_PS_setSizes\<close>, \<^verbatim>\<open>lh_PS_setColors\<close>); that the variation of sizes lies between zero and one nobody sees to.
\<close>

inductive setting_call :: "emitter \<Rightarrow> emitter \<Rightarrow> bool" where
  "setTexture tx e = Inr e' \<Longrightarrow> setting_call e e'"
| "setEmissionRate x e = Inr e' \<Longrightarrow> setting_call e e'"
| "1 \<le> length sizes \<Longrightarrow> length sizes \<le> 8 \<Longrightarrow> setting_call e (setSizes sizes e)"
| "1 \<le> length colors \<Longrightarrow> length colors \<le> 8 \<Longrightarrow> setting_call e (setColor colors e)"
| "length quads < 2 ^ 63 \<Longrightarrow> setting_call e (setQuads quads e)"
| "0 \<le> x \<Longrightarrow> x \<le> 1 \<Longrightarrow> setting_call e (setSizeVariation x e)"
| "setting_call e (setInsertMode m e)"
| "setting_call e (setEmitterLifetime x e)"
| "setting_call e (setParticleLifetime x y e)"
| "setting_call e (setPosition x y e)"
| "setting_call e (moveTo x y e)"
| "setting_call e (setEmissionArea d x y angle relative e)"
| "setting_call e (setDirection x e)"
| "setting_call e (setSpread x e)"
| "setting_call e (setSpeed_one x e)"
| "setting_call e (setSpeed x y e)"
| "setting_call e (setLinearAcceleration_one x y e)"
| "setting_call e (setLinearAcceleration x y z w e)"
| "setting_call e (setRadialAcceleration_one x e)"
| "setting_call e (setRadialAcceleration x y e)"
| "setting_call e (setTangentialAcceleration_one x e)"
| "setting_call e (setTangentialAcceleration x y e)"
| "setting_call e (setLinearDamping x y e)"
| "setting_call e (setSize x e)"
| "setting_call e (setRotation_one x e)"
| "setting_call e (setRotation x y e)"
| "setting_call e (setSpin_one x e)"
| "setting_call e (setSpin x y e)"
| "setting_call e (setSpinVariation x e)"
| "setting_call e (setOffset x y e)"
| "setting_call e (setRelativeRotation b e)"
| "setting_call e (clearQuads e)"
| "setting_call e (start_emitter e)"
| "setting_call e (stop_emitter e)"
| "setting_call e (pause_emitter e)"

text \<open>A setting may be changed at any time; but the insert mode only leaves random while there are no particles.\<close>

inductive ps_step :: "c_math \<Rightarrow> memory \<Rightarrow> particle_system \<times> generator \<Rightarrow> particle_system \<times> generator \<Rightarrow> bool" for cm mem where
  updated: "0 \<le> dt \<Longrightarrow> update cm dt s g = Some (Inr (s', g')) \<Longrightarrow> ps_step cm mem (s, g) (s', g')"
| emitted: "emit cm n s g = Inr (s', g') \<Longrightarrow> ps_step cm mem (s, g) (s', g')"
| resized: "setBufferSize mem n s = (s', r) \<Longrightarrow> ps_step cm mem (s, g) (s', g)"
| cleared: "ps_step cm mem (s, g) (reset s, g)"
| cloned: "clone mem s = Inr s' \<Longrightarrow> ps_step cm mem (s, g) (s', g)"
| configured: "setting_call (ps_emitter s) e \<Longrightarrow>
    e_insertMode e = e_insertMode (ps_emitter s) \<or> e_insertMode (ps_emitter s) \<noteq> INSERT_MODE_RANDOM \<or> isEmpty (ps_pool s) \<Longrightarrow>
    ps_step cm mem (s, g) (s\<lparr>ps_emitter := e\<rparr>, g)"

lemmas ps_step_induct = ps_step.induct [split_format (complete)]

lemma no_memory_full: "no_memory q \<Longrightarrow> isFull q"
  by (simp add: no_memory_def isFull_def)

lemma add_particles_full: "isFull q \<Longrightarrow> add_particles cm e n q g = Inr (q, g)"
  by (induction n) (simp_all add: addParticle_def)

lemma emit_ok:
  assumes "system_ok s"
  shows "\<exists>s' g' k. emit cm n s g = Inr (s', g') \<and> system_ok s' \<and> after_adding (e_insertMode (ps_emitter s)) k (particles s) (particles s')"
proof (cases "e_active (ps_emitter s) \<and> \<not> no_memory (ps_pool s)")
  case False
  then show ?thesis
    using assms add_particles_full [OF no_memory_full, of "ps_pool s"]
    by (intro exI [of _ s] exI [of _ g] exI [of _ 0]) (auto simp: emit_def Let_def)
next
  case True
  let ?e = "ps_emitter s" and ?q = "ps_pool s"
  obtain xs where xs: "pool_ok (keeps_tail ?e) ?q xs" and e: "settings_ok ?e"
    using assms True unfolding system_ok_def by blast
  obtain q' g' k where out: "add_particles cm ?e (unat (min n (maxParticles ?q - activeParticles ?q))) ?q g = Inr (q', g')" "added ?e ?q xs k q'"
    using add_particles_ok [of ?e ?q xs] xs e unfolding keeps_tail_def by blast
  define s' where "s' = s\<lparr>ps_pool := q'\<rparr>"
  obtain ys where ys: "pool_ok (keeps_tail ?e) q' ys" "after_adding (e_insertMode ?e) k (contents ?q xs) (contents q' ys)"
    using out(2) xs unfolding added_def keeps_tail_def by blast
  have "emit cm n s g = Inr (s', g')"
    using True out(1) by (simp add: emit_def s'_def)
  moreover have "system_ok s'"
    using ys(1) e unfolding system_ok_def s'_def by auto
  moreover have "particles s = contents ?q xs" "particles s' = contents q' ys"
    using particles_contents [OF xs] particles_contents [of _ s' ys] ys(1) by (simp_all add: s'_def)
  ultimately show ?thesis
    using ys(2) by auto
qed

lemma fresh_pool_ok:
  assumes "pMem q = Some m" "length m = unat (maxParticles q)" "maxParticles q \<le> MAX_PARTICLES" "pFree q = 0" "activeParticles q = 0"
    "pHead q = None" "pTail q = None"
  shows "pool_ok k q []"
  using assms by (simp add: pool_ok_def tail_kept_def)

lemma reset_ok: "system_ok s \<Longrightarrow> system_ok (reset s)"
proof (cases "pMem (ps_pool s)")
  case None
  then show "system_ok s \<Longrightarrow> system_ok (reset s)"
    by (simp add: reset_def)
next
  case (Some m)
  assume "system_ok s"
  then obtain xs where "pool_ok (keeps_tail (ps_emitter s)) (ps_pool s) xs" "settings_ok (ps_emitter s)"
    using Some unfolding system_ok_def no_memory_def by auto
  then have "pool_ok k (ps_pool (reset s)) []" for k
    using Some by (intro fresh_pool_ok [of _ m]) (auto simp: reset_def pool_ok_def)
  then show "system_ok (reset s)"
    using \<open>settings_ok (ps_emitter s)\<close> Some unfolding system_ok_def by (auto simp: reset_def)
qed

lemma setBufferSize_ok:
  assumes "memory_ok mem" "settings_ok (ps_emitter s)" "n \<noteq> 0" "n \<le> MAX_PARTICLES"
  shows "system_ok (fst (setBufferSize mem n s)) \<and> e_insertMode (ps_emitter (fst (setBufferSize mem n s))) = e_insertMode (ps_emitter s)"
proof (cases "new_particles mem (unat n)")
  case None
  then show ?thesis
    using assms by (auto simp: setBufferSize_def createBuffers_def deleteBuffers_def system_ok_def no_memory_def)
next
  case (Some m)
  then have len: "length m = unat n"
    using assms(1) by (simp add: memory_ok_def)
  show ?thesis
  proof (cases "new_buffer mem (20 * unat n * 4)")
    case Buffer_made
    define s' where "s' = fst (setBufferSize mem n s)"
    have s': "ps_pool s' = (ps_pool s)\<lparr>pl_block := pl_block (ps_pool s) + 1, pMem := Some m, pFree := 0, pHead := None, pTail := None,
        maxParticles := n, activeParticles := 0, pl_buffer := True\<rparr>"
      "settings_ok (ps_emitter s')" "e_insertMode (ps_emitter s') = e_insertMode (ps_emitter s)"
      using Some Buffer_made assms(2-4)
      by (auto simp: s'_def setBufferSize_def createBuffers_def deleteBuffers_def reset_def Let_def)
    then have "pool_ok k (ps_pool s') []" for k
      using len assms(4) by (intro fresh_pool_ok [of _ m]) simp_all
    then show ?thesis
      using s'(2,3) unfolding system_ok_def s'_def by blast
  next
    case Buffer_bad_alloc
    then show ?thesis
      using Some assms by (auto simp: setBufferSize_def createBuffers_def deleteBuffers_def system_ok_def no_memory_def Let_def)
  next
    case (Buffer_exception why)
    then show ?thesis
      using assms(1) by (simp add: memory_ok_def)
  qed
qed

lemma setting_call_ok: "setting_call e e' \<Longrightarrow> settings_ok e \<Longrightarrow> settings_ok e'"
  by (induction rule: setting_call.induct)
    (auto simp: settings_ok_def resetOffset_def Let_def split: if_splits simp:
      setInsertMode_def setEmitterLifetime_def setParticleLifetime_def setPosition_def moveTo_def setEmissionArea_def
      setDirection_def setSpread_def setSpeed_one_def setSpeed_def setLinearAcceleration_one_def setLinearAcceleration_def
      setRadialAcceleration_one_def setRadialAcceleration_def setTangentialAcceleration_one_def setTangentialAcceleration_def
      setLinearDamping_def setSize_def setRotation_one_def setRotation_def setSpin_one_def setSpin_def setSpinVariation_def
      setOffset_def setRelativeRotation_def clearQuads_def start_emitter_def stop_emitter_def pause_emitter_def setTexture_def
      setEmissionRate_def setSizes_def setColor_def setQuads_def setSizeVariation_def)

lemma configured_ok:
  assumes "system_ok s" "settings_ok e"
    and "e_insertMode e = e_insertMode (ps_emitter s) \<or> e_insertMode (ps_emitter s) \<noteq> INSERT_MODE_RANDOM \<or> isEmpty (ps_pool s)"
  shows "system_ok (s\<lparr>ps_emitter := e\<rparr>)"
proof (cases "no_memory (ps_pool s)")
  case True
  then show ?thesis
    using assms(2) by (simp add: system_ok_def)
next
  case False
  then obtain xs where xs: "pool_ok (keeps_tail (ps_emitter s)) (ps_pool s) xs"
    using assms(1) unfolding system_ok_def by blast
  have "pTail (ps_pool s) = final (pl_block (ps_pool s)) xs None" if "keeps_tail e"
  proof (cases "isEmpty (ps_pool s)")
    case True
    then have "xs = []"
      using pool_ok_length [OF xs] by (simp add: isEmpty_def)
    then show ?thesis
      using xs unfolding pool_ok_def tail_kept_def by auto
  next
    case False
    then have "keeps_tail (ps_emitter s)"
      using assms(3) that by (auto simp: keeps_tail_def)
    then show ?thesis
      using xs unfolding pool_ok_def by blast
  qed
  then have "pool_ok (keeps_tail e) (ps_pool s) xs"
    using xs unfolding pool_ok_def by blast
  then show ?thesis
    using assms(2) unfolding system_ok_def by auto
qed

lemma system_ok_length: "system_ok s \<Longrightarrow> length (particles s) \<le> unat (maxParticles (ps_pool s))"
proof (cases "no_memory (ps_pool s)")
  case False
  assume "system_ok s"
  then obtain xs where xs: "pool_ok (keeps_tail (ps_emitter s)) (ps_pool s) xs"
    using False unfolding system_ok_def by blast
  then show ?thesis
    using particles_contents [OF xs] pool_ok_length [OF xs] by (simp add: pool_ok_def contents_def)
qed (simp add: particles_none)

section \<open>What updates do\<close>

text \<open>No more particles are due than the rounding of the counter can tell apart.\<close>

definition few_due :: "particle_system \<Rightarrow> real \<Rightarrow> bool" where
  "few_due s dt \<longleftrightarrow>
     (\<forall>rate. f32_reciprocal (e_emissionRate (ps_emitter s)) = Some rate \<longrightarrow>
        0 < rate \<and> f32 (e_emitCounter (ps_emitter s) + dt) \<le> 2 ^ 23 * rate)"

lemma few_due_ends: "few_due s dt \<Longrightarrow> \<exists>n. due s dt n"
proof -
  assume few: "few_due s dt"
  have "\<exists>n. emitter_due (ps_emitter s) dt n"
  proof (cases "f32_reciprocal (e_emissionRate (ps_emitter s))")
    case None
    then show ?thesis
      by (simp add: emitter_due_def)
  next
    case (Some rate)
    then have "2 powi (-149) \<le> rate" "f32 (e_emitCounter (ps_emitter s) + dt) \<le> 2 ^ 23 * rate"
      using few f32_least [of "1 / e_emissionRate (ps_emitter s)"] by (auto simp: few_due_def f32_reciprocal_def split: if_splits)
    then show ?thesis
      using emission_ends Some by (simp add: emitter_due_def)
  qed
  then show ?thesis
    by (cases "e_active (ps_emitter s) \<and> pMem (ps_pool s) \<noteq> None") (auto simp: due_def)
qed

text \<open>Claim C2. An update with time passing removes, seen in drawing order, the particles
  whose life is over, moves every other one exactly once and keeps their order, although removing moves particles
  in memory. Then it adds particles where the insert mode says: as many as are due, and no more than there is room
  for; none when the emitter is paused or its rate is nothing. So many are due as the time between two particles
  can be taken from the emission counter, in the arithmetic of floats; there may be no end to that, because a time
  that is small beside the counter is absorbed, and then the update does not return. It does return whenever
  the counter, with the time passed, is at most \<open>2 ^ 23\<close> times the time between two particles.\<close>

theorem update_refines:
  assumes "system_ok s" "0 < dt"
  shows "(case update cm dt s g of
      None \<Rightarrow> \<nexists>n. due s dt n
    | Some r \<Rightarrow> \<exists>s' g' n. r = Inr (s', g') \<and> due s dt n \<and> system_ok s' \<and>
        after_adding (e_insertMode (ps_emitter s))
          (min n (unat (maxParticles (ps_pool s)) - length (advance cm (ps_emitter s) dt (particles s))))
          (advance cm (ps_emitter s) dt (particles s)) (particles s') \<and>
        length (particles s') \<le> unat (maxParticles (ps_pool s))) \<and>
    (few_due s dt \<longrightarrow> update cm dt s g \<noteq> None)"
proof (cases "update cm dt s g")
  case None
  then show ?thesis
    using update_ok [OF assms, of cm g] few_due_ends by auto
next
  case (Some r)
  then obtain s' g' n where "r = Inr (s', g')" "due s dt n" "system_ok s'" "maxParticles (ps_pool s') = maxParticles (ps_pool s)"
    "after_adding (e_insertMode (ps_emitter s))
       (min n (unat (maxParticles (ps_pool s)) - length (advance cm (ps_emitter s) dt (particles s))))
       (advance cm (ps_emitter s) dt (particles s)) (particles s')"
    using update_ok [OF assms, of cm g] by auto
  then show ?thesis
    using Some system_ok_length [of s'] by auto
qed

section \<open>Which calls are safe\<close>

text \<open>An update may not return, but when it does it is with a system in order.\<close>

lemma update_returns:
  assumes "system_ok s" "0 \<le> dt" "update cm dt s g = Some r"
  shows "\<exists>s' g'. r = Inr (s', g') \<and> system_ok s'"
  using update_ok [of s dt cm g] assms by (cases "dt = 0") (auto simp: update_def)

lemma update_hangs: "system_ok s \<Longrightarrow> 0 \<le> dt \<Longrightarrow> update cm dt s g = None \<longleftrightarrow> dt \<noteq> 0 \<and> (\<nexists>n. due s dt n)"
  using update_ok [of s dt cm g]
  by (cases "dt = 0"; cases "update cm dt s g") (auto simp: update_def)

lemma constructed_ok:
  assumes "memory_ok mem" "constructed (setBufferSize mem n s0) = Inr s" "settings_ok (ps_emitter s0)"
  shows "system_ok s"
proof -
  have "n \<noteq> 0" "n \<le> MAX_PARTICLES" "s = fst (setBufferSize mem n s0)"
    using assms(2) by (auto simp: constructed_def bind_result_def setBufferSize_def not_less split: if_splits sum.splits)
  then show ?thesis
    using setBufferSize_ok [of mem s0 n] assms(1,3) by simp
qed

lemma clone_ok:
  assumes "memory_ok mem" "system_ok s" "clone mem s = Inr s'"
  shows "system_ok s'"
  using constructed_ok [OF assms(1) assms(3) [unfolded clone_def Let_def]] assms(2) by (simp add: system_ok_def)

lemma ps_step_ok:
  "ps_step cm mem (s, g) (s', g') \<Longrightarrow> memory_ok mem \<Longrightarrow> system_ok s \<Longrightarrow> system_ok s'"
proof (induction s g s' g' rule: ps_step_induct)
  case (updated dt s g s' g')
  then show ?case
    using update_returns [of s dt cm g] by auto
next
  case (emitted n s g s' g')
  then show ?case
    using emit_ok [of s cm n g] by auto
next
  case (resized n s s' r g)
  show ?case
  proof (cases "n = 0 \<or> n > MAX_PARTICLES")
    case True
    then show ?thesis
      using resized by (simp add: setBufferSize_def)
  next
    case False
    then show ?thesis
      using setBufferSize_ok [of mem s n] resized by (simp add: system_ok_def not_less)
  qed
next
  case (cleared s g)
  then show ?case
    by (simp add: reset_ok)
next
  case (cloned s s' g)
  show ?case
    using clone_ok [OF cloned(2,3,1)] .
next
  case (configured s e g)
  then show ?case
    using configured_ok [of s e] setting_call_ok [of "ps_emitter s" e] by (simp add: system_ok_def)
qed

lemma settings_ok_default: "settings_ok (default_emitter tx)"
  by (simp add: settings_ok_def default_emitter_def)

lemma new_system_ok: "memory_ok mem \<Longrightarrow> newParticleSystem mem tx n = Inr s \<Longrightarrow> system_ok s"
  by (auto simp: newParticleSystem_def settings_ok_default intro: constructed_ok split: if_splits)

text \<open>Claim C7. A new system is used in any order of calls: updates by no negative time, emissions, changes of the buffer
  size, resets, clones and changes of settings; memory may run out on the way. What is left out are a variation of sizes
  that is not between zero and one, an insert mode that leaves random while there are particles, and a vertex
  buffer that fails with another exception than one of memory: each of these can end in undefined behaviour, and nothing keeps a
  script from the first two. Short of these the invariant holds after every call, no emission and no update follows
  a pointer that is null or outside the memory, nor fails in any other way, and every emission returns; an
  update does not return exactly when there is no end to the particles due, and always returns when
  few are.\<close>

theorem particle_sessions_safe:
  assumes "memory_ok mem" "newParticleSystem mem tx n = Inr s0" "(ps_step cm mem)\<^sup>*\<^sup>* (s0, g0) (s, g)" "0 \<le> dt"
  shows "system_ok s \<and>
    (case update cm dt s g of
       None \<Rightarrow> dt \<noteq> 0 \<and> (\<nexists>n. due s dt n) \<and> \<not> few_due s dt
     | Some r \<Rightarrow> \<exists>s' g'. r = Inr (s', g')) \<and>
    (\<exists>s' g'. emit cm k s g = Inr (s', g'))"
proof -
  have "system_ok (fst (s, g))"
    using assms(3)
  proof (induction rule: rtranclp_induct)
    case base
    then show ?case
      using new_system_ok [OF assms(1,2)] by simp
  next
    case (step y z)
    then show ?case
      using ps_step_ok [OF _ assms(1)] by (metis prod.collapse)
  qed
  then have s: "system_ok s"
    by simp
  have "case update cm dt s g of None \<Rightarrow> dt \<noteq> 0 \<and> (\<nexists>n. due s dt n) \<and> \<not> few_due s dt | Some r \<Rightarrow> \<exists>s' g'. r = Inr (s', g')"
    using update_returns [OF s assms(4), of cm g] update_hangs [OF s assms(4), of cm g] few_due_ends [of s dt]
    by (cases "update cm dt s g") auto
  then show ?thesis
    using s emit_ok [OF s, of cm k g] by blast
qed

section \<open>Two sequences that are not safe\<close>

lemma one_more: "unat (a :: uint32) < unat b \<Longrightarrow> unat (min 1 (b - a)) = 1"
proof -
  assume less: "unat a < unat b"
  then have "b - a \<noteq> 0"
    by auto
  then have "0 < unat (b - a)"
    by (simp add: unat_gt_0)
  then have "1 \<le> b - a"
    unfolding word_le_nat_alt unat_1 by linarith
  then show ?thesis
    by (simp add: min_absorb1)
qed

text \<open>Claim C23. A system that inserts at random and holds no particle yet loses the end of its list with the first one: after a
  change of the insert mode to top the second one is linked through a null pointer.\<close>

theorem leaving_random_crashes:
  assumes "system_ok s" "particles s = []" "\<not> no_memory (ps_pool s)" "e_insertMode (ps_emitter s) = INSERT_MODE_RANDOM"
    "e_active (ps_emitter s)" "2 \<le> unat (maxParticles (ps_pool s))"
  shows "\<exists>s' g'. emit cm 1 s g = Inr (s', g') \<and> length (particles s') = 1 \<and>
    emit cm 1 (s'\<lparr>ps_emitter := setInsertMode INSERT_MODE_TOP (ps_emitter s')\<rparr>) g' = Inl (Undefined_behaviour ''null pointer'')"
proof -
  let ?e = "ps_emitter s" and ?q = "ps_pool s"
  obtain xs where xs: "pool_ok (keeps_tail ?e) ?q xs" and e: "settings_ok ?e"
    using assms(1,3) unfolding system_ok_def by blast
  then have "xs = []"
    using assms(2) particles_contents [OF xs] by (simp add: contents_def)
  then obtain m where q: "pMem ?q = Some m" "length m = unat (maxParticles ?q)" "pFree ?q = 0" "unat (activeParticles ?q) = 0"
    "pHead ?q = None" "pTail ?q = None"
    using xs pool_ok_length [OF xs] unfolding pool_ok_def tail_kept_def by auto
  then have active: "activeParticles ?q = 0" "\<not> isFull ?q" "0 < length m" "1 < length m"
    using assms(6) by (auto simp: isFull_def unat_eq_0)
  obtain c g1 where c: "initParticle cm ?e 1 (m ! 0) g = Inr (c, g1)" "particle_ok c"
    using initParticle_ok [OF e] by metis
  obtain r g2 where r: "rand g1 = (r, g2)"
    by (cases "rand g1")
  define c' where "c' = c\<lparr>p_prev := None, p_next := None\<rparr>"
  define q' where "q' = ?q\<lparr>pFree := 1, pMem := Some (m[0 := c']), pHead := Some (pl_block ?q, 0), activeParticles := 1\<rparr>"
  have r0: "r mod (0 + 1) = 0"
    by simp
  have "addParticle cm ?e 1 ?q g = Inr (q', g2)"
    using q active c(1) r assms(4)
    by (simp add: addParticle_def insertRandom_def load_def update_at_def q'_def c'_def)
  then have one: "emit cm 1 s g = Inr (s\<lparr>ps_pool := q'\<rparr>, g2)"
    using assms(5) one_more [of "activeParticles ?q" "maxParticles ?q"] q(4) assms(6) by (simp add: emit_def Let_def)
  have count: "length (particles (s\<lparr>ps_pool := q'\<rparr>)) = 1"
    using active by (simp add: particles_def q'_def load_def)
  define e' where "e' = setInsertMode INSERT_MODE_TOP ?e"
  have e': "settings_ok e'" "e_insertMode e' = INSERT_MODE_TOP" "e_active e'"
    using e assms(5) by (simp_all add: e'_def setInsertMode_def settings_ok_def)
  have "(1 :: uint32) < maxParticles ?q"
    using assms(6) by (simp add: word_less_nat_alt)
  then have room: "unat (min 1 (maxParticles ?q - 1)) = 1" "maxParticles ?q \<noteq> 1"
    using one_more [of 1 "maxParticles ?q"] by (auto simp: word_less_nat_alt)
  obtain d g3 where d: "initParticle cm e' 1 (m ! 1) g2 = Inr (d, g3)"
    using initParticle_ok [OF e'(1)] by metis
  have "addParticle cm e' 1 q' g2 = Inl (Undefined_behaviour ''null pointer'')"
    using d e'(2) active q room(2)
    by (simp add: addParticle_def insertTop_def isFull_def load_def update_at_def q'_def eq_commute [of 1])
  then have "emit cm 1 (s\<lparr>ps_pool := q', ps_emitter := e'\<rparr>) g2 = Inl (Undefined_behaviour ''null pointer'')"
    using e'(3) room(1) by (simp add: emit_def q'_def)
  then show ?thesis
    using one count by (intro exI [of _ "s\<lparr>ps_pool := q'\<rparr>"] exI [of _ g2]) (simp add: e'_def)
qed

text \<open>
  A variation of sizes above one is accepted: with two sizes or more and a variation drawn as two and a half or more, a new
  particle takes its size from outside the list of sizes.
\<close>

lemma size_variation_overruns:
  assumes "2 \<le> length (e_sizes e)" "length (e_sizes e) \<le> 8" "random_max (e_sizeVariation e) g = (x, g')" "5 / 2 \<le> x" "x < 2 ^ 60"
  shows "initLook cm e p g = Inl (Undefined_behaviour ''index past the end of a vector'')"
proof -
  let ?i = "nat \<lfloor>x - 1 / 2\<rfloor>" and ?n = "length (e_sizes e)"
  have i: "to_index (x - 1 / 2) = Inr ?i" "2 \<le> ?i" "?i < 2 ^ 60"
    using assms(4,5) by (simp_all add: to_index_def) linarith+
  have last: "last_index (e_sizes e) = ?n - 1"
    using assms(1,2) by (intro last_index_some) auto
  have "?i * (?n - 1) \<le> 2 ^ 60 * 7"
    using i(3) assms(2) by (intro mult_le_mono) auto
  moreover have "?n \<le> ?i * (?n - 1)"
    using mult_le_mono1 [OF i(2), of "?n - 1"] assms(1) by linarith
  ultimately have "?n \<le> ?i * last_index (e_sizes e) mod 2 ^ 64"
    using last by simp
  then show ?thesis
    using assms(3) i(1) by (simp add: initLook_def element_def bind_result_def not_less Let_def split: prod.splits)
qed

text \<open>Claim C22. When the vertex buffer of a new size cannot be made and the exception is not one of memory, a system that had particles keeps
  pointers into the block it deleted, and the next update follows one.\<close>

theorem failed_resize_dangles:
  assumes "system_ok s" "particles s \<noteq> []" "n \<noteq> 0" "n \<le> MAX_PARTICLES" "new_particles mem (unat n) = Some m"
    "new_buffer mem (20 * unat n * 4) = Buffer_exception why" "dt \<noteq> 0"
  shows "snd (setBufferSize mem n s) = Inl (Exception why) \<and>
    update cm dt (fst (setBufferSize mem n s)) g = Some (Inl (Undefined_behaviour ''pointer into freed memory''))"
proof -
  let ?q = "ps_pool s"
  obtain xs where xs: "pool_ok (keeps_tail (ps_emitter s)) ?q xs"
    using assms(1,2) particles_none unfolding system_ok_def by blast
  then have "xs \<noteq> []"
    using assms(2) particles_contents [OF xs] by (auto simp: contents_def)
  then obtain i where i: "pHead ?q = Some (pl_block ?q, i)"
    using xs unfolding pool_ok_def by (auto simp: first_some)
  define q where "q = ?q\<lparr>pMem := Some m, maxParticles := n, activeParticles := 0, pl_buffer := False, pl_block := pl_block ?q + 1, pFree := 0\<rparr>"
  have set: "setBufferSize mem n s = (s\<lparr>ps_pool := q\<rparr>, Inl (Exception why))"
    using assms(3-6) by (simp add: setBufferSize_def createBuffers_def deleteBuffers_def Let_def q_def leD)
  have "update_list cm (ps_emitter s) dt (pHead q) q = Some (Inl (Undefined_behaviour ''pointer into freed memory''))"
    using i by (subst update_list.simps) (simp add: update_one_def update_at_def load_def q_def)
  then show ?thesis
    using set assms(7) by (simp add: update_def q_def)
qed

section \<open>Drawing\<close>

definition quad_of :: "quad list \<Rightarrow> particle \<Rightarrow> quad option" where
  "quad_of quads c = (if quads = [] then None else Some (quads ! nat (p_quadIndex c)))"

lemma draw_list_ok:
  assumes "pMem q = Some m" "threaded (pl_block q) m pv xs None" "length xs \<le> room" "list_all (\<lambda>i. particle_ok (m ! i)) xs"
  shows "draw_list quads room (first (pl_block q) xs None) q drawn =
    (if quads = [] \<or> list_all (\<lambda>i. nat (p_quadIndex (m ! i)) < length quads) xs
     then Some (Inr (drawn @ map (\<lambda>i. (m ! i, quad_of quads (m ! i))) xs))
     else Some (Inl (Undefined_behaviour ''index past the end of a vector'')))"
  using assms(2-4)
proof (induction xs arbitrary: pv room drawn)
  case Nil
  then show ?case
    by (subst draw_list.simps) simp
next
  case (Cons i xs)
  have load: "load (Some (pl_block q, i)) q = Inr (m ! i)"
    using Cons.prems(1) assms(1) by (simp add: load_def)
  have index: "\<not> p_quadIndex (m ! i) < 0"
    using Cons.prems(3) by (simp add: particle_ok_def)
  have rest: "draw_list quads (room - 1) (p_next (m ! i)) q drawn' =
    (if quads = [] \<or> list_all (\<lambda>i. nat (p_quadIndex (m ! i)) < length quads) xs
     then Some (Inr (drawn' @ map (\<lambda>i. (m ! i, quad_of quads (m ! i))) xs))
     else Some (Inl (Undefined_behaviour ''index past the end of a vector'')))" for drawn'
    using Cons.IH [of "Some (pl_block q, i)" "room - 1" drawn'] Cons.prems by simp
  show ?case
  proof (cases "quads = []")
    case True
    then show ?thesis
      using Cons.prems(2) rest [unfolded True] by (subst draw_list.simps) (simp add: load quad_of_def del: One_nat_def)
  next
    case False
    then show ?thesis
      using Cons.prems(2) index by (subst draw_list.simps) (simp add: load rest element_def quad_of_def del: One_nat_def)
  qed
qed

text \<open>Claim C24. Drawing takes every particle once, in order, with the quad its index names, and never writes past the vertex buffer; it
  reads outside the quads exactly when the quads were replaced by fewer than some particle's index asks for.\<close>

theorem draw_reads:
  assumes "system_ok s" "pl_buffer (ps_pool s)"
  shows "if e_quads (ps_emitter s) = [] \<or> list_all (\<lambda>c. nat (p_quadIndex c) < length (e_quads (ps_emitter s))) (particles s)
    then \<exists>out. draw s = Some (Inr out) \<and> map (\<lambda>(c, v). (payload c, v)) out = map (\<lambda>c. (c, quad_of (e_quads (ps_emitter s)) c)) (particles s)
    else draw s = Some (Inl (Undefined_behaviour ''index past the end of a vector''))"
proof (cases "no_memory (ps_pool s)")
  case True
  then show ?thesis
    by (auto simp: particles_none draw_def no_memory_def)
next
  case False
  let ?q = "ps_pool s" and ?n = "e_quads (ps_emitter s)"
  obtain xs where xs: "pool_ok (keeps_tail (ps_emitter s)) ?q xs"
    using assms(1) False unfolding system_ok_def by blast
  then obtain m where m: "pMem ?q = Some m" "threaded (pl_block ?q) m None xs None" "list_all (\<lambda>i. particle_ok (m ! i)) xs"
    "pHead ?q = first (pl_block ?q) xs None" "length xs \<le> unat (maxParticles ?q)"
    using pool_ok_length [OF xs] unfolding pool_ok_def by auto
  have ps: "particles s = map (\<lambda>i. payload (m ! i)) xs"
    using particles_contents [OF xs] m(1) by (simp add: contents_def)
  have "draw s = draw_list ?n (unat (maxParticles ?q)) (pHead ?q) ?q []"
  proof (cases "activeParticles ?q = 0")
    case True
    then have "xs = []"
      using pool_ok_length [OF xs] by simp
    then show ?thesis
      using True m(4) by (subst draw_list.simps) (simp add: draw_def)
  qed (use m(1) assms(2) in \<open>simp add: draw_def\<close>)
  then show ?thesis
    unfolding m(4) draw_list_ok [OF m(1,2,5,3)] ps by (auto simp: list_all_iff quad_of_def)
qed

section \<open>A small system\<close>

definition toy_math :: c_math where
  "toy_math = \<lparr>c_sqrt = sqrt, c_log = ln, c_cos = cos, c_sin = sin, c_atan2 = (\<lambda>y x. arctan (y / x)), c_inverse = (\<lambda>x. 1 / x), c_pi = pi\<rparr>"

definition blank :: particle where
  "blank = \<lparr>p_prev = None, p_next = None, p_lifetime = 0, p_life = 0, p_position = vec 0 0, p_origin = vec 0 0,
     p_velocity = vec 0 0, p_linearAcceleration = vec 0 0, p_radialAcceleration = 0, p_tangentialAcceleration = 0,
     p_linearDamping = 0, p_size = 0, p_sizeOffset = 0, p_sizeIntervalSize = 0, p_rotation = 0, p_angle = 0,
     p_spinStart = 0, p_spinEnd = 0, p_color = mk_colorf 0 0 0 0, p_quadIndex = 0\<rparr>"

definition toy_memory :: "buffer_answer \<Rightarrow> memory" where
  "toy_memory answer = \<lparr>new_particles = (\<lambda>n. Some (replicate n blank)), new_buffer = (\<lambda>_. answer)\<rparr>"

definition toy_texture :: texture where
  "toy_texture = \<lparr>tx_width = 8, tx_height = 8, tx_2D = True\<rparr>"

definition toy_emitter :: emitter where
  "toy_emitter = (default_emitter toy_texture)\<lparr>e_life := -1\<rparr>"

lemma settings_ok_toy: "settings_ok toy_emitter"
  by (simp add: settings_ok_def toy_emitter_def default_emitter_def)

definition toy_generator :: generator where
  "toy_generator = \<lparr>seed = 1, rng_state = 1, last_randomnormal = None\<rparr>"

definition toy_system :: "emitter \<Rightarrow> particle_system" where
  "toy_system e =
     \<lparr>ps_pool = \<lparr>pl_block = 1, pMem = Some (replicate 4 blank), pFree = 0, pHead = None, pTail = None, maxParticles = 4,
        activeParticles = 0, pl_buffer = True\<rparr>,
      ps_emitter = e\<rparr>"

lemma toy_new: "newParticleSystem (toy_memory Buffer_made) toy_texture 4 = Inr (toy_system toy_emitter)"
  by (simp add: newParticleSystem_def constructed_def setBufferSize_def createBuffers_def deleteBuffers_def reset_def toy_memory_def
      toy_texture_def toy_system_def toy_emitter_def no_pool_def default_emitter_def MAX_PARTICLES_def Let_def)

lemma toy_system_ok: "settings_ok e \<Longrightarrow> system_ok (toy_system e)" "particles (toy_system e) = []" "\<not> no_memory (ps_pool (toy_system e))"
proof -
  have "pool_ok k (ps_pool (toy_system e)) []" for k
    by (rule fresh_pool_ok [of _ "replicate 4 blank"]) (simp_all add: toy_system_def MAX_PARTICLES_def)
  then show "settings_ok e \<Longrightarrow> system_ok (toy_system e)"
    by (auto simp: system_ok_def toy_system_def)
  show "particles (toy_system e) = []" "\<not> no_memory (ps_pool (toy_system e))"
    by (simp_all add: particles_def toy_system_def no_memory_def)
qed

lemma toy_memory_ok: "memory_ok (toy_memory Buffer_made)"
  by (simp add: memory_ok_def toy_memory_def)

text \<open>Emitting one particle into a system with room.\<close>

lemma emit_one:
  assumes "system_ok s" "\<not> no_memory (ps_pool s)" "e_active (ps_emitter s)" "unat (activeParticles (ps_pool s)) < unat (maxParticles (ps_pool s))"
  obtains s' g' where "emit cm 1 s g = Inr (s', g')" "system_ok s'" "length (particles s') = Suc (length (particles s))"
    "ps_emitter s' = ps_emitter s" "same_buffers (ps_pool s) (ps_pool s')"
proof -
  let ?e = "ps_emitter s" and ?q = "ps_pool s"
  obtain xs where xs: "pool_ok (keeps_tail ?e) ?q xs" and e: "settings_ok ?e"
    using assms(1,2) unfolding system_ok_def by blast
  obtain q' g' where out: "addParticle cm ?e 1 ?q g = Inr (q', g')" "added ?e ?q xs (if isFull ?q then 0 else 1) q'"
    by (rule addParticle_step [of ?e ?q xs cm 1 g]) (use xs e in \<open>auto simp: keeps_tail_def\<close>)
  have "\<not> isFull ?q"
    using assms(4) by (auto simp: isFull_def)
  then have one: "added ?e ?q xs 1 q'"
    using out(2) by simp
  obtain ys where ys: "pool_ok (keeps_tail ?e) q' ys" "after_adding (e_insertMode ?e) 1 (contents ?q xs) (contents q' ys)"
    using one xs unfolding added_def keeps_tail_def by blast
  have "particles (s\<lparr>ps_pool := q'\<rparr>) = contents q' ys" "particles s = contents ?q xs"
    using particles_contents [of _ "s\<lparr>ps_pool := q'\<rparr>" ys] ys(1) particles_contents [OF xs] by simp_all
  then have "length (particles (s\<lparr>ps_pool := q'\<rparr>)) = Suc (length (particles s))"
    using ys(2) by (simp add: after_adding_def)
  moreover have "emit cm 1 s g = Inr (s\<lparr>ps_pool := q'\<rparr>, g')"
    using assms(3) one_more [OF assms(4)] out(1) by (simp add: emit_def Let_def)
  moreover have "system_ok (s\<lparr>ps_pool := q'\<rparr>)"
    using ys(1) e by (auto simp: system_ok_def)
  ultimately show thesis
    using one by (intro that [of "s\<lparr>ps_pool := q'\<rparr>" g']) (simp_all add: added_def)
qed

text \<open>The small system with one particle.\<close>

lemma toy_one:
  obtains s g where "emit toy_math 1 (toy_system toy_emitter) toy_generator = Inr (s, g)" "system_ok s"
    "length (particles s) = 1" "ps_emitter s = toy_emitter" "pl_buffer (ps_pool s)"
proof -
  let ?s = "toy_system toy_emitter"
  obtain s g where "emit toy_math 1 ?s toy_generator = Inr (s, g)" "system_ok s" "length (particles s) = Suc (length (particles ?s))"
    "ps_emitter s = ps_emitter ?s" "same_buffers (ps_pool ?s) (ps_pool s)"
    by (rule emit_one [of ?s toy_math toy_generator])
      (simp_all add: toy_system_ok settings_ok_toy, simp_all add: toy_system_def toy_emitter_def default_emitter_def)
  then show thesis
    using that [of s g] toy_system_ok(2) by (simp add: same_buffers_def) (simp add: toy_system_def)
qed

text \<open>A rate of a billion particles: no update by a second ends.\<close>

definition fast_emitter :: emitter where
  "fast_emitter = toy_emitter\<lparr>e_emissionRate := 2 ^ 30\<rparr>"

lemma settings_ok_fast: "settings_ok fast_emitter"
  using settings_ok_toy by (simp add: settings_ok_def fast_emitter_def)

lemma fast_due: "\<not> due (toy_system fast_emitter) 1 n"
proof -
  have one: "f32 1 = 1" "f32 (1 / 2 ^ 30) = 1 / 2 ^ 30"
    using f32_power [of 0] f32_power [of "-30"] by (simp_all add: power_int_minus_divide)
  then have "f32_reciprocal (2 ^ 30) = Some (1 / 2 ^ 30)"
    by (simp add: f32_reciprocal_def)
  then have "due (toy_system fast_emitter) 1 = emission_turns (1 / 2 ^ 30) 1"
    using one(1) by (simp add: due_def emitter_due_def fun_eq_iff toy_system_def fast_emitter_def toy_emitter_def default_emitter_def)
  then show ?thesis
    using emission_hangs [OF _ f32_absorbed, of n] by simp
qed

lemma toy_few_due: "ps_emitter s = toy_emitter \<Longrightarrow> few_due s dt"
  by (simp add: few_due_def toy_emitter_def default_emitter_def f32_reciprocal_def)

theorem update_refines_witness:
  "(\<exists>s g s' g' k. length (particles s) = 1 \<and> update toy_math 1 s g = Some (Inr (s', g')) \<and>
      after_adding INSERT_MODE_TOP k (advance toy_math (ps_emitter s) 1 (particles s)) (particles s')) \<and>
   update toy_math 1 (toy_system fast_emitter) toy_generator = None"
proof (rule conjI)
  obtain s g where s: "system_ok s" "length (particles s) = 1" "ps_emitter s = toy_emitter"
    by (rule toy_one)
  have "e_insertMode (ps_emitter s) = INSERT_MODE_TOP"
    by (simp add: s(3) toy_emitter_def default_emitter_def)
  then show "\<exists>s g s' g' k. length (particles s) = 1 \<and> update toy_math 1 s g = Some (Inr (s', g')) \<and>
      after_adding INSERT_MODE_TOP k (advance toy_math (ps_emitter s) 1 (particles s)) (particles s')"
    using update_refines [OF s(1) zero_less_one, of toy_math toy_generator] s(2) toy_few_due [OF s(3), of 1] by (auto split: option.splits)
next
  show "update toy_math 1 (toy_system fast_emitter) toy_generator = None"
    using update_refines [OF toy_system_ok(1) [OF settings_ok_fast] zero_less_one, of toy_math toy_generator] fast_due
    by (auto split: option.splits)
qed

theorem particle_sessions_safe_witness:
  "\<exists>s g. (ps_step toy_math (toy_memory Buffer_made))\<^sup>*\<^sup>* (toy_system toy_emitter, toy_generator) (s, g) \<and>
     length (particles s) = 1 \<and> (\<exists>s' g'. update toy_math 1 s g = Some (Inr (s', g')))"
proof -
  obtain s g where s: "emit toy_math 1 (toy_system toy_emitter) toy_generator = Inr (s, g)" "length (particles s) = 1"
    "ps_emitter s = toy_emitter"
    by (rule toy_one)
  have "(ps_step toy_math (toy_memory Buffer_made))\<^sup>*\<^sup>* (toy_system toy_emitter, toy_generator) (s, g)"
    by (rule r_into_rtranclp) (rule ps_step.emitted [OF s(1)])
  moreover from this have "\<exists>s' g'. update toy_math 1 s g = Some (Inr (s', g'))"
    using particle_sessions_safe [OF toy_memory_ok toy_new, of toy_math toy_generator s g 1] toy_few_due [OF s(3), of 1]
    by (cases "update toy_math 1 s g") auto
  ultimately show ?thesis
    using s(2) by blast
qed

theorem leaving_random_crashes_witness:
  "\<exists>s s' g'. emit toy_math 1 s toy_generator = Inr (s', g') \<and>
     emit toy_math 1 (s'\<lparr>ps_emitter := setInsertMode INSERT_MODE_TOP (ps_emitter s')\<rparr>) g' = Inl (Undefined_behaviour ''null pointer'')"
proof -
  define e where "e = setInsertMode INSERT_MODE_RANDOM toy_emitter"
  have e: "settings_ok e" "e_insertMode e = INSERT_MODE_RANDOM" "e_active e"
    by (simp_all add: e_def setInsertMode_def settings_ok_def toy_emitter_def default_emitter_def)
  have "ps_emitter (toy_system e) = e" "maxParticles (ps_pool (toy_system e)) = 4"
    by (simp_all add: toy_system_def)
  then show ?thesis
    using leaving_random_crashes [OF toy_system_ok(1) [OF e(1)] toy_system_ok(2,3), of toy_math toy_generator] e(2,3) by auto
qed

theorem failed_resize_dangles_witness:
  "\<exists>s. system_ok s \<and> update toy_math 1 (fst (setBufferSize (toy_memory (Buffer_exception ''no buffer'')) 2 s)) toy_generator =
     Some (Inl (Undefined_behaviour ''pointer into freed memory''))"
proof -
  obtain s g where s: "system_ok s" "length (particles s) = 1"
    by (rule toy_one)
  have "particles s \<noteq> []"
    using s(2) by auto
  then show ?thesis
    using failed_resize_dangles [of s 2 "toy_memory (Buffer_exception ''no buffer'')" "replicate 2 blank" "''no buffer''" 1 toy_math toy_generator] s(1)
    by (auto simp: toy_memory_def MAX_PARTICLES_def)
qed

theorem draw_reads_witness:
  "\<exists>s out. length (particles s) = 1 \<and> draw s = Some (Inr out) \<and> length out = 1"
proof -
  obtain s g where s: "system_ok s" "length (particles s) = 1" "ps_emitter s = toy_emitter" "pl_buffer (ps_pool s)"
    by (rule toy_one)
  have "e_quads (ps_emitter s) = []"
    by (simp add: s(3) toy_emitter_def default_emitter_def)
  then obtain out where "draw s = Some (Inr out)" "map (\<lambda>(c, v). (payload c, v)) out = map (\<lambda>c. (c, quad_of [] c)) (particles s)"
    using draw_reads [OF s(1,4)] by auto
  then show ?thesis
    using s(2) map_eq_imp_length_eq by (metis length_map)
qed

end
