(* ===== verification/Spec2Isabelle.thy ===== *)
theory Spec2Isabelle
  imports Prelude Base64 LoveTypes Objects Registry HashFunction DataModule Compressor
    DataObjects RandomGenerator Geometry StringMap Parking Values CommandLine
    BootScript BootFiles Boot FloatTypes PixelFormats ImageData Bezier Transforms SoundData
    VertexIndices ParticleSessions
begin

text \<open>
  A verification library for lhatove, the fork of the LOVE game framework whose scripts are written
  in L^. The engine is C++ under \<^verbatim>\<open>src/src\<close>; every definition here is written from that code, and
  the theories are in the order of this text.

  \<^bold>\<open>The program and its parts.\<close> A run starts in \<^verbatim>\<open>love.cpp\<close>, which calls \<^verbatim>\<open>boot\<close> of \<^verbatim>\<open>lh/Boot.cpp\<close> until no restart is
  asked for. The boot reads the command line, finds the game, registers every module with the language
  (\<^verbatim>\<open>lh/lh.cpp\<close> keeps the pairing of the engine's run-time types with the machine's tags), checks or compiles the
  units of the game, reads its configuration, makes the modules and resumes the program once a frame. Scripts hold
  engine objects through wrappers that own one reference (\<^verbatim>\<open>common/Object.h\<close>); the engine holds script values
  through parked slots. The modules do the work: data (\<^verbatim>\<open>modules/data\<close>), math (\<^verbatim>\<open>modules/math\<close>), images
  (\<^verbatim>\<open>modules/image\<close>), sound (\<^verbatim>\<open>modules/sound\<close>), graphics (\<^verbatim>\<open>modules/graphics\<close>) and those that wrap a device or a library.

  \<^bold>\<open>Ground.\<close> \<open>Prelude\<close> has the machine integers, the error type (an exception with its text, a failed assertion of the host
  language, or undefined behaviour with the kind of it), \<open>bind_result\<close> and the shared facts. Undefined behaviour is a value of
  the model wherever the code could run into it: a theorem that an operation answers \<open>Inr\<close> says that it does not. A loop that
  may not end is a \<^verbatim>\<open>partial_function\<close> into an option, \<open>None\<close> being the loop that goes on for ever; what returns is proved to
  return.

  \<^bold>\<open>Objects and types.\<close> \<open>LoveTypes\<close> (\<^verbatim>\<open>common/types.cpp\<close>): lazy initialisation of the types, the 128-bit ancestor sets; the test
  \<open>isa\<close> is exactly ancestry while at most 127 types are declared. \<open>Objects\<close> (\<^verbatim>\<open>common/Object.h\<close>): the 32-bit counter and \<open>StrongRef\<close>; the
  locale \<^verbatim>\<open>refcount\<close> states what counting promises, and disciplined use never touches a deleted object and never leaks.
  \<open>StringMap\<close> (\<^verbatim>\<open>common/StringMap.h\<close>, \<^verbatim>\<open>EnumMap.h\<close>): the probing hash table against the locale \<^verbatim>\<open>name_table\<close>.

  \<^bold>\<open>The script machine's side.\<close> \<open>Registry\<close>, \<open>Values\<close> and \<open>Parking\<close> (\<^verbatim>\<open>lh/lh.cpp\<close>): tags and wrappers over the locale \<^verbatim>\<open>type_test\<close> interpreted
  by the run-time types, the readers of arguments, and the lots of parked values over the locale \<^verbatim>\<open>parking\<close>. The machine is a
  library outside the repository; the records \<open>lhat_api\<close>, \<open>value_api\<close> and \<open>table_api\<close> are what the code calls of it, and what the
  proofs take for granted of them stands in the statements.

  \<^bold>\<open>Data.\<close> \<open>Base64\<close> (\<^verbatim>\<open>common/b64.cpp\<close>), \<open>HashFunction\<close> (MD5 to SHA-512 at their word widths; the locale \<^verbatim>\<open>merkle_damgard\<close> has three
  interpretations), \<open>DataModule\<close> (the locale \<^verbatim>\<open>codec\<close>, interpreted by hexadecimal and Base64), \<open>Compressor\<close> (LZ4 and zlib are the
  record \<open>codec_lib\<close>), \<open>DataObjects\<close> (blocks, views and streams in one store). Shown are round trips, exact bounds, the
  equivalence of the SHA-256 rounds with FIPS 180-4, and the sources on which decoding or decompressing goes wrong.

  \<^bold>\<open>Math.\<close> \<open>RandomGenerator\<close> (xorshift on 64-bit words; a seed is hashed until it is not zero, which is proved to end), \<open>Geometry\<close>
  (ear clipping over two arrays of neighbours; every pass either cuts an ear or counts a failed try, at most as many as there are
  vertices, which is the measure of its termination), \<open>Bezier\<close> (de Casteljau's rows in place; evaluation is the Bernstein polynomial, a
  segment runs through the same points, rendering joins the polygons of equal segments; the rows become sequences first, on which
  restricting a curve is one lemma), \<open>Transforms\<close> (\<^verbatim>\<open>common/Matrix.cpp\<close>, \<^verbatim>\<open>modules/math/Transform.cpp\<close>: an inverse kept until the matrix changes,
  over the step relation \<open>transform_step\<close>; the cofactors really invert).

  \<^bold>\<open>Drawing.\<close> \<open>VertexIndices\<close> (\<^verbatim>\<open>common/Range.h\<close>, \<^verbatim>\<open>modules/graphics/vertex.cpp\<close> and the draw ranges of \<^verbatim>\<open>Mesh.cpp\<close>): index lists are
  the corners of triangles, and which of them a draw range leaves, with the \<^verbatim>\<open>int\<close> and \<^verbatim>\<open>size_t\<close> arithmetic of both.

  \<^bold>\<open>Sound.\<close> \<open>SoundData\<close> (\<^verbatim>\<open>modules/sound/SoundData.cpp\<close>): samples of 8 and 16 bits in a block of bytes, with the \<^verbatim>\<open>int\<close> and \<^verbatim>\<open>size_t\<close>
  arithmetic of sizes and offsets; a decoder is the list of its answers. Shown are which requests are exact and which run into
  undefined behaviour.

  \<^bold>\<open>Images.\<close> \<open>FloatTypes\<close> (16, 11 and 10 bits; the loop that normalises a subnormal has fuel for eleven steps, and the ten bits of a mantissa
  need no more), \<open>PixelFormats\<close> (formats, names, sRGB pairs, sizes), \<open>ImageData\<close> (reading, writing and pasting pixels, with the 32-bit
  arithmetic of the coordinates).

  \<^bold>\<open>Particle systems.\<close> \<open>Particles\<close> has the definitions (\<^verbatim>\<open>modules/graphics/ParticleSystem.cpp\<close>): a block of memory, the list through it, and the emitter.
  \<open>ParticleList\<close> turns pointers into lists (\<open>threaded\<close>), \<open>ParticleSystem\<close> has the invariant (\<open>pool_ok\<close>, \<open>system_ok\<close>) and what
  adding and updating do to the list of particles, \<open>ParticleSessions\<close> the step relation \<open>ps_step\<close>, the sequences that are safe and the
  ones that are not. An update refines a change of lists: filter, map, insert. How many particles are inserted is decided by a counter in
  the rounded arithmetic of \<open>Rounding\<close>; where it is absorbed an update does not return, which is the value \<open>None\<close>.

  \<^bold>\<open>The boot.\<close> \<open>CommandLine\<close>, \<open>BootScript\<close> (callbacks, configuration, loader of units), \<open>BootFiles\<close> (compiling a game to disk; the walk over the
  directories has no fuel but a finite game, which its theorem assumes) and \<open>Boot\<close> (the stages, the frame loop, the releases and the restart loop), over
  the records \<open>game_api\<close> and \<open>boot_env\<close> of what the physical file system, the language, the window and the debugger answer.

  \<^bold>\<open>Parameters.\<close> Code outside the repository is a record of functions: \<open>lhat_api\<close>, \<open>value_api\<close>, \<open>table_api\<close>, \<open>codec_lib\<close>, \<open>game_api\<close>, \<open>boot_env\<close>,
  \<open>c_math\<close> (square root, logarithm, sine and the like, and one divided by a float that may be nothing) and \<open>memory\<close> (what allocation answers). Hypotheses about them are documented behaviour, for example that zlib
  inflates what it deflated; each theorem that has one comes with an instance that meets it.

  \<^bold>\<open>Numbers.\<close> Integers have the width of the code. A \<^verbatim>\<open>float\<close> or \<^verbatim>\<open>double\<close> that is computed with is the real number it stands for, without rounding, except in
  \<open>FloatTypes\<close>, where it is its bits, and for the emission counter of particles, where it is rounded; where one becomes an index the range of the conversion is kept.

  \<^bold>\<open>Not modelled.\<close> The libraries under \<^verbatim>\<open>src/src/libraries\<close> and the generated units are not this program's own code. The graphics device and its three
  backends, audio output, sound decoders, physics, fonts, video, windows, input, sensors and threads are thin layers over a device, SDL, box2d, FreeType or the operating system,
  whose behaviour is not in the repository. The file system module is calls of physfs; the boot takes its answers as a parameter. Of particle systems the vertices that are drawn are left out, of
  meshes everything but their draw ranges, of the product of matrices the variants for single processors, of
  images the decoders and encoders, the constructor that adopts memory and a paste of an image onto itself, of the script values the
  variants that travel between threads. The files a game lists do not depend on what is written to disk while it is compiled; of compressed
  data the casts of its sizes to \<^verbatim>\<open>int\<close>, which only a corrupt header makes a difference to, and of streams the memory that cannot be written. The bindings (\<^verbatim>\<open>lh_*.cpp\<close>) read arguments with the modelled readers, make one call and push one answer.
\<close>

end
